(* ===== verification/Flex_Prelude.thy ===== *)
theory Flex_Prelude
  imports Main "HOL-Library.Word"
begin

text \<open>
  Shared vocabulary of the development: names for the C integer types the code uses,
  byte (de)composition of 32-bit values, the view of a C string as a list of characters,
  and the two named collections the component proofs draw on.

  \<^item> \<open>frame_simps\<close>: how each state-changing operation acts on the parts of the state it
    does not own (frame equations).
  \<^item> \<open>step_defs\<close>: the definitions of the operations of a component, unfolded together when
    one step of a state machine is analysed.
\<close>

unbundle bit_operations_syntax

named_theorems frame_simps "effect of an operation on state it does not own"
named_theorems step_defs "definitions of the operations of a state machine"

type_synonym u8 = "8 word"
type_synonym u16 = "16 word"
type_synonym u32 = "32 word"
type_synonym u64 = "64 word"

subsection \<open>Big-endian and little-endian storage of words\<close>

text \<open>\<open>store_be32\<close> as four successive byte stores; \<open>put_bytes\<close> is the store at an offset.\<close>

definition store_be32 :: "u32 \<Rightarrow> u8 list" where
  "store_be32 value =
     [ucast (drop_bit 24 value), ucast (drop_bit 16 value),
      ucast (drop_bit 8 value), ucast value]"

definition store_be16 :: "u16 \<Rightarrow> u8 list" where
  "store_be16 value = [ucast (drop_bit 8 value), ucast value]"

text \<open>A \<open>float\<close> is stored through its bit pattern, least significant byte first.\<close>

definition store_f32le :: "u32 \<Rightarrow> u8 list" where
  "store_f32le bits =
     [ucast bits, ucast (drop_bit 8 bits), ucast (drop_bit 16 bits), ucast (drop_bit 24 bits)]"

definition load_be32 :: "u8 list \<Rightarrow> u32" where
  "load_be32 input =
     push_bit 24 (ucast (input ! 0)) OR push_bit 16 (ucast (input ! 1)) OR
     push_bit 8 (ucast (input ! 2)) OR ucast (input ! 3)"

definition load_f32le :: "u8 list \<Rightarrow> u32" where
  "load_f32le input =
     ucast (input ! 0) OR push_bit 8 (ucast (input ! 1)) OR
     push_bit 16 (ucast (input ! 2)) OR push_bit 24 (ucast (input ! 3))"

fun put_bytes :: "nat \<Rightarrow> 'a list \<Rightarrow> 'a list \<Rightarrow> 'a list" where
  "put_bytes pos [] buffer = buffer"
| "put_bytes pos (b # bs) buffer = put_bytes (Suc pos) bs (buffer[pos := b])"

lemma length_store_be32 [simp]: "length (store_be32 v) = 4"
  by (simp add: store_be32_def)

lemma length_store_be16 [simp]: "length (store_be16 v) = 2"
  by (simp add: store_be16_def)

lemma length_store_f32le [simp]: "length (store_f32le v) = 4"
  by (simp add: store_f32le_def)

lemma length_put_bytes [simp]: "length (put_bytes pos bs buffer) = length buffer"
  by (induction pos bs buffer rule: put_bytes.induct) simp_all

lemma bit_index_band:
  assumes "n < (32::nat)"
  obtains (b0) "n < 8" | (b1) k where "n = k + 8" "k < 8"
    | (b2) k where "n = k + 16" "k < 8" | (b3) k where "n = k + 24" "k < 8"
proof -
  consider "n < 8" | "8 \<le> n \<and> n < 16" | "16 \<le> n \<and> n < 24" | "24 \<le> n \<and> n < 32"
    using assms by linarith
  then show thesis
  proof cases
    case 1 then show ?thesis by (rule b0)
  next
    case 2 then show ?thesis by (intro b1 [of "n - 8"]) linarith+
  next
    case 3 then show ?thesis by (intro b2 [of "n - 16"]) linarith+
  next
    case 4 then show ?thesis by (intro b3 [of "n - 24"]) linarith+
  qed
qed

lemma load_store_be32 [simp]: "load_be32 (store_be32 v @ rest) = v"
  unfolding load_be32_def store_be32_def
  apply (rule bit_word_eqI)
  subgoal for n by (rule bit_index_band [of n]) (auto simp: bit_simps ac_simps)
  done

lemma load_store_f32le [simp]: "load_f32le (store_f32le v @ rest) = v"
  unfolding load_f32le_def store_f32le_def
  apply (rule bit_word_eqI)
  subgoal for n by (rule bit_index_band [of n]) (auto simp: bit_simps ac_simps)
  done

lemma load_store_be32' [simp]: "load_be32 (store_be32 v) = v"
  using load_store_be32 [of v "[]"] by simp

lemma load_store_f32le' [simp]: "load_f32le (store_f32le v) = v"
  using load_store_f32le [of v "[]"] by simp

subsection \<open>C strings\<close>

text \<open>
  A NUL-terminated C string is the list of its characters before the terminator.
  \<open>strncmp (s, p, strlen p) == 0\<close> is the prefix test.
\<close>

definition starts_with :: "string \<Rightarrow> string \<Rightarrow> bool" where
  "starts_with p s \<longleftrightarrow> take (length p) s = p"

lemma starts_with_append [simp]: "starts_with p (p @ s)"
  by (simp add: starts_with_def)

lemma starts_with_Nil [simp]: "starts_with [] s"
  by (simp add: starts_with_def)

lemma starts_with_Cons [simp]:
  "starts_with (a # p) s \<longleftrightarrow> (\<exists>s'. s = a # s' \<and> starts_with p s')"
  by (cases s) (auto simp: starts_with_def)

lemma starts_withD: "starts_with p s \<Longrightarrow> \<exists>s'. s = p @ s'"
  by (metis append_take_drop_id starts_with_def)

subsection \<open>Lists\<close>

lemma sum_list_replicate_nat [simp]: "sum_list (replicate n (k::nat)) = n * k"
  by (induction n) auto

end
