(* ===== verification/Protocol.thy ===== *)
theory Protocol
  imports Flex_Prelude
begin

text \<open>
  Model of \<open>src/protocol.c\<close>: the 20-byte command packets of endpoint 0x04, the decoding of
  endpoint 0x82 samples and endpoint 0x83 status bytes, the frequency-to-filter maps, the
  transmit-frequency policy and the double-precision computation of the tuning word.

  A C function that returns \<open>bool\<close> and fills an output parameter is an \<open>option\<close>; pointer
  arguments are values, so their NULL guards have no counterpart.
\<close>

unbundle bit_operations_syntax

subsection \<open>Endpoints and transfers\<close>

datatype transfer_kind = TransferIsochronous | TransferInterrupt | TransferControl

abbreviation EP_SAMPLE_OUT :: u8 where "EP_SAMPLE_OUT \<equiv> 0x01"
abbreviation EP_SAMPLE_IN :: u8 where "EP_SAMPLE_IN \<equiv> 0x82"
abbreviation EP_STATUS_IN :: u8 where "EP_STATUS_IN \<equiv> 0x83"
abbreviation EP_COMMAND_OUT :: u8 where "EP_COMMAND_OUT \<equiv> 0x04"

abbreviation COMMAND_PACKET_SIZE :: nat where "COMMAND_PACKET_SIZE \<equiv> 20"
abbreviation SAMPLE_PACKET_SIZE :: nat where "SAMPLE_PACKET_SIZE \<equiv> 192"

abbreviation OP_I2C_WRITE_2_VALUE :: u32 where "OP_I2C_WRITE_2_VALUE \<equiv> 1020"
abbreviation OP_GET_FIRMWARE_REV :: u32 where "OP_GET_FIRMWARE_REV \<equiv> 1200"
abbreviation OP_INITIALIZE :: u32 where "OP_INITIALIZE \<equiv> 1219"
abbreviation OP_SET_TRX_PREAMP :: u32 where "OP_SET_TRX_PREAMP \<equiv> 1247"
abbreviation OP_SET_RX1_FILTER :: u32 where "OP_SET_RX1_FILTER \<equiv> 1257"
abbreviation OP_SET_PA_FILTER :: u32 where "OP_SET_PA_FILTER \<equiv> 1260"
abbreviation OP_SET_TR :: u32 where "OP_SET_TR \<equiv> 1276"
abbreviation OP_SET_RX1_ANT :: u32 where "OP_SET_RX1_ANT \<equiv> 1278"
abbreviation OP_SET_TX_ANT :: u32 where "OP_SET_TX_ANT \<equiv> 1279"
abbreviation OP_SET_AMP_TX1 :: u32 where "OP_SET_AMP_TX1 \<equiv> 1298"
abbreviation OP_SET_RX1_FREQ_TW :: u32 where "OP_SET_RX1_FREQ_TW \<equiv> 1347"

abbreviation MIN_RX_FREQUENCY_HZ :: u32 where "MIN_RX_FREQUENCY_HZ \<equiv> 100000"
abbreviation MAX_RX_FREQUENCY_HZ :: u32 where "MAX_RX_FREQUENCY_HZ \<equiv> 54000000"

definition rx_probe_transfer_allowed :: "transfer_kind \<Rightarrow> u8 \<Rightarrow> bool" where
  "rx_probe_transfer_allowed kind endpoint =
     (case kind of
        TransferIsochronous \<Rightarrow> endpoint = EP_SAMPLE_IN
      | TransferInterrupt \<Rightarrow> endpoint = EP_STATUS_IN
      | TransferControl \<Rightarrow> False)"

definition endpoint_name :: "u8 \<Rightarrow> string" where
  "endpoint_name endpoint =
     (if endpoint = EP_SAMPLE_OUT then ''sample OUT''
      else if endpoint = EP_SAMPLE_IN then ''probable RX sample IN''
      else if endpoint = EP_STATUS_IN then ''probable status IN''
      else if endpoint = EP_COMMAND_OUT then ''probable command OUT''
      else ''unknown'')"

subsection \<open>Sample frames and physical inputs\<close>

text \<open>Two little-endian 16-bit values, read as two's complement.\<close>

definition decode_iq_frame :: "u8 list \<Rightarrow> int \<times> int" where
  "decode_iq_frame frame =
     (let raw_i = (ucast (frame ! 0) :: u16) OR push_bit 8 (ucast (frame ! 1));
          raw_q = (ucast (frame ! 2) :: u16) OR push_bit 8 (ucast (frame ! 3))
      in (sint raw_i, sint raw_q))"

record physical_inputs =
  raw_status :: u8
  mic_ptt :: bool
  flexwire_ptt :: bool
  dash :: bool
  dot :: bool

definition decode_physical_inputs :: "u8 list \<Rightarrow> physical_inputs option" where
  "decode_physical_inputs packet =
     (if length packet < 1 then None
      else Some \<lparr>raw_status = packet ! 0,
                 mic_ptt = ((packet ! 0) AND 0x01 = 0),
                 flexwire_ptt = ((packet ! 0) AND 0x08 = 0),
                 dash = ((packet ! 0) AND 0x10 = 0),
                 dot = ((packet ! 0) AND 0x20 = 0)\<rparr>)"

definition physical_inputs_equal :: "physical_inputs \<Rightarrow> physical_inputs \<Rightarrow> bool" where
  "physical_inputs_equal left right \<longleftrightarrow>
     mic_ptt left = mic_ptt right \<and> flexwire_ptt left = flexwire_ptt right \<and>
     dash left = dash right \<and> dot left = dot right"

subsection \<open>Command packets\<close>

text \<open>\<open>memset\<close> to zero, the sequence index in byte 0, then stores at byte offsets.\<close>

definition blank_packet :: "u8 \<Rightarrow> u8 list" where
  "blank_packet index = (replicate COMMAND_PACKET_SIZE 0)[0 := index]"

definition firmware_read_request_allowed :: "u32 \<Rightarrow> u32 \<Rightarrow> u32 \<Rightarrow> bool" where
  "firmware_read_request_allowed opcode param1 param2 \<longleftrightarrow>
     opcode = OP_GET_FIRMWARE_REV \<and> param1 = 0 \<and> param2 = 0"

definition build_firmware_read_request :: "u8 \<Rightarrow> u32 \<Rightarrow> u32 \<Rightarrow> u32 \<Rightarrow> u8 list option" where
  "build_firmware_read_request index opcode param1 param2 =
     (if \<not> firmware_read_request_allowed opcode param1 param2 then None
      else Some (put_bytes 12 (store_be32 param2)
             (put_bytes 8 (store_be32 param1)
             (put_bytes 4 (store_be32 opcode) (blank_packet index)))))"

definition decode_u32_response :: "u8 list \<Rightarrow> u8 \<Rightarrow> u32 option" where
  "decode_u32_response packet expected_index =
     (if length packet < 8 \<or> packet ! 1 \<noteq> 1 \<or> packet ! 2 \<noteq> expected_index then None
      else Some (load_be32 (drop 4 packet)))"

definition build_initialize_request :: "u8 \<Rightarrow> u8 list" where
  "build_initialize_request index =
     put_bytes 4 (store_be32 OP_INITIALIZE) (blank_packet index)"

definition build_rx_filter_request :: "u8 \<Rightarrow> u32 \<Rightarrow> u8 list option" where
  "build_rx_filter_request index flt =
     (if flt > 11 then None
      else Some (put_bytes 8 (store_be32 flt)
             (put_bytes 4 (store_be32 OP_SET_RX1_FILTER) (blank_packet index))))"

datatype rx_gain = GainMinus10dB | Gain0dB | GainPlus10dB | GainPlus20dB | GainPlus30dB

fun rx_gain_code :: "rx_gain \<Rightarrow> u32" where
  "rx_gain_code GainMinus10dB = 0"
| "rx_gain_code Gain0dB = 1"
| "rx_gain_code GainPlus10dB = 2"
| "rx_gain_code GainPlus20dB = 3"
| "rx_gain_code GainPlus30dB = 4"

text \<open>
  A C enum argument can hold any integer, so the builders take the code and keep the
  source's range test.
\<close>

definition build_rx_gain_request :: "u8 \<Rightarrow> u32 \<Rightarrow> u8 list option" where
  "build_rx_gain_request index gain =
     (if gain < rx_gain_code GainMinus10dB \<or> gain > rx_gain_code GainPlus30dB then None
      else Some (put_bytes 8 (store_be32 gain)
             (put_bytes 4 (store_be32 OP_SET_TRX_PREAMP) (blank_packet index))))"

datatype rx_antenna = AntennaPA | AntennaXVRX | AntennaXVTXCom

fun rx_antenna_code :: "rx_antenna \<Rightarrow> u32" where
  "rx_antenna_code AntennaPA = 0"
| "rx_antenna_code AntennaXVRX = 1"
| "rx_antenna_code AntennaXVTXCom = 2"

definition build_rx_antenna_request :: "u8 \<Rightarrow> u32 \<Rightarrow> u8 list option" where
  "build_rx_antenna_request index antenna =
     (if antenna < rx_antenna_code AntennaPA \<or> antenna > rx_antenna_code AntennaXVTXCom
      then None
      else Some (put_bytes 8 (store_be32 antenna)
             (put_bytes 4 (store_be32 OP_SET_RX1_ANT) (blank_packet index))))"

definition build_main_tx_antenna_request :: "u8 \<Rightarrow> u8 list" where
  "build_main_tx_antenna_request index =
     put_bytes 8 (store_be32 0)
       (put_bytes 4 (store_be32 OP_SET_TX_ANT) (blank_packet index))"

definition build_pa_filter_request :: "u8 \<Rightarrow> u32 \<Rightarrow> u8 list option" where
  "build_pa_filter_request index flt =
     (if flt > 7 then None
      else Some (put_bytes 8 (store_be32 flt)
             (put_bytes 4 (store_be32 OP_SET_PA_FILTER) (blank_packet index))))"

definition build_tuning_word_request :: "u8 \<Rightarrow> u32 \<Rightarrow> u8 list" where
  "build_tuning_word_request index tuning_word =
     put_bytes 8 (store_be32 tuning_word)
       (put_bytes 4 (store_be32 OP_SET_RX1_FREQ_TW) (blank_packet index))"

definition build_tr_request :: "u8 \<Rightarrow> bool \<Rightarrow> u8 list" where
  "build_tr_request index transmit =
     put_bytes 8 (store_be32 (if transmit then 1 else 0))
       (put_bytes 4 (store_be32 OP_SET_TR) (blank_packet index))"

definition build_amp_tx1_request :: "u8 \<Rightarrow> bool \<Rightarrow> u8 list" where
  "build_amp_tx1_request index enabled =
     put_bytes 8 (store_be32 (if enabled then 1 else 0))
       (put_bytes 4 (store_be32 OP_SET_AMP_TX1) (blank_packet index))"

definition build_transition_mute_request :: "u8 \<Rightarrow> bool \<Rightarrow> u8 list" where
  "build_transition_mute_request index muted =
     put_bytes 12 (store_be32 (if muted then 0x2500 else 0x25c0))
       (put_bytes 8 (store_be32 0x30)
       (put_bytes 4 (store_be32 OP_I2C_WRITE_2_VALUE) (blank_packet index)))"

subsection \<open>Tuning words: IEEE double arithmetic\<close>

text \<open>
  \<open>(double)UINT32_MAX * 2.0 * (double)frequency_hz / 384000000.0\<close>, truncated to
  \<open>uint32_t\<close>. Every intermediate value is a positive number below \<open>2 ^ 60\<close>, so a double is
  its 53-bit significand: the product is an integer rounded to 53 bits
  (\<open>double_of_nat\<close>), the quotient is rounded to 53 bits and truncated
  (\<open>double_div_trunc\<close>), both to nearest with ties to even. \<open>UINT32_MAX * 2.0\<close> is exact.
\<close>

fun bit_length :: "nat \<Rightarrow> nat" where
  "bit_length n = (if n = 0 then 0 else Suc (bit_length (n div 2)))"

declare bit_length.simps [simp del]

definition round_half_even :: "nat \<Rightarrow> nat \<Rightarrow> nat" where
  "round_half_even a b =
     (let q = a div b; r = a mod b
      in if 2 * r < b then q else if 2 * r > b then q + 1
         else if even q then q else q + 1)"

definition double_of_nat :: "nat \<Rightarrow> nat" where
  "double_of_nat n =
     (let k = bit_length n - 53 in round_half_even n (2 ^ k) * 2 ^ k)"

definition double_div_trunc :: "nat \<Rightarrow> nat \<Rightarrow> nat" where
  "double_div_trunc a b =
     (let s = 53 - bit_length (a div b)
      in round_half_even (a * 2 ^ s) b div 2 ^ s)"

definition rx_frequency_to_tuning_word :: "u32 \<Rightarrow> u32 option" where
  "rx_frequency_to_tuning_word frequency_hz =
     (if frequency_hz < MIN_RX_FREQUENCY_HZ \<or> frequency_hz > MAX_RX_FREQUENCY_HZ then None
      else Some (word_of_nat (double_div_trunc
              (double_of_nat (4294967295 * 2 * unat frequency_hz)) 384000000)))"

definition build_rx_tune_request :: "u8 \<Rightarrow> u32 \<Rightarrow> (u8 list \<times> u32) option" where
  "build_rx_tune_request index frequency_hz =
     (case rx_frequency_to_tuning_word frequency_hz of
        None \<Rightarrow> None
      | Some word \<Rightarrow>
          Some (put_bytes 8 (store_be32 word)
                 (put_bytes 4 (store_be32 OP_SET_RX1_FREQ_TW) (blank_packet index)), word))"

definition usb_tune_frequency_to_tuning_word :: "u32 \<Rightarrow> u32 \<Rightarrow> u32 option" where
  "usb_tune_frequency_to_tuning_word carrier_hz tone_hz =
     (if carrier_hz < MIN_RX_FREQUENCY_HZ \<or> carrier_hz > MAX_RX_FREQUENCY_HZ \<or>
         tone_hz \<ge> carrier_hz then None
      else rx_frequency_to_tuning_word (carrier_hz - tone_hz))"

subsection \<open>Filter maps\<close>

text \<open>The table search: the entry of the first upper bound above the frequency.\<close>

fun first_above :: "u32 \<Rightarrow> (u32 \<times> u32) list \<Rightarrow> u32 option" where
  "first_above frequency_hz [] = None"
| "first_above frequency_hz ((bound, flt) # rest) =
     (if frequency_hz < bound then Some flt else first_above frequency_hz rest)"

definition rx_filter_table :: "(u32 \<times> u32) list" where
  "rx_filter_table = zip
     [480000, 880000, 1600000, 2300000, 3500000, 5200000, 7700000, 11400000, 17000000,
      25300000, 37600000, 56000000]
     [0, 11, 10, 9, 8, 7, 6, 5, 4, 3, 2, 1]"

definition rx_filter_for_frequency :: "u32 \<Rightarrow> u32 option" where
  "rx_filter_for_frequency frequency_hz =
     (if frequency_hz < MIN_RX_FREQUENCY_HZ \<or> frequency_hz > MAX_RX_FREQUENCY_HZ then None
      else case first_above frequency_hz rx_filter_table of
             Some flt \<Rightarrow> Some flt
           | None \<Rightarrow> Some 1)"

definition pa_filter_table :: "(u32 \<times> u32) list" where
  "pa_filter_table = zip
     [2500000, 5000000, 8800000, 17500000, 24000000, 35000000] [7, 6, 5, 4, 3, 2]"

definition pa_filter_for_frequency :: "u32 \<Rightarrow> u32 option" where
  "pa_filter_for_frequency frequency_hz =
     (if frequency_hz < MIN_RX_FREQUENCY_HZ \<or> frequency_hz > MAX_RX_FREQUENCY_HZ then None
      else case first_above frequency_hz pa_filter_table of
             Some flt \<Rightarrow> Some flt
           | None \<Rightarrow> Some 1)"

subsection \<open>Transmit-frequency policy\<close>

definition voice_allocations :: "(u32 \<times> u32) list" where
  "voice_allocations =
     [(1800000, 2000000), (3500000, 4000000), (7000000, 7300000), (14000000, 14350000),
      (18068000, 18168000), (21000000, 21450000), (24890000, 24990000),
      (28000000, 29700000), (50000000, 54000000)]"

definition sixty_meter_carriers :: "u32 list" where
  "sixty_meter_carriers = [5330500, 5346500, 5371500, 5403500]"

definition physical_mic_frequency_allowed :: "u32 \<Rightarrow> bool \<Rightarrow> bool" where
  "physical_mic_frequency_allowed frequency_hz upper_sideband =
     (if list_ex (\<lambda>(low, high). frequency_hz \<ge> low \<and> frequency_hz \<le> high) voice_allocations
      then True
      else if \<not> upper_sideband then False
      else if frequency_hz \<ge> 5351500 \<and> frequency_hz \<le> 5363500 then True
      else list_ex (\<lambda>carrier. frequency_hz = carrier) sixty_meter_carriers)"

definition tune_frequency_allowed :: "u32 \<Rightarrow> bool" where
  "tune_frequency_allowed frequency_hz = physical_mic_frequency_allowed frequency_hz True"

definition am_frequency_allowed :: "u32 \<Rightarrow> bool" where
  "am_frequency_allowed frequency_hz =
     list_ex (\<lambda>(low, high). frequency_hz \<ge> low + 3000 \<and> frequency_hz \<le> high - 3000)
       voice_allocations"

definition default_ssb_upper_sideband :: "u32 \<Rightarrow> bool option" where
  "default_ssb_upper_sideband frequency_hz =
     (let upper = frequency_hz \<ge> 10000000 \<or>
            (frequency_hz \<ge> 5330000 \<and> frequency_hz \<le> 5405000)
      in if \<not> physical_mic_frequency_allowed frequency_hz upper then None
         else Some upper)"

definition network_iq_frequency_allowed :: "u32 \<Rightarrow> bool" where
  "network_iq_frequency_allowed frequency_hz =
     list_ex (\<lambda>(low, high). frequency_hz \<ge> low + 24000 \<and> frequency_hz \<le> high - 24000)
       voice_allocations"

subsection \<open>What the packets mean: a decoder as the specification\<close>

text \<open>
  The radio's side of the protocol, as the opcodes document it: the commands the daemon can
  send and a strict decoder for the 20-byte packets. \<open>encode_command\<close> sends each command
  through the builder the code has for it.
\<close>

datatype radio_command =
    CmdFirmwareRead | CmdInitialize | CmdTuningWord u32 | CmdRxFilter u32 | CmdRxGain u32
  | CmdRxAntenna u32 | CmdTxAntenna | CmdPaFilter u32 | CmdTr bool | CmdAmpTx1 bool
  | CmdTransitionMute bool

definition command_of :: "u32 \<Rightarrow> u32 \<Rightarrow> u32 \<Rightarrow> radio_command option" where
  "command_of opcode p1 p2 =
     (if opcode = OP_GET_FIRMWARE_REV \<and> p1 = 0 \<and> p2 = 0 then Some CmdFirmwareRead
      else if opcode = OP_INITIALIZE \<and> p1 = 0 \<and> p2 = 0 then Some CmdInitialize
      else if opcode = OP_SET_RX1_FREQ_TW \<and> p2 = 0 then Some (CmdTuningWord p1)
      else if opcode = OP_SET_RX1_FILTER \<and> p1 \<le> 11 \<and> p2 = 0 then Some (CmdRxFilter p1)
      else if opcode = OP_SET_TRX_PREAMP \<and> p1 \<le> 4 \<and> p2 = 0 then Some (CmdRxGain p1)
      else if opcode = OP_SET_RX1_ANT \<and> p1 \<le> 2 \<and> p2 = 0 then Some (CmdRxAntenna p1)
      else if opcode = OP_SET_TX_ANT \<and> p1 = 0 \<and> p2 = 0 then Some CmdTxAntenna
      else if opcode = OP_SET_PA_FILTER \<and> p1 \<le> 7 \<and> p2 = 0 then Some (CmdPaFilter p1)
      else if opcode = OP_SET_TR \<and> p1 \<le> 1 \<and> p2 = 0 then Some (CmdTr (p1 = 1))
      else if opcode = OP_SET_AMP_TX1 \<and> p1 \<le> 1 \<and> p2 = 0 then Some (CmdAmpTx1 (p1 = 1))
      else if opcode = OP_I2C_WRITE_2_VALUE \<and> p1 = 0x30 \<and> p2 = 0x2500
        then Some (CmdTransitionMute True)
      else if opcode = OP_I2C_WRITE_2_VALUE \<and> p1 = 0x30 \<and> p2 = 0x25c0
        then Some (CmdTransitionMute False)
      else None)"

definition parse_command :: "u8 list \<Rightarrow> (u8 \<times> radio_command) option" where
  "parse_command packet =
     (if length packet \<noteq> COMMAND_PACKET_SIZE \<or> take 3 (drop 1 packet) \<noteq> [0, 0, 0] \<or>
         drop 16 packet \<noteq> [0, 0, 0, 0] then None
      else map_option (Pair (packet ! 0))
        (command_of (load_be32 (drop 4 packet)) (load_be32 (drop 8 packet))
           (load_be32 (drop 12 packet))))"

definition encode_command :: "u8 \<Rightarrow> radio_command \<Rightarrow> u8 list option" where
  "encode_command index command =
     (case command of
        CmdFirmwareRead \<Rightarrow> build_firmware_read_request index OP_GET_FIRMWARE_REV 0 0
      | CmdInitialize \<Rightarrow> Some (build_initialize_request index)
      | CmdTuningWord word \<Rightarrow> Some (build_tuning_word_request index word)
      | CmdRxFilter flt \<Rightarrow> build_rx_filter_request index flt
      | CmdRxGain gain \<Rightarrow> build_rx_gain_request index gain
      | CmdRxAntenna antenna \<Rightarrow> build_rx_antenna_request index antenna
      | CmdTxAntenna \<Rightarrow> Some (build_main_tx_antenna_request index)
      | CmdPaFilter flt \<Rightarrow> build_pa_filter_request index flt
      | CmdTr transmit \<Rightarrow> Some (build_tr_request index transmit)
      | CmdAmpTx1 enabled \<Rightarrow> Some (build_amp_tx1_request index enabled)
      | CmdTransitionMute muted \<Rightarrow> Some (build_transition_mute_request index muted))"

lemma command_layout:
  "put_bytes 4 (store_be32 opcode) (blank_packet index) =
     [index, 0, 0, 0] @ store_be32 opcode @ replicate 12 0"
  "put_bytes 8 (store_be32 p1) ([index, 0, 0, 0] @ store_be32 opcode @ replicate 12 0) =
     [index, 0, 0, 0] @ store_be32 opcode @ store_be32 p1 @ replicate 8 0"
  "put_bytes 12 (store_be32 p2)
     ([index, 0, 0, 0] @ store_be32 opcode @ store_be32 p1 @ replicate 8 0) =
     [index, 0, 0, 0] @ store_be32 opcode @ store_be32 p1 @ store_be32 p2 @ replicate 4 0"
  by (simp_all add: blank_packet_def store_be32_def numeral_eq_Suc)

lemma parse_layout3:
  "parse_command
     ([index, 0, 0, 0] @ store_be32 opcode @ store_be32 p1 @ store_be32 p2 @ replicate 4 0) =
     map_option (Pair index) (command_of opcode p1 p2)"
  by (simp add: parse_command_def numeral_eq_Suc)

lemma parse_layout2:
  "parse_command ([index, 0, 0, 0] @ store_be32 opcode @ store_be32 p1 @ replicate 8 0) =
     map_option (Pair index) (command_of opcode p1 0)"
proof -
  have "replicate 8 0 = store_be32 0 @ replicate 4 (0::u8)"
    by (simp add: store_be32_def numeral_eq_Suc)
  then show ?thesis by (simp only: parse_layout3)
qed

lemma parse_layout1:
  "parse_command ([index, 0, 0, 0] @ store_be32 opcode @ replicate 12 0) =
     map_option (Pair index) (command_of opcode 0 0)"
proof -
  have "replicate 12 0 = store_be32 0 @ replicate 8 (0::u8)"
    by (simp add: store_be32_def numeral_eq_Suc)
  then show ?thesis by (simp only: parse_layout2)
qed

lemmas packet_layout = command_layout parse_layout1 parse_layout2 parse_layout3

lemmas builder_defs =
  build_firmware_read_request_def firmware_read_request_allowed_def
  build_initialize_request_def build_tuning_word_request_def build_rx_filter_request_def
  build_rx_gain_request_def build_rx_antenna_request_def build_main_tx_antenna_request_def
  build_pa_filter_request_def build_tr_request_def build_amp_tx1_request_def
  build_transition_mute_request_def

lemma parse_builders [simp]:
  "parse_command (build_initialize_request index) = Some (index, CmdInitialize)"
  "parse_command (build_tuning_word_request index word) = Some (index, CmdTuningWord word)"
  "parse_command (build_main_tx_antenna_request index) = Some (index, CmdTxAntenna)"
  "parse_command (build_tr_request index transmit) = Some (index, CmdTr transmit)"
  "parse_command (build_amp_tx1_request index enabled) = Some (index, CmdAmpTx1 enabled)"
  "parse_command (build_transition_mute_request index muted) =
     Some (index, CmdTransitionMute muted)"
  by (simp_all add: builder_defs packet_layout command_of_def del: append_Cons)

lemma parse_guarded_builders:
  "build_rx_filter_request index flt = Some packet \<Longrightarrow>
     parse_command packet = Some (index, CmdRxFilter flt)"
  "build_pa_filter_request index flt = Some packet \<Longrightarrow>
     parse_command packet = Some (index, CmdPaFilter flt)"
  "build_rx_gain_request index gain = Some packet \<Longrightarrow>
     parse_command packet = Some (index, CmdRxGain gain)"
  "build_rx_antenna_request index antenna = Some packet \<Longrightarrow>
     parse_command packet = Some (index, CmdRxAntenna antenna)"
  by (auto simp: builder_defs packet_layout command_of_def not_less
      simp del: append_Cons split: if_splits)

lemma parse_firmware_read:
  "build_firmware_read_request index opcode p1 p2 = Some packet \<Longrightarrow>
     parse_command packet = Some (index, CmdFirmwareRead)"
  by (auto simp: builder_defs packet_layout command_of_def
      simp del: append_Cons split: if_splits)

lemma parse_rx_tune:
  "build_rx_tune_request index f = Some (packet, word) \<Longrightarrow>
     parse_command packet = Some (index, CmdTuningWord word) \<and>
     rx_frequency_to_tuning_word f = Some word"
  by (auto simp: build_rx_tune_request_def packet_layout command_of_def
      simp del: append_Cons split: option.splits)

lemma command_roundtrip_length:
  assumes "encode_command index command = Some packet"
  shows "length packet = 20"
proof -
  have "parse_command packet = Some (index, command)"
    using assms
    by (cases command) (auto simp: encode_command_def dest: parse_guarded_builders parse_firmware_read)
  then show ?thesis by (auto simp: parse_command_def split: if_splits)
qed

lemma length_build_tr [simp]: "length (build_tr_request index on) = 20"
  by (rule command_roundtrip_length [of index "CmdTr on"]) (simp add: encode_command_def)

text \<open>C37.
  Every packet a builder accepts is a 20-byte packet that the strict decoder reads back as the
  same sequence index and the same command with the same parameters.
\<close>

theorem command_roundtrip:
  assumes "encode_command index command = Some packet"
  shows "parse_command packet = Some (index, command) \<and> length packet = 20"
proof -
  have "parse_command packet = Some (index, command)"
    using assms
    by (cases command) (auto simp: encode_command_def dest: parse_guarded_builders parse_firmware_read)
  then show ?thesis by (auto simp: parse_command_def split: if_splits)
qed

theorem command_roundtrip_witness:
  "encode_command 7 (CmdPaFilter 4) \<noteq> None \<and>
   parse_command (build_tr_request 9 True) = Some (9, CmdTr True)"
proof -
  have "encode_command 9 (CmdTr True) = Some (build_tr_request 9 True)"
    by (simp add: encode_command_def)
  then have "parse_command (build_tr_request 9 True) = Some (9, CmdTr True)"
    using command_roundtrip by blast
  then show ?thesis by (simp add: encode_command_def build_pa_filter_request_def)
qed

subsection \<open>Accuracy of the tuning word\<close>

lemma bit_length_le: "n < 2 ^ k \<Longrightarrow> bit_length n \<le> k"
proof (induction k arbitrary: n)
  case 0
  then show ?case by (simp add: bit_length.simps)
next
  case (Suc k)
  then have "n div 2 < 2 ^ k" by auto
  with Suc.IH have "bit_length (n div 2) \<le> k" .
  then show ?case by (subst bit_length.simps) simp
qed

lemma round_half_even_bounds:
  assumes "0 < b"
  shows "2 * a \<le> (2 * round_half_even a b + 1) * b" "2 * round_half_even a b * b \<le> 2 * a + b"
proof -
  define q r where "q = a div b" and "r = a mod b"
  have a: "a = q * b + r" and r: "r < b" using assms by (simp_all add: q_def r_def)
  have e: "round_half_even a b =
      (if 2 * r < b then q else if 2 * r > b then q + 1 else if even q then q else q + 1)"
    by (simp add: round_half_even_def q_def r_def)
  show "2 * a \<le> (2 * round_half_even a b + 1) * b"
    unfolding e using a r by (auto simp: algebra_simps)
  show "2 * round_half_even a b * b \<le> 2 * a + b"
    unfolding e using a r by (auto simp: algebra_simps)
qed

lemma double_of_nat_bounds:
  assumes "n < 2 ^ 59"
  shows "n \<le> double_of_nat n + 32" "double_of_nat n \<le> n + 32"
proof -
  define k where "k = bit_length n - 53"
  define m where "m = round_half_even n (2 ^ k)"
  have "bit_length n \<le> 59" using assms by (rule bit_length_le)
  then have k: "k \<le> 6" by (simp add: k_def)
  then have "(2::nat) ^ k \<le> 2 ^ 6" by (intro power_increasing) auto
  then have p: "(2::nat) ^ k \<le> 64" by simp
  have d: "double_of_nat n = m * 2 ^ k" by (simp add: double_of_nat_def k_def m_def Let_def)
  have "2 * n \<le> (2 * m + 1) * 2 ^ k" "2 * m * 2 ^ k \<le> 2 * n + 2 ^ k"
    unfolding m_def by (rule round_half_even_bounds; simp)+
  then show "n \<le> double_of_nat n + 32" "double_of_nat n \<le> n + 32"
    unfolding d using p by (simp_all add: algebra_simps)
qed

lemma double_div_trunc_bounds:
  assumes "0 < b"
  shows "double_div_trunc a b * b \<le> a + b" "a < (double_div_trunc a b + 2) * b"
proof -
  define s where "s = 53 - bit_length (a div b)"
  define m where "m = round_half_even (a * 2 ^ s) b"
  define w where "w = double_div_trunc a b"
  have w: "w = m div 2 ^ s" by (simp add: w_def double_div_trunc_def s_def m_def Let_def)
  have lo: "w * 2 ^ s \<le> m" and hi: "m < (w + 1) * 2 ^ s"
    unfolding w by (simp_all add: div_times_less_eq_dividend dividend_less_div_times)
  have m1: "2 * (a * 2 ^ s) \<le> (2 * m + 1) * b" and m2: "2 * m * b \<le> 2 * (a * 2 ^ s) + b"
    unfolding m_def by (rule round_half_even_bounds [OF assms])+
  have p: "(1::nat) \<le> 2 ^ s" by simp
  have "(2 * w * b) * 2 ^ s \<le> 2 * m * b" using mult_right_mono [OF lo, of "2 * b"] by (simp add: algebra_simps)
  also have "\<dots> \<le> 2 * (a * 2 ^ s) + b * 2 ^ s" using m2 mult_le_mono2 [OF p, of b] by linarith
  also have "\<dots> = (2 * a + b) * 2 ^ s" by (simp add: algebra_simps)
  finally have "2 * w * b \<le> 2 * a + b" by simp
  then show "double_div_trunc a b * b \<le> a + b" by (simp add: w_def)
  have "(2 * m + 1) * b \<le> (2 * ((w + 1) * 2 ^ s)) * b" using hi by (intro mult_right_mono) auto
  with m1 have "(2 * a) * 2 ^ s \<le> (2 * (w + 1) * b) * 2 ^ s" by (simp add: algebra_simps)
  then have "2 * a \<le> 2 * (w + 1) * b" by (simp only: mult_le_cancel2) simp
  then show "a < (double_div_trunc a b + 2) * b" using assms by (simp add: w_def)
qed

definition tuning_value :: "nat \<Rightarrow> nat" where
  "tuning_value f = double_div_trunc (double_of_nat (4294967295 * 2 * f)) 384000000"

lemma tuning_value_bounds:
  assumes "f \<le> 54000000"
  shows "tuning_value f * 384000000 \<le> 8589934590 * f + 384000032"
    "8589934590 * f < (tuning_value f + 2) * 384000000 + 32"
proof -
  have n: "4294967295 * 2 * f < 2 ^ 59" using assms by simp
  show "tuning_value f * 384000000 \<le> 8589934590 * f + 384000032"
   using double_of_nat_bounds [OF n] double_div_trunc_bounds [of 384000000 "double_of_nat (4294967295 * 2 * f)"]
   unfolding tuning_value_def by linarith
  show "8589934590 * f < (tuning_value f + 2) * 384000000 + 32"
   using double_of_nat_bounds [OF n] double_div_trunc_bounds [of 384000000 "double_of_nat (4294967295 * 2 * f)"]
   unfolding tuning_value_def by linarith
qed

lemma tuning_word_unfold:
  "rx_frequency_to_tuning_word f =
     (if 100000 \<le> unat f \<and> unat f \<le> 54000000
      then Some (word_of_nat (tuning_value (unat f))) else None)"
  by (auto simp: rx_frequency_to_tuning_word_def tuning_value_def word_less_nat_alt)

lemma tuning_value_fits:
  assumes "f \<le> 54000000"
  shows "unat (word_of_nat (tuning_value f) :: u32) = tuning_value f"
  using tuning_value_bounds(1) [OF assms] assms by (subst unat_of_nat) simp

lemmas tuning_eval =
  rx_frequency_to_tuning_word_def double_div_trunc_def double_of_nat_def round_half_even_def
  bit_length.simps

text \<open>
  For every receivable frequency the double-precision computation returns a 32-bit tuning word
  that is within one count of the exact quotient \<open>frequency * (2 * UINT32_MAX) / 384 MHz\<close>:
  rounding to doubles and truncating never costs more.
\<close>

theorem tuning_word_accurate:
  assumes "rx_frequency_to_tuning_word f = Some w"
  shows "unat w * 384000000 \<le> 8589934590 * unat f + 384000032 \<and>
     8589934590 * unat f < (unat w + 2) * 384000000 + 32"
  using assms tuning_value_bounds [of "unat f"]
  by (auto simp: tuning_word_unfold tuning_value_fits split: if_splits)

theorem tuning_word_accurate_witness:
  "rx_frequency_to_tuning_word 14074000 = Some 314830050 \<and>
   unat (314830050 :: u32) * 384000000 \<le> 8589934590 * unat (14074000 :: u32) + 384000032 \<and>
   8589934590 * unat (14074000 :: u32) < (unat (314830050 :: u32) + 2) * 384000000 + 32"
proof -
  have h: "rx_frequency_to_tuning_word 14074000 = Some 314830050"
    by (simp add: tuning_eval)
  from tuning_word_accurate [OF h] h show ?thesis by blast
qed

text \<open>
  A higher frequency always has a strictly larger tuning word, so no two receivable frequencies
  share one.
\<close>

theorem tuning_word_strict_mono:
  assumes "rx_frequency_to_tuning_word f = Some v" and "rx_frequency_to_tuning_word g = Some w"
    and "f < g"
  shows "v < w"
proof -
  have "8589934590 * unat f + 8589934590 \<le> 8589934590 * unat g"
    using assms(3) by (simp add: word_less_nat_alt)
  then show ?thesis
    using assms tuning_value_bounds [of "unat f"] tuning_value_bounds [of "unat g"]
    by (auto simp: tuning_word_unfold word_less_nat_alt tuning_value_fits split: if_splits)
qed


theorem tuning_word_strict_mono_witness: "(2236962 :: u32) < 1207959551"
proof -
  have "rx_frequency_to_tuning_word 100000 = Some 2236962"
    and "rx_frequency_to_tuning_word 54000000 = Some 1207959551"
    by (simp_all add: tuning_eval)
  then show ?thesis by (rule tuning_word_strict_mono) simp
qed

lemma list_ex_margin:
  assumes "list_ex (\<lambda>(low, high). f \<ge> low + m \<and> f \<le> high - m) bands"
    and "list_all (\<lambda>(low, high). unat low + unat m < 2 ^ 32 \<and> unat m \<le> unat high) bands"
    and "unat f - unat m \<le> unat g" and "unat g \<le> unat f + unat (m::u32)"
  shows "list_ex (\<lambda>(low, high). g \<ge> low \<and> g \<le> high) bands"
  using assms(1,2)
proof (induction bands)
  case Nil
  then show ?case by simp
next
  case (Cons band bands)
  obtain low high where band: "band = (low, high)" by (cases band)
  show ?case
  proof (cases "f \<ge> low + m \<and> f \<le> high - m")
    case True
    moreover have "unat (low + m) = unat low + unat m" "unat (high - m) = unat high - unat m"
      using Cons.prems(2) band
      by (auto simp: unat_word_ariths unat_sub word_le_nat_alt)
    ultimately have "g \<ge> low \<and> g \<le> high"
      using assms(3,4) Cons.prems(2) band by (auto simp: word_le_nat_alt)
    then show ?thesis by (simp add: band)
  next
    case False
    with Cons band show ?thesis by auto
  qed
qed

text \<open>
  Where AM transmission is allowed, every frequency of the 6 kHz AM passband is inside the voice
  allocations, and where raw I/Q is allowed every frequency of the 48 kHz span is, whichever
  sideband is asked for.
\<close>

theorem tx_policy_passband:
  assumes "am_frequency_allowed f \<and> m = 3000 \<or> network_iq_frequency_allowed f \<and> m = 24000"
    and "unat f - m \<le> unat g" and "unat g \<le> unat f + m"
  shows "physical_mic_frequency_allowed g upper_sideband"
proof -
  have "list_ex (\<lambda>(low, high). g \<ge> low \<and> g \<le> high) voice_allocations"
    using assms(1)
  proof (elim disjE conjE)
    assume "am_frequency_allowed f" "m = 3000"
    then show ?thesis
      using assms(2,3) unfolding am_frequency_allowed_def
      by (elim list_ex_margin) (simp_all add: voice_allocations_def)
  next
    assume "network_iq_frequency_allowed f" "m = 24000"
    then show ?thesis
      using assms(2,3) unfolding network_iq_frequency_allowed_def
      by (elim list_ex_margin) (simp_all add: voice_allocations_def)
  qed
  then show ?thesis by (simp add: physical_mic_frequency_allowed_def)
qed

theorem tx_policy_passband_witness:
  "am_frequency_allowed 7200000 \<and> physical_mic_frequency_allowed 7197000 False"
proof -
  have am: "am_frequency_allowed 7200000"
    by (simp add: am_frequency_allowed_def voice_allocations_def)
  then have "physical_mic_frequency_allowed 7197000 False"
    by (intro tx_policy_passband [of 7200000 3000 7197000]) simp_all
  with am show ?thesis by simp
qed

lemma first_above_SomeD:
  "first_above f table = Some flt \<Longrightarrow>
     \<exists>i < length table. flt = snd (table ! i) \<and> f < fst (table ! i) \<and>
       (\<forall>j < i. fst (table ! j) \<le> f)"
proof (induction f table rule: first_above.induct)
  case (1 f)
  then show ?case by simp
next
  case (2 f bound flt' rest)
  show ?case
  proof (cases "f < bound")
    case True
    with 2 show ?thesis by (intro exI [of _ 0]) simp
  next
    case False
    with 2 obtain i where "i < length rest" "flt = snd (rest ! i)" "f < fst (rest ! i)"
        "\<forall>j < i. fst (rest ! j) \<le> f" by auto
    with False show ?thesis
      by (intro exI [of _ "Suc i"]) (auto simp: less_Suc_eq_0_disj)
  qed
qed

lemma first_above_NoneD:
  "first_above f table = None \<Longrightarrow> (bound, flt) \<in> set table \<Longrightarrow> bound \<le> f"
  by (induction f table rule: first_above.induct) (auto split: if_splits)

lemma first_above_range: "first_above f table = Some flt \<Longrightarrow> flt \<in> snd ` set table"
  by (auto dest!: first_above_SomeD)

text \<open>
  Every receivable frequency has an RX filter and a PA filter, the PA filter is never the reset
  value 0, and the packet builders accept both.
\<close>

theorem filter_maps_accepted:
  assumes "MIN_RX_FREQUENCY_HZ \<le> f" and "f \<le> MAX_RX_FREQUENCY_HZ"
  shows "(\<exists>flt. rx_filter_for_frequency f = Some flt \<and> build_rx_filter_request index flt \<noteq> None) \<and>
     (\<exists>flt. pa_filter_for_frequency f = Some flt \<and> flt \<noteq> 0 \<and> build_pa_filter_request index flt \<noteq> None)"
  using assms
  by (auto simp: rx_filter_for_frequency_def pa_filter_for_frequency_def rx_filter_table_def
        pa_filter_table_def build_rx_filter_request_def build_pa_filter_request_def
      split: option.splits dest!: first_above_range)

theorem filter_maps_accepted_witness:
  "rx_filter_for_frequency 7100000 = Some 6 \<and> build_rx_filter_request 3 6 \<noteq> None"
proof -
  have "rx_filter_for_frequency 7100000 = Some 6"
    by (simp add: rx_filter_for_frequency_def rx_filter_table_def)
  with filter_maps_accepted [of 7100000 3] show ?thesis by auto
qed

text \<open>
  The RX filter returned is the one of the band the frequency lies in: below the band's upper
  bound and not below the bound of any earlier band.
\<close>

theorem rx_filter_band:
  assumes "rx_filter_for_frequency f = Some flt"
  shows "\<exists>i < length rx_filter_table. flt = snd (rx_filter_table ! i) \<and>
     f < fst (rx_filter_table ! i) \<and> (\<forall>j < i. fst (rx_filter_table ! j) \<le> f)"
proof -
  from assms have "unat f \<le> 54000000" and
    some: "first_above f rx_filter_table = None \<or> first_above f rx_filter_table = Some flt"
    by (auto simp: rx_filter_for_frequency_def word_le_nat_alt not_less
        split: option.splits if_splits)
  moreover have "(56000000, 1) \<in> set rx_filter_table" by (simp add: rx_filter_table_def)
  ultimately have "first_above f rx_filter_table = Some flt"
    using first_above_NoneD [of f rx_filter_table 56000000 1] by (auto simp: word_le_nat_alt)
  then show ?thesis by (rule first_above_SomeD)
qed

theorem rx_filter_band_witness:
  "\<exists>i < length rx_filter_table. 6 = snd (rx_filter_table ! i) \<and>
     7100000 < fst (rx_filter_table ! i) \<and> (\<forall>j < i. fst (rx_filter_table ! j) \<le> 7100000)"
proof -
  have "rx_filter_for_frequency 7100000 = Some 6"
    by (simp add: rx_filter_for_frequency_def rx_filter_table_def)
  then show ?thesis by (rule rx_filter_band)
qed

end
