(* ===== verification/Tx_Lifecycle.thy ===== *)
theory Tx_Lifecycle
  imports Flex_Prelude
begin

text \<open>
  Model of \<open>src/tx_lifecycle.c\<close>: which cleanup actions a partially started transmission
  needs (\<open>tx_cleanup_plan\<close>), and the loop that performs every planned action in the fixed
  safety order, whatever the earlier ones returned (\<open>tx_execute_cleanup\<close>). The callback is
  a function on an arbitrary state; \<open>None\<close> is the null function pointer.
\<close>

unbundle bit_operations_syntax

subsection \<open>Partial states and actions\<close>

abbreviation PARTIAL_NONE :: u32 where "PARTIAL_NONE \<equiv> 0"
abbreviation PARTIAL_PA_SELECTED :: u32 where "PARTIAL_PA_SELECTED \<equiv> 1"
abbreviation PARTIAL_AMP_ENABLE_ATTEMPTED :: u32 where "PARTIAL_AMP_ENABLE_ATTEMPTED \<equiv> 2"
abbreviation PARTIAL_STREAM_STARTED :: u32 where "PARTIAL_STREAM_STARTED \<equiv> 4"
abbreviation PARTIAL_TRANSITION_ATTEMPTED :: u32 where "PARTIAL_TRANSITION_ATTEMPTED \<equiv> 8"
abbreviation PARTIAL_FREQUENCY_ATTEMPTED :: u32 where "PARTIAL_FREQUENCY_ATTEMPTED \<equiv> 16"
abbreviation PARTIAL_KEY_ATTEMPTED :: u32 where "PARTIAL_KEY_ATTEMPTED \<equiv> 32"

datatype cleanup_action =
    CleanupNone | CleanupTransitionMute | CleanupUnkey | CleanupRestoreRxFrequency
  | CleanupTransitionUnmute | CleanupStopStream | CleanupResetPaFilter
  | CleanupDisableAmplifier

fun action_bit :: "cleanup_action \<Rightarrow> u32" where
  "action_bit CleanupNone = 0"
| "action_bit CleanupTransitionMute = 1"
| "action_bit CleanupUnkey = 2"
| "action_bit CleanupRestoreRxFrequency = 4"
| "action_bit CleanupTransitionUnmute = 8"
| "action_bit CleanupStopStream = 16"
| "action_bit CleanupResetPaFilter = 32"
| "action_bit CleanupDisableAmplifier = 64"

definition tx_cleanup_plan :: "u32 \<Rightarrow> u32" where
  "tx_cleanup_plan state =
     (let actions = action_bit CleanupNone;
          actions = (if state AND PARTIAL_KEY_ATTEMPTED \<noteq> 0
            then actions OR (action_bit CleanupTransitionMute OR action_bit CleanupUnkey)
            else actions);
          actions = (if state AND (PARTIAL_TRANSITION_ATTEMPTED OR PARTIAL_FREQUENCY_ATTEMPTED) \<noteq> 0
            then actions OR (action_bit CleanupRestoreRxFrequency OR
                             action_bit CleanupTransitionUnmute)
            else actions);
          actions = (if state AND PARTIAL_STREAM_STARTED \<noteq> 0
            then actions OR action_bit CleanupStopStream else actions);
          actions = (if state AND PARTIAL_PA_SELECTED \<noteq> 0
            then actions OR action_bit CleanupResetPaFilter else actions);
          actions = (if state AND PARTIAL_AMP_ENABLE_ATTEMPTED \<noteq> 0
            then actions OR action_bit CleanupDisableAmplifier else actions)
      in actions)"

definition cleanup_order :: "cleanup_action list" where
  "cleanup_order =
     [CleanupTransitionMute, CleanupUnkey, CleanupRestoreRxFrequency, CleanupTransitionUnmute,
      CleanupResetPaFilter, CleanupDisableAmplifier, CleanupStopStream]"

text \<open>The loop body; the accumulator is \<open>(attempted, first_error, state)\<close>.\<close>

fun cleanup_loop ::
  "u32 \<Rightarrow> (cleanup_action \<Rightarrow> 's \<Rightarrow> int \<times> 's) \<Rightarrow> cleanup_action list \<Rightarrow>
   u32 \<Rightarrow> int \<Rightarrow> 's \<Rightarrow> u32 \<times> int \<times> 's" where
  "cleanup_loop plan callback [] attempted first_error s = (attempted, first_error, s)"
| "cleanup_loop plan callback (action # rest) attempted first_error s =
     (if plan AND action_bit action = 0
      then cleanup_loop plan callback rest attempted first_error s
      else case callback action s of (result, s') \<Rightarrow>
        cleanup_loop plan callback rest (attempted OR action_bit action)
          (if first_error = 0 \<and> result \<noteq> 0 then result else first_error) s')"

definition tx_execute_cleanup ::
  "u32 \<Rightarrow> (cleanup_action \<Rightarrow> 's \<Rightarrow> int \<times> 's) option \<Rightarrow> 's \<Rightarrow> int \<times> u32 option \<times> 's" where
  "tx_execute_cleanup plan callback s =
     (case callback of
        None \<Rightarrow> (-1, None, s)
      | Some cb \<Rightarrow>
          (case cleanup_loop plan cb cleanup_order (action_bit CleanupNone) 0 s of
             (attempted, first_error, s') \<Rightarrow> (first_error, Some attempted, s')))"

subsection \<open>Specification\<close>

definition planned :: "u32 \<Rightarrow> cleanup_action \<Rightarrow> bool" where
  "planned plan action \<longleftrightarrow> plan AND action_bit action \<noteq> 0"

text \<open>Performing a list of actions one after the other, collecting every result.\<close>

fun perform :: "(cleanup_action \<Rightarrow> 's \<Rightarrow> int \<times> 's) \<Rightarrow> cleanup_action list \<Rightarrow> 's \<Rightarrow> int list \<times> 's" where
  "perform callback [] s = ([], s)"
| "perform callback (action # rest) s =
     (case callback action s of (result, s1) \<Rightarrow>
        case perform callback rest s1 of (results, s2) \<Rightarrow> (result # results, s2))"

definition first_failure :: "int list \<Rightarrow> int" where
  "first_failure results = (case dropWhile (\<lambda>r. r = 0) results of [] \<Rightarrow> 0 | r # _ \<Rightarrow> r)"

definition cleanup_steps :: "u32 \<Rightarrow> cleanup_action list" where
  "cleanup_steps plan = [action \<leftarrow> cleanup_order. planned plan action]"

lemma first_failure_simps [simp]:
  "first_failure [] = 0"
  "first_failure (r # rs) = (if r = 0 then first_failure rs else r)"
  by (simp_all add: first_failure_def)

lemma cleanup_loop_perform:
  "cleanup_loop plan callback actions attempted first_error s =
     (fold (\<lambda>a m. m OR action_bit a) [a \<leftarrow> actions. planned plan a] attempted,
      if first_error \<noteq> 0 then first_error
      else first_failure (fst (perform callback [a \<leftarrow> actions. planned plan a] s)),
      snd (perform callback [a \<leftarrow> actions. planned plan a] s))"
  by (induction actions arbitrary: attempted first_error s)
    (auto simp: planned_def split: prod.splits)

text \<open>
  The cleanup loop performs exactly the planned actions, each once, in the order mute, unkey,
  restore frequency, unmute, PA filter, amplifier, stream, even when earlier ones fail; it
  returns the first failure, or 0 when every action succeeded.
\<close>

theorem execute_cleanup_complete:
  "tx_execute_cleanup plan (Some callback) s =
     (first_failure (fst (perform callback (cleanup_steps plan) s)),
      Some (fold (\<lambda>action mask. mask OR action_bit action) (cleanup_steps plan) 0),
      snd (perform callback (cleanup_steps plan) s))"
  by (simp add: tx_execute_cleanup_def cleanup_loop_perform cleanup_steps_def)

lemma planned_cleanup_plan:
  "planned (tx_cleanup_plan st) action =
     (case action of
        CleanupNone \<Rightarrow> False
      | CleanupTransitionMute \<Rightarrow> st AND PARTIAL_KEY_ATTEMPTED \<noteq> 0
      | CleanupUnkey \<Rightarrow> st AND PARTIAL_KEY_ATTEMPTED \<noteq> 0
      | CleanupRestoreRxFrequency \<Rightarrow>
          st AND (PARTIAL_TRANSITION_ATTEMPTED OR PARTIAL_FREQUENCY_ATTEMPTED) \<noteq> 0
      | CleanupTransitionUnmute \<Rightarrow>
          st AND (PARTIAL_TRANSITION_ATTEMPTED OR PARTIAL_FREQUENCY_ATTEMPTED) \<noteq> 0
      | CleanupStopStream \<Rightarrow> st AND PARTIAL_STREAM_STARTED \<noteq> 0
      | CleanupResetPaFilter \<Rightarrow> st AND PARTIAL_PA_SELECTED \<noteq> 0
      | CleanupDisableAmplifier \<Rightarrow> st AND PARTIAL_AMP_ENABLE_ATTEMPTED \<noteq> 0)"
  by (cases action) (simp_all add: planned_def tx_cleanup_plan_def Let_def)

text \<open>
  Whenever keying was attempted, the cleanup begins by muting the transition and sending the
  unkey command, before anything else is undone; and it never unkeys when keying was not
  attempted.
\<close>

theorem unkey_comes_first:
  "(if st AND PARTIAL_KEY_ATTEMPTED \<noteq> 0
    then \<exists>rest. cleanup_steps (tx_cleanup_plan st) = CleanupTransitionMute # CleanupUnkey # rest
    else CleanupUnkey \<notin> set (cleanup_steps (tx_cleanup_plan st)))"
  by (simp add: cleanup_steps_def cleanup_order_def planned_cleanup_plan)

end
