(* ===== verification/Tx_Control.thy ===== *)
theory Tx_Control
  imports Flex_Prelude
begin

text \<open>
  Model of \<open>src/tx_control.c\<close>: the one arbiter of the transmitter. It knows who owns the
  transmitter, asks two callbacks to key and to unkey the hardware, inhibits the physical PTT
  until it has been seen released, and stops an owner that keys for too long.

  The daemon's callbacks act on the state that contains the arbiter itself, so an operation
  transforms the whole state: any record that extends \<open>tx_sys\<close>. A null callback is \<open>None\<close>.
  Time is the 64-bit millisecond counter, and an elapsed time is a wrapping difference.
\<close>

subsection \<open>State\<close>

datatype tx_owner = OwnerNone | OwnerTune | OwnerPhysicalMic | OwnerHttp | OwnerSoapy

datatype tx_state =
    StateStartupInhibit | StateRx | StatePreparing | StateTransmitting | StateUnkeying
  | StateRecovering | StateFaulted

datatype tx_control_result =
    TxOk | TxDisabled | TxInhibited | TxBusy | TxInvalidOwner | TxHardwareError | TxMaxKey

record tx_control =
  tx_enabled :: bool
  physical_ptt_armed :: bool
  physical_ptt_pressed :: bool
  cleanup_failed :: bool
  tx_owner_of :: tx_owner
  tx_state_of :: tx_state
  tx_started_ms :: u64
  maximum_key_ms :: u64

record tx_sys =
  tx :: tx_control

record 's tx_callbacks =
  start_callback :: "(tx_owner \<Rightarrow> 's \<Rightarrow> int \<times> 's) option"
  stop_callback :: "(tx_owner \<Rightarrow> bool \<Rightarrow> 's \<Rightarrow> int \<times> 's) option"

abbreviation TX_TIMEOUT_DEFAULT_SECONDS :: u32 where "TX_TIMEOUT_DEFAULT_SECONDS \<equiv> 180"
abbreviation TX_TIMEOUT_MIN_SECONDS :: u32 where "TX_TIMEOUT_MIN_SECONDS \<equiv> 30"
abbreviation TX_TIMEOUT_MAX_SECONDS :: u32 where "TX_TIMEOUT_MAX_SECONDS \<equiv> 1800"

text \<open>Assignments to the fields of \<open>control\<close>.\<close>

definition map_tx :: "(tx_control \<Rightarrow> tx_control) \<Rightarrow> 'x tx_sys_scheme \<Rightarrow> 'x tx_sys_scheme" where
  "map_tx f s = s\<lparr>tx := f (tx s)\<rparr>"

lemma tx_map_tx [simp]: "tx (map_tx f s) = f (tx s)"
  by (simp add: map_tx_def)

subsection \<open>Operations\<close>

definition valid_owner :: "tx_owner \<Rightarrow> bool" where
  "valid_owner ow = (case ow of OwnerNone \<Rightarrow> False | _ \<Rightarrow> True)"

definition call_stop ::
  "'s tx_callbacks \<Rightarrow> tx_owner \<Rightarrow> bool \<Rightarrow> 's \<Rightarrow> int \<times> 's" where
  "call_stop cb ow graceful s =
     (case stop_callback cb of None \<Rightarrow> (-1, s) | Some stop \<Rightarrow> stop ow graceful s)"

definition call_start :: "'s tx_callbacks \<Rightarrow> tx_owner \<Rightarrow> 's \<Rightarrow> bool \<times> 's" where
  "call_start cb ow s =
     (case start_callback cb of
        None \<Rightarrow> (False, s)
      | Some start \<Rightarrow> (case start ow s of (result, s') \<Rightarrow> (result = 0, s')))"

definition tx_stop_owner ::
  "('x tx_sys_scheme) tx_callbacks \<Rightarrow> bool \<Rightarrow> 'x tx_sys_scheme \<Rightarrow>
   tx_control_result \<times> 'x tx_sys_scheme" where
  "tx_stop_owner cb graceful s =
     (if tx_owner_of (tx s) = OwnerNone then (TxOk, s)
      else
        let ow = tx_owner_of (tx s);
            s = map_tx (\<lambda>c. c\<lparr>tx_state_of := StateUnkeying\<rparr>) s
        in case call_stop cb ow graceful s of (result, s) \<Rightarrow>
          (if result = 0 then TxOk else TxHardwareError,
           map_tx (\<lambda>c. c\<lparr>cleanup_failed := (result \<noteq> 0), tx_owner_of := OwnerNone,
                         tx_started_ms := 0,
                         tx_state_of := (if result = 0 then StateRx else StateFaulted)\<rparr>) s))"

definition tx_control_init :: "bool \<Rightarrow> u64 \<Rightarrow> tx_control" where
  "tx_control_init enabled max_ms =
     \<lparr>tx_enabled = enabled, physical_ptt_armed = False, physical_ptt_pressed = False,
      cleanup_failed = False, tx_owner_of = OwnerNone,
      tx_state_of = (if enabled then StateStartupInhibit else StateRx),
      tx_started_ms = 0, maximum_key_ms = max_ms\<rparr>"

definition tx_control_arm_physical_ptt :: "'x tx_sys_scheme \<Rightarrow> 'x tx_sys_scheme" where
  "tx_control_arm_physical_ptt s =
     (if \<not> tx_enabled (tx s) \<or> tx_owner_of (tx s) \<noteq> OwnerNone then s
      else map_tx (\<lambda>c. c\<lparr>physical_ptt_armed := True,
             tx_state_of := (if tx_state_of c = StateStartupInhibit then StateRx
                             else tx_state_of c)\<rparr>) s)"

definition tx_control_request ::
  "('x tx_sys_scheme) tx_callbacks \<Rightarrow> tx_owner \<Rightarrow> u64 \<Rightarrow> 'x tx_sys_scheme \<Rightarrow>
   tx_control_result \<times> 'x tx_sys_scheme" where
  "tx_control_request cb ow now_ms s =
     (if \<not> tx_enabled (tx s) then (TxDisabled, s)
      else if \<not> valid_owner ow then (TxInvalidOwner, s)
      else if ow = OwnerPhysicalMic \<and> \<not> physical_ptt_armed (tx s) then (TxInhibited, s)
      else if tx_state_of (tx s) = StateFaulted \<or> tx_state_of (tx s) = StateRecovering
        then (TxInhibited, s)
      else if tx_owner_of (tx s) = ow then (TxOk, s)
      else if tx_owner_of (tx s) \<noteq> OwnerNone then (TxBusy, s)
      else
        let s = map_tx (\<lambda>c. c\<lparr>cleanup_failed := False, tx_state_of := StatePreparing\<rparr>) s
        in case call_start cb ow s of (started, s) \<Rightarrow>
          if \<not> started
          then (case call_stop cb ow False s of (cleanup_result, s) \<Rightarrow>
                 (TxHardwareError,
                  map_tx (\<lambda>c. c\<lparr>cleanup_failed := (cleanup_result \<noteq> 0),
                                tx_state_of := StateFaulted\<rparr>) s))
          else (TxOk,
                map_tx (\<lambda>c. c\<lparr>tx_owner_of := ow, tx_started_ms := now_ms,
                              tx_state_of := StateTransmitting\<rparr>) s))"

definition tx_control_release ::
  "('x tx_sys_scheme) tx_callbacks \<Rightarrow> tx_owner \<Rightarrow> 'x tx_sys_scheme \<Rightarrow>
   tx_control_result \<times> 'x tx_sys_scheme" where
  "tx_control_release cb ow s =
     (if \<not> tx_enabled (tx s) then (TxDisabled, s)
      else if \<not> valid_owner ow then (TxInvalidOwner, s)
      else if tx_owner_of (tx s) \<noteq> ow then (TxBusy, s)
      else tx_stop_owner cb False s)"

definition tx_control_release_graceful ::
  "('x tx_sys_scheme) tx_callbacks \<Rightarrow> tx_owner \<Rightarrow> 'x tx_sys_scheme \<Rightarrow>
   tx_control_result \<times> 'x tx_sys_scheme" where
  "tx_control_release_graceful cb ow s =
     (if \<not> tx_enabled (tx s) then (TxDisabled, s)
      else if \<not> valid_owner ow then (TxInvalidOwner, s)
      else if tx_owner_of (tx s) \<noteq> ow then (TxBusy, s)
      else tx_stop_owner cb True s)"

definition tx_control_physical_ptt ::
  "('x tx_sys_scheme) tx_callbacks \<Rightarrow> bool \<Rightarrow> u64 \<Rightarrow> 'x tx_sys_scheme \<Rightarrow>
   tx_control_result \<times> 'x tx_sys_scheme" where
  "tx_control_physical_ptt cb pressed now_ms s =
     (if \<not> tx_enabled (tx s) then (TxDisabled, s)
      else
        let s = map_tx (\<lambda>c. c\<lparr>physical_ptt_pressed := pressed\<rparr>) s
        in if \<not> physical_ptt_armed (tx s)
           then (if pressed then (TxInhibited, s)
                 else (TxOk, map_tx (\<lambda>c. c\<lparr>physical_ptt_armed := True,
                        tx_state_of := (if tx_state_of c = StateStartupInhibit then StateRx
                                        else tx_state_of c)\<rparr>) s))
           else if \<not> pressed
           then (if tx_owner_of (tx s) = OwnerPhysicalMic then tx_stop_owner cb True s
                 else (TxOk, s))
           else if tx_owner_of (tx s) \<noteq> OwnerNone \<and> tx_owner_of (tx s) \<noteq> OwnerPhysicalMic
           then (case tx_stop_owner cb False s of (stopped, s) \<Rightarrow>
                  if stopped \<noteq> TxOk then (stopped, s)
                  else tx_control_request cb OwnerPhysicalMic now_ms s)
           else tx_control_request cb OwnerPhysicalMic now_ms s)"

definition tx_control_tick ::
  "('x tx_sys_scheme) tx_callbacks \<Rightarrow> u64 \<Rightarrow> 'x tx_sys_scheme \<Rightarrow>
   tx_control_result \<times> 'x tx_sys_scheme" where
  "tx_control_tick cb now_ms s =
     (if \<not> tx_enabled (tx s) then (TxDisabled, s)
      else if tx_owner_of (tx s) = OwnerNone \<or> tx_state_of (tx s) \<noteq> StateTransmitting
        then (TxOk, s)
      else if maximum_key_ms (tx s) \<noteq> 0 \<and>
              now_ms - tx_started_ms (tx s) \<ge> maximum_key_ms (tx s)
        then (case tx_stop_owner cb False s of (stopped, s) \<Rightarrow>
               (if stopped = TxOk then TxMaxKey else stopped, s))
      else (TxOk, s))"

definition tx_control_shutdown ::
  "('x tx_sys_scheme) tx_callbacks \<Rightarrow> 'x tx_sys_scheme \<Rightarrow> 'x tx_sys_scheme" where
  "tx_control_shutdown cb s =
     (if tx_owner_of (tx s) \<noteq> OwnerNone then snd (tx_stop_owner cb False s) else s)"

definition tx_control_set_timeout_seconds :: "u32 \<Rightarrow> tx_control \<Rightarrow> bool \<times> tx_control" where
  "tx_control_set_timeout_seconds seconds c =
     (if tx_owner_of c \<noteq> OwnerNone \<or> seconds < TX_TIMEOUT_MIN_SECONDS \<or>
         seconds > TX_TIMEOUT_MAX_SECONDS then (False, c)
      else (True, c\<lparr>maximum_key_ms := ucast seconds * 1000\<rparr>))"

definition tx_control_timeout_seconds :: "tx_control \<Rightarrow> u32" where
  "tx_control_timeout_seconds c = ucast (maximum_key_ms c div 1000)"

definition tx_owner_name :: "tx_owner \<Rightarrow> string" where
  "tx_owner_name ow =
     (case ow of OwnerNone \<Rightarrow> ''none'' | OwnerTune \<Rightarrow> ''tune''
      | OwnerPhysicalMic \<Rightarrow> ''physical_mic'' | OwnerHttp \<Rightarrow> ''http'' | OwnerSoapy \<Rightarrow> ''soapy'')"

definition tx_state_name :: "tx_state \<Rightarrow> string" where
  "tx_state_name st =
     (case st of StateStartupInhibit \<Rightarrow> ''startup_inhibit'' | StateRx \<Rightarrow> ''rx''
      | StatePreparing \<Rightarrow> ''preparing'' | StateTransmitting \<Rightarrow> ''transmitting''
      | StateUnkeying \<Rightarrow> ''unkeying'' | StateRecovering \<Rightarrow> ''recovering''
      | StateFaulted \<Rightarrow> ''faulted'')"

subsection \<open>The transition system\<close>

text \<open>
  One step is one call of an operation, with any arguments and any time, or a step \<open>env\<close> of
  the rest of the program, which does not touch the arbiter.
\<close>

inductive tx_step ::
  "('x tx_sys_scheme) tx_callbacks \<Rightarrow> ('x tx_sys_scheme \<Rightarrow> 'x tx_sys_scheme \<Rightarrow> bool) \<Rightarrow>
   'x tx_sys_scheme \<Rightarrow> 'x tx_sys_scheme \<Rightarrow> bool"
  for cb env where
  Arm: "tx_step cb env s (tx_control_arm_physical_ptt s)"
| Request: "tx_step cb env s (snd (tx_control_request cb ow now_ms s))"
| Release: "tx_step cb env s (snd (tx_control_release cb ow s))"
| Release_graceful: "tx_step cb env s (snd (tx_control_release_graceful cb ow s))"
| Physical_ptt: "tx_step cb env s (snd (tx_control_physical_ptt cb pressed now_ms s))"
| Tick: "tx_step cb env s (snd (tx_control_tick cb now_ms s))"
| Shutdown: "tx_step cb env s (tx_control_shutdown cb s)"
| Set_timeout: "tx_step cb env s (map_tx (\<lambda>c. snd (tx_control_set_timeout_seconds seconds c)) s)"
| Env: "env s s' \<Longrightarrow> tx_step cb env s s'"

inductive tx_reachable ::
  "('x tx_sys_scheme) tx_callbacks \<Rightarrow> ('x tx_sys_scheme \<Rightarrow> 'x tx_sys_scheme \<Rightarrow> bool) \<Rightarrow>
   'x tx_sys_scheme \<Rightarrow> 'x tx_sys_scheme \<Rightarrow> bool"
  for cb env s0 where
  Init: "tx_reachable cb env s0 s0"
| Step: "tx_reachable cb env s0 s \<Longrightarrow> tx_step cb env s s' \<Longrightarrow> tx_reachable cb env s0 s'"

text \<open>
  The arbiter's invariant: between operations it is transmitting exactly when someone owns the
  transmitter; the microphone owns it only when the PTT is armed; a failed cleanup has faulted it.
\<close>

definition tx_inv :: "tx_control \<Rightarrow> bool" where
  "tx_inv c \<longleftrightarrow>
     (tx_state_of c = StateTransmitting \<longleftrightarrow> tx_owner_of c \<noteq> OwnerNone) \<and>
     tx_state_of c \<notin> {StatePreparing, StateUnkeying, StateRecovering} \<and>
     (tx_owner_of c = OwnerPhysicalMic \<longrightarrow> physical_ptt_armed c) \<and>
     (cleanup_failed c \<longrightarrow> tx_state_of c = StateFaulted) \<and>
     (tx_state_of c = StateStartupInhibit \<longrightarrow> \<not> physical_ptt_armed c) \<and>
     (\<not> tx_enabled c \<longrightarrow> tx_state_of c = StateRx)"

lemma tx_inv_init: "tx_inv (tx_control_init enabled max_ms)"
  by (simp add: tx_inv_def tx_control_init_def)

text \<open>The three ways a request can go.\<close>

definition preparing :: "'x tx_sys_scheme \<Rightarrow> 'x tx_sys_scheme" where
  "preparing s = map_tx (\<lambda>c. c\<lparr>cleanup_failed := False, tx_state_of := StatePreparing\<rparr>) s"

lemma request_cases:
  obtains (refused) r where "tx_control_request cb ow now_ms s = (r, s)"
      "r = TxOk \<Longrightarrow> tx_owner_of (tx s) = ow" "r \<noteq> TxHardwareError"
  | (started) s2 where "call_start cb ow (preparing s) = (True, s2)"
      "tx_control_request cb ow now_ms s =
         (TxOk, map_tx (\<lambda>c. c\<lparr>tx_owner_of := ow, tx_started_ms := now_ms,
                              tx_state_of := StateTransmitting\<rparr>) s2)"
      "tx_enabled (tx s)" "valid_owner ow" "tx_owner_of (tx s) = OwnerNone"
      "tx_state_of (tx s) \<noteq> StateFaulted" "ow = OwnerPhysicalMic \<Longrightarrow> physical_ptt_armed (tx s)"
  | (failed) s2 r s3 where "call_start cb ow (preparing s) = (False, s2)"
      "call_stop cb ow False s2 = (r, s3)"
      "tx_control_request cb ow now_ms s =
         (TxHardwareError, map_tx (\<lambda>c. c\<lparr>cleanup_failed := (r \<noteq> 0),
                                          tx_state_of := StateFaulted\<rparr>) s3)"
      "tx_enabled (tx s)" "valid_owner ow" "tx_owner_of (tx s) = OwnerNone"
      "tx_state_of (tx s) \<noteq> StateFaulted"
proof -
  obtain ok s2 where st: "call_start cb ow (preparing s) = (ok, s2)" by fastforce
  obtain r s3 where cs: "call_stop cb ow False s2 = (r, s3)" by fastforce
  show thesis
  proof (cases "\<not> tx_enabled (tx s) \<or> \<not> valid_owner ow \<or>
      ow = OwnerPhysicalMic \<and> \<not> physical_ptt_armed (tx s) \<or>
      tx_state_of (tx s) = StateFaulted \<or> tx_state_of (tx s) = StateRecovering \<or>
      tx_owner_of (tx s) = ow \<or> tx_owner_of (tx s) \<noteq> OwnerNone")
    case True
    then show thesis
      by (intro refused [of "fst (tx_control_request cb ow now_ms s)"])
        (auto simp: tx_control_request_def split: if_splits)
  next
    case False
    then have "tx_control_request cb ow now_ms s =
       (if ok then (TxOk, map_tx (\<lambda>c. c\<lparr>tx_owner_of := ow, tx_started_ms := now_ms,
                              tx_state_of := StateTransmitting\<rparr>) s2)
        else (TxHardwareError, map_tx (\<lambda>c. c\<lparr>cleanup_failed := (r \<noteq> 0),
                                          tx_state_of := StateFaulted\<rparr>) s3))"
      using st cs by (auto simp: tx_control_request_def preparing_def)
    with False st cs show thesis
      by (cases ok) (auto intro: started failed)
  qed
qed

subsection \<open>The contract between the arbiter and the hardware\<close>

text \<open>
  \<open>keyed\<close> says that the radio may be transmitting, \<open>tracked\<close> that the driver knows enough to
  unkey it. The driver promises not to touch the arbiter, to stay \<open>tracked\<close> when a start
  succeeds, and that a stop that reports success from a \<open>tracked\<close> state leaves the radio unkeyed.
  The rest of the program (\<open>env\<close>) neither keys the radio nor touches the arbiter.
\<close>

definition tx_safe ::
  "('x tx_sys_scheme \<Rightarrow> bool) \<Rightarrow> ('x tx_sys_scheme \<Rightarrow> bool) \<Rightarrow> 'x tx_sys_scheme \<Rightarrow> bool" where
  "tx_safe keyed tracked s \<longleftrightarrow>
     tx_inv (tx s) \<and> (tx_state_of (tx s) \<noteq> StateFaulted \<longrightarrow> tracked s) \<and>
     (keyed s \<longrightarrow> tx_owner_of (tx s) \<noteq> OwnerNone \<or> tx_state_of (tx s) = StateFaulted)"

locale tx_backend =
  fixes cb :: "('x tx_sys_scheme) tx_callbacks"
    and env :: "'x tx_sys_scheme \<Rightarrow> 'x tx_sys_scheme \<Rightarrow> bool"
    and keyed :: "'x tx_sys_scheme \<Rightarrow> bool"
    and tracked :: "'x tx_sys_scheme \<Rightarrow> bool"
  assumes start_frame: "tx (snd (call_start cb ow s)) = tx s"
    and stop_frame: "tx (snd (call_stop cb ow graceful s)) = tx s"
    and start_tracked: "tracked s \<Longrightarrow> fst (call_start cb ow s) \<Longrightarrow> tracked (snd (call_start cb ow s))"
    and stop_unkeys: "tracked s \<Longrightarrow> fst (call_stop cb ow graceful s) = 0 \<Longrightarrow>
      \<not> keyed (snd (call_stop cb ow graceful s))"
    and unkeyed_tracked: "\<not> keyed s \<Longrightarrow> tracked s"
    and keyed_map_tx: "keyed (map_tx f s) = keyed s"
    and tracked_map_tx: "tracked (map_tx f s) = tracked s"
    and env_frame: "env s s' \<Longrightarrow> tx s' = tx s"
    and env_keyed: "env s s' \<Longrightarrow> keyed s' \<Longrightarrow> keyed s"
    and env_tracked: "env s s' \<Longrightarrow> tracked s \<Longrightarrow> tracked s'"
begin

lemma stop_owner_safe:
  assumes "tx_safe keyed tracked s"
  shows "tx_safe keyed tracked (snd (tx_stop_owner cb graceful s))"
proof (cases "tx_owner_of (tx s) = OwnerNone")
  case True
  then show ?thesis using assms by (simp add: tx_stop_owner_def)
next
  case False
  define s1 where "s1 = map_tx (\<lambda>c. c\<lparr>tx_state_of := StateUnkeying\<rparr>) s"
  obtain r s2 where cs: "call_stop cb (tx_owner_of (tx s)) graceful s1 = (r, s2)"
    by fastforce
  have "tx s2 = tx s1" using stop_frame [of "tx_owner_of (tx s)" graceful s1] cs by simp
  moreover have "tracked s" using assms False by (auto simp: tx_safe_def tx_inv_def)
  then have "tracked s1" by (simp add: s1_def tracked_map_tx)
  with stop_unkeys [of s1 "tx_owner_of (tx s)" graceful] cs have "r = 0 \<Longrightarrow> \<not> keyed s2" by simp
  ultimately show ?thesis
    using assms False cs unkeyed_tracked [of s2]
    by (auto simp: tx_stop_owner_def s1_def Let_def tx_safe_def tx_inv_def keyed_map_tx tracked_map_tx)
qed

lemma stop_owner_none:
  "tx_owner_of (tx (snd (tx_stop_owner cb graceful s))) = OwnerNone"
  by (auto simp: tx_stop_owner_def Let_def split: prod.splits)

lemma stop_owner_fields:
  "tx_enabled (tx (snd (tx_stop_owner cb graceful s))) = tx_enabled (tx s)"
  "physical_ptt_armed (tx (snd (tx_stop_owner cb graceful s))) = physical_ptt_armed (tx s)"
  "maximum_key_ms (tx (snd (tx_stop_owner cb graceful s))) = maximum_key_ms (tx s)"
  "tx_state_of (tx s) = StateFaulted \<Longrightarrow> tx_owner_of (tx s) = OwnerNone \<Longrightarrow>
     tx_stop_owner cb graceful s = (TxOk, s)"
  using stop_frame [of "tx_owner_of (tx s)" graceful
      "map_tx (\<lambda>c. c\<lparr>tx_state_of := StateUnkeying\<rparr>) s"]
  by (auto simp: tx_stop_owner_def Let_def split: prod.splits)

lemma request_safe:
  assumes "tx_safe keyed tracked s"
  shows "tx_safe keyed tracked (snd (tx_control_request cb ow now_ms s))"
proof (cases rule: request_cases [of cb ow now_ms s])
  case (refused r)
  with assms show ?thesis by simp
next
  case (started s2)
  have "tracked (preparing s)"
    using assms started by (auto simp: tx_safe_def preparing_def tracked_map_tx)
  then have "tracked s2" "tx s2 = tx (preparing s)"
    using start_tracked [of "preparing s" ow] start_frame [of ow "preparing s"] started by auto
  with assms started show ?thesis
    by (auto simp: tx_safe_def tx_inv_def keyed_map_tx tracked_map_tx valid_owner_def preparing_def)
next
  case (failed s2 r s3)
  have "tx s3 = tx (preparing s)"
    using start_frame [of ow "preparing s"] stop_frame [of ow False s2] failed by simp
  with assms failed show ?thesis
    by (auto simp: tx_safe_def tx_inv_def keyed_map_tx tracked_map_tx preparing_def)
qed

lemma request_fields:
  "tx_enabled (tx (snd (tx_control_request cb ow now_ms s))) = tx_enabled (tx s) \<and>
   physical_ptt_armed (tx (snd (tx_control_request cb ow now_ms s))) = physical_ptt_armed (tx s) \<and>
   maximum_key_ms (tx (snd (tx_control_request cb ow now_ms s))) = maximum_key_ms (tx s) \<and>
   (tx_state_of (tx s) = StateFaulted \<longrightarrow> snd (tx_control_request cb ow now_ms s) = s)"
proof (cases rule: request_cases [of cb ow now_ms s])
  case (refused r)
  then show ?thesis by simp
next
  case (started s2)
  with start_frame [of ow "preparing s"] show ?thesis by (simp add: preparing_def)
next
  case (failed s2 r s3)
  with start_frame [of ow "preparing s"] stop_frame [of ow False s2] show ?thesis
    by (simp add: preparing_def)
qed

lemma safe_map_tx:
  "tx_safe keyed tracked s \<Longrightarrow> tx_inv (f (tx s)) \<Longrightarrow>
     (tx_state_of (f (tx s)) = StateFaulted \<longleftrightarrow> tx_state_of (tx s) = StateFaulted) \<Longrightarrow>
     tx_owner_of (f (tx s)) = tx_owner_of (tx s) \<Longrightarrow> tx_safe keyed tracked (map_tx f s)"
  by (auto simp: tx_safe_def keyed_map_tx tracked_map_tx)

lemma physical_ptt_safe:
  assumes "tx_safe keyed tracked s"
  shows "tx_safe keyed tracked (snd (tx_control_physical_ptt cb pressed now_ms s))"
proof -
  define s1 where "s1 = map_tx (\<lambda>c. c\<lparr>physical_ptt_pressed := pressed\<rparr>) s"
  have inv: "tx_inv (tx s)" using assms by (simp add: tx_safe_def)
  have s1: "tx_safe keyed tracked s1"
    unfolding s1_def using assms inv by (intro safe_map_tx) (simp_all add: tx_inv_def)
  have armed: "tx_safe keyed tracked (map_tx (\<lambda>c. c\<lparr>physical_ptt_armed := True,
      tx_state_of := (if tx_state_of c = StateStartupInhibit then StateRx else tx_state_of c)\<rparr>) s1)"
    if "tx_enabled (tx s)"
    using s1 that by (intro safe_map_tx) (auto simp: s1_def tx_safe_def tx_inv_def)
  show ?thesis
    using s1 armed stop_owner_safe [OF s1] request_safe [OF stop_owner_safe [OF s1]]
      request_safe [OF s1] assms
    by (auto simp: tx_control_physical_ptt_def s1_def [symmetric] Let_def split: prod.splits)
      (metis snd_conv)+
qed

lemma step_safe:
  assumes "tx_step cb env s s'" and "tx_safe keyed tracked s"
  shows "tx_safe keyed tracked s'"
  using assms(1)
proof cases
  case Arm
  with assms(2) show ?thesis
    by (auto simp: tx_control_arm_physical_ptt_def tx_safe_def tx_inv_def keyed_map_tx tracked_map_tx)
next
  case (Request ow now_ms)
  with assms(2) show ?thesis by (simp add: request_safe)
next
  case (Release ow)
  with assms(2) show ?thesis by (simp add: tx_control_release_def stop_owner_safe)
next
  case (Release_graceful ow)
  with assms(2) show ?thesis by (simp add: tx_control_release_graceful_def stop_owner_safe)
next
  case (Physical_ptt pressed now_ms)
  with assms(2) show ?thesis by (simp add: physical_ptt_safe)
next
  case (Tick now_ms)
  with assms(2) stop_owner_safe [of s False] show ?thesis
    by (auto simp: tx_control_tick_def split: prod.splits)
next
  case Shutdown
  with assms(2) show ?thesis by (simp add: tx_control_shutdown_def stop_owner_safe)
next
  case (Set_timeout seconds)
  with assms(2) show ?thesis
    by (auto simp: tx_control_set_timeout_seconds_def tx_safe_def tx_inv_def keyed_map_tx
        tracked_map_tx)
next
  case Env
  with assms(2) env_frame [of s s'] env_keyed [of s s'] env_tracked [of s s'] show ?thesis
    by (auto simp: tx_safe_def)
qed

lemma reachable_safe:
  "tx_reachable cb env s0 s \<Longrightarrow> tx_safe keyed tracked s0 \<Longrightarrow> tx_safe keyed tracked s"
  by (induction rule: tx_reachable.induct) (auto intro: step_safe)

end

subsection \<open>Ownership and watchdog\<close>

text \<open>C10.
  A transmitter that is owned is never handed over by a request: a request by anyone else is
  refused, runs neither callback and leaves the whole state as it was.
\<close>

theorem request_exclusive:
  assumes "tx_owner_of (tx s) \<noteq> OwnerNone" and "ow \<noteq> tx_owner_of (tx s)"
  shows "\<exists>r. tx_control_request cb ow now_ms s = (r, s) \<and> r \<noteq> TxOk"
proof (cases rule: request_cases [of cb ow now_ms s])
  case (refused r)
  with assms show ?thesis by auto
qed (use assms in auto)

theorem request_exclusive_witness:
  "\<exists>r. tx_control_request \<lparr>start_callback = Some (\<lambda>ow s. (0, s)), stop_callback = None\<rparr> OwnerTune 5
      \<lparr>tx = (tx_control_init True 180000)\<lparr>tx_owner_of := OwnerHttp,
                                           tx_state_of := StateTransmitting\<rparr>\<rparr> =
     (r, \<lparr>tx = (tx_control_init True 180000)\<lparr>tx_owner_of := OwnerHttp,
                                           tx_state_of := StateTransmitting\<rparr>\<rparr>) \<and> r \<noteq> TxOk"
  by (rule request_exclusive) (simp_all add: tx_control_init_def)

text \<open>C11.
  Pressing the physical PTT takes the transmitter over: when the call reports success the
  microphone is the owner, whoever owned it before, and the control is transmitting.
\<close>

theorem ptt_takes_over:
  assumes "tx_control_physical_ptt cb True now_ms s = (TxOk, s')" and "tx_inv (tx s)"
  shows "tx_owner_of (tx s') = OwnerPhysicalMic \<and> tx_state_of (tx s') = StateTransmitting"
proof -
  define s1 where "s1 = map_tx (\<lambda>c. c\<lparr>physical_ptt_pressed := True\<rparr>) s"
  have inv1: "tx_inv (tx s1)" using assms(2) by (simp add: s1_def tx_inv_def)
  have request: "tx_owner_of (tx t') = OwnerPhysicalMic \<and> tx_state_of (tx t') = StateTransmitting"
    if "tx_control_request cb OwnerPhysicalMic now_ms t = (TxOk, t')"
      and "tx_owner_of (tx t) = OwnerPhysicalMic \<Longrightarrow> tx_inv (tx t)" for t t'
    by (cases rule: request_cases [of cb OwnerPhysicalMic now_ms t])
      (use that in \<open>auto simp: tx_inv_def\<close>)
  show ?thesis
  proof (cases "tx_owner_of (tx s1) \<noteq> OwnerNone \<and> tx_owner_of (tx s1) \<noteq> OwnerPhysicalMic")
    case True
    obtain r t where stop: "tx_stop_owner cb False s1 = (r, t)" by fastforce
    then have "tx_owner_of (tx t) = OwnerNone"
      by (auto simp: tx_stop_owner_def Let_def split: prod.splits if_splits)
    with assms(1) True stop show ?thesis
      by (intro request [of t])
        (auto simp: tx_control_physical_ptt_def s1_def [symmetric] Let_def split: if_splits)
  next
    case False
    with assms(1) inv1 show ?thesis
      by (intro request [of s1])
        (auto simp: tx_control_physical_ptt_def s1_def [symmetric] Let_def split: if_splits)
  qed
qed

theorem ptt_takes_over_witness:
  "tx_owner_of (tx (snd (tx_control_physical_ptt
       \<lparr>start_callback = Some (\<lambda>ow s. (0, s)), stop_callback = Some (\<lambda>ow g s. (0, s))\<rparr> True 5
       \<lparr>tx = (tx_control_init True 180000)\<lparr>physical_ptt_armed := True, tx_owner_of := OwnerHttp,
             tx_state_of := StateTransmitting\<rparr>\<rparr>))) = OwnerPhysicalMic"
proof -
  define cb :: "tx_sys tx_callbacks" where
    "cb = \<lparr>start_callback = Some (\<lambda>ow s. (0, s)), stop_callback = Some (\<lambda>ow g s. (0, s))\<rparr>"
  define s where "s = \<lparr>tx = (tx_control_init True 180000)\<lparr>physical_ptt_armed := True,
      tx_owner_of := OwnerHttp, tx_state_of := StateTransmitting\<rparr>\<rparr>"
  have "tx_control_physical_ptt cb True 5 s = (TxOk, snd (tx_control_physical_ptt cb True 5 s))"
    by (simp add: cb_def s_def tx_control_physical_ptt_def tx_control_init_def tx_stop_owner_def
        call_stop_def call_start_def tx_control_request_def valid_owner_def)
  moreover have "tx_inv (tx s)" by (simp add: s_def tx_inv_def tx_control_init_def)
  ultimately show ?thesis
    using ptt_takes_over [of cb 5 s] by (simp add: cb_def s_def)
qed

text \<open>C15.
  The watchdog: after a tick of an enabled control, whoever still owns the transmitter has held
  it for less than the maximum key time (unless that is 0, no limit), and the tick did nothing;
  otherwise the owner is gone and the result is the watchdog's or the failure to unkey.
\<close>

theorem tick_watchdog:
  assumes "tx_control_tick cb now_ms s = (r, s')" and "tx_inv (tx s)" and "tx_enabled (tx s)"
  shows "(tx_owner_of (tx s') \<noteq> OwnerNone \<longrightarrow> s' = s \<and> r = TxOk \<and>
       (maximum_key_ms (tx s) = 0 \<or> now_ms - tx_started_ms (tx s) < maximum_key_ms (tx s))) \<and>
     (tx_owner_of (tx s) \<noteq> OwnerNone \<and> maximum_key_ms (tx s) \<noteq> 0 \<and>
        now_ms - tx_started_ms (tx s) \<ge> maximum_key_ms (tx s) \<longrightarrow>
      tx_owner_of (tx s') = OwnerNone \<and>
      (r = TxMaxKey \<and> tx_state_of (tx s') = StateRx \<or>
       r = TxHardwareError \<and> tx_state_of (tx s') = StateFaulted))"
  using assms
  by (auto simp: tx_control_tick_def tx_stop_owner_def tx_inv_def Let_def not_le
      split: prod.splits if_splits)

theorem tick_watchdog_witness:
  "tx_owner_of (tx (snd (tx_control_tick
       \<lparr>start_callback = None, stop_callback = Some (\<lambda>ow g s. (0, s))\<rparr> 180007
       \<lparr>tx = (tx_control_init True 180000)\<lparr>tx_owner_of := OwnerHttp, tx_started_ms := 7,
             tx_state_of := StateTransmitting\<rparr>\<rparr>))) = OwnerNone"
proof -
  define cb :: "tx_sys tx_callbacks" where
    "cb = \<lparr>start_callback = None, stop_callback = Some (\<lambda>ow g s. (0, s))\<rparr>"
  define s where "s = \<lparr>tx = (tx_control_init True 180000)\<lparr>tx_owner_of := OwnerHttp,
      tx_started_ms := 7, tx_state_of := StateTransmitting\<rparr>\<rparr>"
  have "tx_inv (tx s)" "tx_enabled (tx s)" by (simp_all add: s_def tx_inv_def tx_control_init_def)
  then show ?thesis
    using tick_watchdog [of cb 180007 s, OF surjective_pairing]
    by (simp add: cb_def s_def tx_control_init_def)
qed

end
