(* ===== verification/Station_Owner.thy ===== *)
theory Station_Owner
  imports Flex_Prelude
begin

text \<open>
  The lease discipline shared by the station owner, the Tune control and the network transmit
  session, stated once as an interface, and the model of \<open>src/station_owner.c\<close>.

  A lease is a 64-bit token with the time of its last renewal; it expires when the wrapping
  difference of the millisecond clock reaches the window.
\<close>

subsection \<open>The interface of a leased resource\<close>

text \<open>
  The operations another party can aim at a held lease: a keepalive, which needs the token, and
  the periodic tick.
\<close>

datatype lease_event = Keepalive u64 u64 | LeaseTick u64

fun lease_run ::
  "(u64 \<Rightarrow> u64 \<Rightarrow> 's \<Rightarrow> 's) \<Rightarrow> (u64 \<Rightarrow> 's \<Rightarrow> 's) \<Rightarrow> lease_event list \<Rightarrow> 's \<Rightarrow> 's" where
  "lease_run keepalive tick [] s = s"
| "lease_run keepalive tick (Keepalive l now # es) s = lease_run keepalive tick es (keepalive l now s)"
| "lease_run keepalive tick (LeaseTick now # es) s = lease_run keepalive tick es (tick now s)"

text \<open>No keepalive of the sequence carries the token.\<close>

fun foreign :: "u64 \<Rightarrow> lease_event \<Rightarrow> bool" where
  "foreign token (Keepalive l now) = (l \<noteq> token)"
| "foreign token (LeaseTick now) = True"

locale lease_contract =
  fixes held :: "'s \<Rightarrow> bool" and token :: "'s \<Rightarrow> u64" and renewed :: "'s \<Rightarrow> u64"
    and keepalive :: "u64 \<Rightarrow> u64 \<Rightarrow> 's \<Rightarrow> 's" and tick :: "u64 \<Rightarrow> 's \<Rightarrow> 's" and window :: u64
  assumes keepalive_foreign: "l \<noteq> token s \<Longrightarrow> held s \<Longrightarrow> held (keepalive l now s) \<and>
      token (keepalive l now s) = token s \<and> renewed (keepalive l now s) = renewed s"
    and keepalive_idle: "\<not> held s \<Longrightarrow> \<not> held (keepalive l now s)"
    and tick_idle: "\<not> held s \<Longrightarrow> \<not> held (tick now s)"
    and tick_expired: "window \<le> now - renewed s \<Longrightarrow> \<not> held (tick now s)"
    and tick_frame: "held (tick now s) \<Longrightarrow> token (tick now s) = token s \<and> renewed (tick now s) = renewed s"
begin

lemma run_idle: "\<not> held s \<Longrightarrow> \<not> held (lease_run keepalive tick es s)"
proof (induction es arbitrary: s)
  case (Cons e es)
  then show ?case by (cases e) (simp_all add: keepalive_idle tick_idle)
qed simp

lemma run_foreign:
  assumes "list_all (foreign (token s)) es" and "held (lease_run keepalive tick es s)"
  shows "held s \<and> token (lease_run keepalive tick es s) = token s \<and>
     renewed (lease_run keepalive tick es s) = renewed s"
  using assms
proof (induction es arbitrary: s)
  case Nil
  then show ?case by simp
next
  case (Cons e es)
  have h: "held s" using Cons.prems(2) run_idle by blast
  show ?case
  proof (cases e)
    case (Keepalive l now)
    with Cons.prems have "l \<noteq> token s" by simp
    note f = keepalive_foreign [OF this h, of now]
    have "list_all (foreign (token (keepalive l now s))) es"
      and "held (lease_run keepalive tick es (keepalive l now s))"
      using Cons.prems Keepalive f by simp_all
    from Cons.IH [OF this] f h Keepalive show ?thesis by simp
  next
    case (LeaseTick now)
    with Cons.prems have t: "held (tick now s)" using run_idle by auto
    note f = tick_frame [OF t]
    have "list_all (foreign (token (tick now s))) es"
      and "held (lease_run keepalive tick es (tick now s))"
      using Cons.prems LeaseTick f by simp_all
    from Cons.IH [OF this] f h LeaseTick show ?thesis by simp
  qed
qed

text \<open>Nobody without the token can keep a lease alive, whatever they send and however often.\<close>

lemma unrenewed_expires:
  assumes "list_all (foreign (token s)) es" and "window \<le> now - renewed s"
  shows "\<not> held (lease_run keepalive tick (es @ [LeaseTick now]) s)"
proof -
  have run: "lease_run keepalive tick (es @ [LeaseTick now]) s = tick now (lease_run keepalive tick es s)"
    by (induction keepalive tick es s rule: lease_run.induct) simp_all
  show ?thesis
  proof (cases "held (lease_run keepalive tick es s)")
    case True
    with run_foreign [OF assms(1)] assms(2) show ?thesis by (simp add: run tick_expired)
  next
    case False
    then show ?thesis by (simp add: run tick_idle)
  qed
qed

end

subsection \<open>The station owner\<close>

datatype station_owner_result = StationOk | StationBusy | StationStale | StationInvalid | StationExpired

record station_owner =
  held :: bool
  mode_aware :: bool
  station_lease :: u64
  station_renewed_ms :: u64

abbreviation STATION_OWNER_LEASE_MS :: u64 where "STATION_OWNER_LEASE_MS \<equiv> 15000"

definition station_owner_init :: station_owner where
  "station_owner_init = \<lparr>held = False, mode_aware = False, station_lease = 0, station_renewed_ms = 0\<rparr>"

definition station_owner_matches :: "station_owner \<Rightarrow> u64 \<Rightarrow> bool" where
  "station_owner_matches ow lease \<longleftrightarrow> held ow \<and> lease \<noteq> 0 \<and> station_lease ow = lease"

definition station_owner_acquire_with_mode ::
  "u64 \<Rightarrow> u64 \<Rightarrow> bool \<Rightarrow> station_owner \<Rightarrow> station_owner_result \<times> station_owner" where
  "station_owner_acquire_with_mode lease now_ms aware ow =
     (if lease = 0 then (StationInvalid, ow)
      else if held ow then (StationBusy, ow)
      else (StationOk, ow\<lparr>held := True, mode_aware := aware, station_lease := lease,
                          station_renewed_ms := now_ms\<rparr>))"

definition station_owner_acquire ::
  "u64 \<Rightarrow> u64 \<Rightarrow> station_owner \<Rightarrow> station_owner_result \<times> station_owner" where
  "station_owner_acquire lease now_ms ow = station_owner_acquire_with_mode lease now_ms True ow"

definition station_owner_keepalive ::
  "u64 \<Rightarrow> u64 \<Rightarrow> station_owner \<Rightarrow> station_owner_result \<times> station_owner" where
  "station_owner_keepalive lease now_ms ow =
     (if \<not> station_owner_matches ow lease then (StationStale, ow)
      else (StationOk, ow\<lparr>station_renewed_ms := now_ms\<rparr>))"

definition station_owner_release ::
  "u64 \<Rightarrow> station_owner \<Rightarrow> station_owner_result \<times> station_owner" where
  "station_owner_release lease ow =
     (if \<not> station_owner_matches ow lease then (StationStale, ow)
      else (StationOk, station_owner_init))"

definition station_owner_tick ::
  "u64 \<Rightarrow> station_owner \<Rightarrow> station_owner_result \<times> station_owner" where
  "station_owner_tick now_ms ow =
     (if \<not> held ow then (StationOk, ow)
      else if now_ms - station_renewed_ms ow < STATION_OWNER_LEASE_MS then (StationOk, ow)
      else (StationExpired, station_owner_init))"

interpretation station: lease_contract held station_lease station_renewed_ms
  "\<lambda>l now s. snd (station_owner_keepalive l now s)" "\<lambda>now s. snd (station_owner_tick now s)"
  STATION_OWNER_LEASE_MS
  by unfold_locales
    (auto simp: station_owner_keepalive_def station_owner_tick_def station_owner_matches_def
      station_owner_init_def split: if_splits)

text \<open>
  A held station owner is a lease with a nonzero token: only the owner can renew or release it.
\<close>

definition station_inv :: "station_owner \<Rightarrow> bool" where
  "station_inv ow \<longleftrightarrow> (held ow \<longrightarrow> station_lease ow \<noteq> 0)"

lemma station_inv_preserved:
  "station_inv ow \<Longrightarrow> station_inv (snd (station_owner_acquire_with_mode l now aware ow))"
  "station_inv ow \<Longrightarrow> station_inv (snd (station_owner_keepalive l now ow))"
  "station_inv ow \<Longrightarrow> station_inv (snd (station_owner_release l ow))"
  "station_inv ow \<Longrightarrow> station_inv (snd (station_owner_tick now ow))"
  "station_inv station_owner_init"
  by (simp_all add: station_inv_def station_owner_acquire_with_mode_def
      station_owner_keepalive_def station_owner_release_def station_owner_tick_def
      station_owner_init_def)

text \<open>
  A sequence of the calls the daemon makes, by anyone and at any time, with the result of each.
\<close>

datatype station_event =
    StationAcquire u64 u64 bool | StationRenew u64 u64 | StationRelease u64 | StationTick u64

fun station_call :: "station_event \<Rightarrow> station_owner \<Rightarrow> station_owner_result \<times> station_owner" where
  "station_call (StationAcquire l now aware) ow = station_owner_acquire_with_mode l now aware ow"
| "station_call (StationRenew l now) ow = station_owner_keepalive l now ow"
| "station_call (StationRelease l) ow = station_owner_release l ow"
| "station_call (StationTick now) ow = station_owner_tick now ow"

fun station_run :: "station_event list \<Rightarrow> station_owner \<Rightarrow> station_owner_result list \<times> station_owner" where
  "station_run [] ow = ([], ow)"
| "station_run (e # es) ow =
     (case station_call e ow of (r, ow) \<Rightarrow> case station_run es ow of (rs, ow) \<Rightarrow> (r # rs, ow))"

text \<open>
  The holder does not release, and each tick comes less than a window after its last renewal. The
  last renewal is \<open>last_renewal\<close>, and \<open>station_answers\<close> what each caller is told meanwhile.
\<close>

fun keeps_station :: "u64 \<Rightarrow> u64 \<Rightarrow> station_event list \<Rightarrow> bool" where
  "keeps_station token renewed [] = True"
| "keeps_station token renewed (StationAcquire l now aware # es) = keeps_station token renewed es"
| "keeps_station token renewed (StationRenew l now # es) =
     keeps_station token (if l = token then now else renewed) es"
| "keeps_station token renewed (StationRelease l # es) = (l \<noteq> token \<and> keeps_station token renewed es)"
| "keeps_station token renewed (StationTick now # es) =
     (now - renewed < STATION_OWNER_LEASE_MS \<and> keeps_station token renewed es)"

fun last_renewal :: "u64 \<Rightarrow> u64 \<Rightarrow> station_event list \<Rightarrow> u64" where
  "last_renewal token renewed [] = renewed"
| "last_renewal token renewed (StationRenew l now # es) =
     last_renewal token (if l = token then now else renewed) es"
| "last_renewal token renewed (_ # es) = last_renewal token renewed es"

fun station_answer :: "u64 \<Rightarrow> station_event \<Rightarrow> station_owner_result" where
  "station_answer token (StationAcquire l now aware) = (if l = 0 then StationInvalid else StationBusy)"
| "station_answer token (StationRenew l now) = (if l = token then StationOk else StationStale)"
| "station_answer token (StationRelease l) = StationStale"
| "station_answer token (StationTick now) = StationOk"

text \<open>C34.
  While a client holds the station, nobody else takes it away or changes the holder: through any
  sequence of acquisitions by anyone (the holder included), keepalives by anyone, releases with
  other tokens and ticks of the clock less than a lease (15 s, wrapping) after the holder's last
  renewal, the owner stays as it was but for the time of that renewal; each acquisition is told it
  is busy (a zero token that it is invalid), each foreign keepalive or release that it is stale,
  and each keepalive of the holder and each tick succeeds. A release by the holder then frees it.
\<close>

theorem station_exclusive:
  assumes "held ow" and "station_inv ow"
    and "keeps_station (station_lease ow) (station_renewed_ms ow) es"
  shows "station_run es ow =
      (map (station_answer (station_lease ow)) es,
       ow\<lparr>station_renewed_ms := last_renewal (station_lease ow) (station_renewed_ms ow) es\<rparr>) \<and>
    station_owner_release (station_lease ow) (snd (station_run es ow)) = (StationOk, station_owner_init)"
proof -
  have "station_run es ow =
      (map (station_answer (station_lease ow)) es,
       ow\<lparr>station_renewed_ms := last_renewal (station_lease ow) (station_renewed_ms ow) es\<rparr>)"
    using assms
  proof (induction es arbitrary: ow)
    case (Cons e es)
    have z: "station_lease ow \<noteq> 0" using Cons.prems(1,2) by (simp add: station_inv_def)
    show ?case
    proof (cases e)
      case (StationRenew l now)
      have "station_inv (ow\<lparr>station_renewed_ms := now\<rparr>)"
        using z by (simp add: station_inv_def)
      then show ?thesis
        using Cons.prems Cons.IH [of ow] Cons.IH [of "ow\<lparr>station_renewed_ms := now\<rparr>"] z StationRenew
        by (auto simp: station_owner_keepalive_def station_owner_matches_def)
    qed (use Cons z in \<open>auto simp: station_owner_acquire_with_mode_def station_owner_release_def
        station_owner_matches_def station_owner_tick_def\<close>)
  qed simp
  then show ?thesis
    using assms(1,2) by (simp add: station_owner_release_def station_owner_matches_def station_inv_def)
qed

theorem station_exclusive_witness:
  "station_run [StationTick 15099, StationRelease 8, StationRenew 7 15000, StationAcquire 8 15500 True,
       StationTick 29999] (snd (station_owner_acquire 7 100 station_owner_init)) =
     ([StationOk, StationStale, StationOk, StationBusy, StationOk],
      (snd (station_owner_acquire 7 100 station_owner_init))\<lparr>station_renewed_ms := 15000\<rparr>)"
proof -
  define ow where "ow = snd (station_owner_acquire 7 100 station_owner_init)"
  define es where "es = [StationTick 15099, StationRelease 8, StationRenew 7 15000,
      StationAcquire 8 15500 True, StationTick 29999]"
  have ow: "held ow" "station_inv ow" "station_lease ow = 7" "station_renewed_ms ow = 100"
    by (simp_all add: ow_def station_owner_acquire_def station_owner_acquire_with_mode_def
        station_owner_init_def station_inv_def)
  then have "keeps_station (station_lease ow) (station_renewed_ms ow) es" by (simp add: es_def)
  from station_exclusive [OF ow(1,2) this] show ?thesis
    by (simp add: ow(3,4) es_def flip: ow_def)
qed

text \<open>C35.
  An owner that stops renewing loses the station: after any sequence of ticks and of keepalives
  with other tokens, a tick a full window after the last renewal leaves the station free.
\<close>

theorem station_lease_expires:
  assumes "list_all (foreign (station_lease ow)) es"
    and "STATION_OWNER_LEASE_MS \<le> now - station_renewed_ms ow"
  shows "\<not> held (lease_run (\<lambda>l now s. snd (station_owner_keepalive l now s))
     (\<lambda>now s. snd (station_owner_tick now s)) (es @ [LeaseTick now]) ow)"
  using assms by (rule station.unrenewed_expires)

theorem station_lease_expires_witness:
  "\<not> held (lease_run (\<lambda>l now s. snd (station_owner_keepalive l now s))
     (\<lambda>now s. snd (station_owner_tick now s)) ([LeaseTick 5000, Keepalive 9 9000] @ [LeaseTick 15100])
       (snd (station_owner_acquire 7 100 station_owner_init)))"
  by (rule station_lease_expires)
    (simp_all add: station_owner_acquire_def station_owner_acquire_with_mode_def
      station_owner_init_def)

end
