(* ===== verification/Tune_Control.thy ===== *)
theory Tune_Control
  imports Tx_Control Station_Owner
begin

text \<open>
  Model of \<open>src/tune_control.c\<close>: the leased Tune carrier. It asks the arbiter of \<open>Tx_Control\<close>
  for the transmitter, has to be renewed within 15 s, ends after 60 s whatever is renewed, and
  keeps the transmit diagnostics. The state extends the arbiter's, because the arbiter's
  callbacks reach both. \<open>tune_bound\<close> says that the \<open>tx_control\<close> pointer is not null.
\<close>

subsection \<open>State\<close>

datatype tune_result =
    TuneOk | TuneDisabled | TuneBusy | TuneInvalidLease | TuneExpired | TuneHardLimit
  | TuneHardwareError

record tx_diagnostics =
  d_starts :: u64
  d_stops :: u64
  d_underruns :: u64
  d_clipped_frames :: u64
  d_limited_frames :: u64
  d_dropped_microphone_frames :: u64
  d_peak_queued_frames :: u64
  d_stop_requested_frames :: u64
  d_graceful_drained_frames :: u64
  d_graceful_discarded_frames :: u64
  d_graceful_drain_ms :: u64
  d_rejected_ownership_requests :: u64
  d_watchdog_stops :: u64
  d_cleanup_failures :: u64

record tune_control =
  tune_enabled :: bool
  tune_active :: bool
  tune_lease :: u64
  tune_started_ms :: u64
  tune_renewed_ms :: u64
  tune_bound :: bool
  diagnostics :: tx_diagnostics

record tune_sys = tx_sys +
  tune :: tune_control

abbreviation TUNE_LEASE_MS :: u64 where "TUNE_LEASE_MS \<equiv> 15000"
abbreviation TUNE_HARD_LIMIT_MS :: u64 where "TUNE_HARD_LIMIT_MS \<equiv> 60000"

definition map_tune :: "(tune_control \<Rightarrow> tune_control) \<Rightarrow> 'x tune_sys_scheme \<Rightarrow> 'x tune_sys_scheme" where
  "map_tune f s = s\<lparr>tune := f (tune s)\<rparr>"

definition map_diagnostics ::
  "(tx_diagnostics \<Rightarrow> tx_diagnostics) \<Rightarrow> 'x tune_sys_scheme \<Rightarrow> 'x tune_sys_scheme" where
  "map_diagnostics f = map_tune (\<lambda>c. c\<lparr>diagnostics := f (diagnostics c)\<rparr>)"

lemma map_tune_frame [simp, frame_simps]:
  "tune (map_tune f s) = f (tune s)"
  "tx (map_tune f s) = tx s"
  "tune (map_tx g s) = tune s"
  by (simp_all add: map_tune_def map_tx_def)

lemma map_diagnostics_frame [simp, frame_simps]:
  "tune_enabled (tune (map_diagnostics f s)) = tune_enabled (tune s)"
  "tune_active (tune (map_diagnostics f s)) = tune_active (tune s)"
  "tune_lease (tune (map_diagnostics f s)) = tune_lease (tune s)"
  "tune_started_ms (tune (map_diagnostics f s)) = tune_started_ms (tune s)"
  "tune_renewed_ms (tune (map_diagnostics f s)) = tune_renewed_ms (tune s)"
  "tune_bound (tune (map_diagnostics f s)) = tune_bound (tune s)"
  "tx (map_diagnostics f s) = tx s"
  by (simp_all add: map_diagnostics_def)

definition no_diagnostics :: tx_diagnostics where
  "no_diagnostics =
     \<lparr>d_starts = 0, d_stops = 0, d_underruns = 0, d_clipped_frames = 0, d_limited_frames = 0,
      d_dropped_microphone_frames = 0, d_peak_queued_frames = 0, d_stop_requested_frames = 0,
      d_graceful_drained_frames = 0, d_graceful_discarded_frames = 0, d_graceful_drain_ms = 0,
      d_rejected_ownership_requests = 0, d_watchdog_stops = 0, d_cleanup_failures = 0\<rparr>"

definition count_stop where "count_stop d = d\<lparr>d_stops := d_stops d + 1\<rparr>"
definition count_start where "count_start d = d\<lparr>d_starts := d_starts d + 1\<rparr>"
definition count_watchdog where "count_watchdog d = d\<lparr>d_watchdog_stops := d_watchdog_stops d + 1\<rparr>"
definition count_cleanup_failure where
  "count_cleanup_failure d = d\<lparr>d_cleanup_failures := d_cleanup_failures d + 1\<rparr>"
definition count_rejected where
  "count_rejected d = d\<lparr>d_rejected_ownership_requests := d_rejected_ownership_requests d + 1\<rparr>"

subsection \<open>Operations\<close>

definition tune_control_init :: "bool \<Rightarrow> bool \<Rightarrow> tune_control" where
  "tune_control_init enabled bound =
     \<lparr>tune_enabled = enabled, tune_active = False, tune_lease = 0, tune_started_ms = 0,
      tune_renewed_ms = 0, tune_bound = bound, diagnostics = no_diagnostics\<rparr>"

text \<open>The four fields cleared when a Tune ends.\<close>

definition end_tune :: "tune_control \<Rightarrow> tune_control" where
  "end_tune c = c\<lparr>tune_active := False, tune_lease := 0, tune_started_ms := 0, tune_renewed_ms := 0\<rparr>"

definition tune_stop_active ::
  "('x tune_sys_scheme) tx_callbacks \<Rightarrow> tune_result \<Rightarrow> 'x tune_sys_scheme \<Rightarrow>
   tune_result \<times> 'x tune_sys_scheme" where
  "tune_stop_active cb reason s =
     (if \<not> tune_active (tune s) then (reason, s)
      else
        case (if tune_bound (tune s) then tx_control_release cb OwnerTune s else (TxDisabled, s)) of
          (callback_result, s) \<Rightarrow>
            let s = map_diagnostics count_stop s;
                s = (if reason = TuneExpired \<or> reason = TuneHardLimit
                     then map_diagnostics count_watchdog s else s);
                s = (if callback_result \<noteq> TxOk
                     then map_diagnostics count_cleanup_failure s else s);
                s = map_tune end_tune s
            in (if callback_result = TxOk then reason else TuneHardwareError, s))"

definition tune_control_start ::
  "('x tune_sys_scheme) tx_callbacks \<Rightarrow> u64 \<Rightarrow> u64 \<Rightarrow> 'x tune_sys_scheme \<Rightarrow>
   tune_result \<times> 'x tune_sys_scheme" where
  "tune_control_start cb now_ms lease s =
     (if \<not> tune_enabled (tune s) then (TuneDisabled, s)
      else if tune_active (tune s) then (TuneBusy, map_diagnostics count_rejected s)
      else if lease = 0 \<or> \<not> tune_bound (tune s) then (TuneInvalidLease, s)
      else case tx_control_request cb OwnerTune now_ms s of
        (start_result, s) \<Rightarrow>
          if start_result \<noteq> TxOk
          then (if start_result = TxBusy then TuneBusy else TuneHardwareError,
                if cleanup_failed (tx s) then map_diagnostics count_cleanup_failure s else s)
          else (TuneOk,
                map_diagnostics count_start
                  (map_tune (\<lambda>c. c\<lparr>tune_active := True, tune_lease := lease,
                      tune_started_ms := now_ms, tune_renewed_ms := now_ms\<rparr>) s)))"

definition tune_control_keepalive ::
  "('x tune_sys_scheme) tx_callbacks \<Rightarrow> u64 \<Rightarrow> u64 \<Rightarrow> 'x tune_sys_scheme \<Rightarrow>
   tune_result \<times> 'x tune_sys_scheme" where
  "tune_control_keepalive cb now_ms lease s =
     (if \<not> tune_enabled (tune s) then (TuneDisabled, s)
      else if \<not> tune_active (tune s) \<or> lease = 0 \<or> lease \<noteq> tune_lease (tune s)
        then (TuneInvalidLease, map_diagnostics count_rejected s)
      else if now_ms - tune_started_ms (tune s) \<ge> TUNE_HARD_LIMIT_MS
        then tune_stop_active cb TuneHardLimit s
      else if now_ms - tune_renewed_ms (tune s) \<ge> TUNE_LEASE_MS
        then tune_stop_active cb TuneExpired s
      else (TuneOk, map_tune (\<lambda>c. c\<lparr>tune_renewed_ms := now_ms\<rparr>) s))"

definition tune_control_stop ::
  "('x tune_sys_scheme) tx_callbacks \<Rightarrow> u64 \<Rightarrow> 'x tune_sys_scheme \<Rightarrow>
   tune_result \<times> 'x tune_sys_scheme" where
  "tune_control_stop cb lease s =
     (if \<not> tune_enabled (tune s) then (TuneDisabled, s)
      else if \<not> tune_active (tune s) \<or> lease = 0 \<or> lease \<noteq> tune_lease (tune s)
        then (TuneInvalidLease, map_diagnostics count_rejected s)
      else tune_stop_active cb TuneOk s)"

definition tune_control_tick ::
  "('x tune_sys_scheme) tx_callbacks \<Rightarrow> u64 \<Rightarrow> 'x tune_sys_scheme \<Rightarrow>
   tune_result \<times> 'x tune_sys_scheme" where
  "tune_control_tick cb now_ms s =
     (if \<not> tune_enabled (tune s) then (TuneDisabled, s)
      else if \<not> tune_active (tune s) then (TuneOk, s)
      else if now_ms - tune_started_ms (tune s) \<ge> TUNE_HARD_LIMIT_MS
        then tune_stop_active cb TuneHardLimit s
      else if now_ms - tune_renewed_ms (tune s) \<ge> TUNE_LEASE_MS
        then tune_stop_active cb TuneExpired s
      else (TuneOk, s))"

definition tune_control_reconcile :: "bool \<Rightarrow> 'x tune_sys_scheme \<Rightarrow> 'x tune_sys_scheme" where
  "tune_control_reconcile watchdog_stop s =
     (if \<not> tune_active (tune s) \<or> \<not> tune_bound (tune s) \<or> tx_owner_of (tx s) = OwnerTune then s
      else
        let s = map_tune end_tune s;
            s = map_diagnostics count_stop s
        in if watchdog_stop then map_diagnostics count_watchdog s else s)"

definition tune_control_shutdown ::
  "('x tune_sys_scheme) tx_callbacks \<Rightarrow> 'x tune_sys_scheme \<Rightarrow> 'x tune_sys_scheme" where
  "tune_control_shutdown cb s =
     (if tune_active (tune s) then snd (tune_stop_active cb TuneOk s) else s)"

definition record_underrun :: "u64 \<Rightarrow> tx_diagnostics \<Rightarrow> tx_diagnostics" where
  "record_underrun n d = d\<lparr>d_underruns := d_underruns d + n\<rparr>"

definition record_audio_quality :: "u64 \<Rightarrow> u64 \<Rightarrow> u64 \<Rightarrow> tx_diagnostics \<Rightarrow> tx_diagnostics" where
  "record_audio_quality clipped limited dropped d =
     d\<lparr>d_clipped_frames := d_clipped_frames d + clipped,
       d_limited_frames := d_limited_frames d + limited,
       d_dropped_microphone_frames := d_dropped_microphone_frames d + dropped\<rparr>"

definition record_graceful_drain ::
  "u64 \<Rightarrow> u64 \<Rightarrow> u64 \<Rightarrow> u64 \<Rightarrow> u64 \<Rightarrow> tx_diagnostics \<Rightarrow> tx_diagnostics" where
  "record_graceful_drain peak requested drained discarded ms d =
     d\<lparr>d_peak_queued_frames := (if peak > d_peak_queued_frames d then peak
                                else d_peak_queued_frames d),
       d_stop_requested_frames := d_stop_requested_frames d + requested,
       d_graceful_drained_frames := d_graceful_drained_frames d + drained,
       d_graceful_discarded_frames := d_graceful_discarded_frames d + discarded,
       d_graceful_drain_ms := d_graceful_drain_ms d + ms\<rparr>"

definition tune_result_name :: "tune_result \<Rightarrow> string" where
  "tune_result_name r =
     (case r of TuneOk \<Rightarrow> ''ok'' | TuneDisabled \<Rightarrow> ''disabled'' | TuneBusy \<Rightarrow> ''busy''
      | TuneInvalidLease \<Rightarrow> ''invalid_lease'' | TuneExpired \<Rightarrow> ''expired''
      | TuneHardLimit \<Rightarrow> ''hard_limit'' | TuneHardwareError \<Rightarrow> ''hardware_error'')"

subsection \<open>The Tune lease\<close>

lemma stop_active_inactive [simp]:
  "\<not> tune_active (tune (snd (tune_stop_active cb reason s)))"
  by (simp add: tune_stop_active_def end_tune_def Let_def split: prod.splits)

interpretation tune_hold: lease_contract "\<lambda>s. tune_enabled (tune s) \<and> tune_active (tune s)"
  "\<lambda>s. tune_lease (tune s)" "\<lambda>s. tune_renewed_ms (tune s)"
  "\<lambda>l now s. snd (tune_control_keepalive cb now l s)" "\<lambda>now s. snd (tune_control_tick cb now s)"
  TUNE_LEASE_MS
  for cb :: "('x tune_sys_scheme) tx_callbacks"
  by unfold_locales
    (auto simp: tune_control_keepalive_def tune_control_tick_def split: if_splits)

text \<open>A sequence of keepalives and ticks.\<close>

definition tune_run ::
  "('x tune_sys_scheme) tx_callbacks \<Rightarrow> lease_event list \<Rightarrow> 'x tune_sys_scheme \<Rightarrow> 'x tune_sys_scheme" where
  "tune_run cb = lease_run (\<lambda>l now s. snd (tune_control_keepalive cb now l s))
     (\<lambda>now s. snd (tune_control_tick cb now s))"

lemma tune_run_simps [simp]:
  "tune_run cb [] s = s"
  "tune_run cb (Keepalive l now # es) s = tune_run cb es (snd (tune_control_keepalive cb now l s))"
  "tune_run cb (LeaseTick now # es) s = tune_run cb es (snd (tune_control_tick cb now s))"
  by (simp_all add: tune_run_def)

lemma tune_run_tick:
  "tune_run cb (es @ [LeaseTick now]) s = snd (tune_control_tick cb now (tune_run cb es s))"
proof (induction es arbitrary: s)
  case (Cons e es)
  then show ?case by (cases e) simp_all
qed simp

lemma tune_event_started:
  "tune_active (tune (snd (tune_control_keepalive cb now l s))) \<Longrightarrow>
     tune_active (tune s) \<and>
     tune_started_ms (tune (snd (tune_control_keepalive cb now l s))) = tune_started_ms (tune s) \<and>
     tune_enabled (tune (snd (tune_control_keepalive cb now l s))) = tune_enabled (tune s)"
  "tune_active (tune (snd (tune_control_tick cb now s))) \<Longrightarrow>
     tune_active (tune s) \<and>
     tune_started_ms (tune (snd (tune_control_tick cb now s))) = tune_started_ms (tune s) \<and>
     tune_enabled (tune (snd (tune_control_tick cb now s))) = tune_enabled (tune s)"
  by (auto simp: tune_control_keepalive_def tune_control_tick_def split: if_splits)

lemma tune_run_started:
  "tune_active (tune (tune_run cb es s)) \<Longrightarrow>
     tune_active (tune s) \<and> tune_started_ms (tune (tune_run cb es s)) = tune_started_ms (tune s) \<and>
     tune_enabled (tune (tune_run cb es s)) = tune_enabled (tune s)"
proof (induction es arbitrary: s)
  case (Cons e es)
  then show ?case by (cases e) (auto dest: tune_event_started)
qed simp

text \<open>
  A Tune whose client stops renewing ends: after any sequence of ticks and of keepalives with
  other tokens, a tick a full lease after the last renewal leaves it inactive, whatever the
  hardware callbacks do.
\<close>

theorem tune_lease_expires:
  assumes "tune_enabled (tune s)" and "list_all (foreign (tune_lease (tune s))) es"
    and "TUNE_LEASE_MS \<le> now - tune_renewed_ms (tune s)"
  shows "\<not> tune_active (tune (tune_run cb (es @ [LeaseTick now]) s))"
  using tune_hold.unrenewed_expires [OF assms(2,3), of cb] assms(1)
    tune_run_started [of cb "es @ [LeaseTick now]" s]
  by (auto simp: tune_run_def)

theorem tune_lease_expires_witness:
  "\<not> tune_active (tune (tune_run \<lparr>start_callback = None, stop_callback = None\<rparr>
       ([Keepalive 9 14000] @ [LeaseTick 15200])
       \<lparr>tx = tx_control_init True 180000,
        tune = (tune_control_init True True)
           \<lparr>tune_active := True, tune_lease := 7, tune_renewed_ms := 200\<rparr>\<rparr>))"
  by (rule tune_lease_expires) (simp_all add: tune_control_init_def)

text \<open>
  The carrier stops through the arbiter: the stop callback is called once, for the Tune, on the
  hardware as it was, what it returns decides between \<open>StateRx\<close> and a recorded fault, and nobody
  owns the transmitter any more. The hardware is the part of the state behind the two controls.
\<close>

definition carrier_stopped ::
  "('x tune_sys_scheme) tx_callbacks \<Rightarrow> 'x \<Rightarrow> 'x tune_sys_scheme \<Rightarrow> bool" where
  "carrier_stopped cb hardware s \<longleftrightarrow>
     \<not> tune_active (tune s) \<and> tx_owner_of (tx s) = OwnerNone \<and>
     (\<exists>u v r. call_stop cb OwnerTune False u = (r, v) \<and> tune_sys.more u = hardware \<and>
        tune_sys.more s = tune_sys.more v \<and>
        tx_state_of (tx s) = (if r = 0 then StateRx else StateFaulted))"

definition carrier_held :: "'x tune_sys_scheme \<Rightarrow> 'x tune_sys_scheme \<Rightarrow> bool" where
  "carrier_held s s' \<longleftrightarrow> tune_enabled (tune s') \<and> tune_bound (tune s') \<and> tune_active (tune s') \<and>
     tune_started_ms (tune s') = tune_started_ms (tune s) \<and> tx s' = tx s \<and>
     tune_sys.more s' = tune_sys.more s"

lemma more_maps [simp]:
  "tune_sys.more (map_tx f s) = tune_sys.more s"
  "tune_sys.more (map_tune g s) = tune_sys.more s"
  "tune_sys.more (map_diagnostics d s) = tune_sys.more s"
  by (simp_all add: map_tx_def map_tune_def map_diagnostics_def)

lemma stop_active_stops:
  assumes "carrier_held s0 s" and "tx_owner_of (tx s0) = OwnerTune" and "tx_enabled (tx s0)"
  shows "carrier_stopped cb (tune_sys.more s0) (snd (tune_stop_active cb reason s))"
proof -
  define u where "u = map_tx (\<lambda>c. c\<lparr>tx_state_of := StateUnkeying\<rparr>) s"
  obtain r v where v: "call_stop cb OwnerTune False u = (r, v)" by fastforce
  have "tune_sys.more u = tune_sys.more s0"
    using assms(1) by (simp add: u_def carrier_held_def)
  moreover define w where "w = map_tx (\<lambda>c. c\<lparr>cleanup_failed := (r \<noteq> 0), tx_owner_of := OwnerNone,
      tx_started_ms := 0, tx_state_of := (if r = 0 then StateRx else StateFaulted)\<rparr>) v"
  have "tx_control_release cb OwnerTune s = (if r = 0 then TxOk else TxHardwareError, w)"
    using assms v by (simp add: carrier_held_def tx_control_release_def valid_owner_def
        tx_stop_owner_def Let_def u_def [symmetric] w_def)
  then have "tune_sys.more (snd (tune_stop_active cb reason s)) = tune_sys.more v"
    "tx (snd (tune_stop_active cb reason s)) = tx w"
    using assms(1) by (simp_all add: carrier_held_def tune_stop_active_def Let_def w_def)
  ultimately show ?thesis using v by (auto simp: carrier_stopped_def w_def)
qed

lemma tune_event_carrier:
  assumes "tx_owner_of (tx s0) = OwnerTune" and "tx_enabled (tx s0)"
    and "carrier_held s0 s \<or> carrier_stopped cb (tune_sys.more s0) s"
  shows "carrier_held s0 (snd (tune_control_keepalive cb now l s)) \<or>
      carrier_stopped cb (tune_sys.more s0) (snd (tune_control_keepalive cb now l s))"
    and "carrier_held s0 (snd (tune_control_tick cb now s)) \<or>
      carrier_stopped cb (tune_sys.more s0) (snd (tune_control_tick cb now s))"
  using assms(3) stop_active_stops [OF _ assms(1,2), of s cb]
  by (auto simp: tune_control_keepalive_def tune_control_tick_def)
    (auto simp: carrier_held_def carrier_stopped_def map_diagnostics_def map_tune_def)

lemma tune_run_carrier:
  assumes "tx_owner_of (tx s0) = OwnerTune" and "tx_enabled (tx s0)"
  shows "carrier_held s0 s \<or> carrier_stopped cb (tune_sys.more s0) s \<Longrightarrow>
    carrier_held s0 (tune_run cb es s) \<or> carrier_stopped cb (tune_sys.more s0) (tune_run cb es s)"
proof (induction es arbitrary: s)
  case (Cons e es)
  show ?case
    using Cons.IH [OF tune_event_carrier(1) [OF assms Cons.prems]]
      Cons.IH [OF tune_event_carrier(2) [OF assms Cons.prems]]
    by (cases e) simp_all
qed simp

text \<open>C36.
  No renewal stretches a Tune carrier past the hard limit: however often anyone, the owner included,
  renews it and whatever ticks came before, after a tick 60 s after its start the carrier has been
  stopped - the arbiter called the hardware's stop exactly once, nobody owns the transmitter, the
  Tune is inactive, and a stop that failed is a recorded fault.
\<close>

theorem tune_hard_limit:
  assumes "tune_enabled (tune s)" and "tune_bound (tune s)" and "tune_active (tune s)"
    and "tx_enabled (tx s)" and "tx_owner_of (tx s) = OwnerTune"
    and "TUNE_HARD_LIMIT_MS \<le> now - tune_started_ms (tune s)"
  shows "carrier_stopped cb (tune_sys.more s) (tune_run cb (es @ [LeaseTick now]) s)"
proof -
  have "carrier_held s s" using assms(1-3) by (simp add: carrier_held_def)
  then consider "carrier_held s (tune_run cb es s)" | "carrier_stopped cb (tune_sys.more s) (tune_run cb es s)"
    using tune_run_carrier [OF assms(5,4)] by blast
  then show ?thesis
  proof cases
    case 1
    then have "tune_control_tick cb now (tune_run cb es s) = tune_stop_active cb TuneHardLimit (tune_run cb es s)"
      using assms(6) by (simp add: tune_control_tick_def carrier_held_def)
    then show ?thesis using stop_active_stops [OF 1 assms(5,4)] by (simp add: tune_run_tick)
  next
    case 2
    then show ?thesis by (simp add: tune_run_tick tune_control_tick_def carrier_stopped_def)
  qed
qed

text \<open>The hardware is whether the radio is keyed.\<close>

theorem tune_hard_limit_witness:
  "let s' = tune_run \<lparr>start_callback = None, stop_callback = Some (\<lambda>ow g s. (0, tune_sys.more_update (\<lambda>_. False) s))\<rparr>
      ([Keepalive 7 14000, Keepalive 7 28000, Keepalive 7 42000, Keepalive 7 56000] @ [LeaseTick 60000])
      \<lparr>tx = (tx_control_init True 180000)\<lparr>tx_owner_of := OwnerTune, tx_state_of := StateTransmitting\<rparr>,
       tune = (tune_control_init True True)\<lparr>tune_active := True, tune_lease := 7\<rparr>, \<dots> = True\<rparr>
   in \<not> tune_active (tune s') \<and> tx_owner_of (tx s') = OwnerNone \<and> \<not> tune_sys.more s'"
proof -
  define s :: "bool tune_sys_scheme" where
    "s = \<lparr>tx = (tx_control_init True 180000)\<lparr>tx_owner_of := OwnerTune, tx_state_of := StateTransmitting\<rparr>,
       tune = (tune_control_init True True)\<lparr>tune_active := True, tune_lease := 7\<rparr>, \<dots> = True\<rparr>"
  have "tune_enabled (tune s)" "tune_bound (tune s)" "tune_active (tune s)" "tx_enabled (tx s)"
    "tx_owner_of (tx s) = OwnerTune" "TUNE_HARD_LIMIT_MS \<le> 60000 - tune_started_ms (tune s)"
    by (simp_all add: s_def tune_control_init_def tx_control_init_def)
  note t = tune_hard_limit [OF this]
  have "\<not> tune_active (tune s') \<and> tx_owner_of (tx s') = OwnerNone \<and> \<not> tune_sys.more s'"
    if "carrier_stopped \<lparr>start_callback = None, stop_callback = Some (\<lambda>ow g s. (0, tune_sys.more_update (\<lambda>_. False) s))\<rparr>
      (tune_sys.more s) s'" for s'
    using that by (auto simp: carrier_stopped_def call_stop_def)
  from this [OF t] show ?thesis unfolding s_def Let_def .
qed

end
