(* ===== verification/Network_Tx.thy ===== *)
theory Network_Tx
  imports Tune_Control
begin

text \<open>
  Model of \<open>src/network_tx.c\<close>: the reservation of the transmitter by a network client, its
  stream, the prebuffer count and its PTT. The state extends the Tune control's.
  \<open>net_bound\<close> says that the session's \<open>tx_control\<close> pointer is not null; \<open>size_t\<close> counts are
  natural numbers, and the only one that is kept is bounded by 4096 (\<open>net_inv\<close>).
\<close>

subsection \<open>State\<close>

datatype network_tx_source = SourceAudio | SourceIq
datatype network_tx_mode = NetUsb | NetLsb | NetAm | NetIqMode
datatype network_tx_result =
    NetOk | NetDisabled | NetBusy | NetInvalid | NetStale | NetNotReady | NetHardwareError
  | NetExpired

record network_tx_profile =
  profile_mode :: network_tx_mode
  profile_source :: network_tx_source
  profile_drive_percent :: u32
  profile_sample_rate :: u32

record network_tx =
  net_enabled :: bool
  reserved :: bool
  stream_connected :: bool
  net_keyed :: bool
  net_lease :: u64
  net_renewed_ms :: u64
  last_data_ms :: u64
  buffered_frames :: nat
  profile :: network_tx_profile
  net_bound :: bool

record net_sys = tune_sys +
  net :: network_tx

abbreviation NETWORK_TX_LEASE_MS :: u64 where "NETWORK_TX_LEASE_MS \<equiv> 15000"
abbreviation NETWORK_TX_MIN_PREBUFFER_FRAMES :: nat where "NETWORK_TX_MIN_PREBUFFER_FRAMES \<equiv> 4096"
abbreviation TX_MIN_DRIVE_PERCENT :: u32 where "TX_MIN_DRIVE_PERCENT \<equiv> 1"
abbreviation TX_DEFAULT_DRIVE_PERCENT :: u32 where "TX_DEFAULT_DRIVE_PERCENT \<equiv> 100"
abbreviation TX_MAX_DRIVE_PERCENT :: u32 where "TX_MAX_DRIVE_PERCENT \<equiv> 100"

definition map_net :: "(network_tx \<Rightarrow> network_tx) \<Rightarrow> 'x net_sys_scheme \<Rightarrow> 'x net_sys_scheme" where
  "map_net f s = s\<lparr>net := f (net s)\<rparr>"

lemma map_net_frame [simp, frame_simps]:
  "net (map_net f s) = f (net s)"
  "tune (map_net f s) = tune s"
  "tx (map_net f s) = tx s"
  "net (map_tune h s) = net s"
  "net (map_tx g s) = net s"
  by (simp_all add: map_net_def map_tune_def map_tx_def)

lemma net_map_diagnostics [simp, frame_simps]: "net (map_diagnostics f s) = net s"
  by (simp add: map_diagnostics_def)

subsection \<open>Operations\<close>

definition valid_profile :: "network_tx_profile \<Rightarrow> bool" where
  "valid_profile p =
     (if profile_drive_percent p < TX_MIN_DRIVE_PERCENT \<or>
         profile_drive_percent p > TX_MAX_DRIVE_PERCENT \<or> profile_sample_rate p \<noteq> 48000 then False
      else (profile_source p = SourceAudio \<and>
              (profile_mode p = NetUsb \<or> profile_mode p = NetLsb \<or> profile_mode p = NetAm)) \<or>
           (profile_source p = SourceIq \<and> profile_mode p = NetIqMode))"

definition net_owns :: "network_tx \<Rightarrow> u64 \<Rightarrow> bool" where
  "net_owns n lease \<longleftrightarrow> reserved n \<and> lease \<noteq> 0 \<and> net_lease n = lease"

text \<open>All bytes zero except \<open>enabled\<close> and \<open>tx_control\<close>.\<close>

definition blank_session :: "bool \<Rightarrow> bool \<Rightarrow> network_tx" where
  "blank_session enabled bound =
     \<lparr>net_enabled = enabled, reserved = False, stream_connected = False, net_keyed = False,
      net_lease = 0, net_renewed_ms = 0, last_data_ms = 0, buffered_frames = 0,
      profile = \<lparr>profile_mode = NetUsb, profile_source = SourceAudio,
                 profile_drive_percent = 0, profile_sample_rate = 0\<rparr>, net_bound = bound\<rparr>"

definition net_release ::
  "bool \<Rightarrow> ('x net_sys_scheme) tx_callbacks \<Rightarrow> 'x net_sys_scheme \<Rightarrow>
   tx_control_result \<times> 'x net_sys_scheme" where
  "net_release graceful cb s =
     (if \<not> net_bound (net s) then (TxDisabled, s)
      else if graceful then tx_control_release_graceful cb OwnerHttp s
      else tx_control_release cb OwnerHttp s)"

definition stop_if_keyed ::
  "('x net_sys_scheme) tx_callbacks \<Rightarrow> 'x net_sys_scheme \<Rightarrow> network_tx_result \<times> 'x net_sys_scheme" where
  "stop_if_keyed cb s =
     (if \<not> net_keyed (net s) then (NetOk, s)
      else case net_release False cb s of (result, s) \<Rightarrow>
        (if result = TxOk then NetOk else NetHardwareError, map_net (\<lambda>n. n\<lparr>net_keyed := False\<rparr>) s))"

definition clear_session :: "network_tx \<Rightarrow> network_tx" where
  "clear_session n = blank_session (net_enabled n) (net_bound n)"

definition network_tx_init :: "bool \<Rightarrow> bool \<Rightarrow> network_tx" where
  "network_tx_init enabled bound = blank_session enabled bound"

definition network_tx_acquire ::
  "network_tx_profile \<Rightarrow> u64 \<Rightarrow> u64 \<Rightarrow> 'x net_sys_scheme \<Rightarrow> network_tx_result \<times> 'x net_sys_scheme" where
  "network_tx_acquire p lease now_ms s =
     (if \<not> net_enabled (net s) \<or> \<not> net_bound (net s) \<or> \<not> tx_enabled (tx s) then (NetDisabled, s)
      else if \<not> valid_profile p \<or> lease = 0 then (NetInvalid, s)
      else if reserved (net s) \<or> tx_owner_of (tx s) \<noteq> OwnerNone then (NetBusy, s)
      else (NetOk, map_net (\<lambda>n. n\<lparr>reserved := True, net_lease := lease, net_renewed_ms := now_ms,
                                 last_data_ms := now_ms, profile := p\<rparr>) s))"

definition network_tx_keepalive ::
  "u64 \<Rightarrow> u64 \<Rightarrow> 'x net_sys_scheme \<Rightarrow> network_tx_result \<times> 'x net_sys_scheme" where
  "network_tx_keepalive lease now_ms s =
     (if \<not> net_owns (net s) lease then (NetStale, s)
      else (NetOk, map_net (\<lambda>n. n\<lparr>net_renewed_ms := now_ms\<rparr>) s))"

definition network_tx_attach_stream ::
  "u64 \<Rightarrow> u64 \<Rightarrow> 'x net_sys_scheme \<Rightarrow> network_tx_result \<times> 'x net_sys_scheme" where
  "network_tx_attach_stream lease now_ms s =
     (if \<not> net_owns (net s) lease then (NetStale, s)
      else if stream_connected (net s) then (NetBusy, s)
      else (NetOk, map_net (\<lambda>n. n\<lparr>stream_connected := True, buffered_frames := 0,
                                 last_data_ms := now_ms\<rparr>) s))"

definition network_tx_record_data ::
  "u64 \<Rightarrow> nat \<Rightarrow> u64 \<Rightarrow> 'x net_sys_scheme \<Rightarrow> network_tx_result \<times> 'x net_sys_scheme" where
  "network_tx_record_data lease frames now_ms s =
     (if \<not> net_owns (net s) lease then (NetStale, s)
      else if \<not> stream_connected (net s) \<or> frames = 0 then (NetInvalid, s)
      else
        let room = NETWORK_TX_MIN_PREBUFFER_FRAMES - buffered_frames (net s);
            s = (if buffered_frames (net s) < NETWORK_TX_MIN_PREBUFFER_FRAMES
                 then map_net (\<lambda>n. n\<lparr>buffered_frames :=
                        buffered_frames n + (if frames < room then frames else room)\<rparr>) s
                 else s)
        in (NetOk, map_net (\<lambda>n. n\<lparr>last_data_ms := now_ms\<rparr>) s))"

definition network_tx_ptt_start ::
  "('x net_sys_scheme) tx_callbacks \<Rightarrow> u64 \<Rightarrow> u64 \<Rightarrow> 'x net_sys_scheme \<Rightarrow>
   network_tx_result \<times> 'x net_sys_scheme" where
  "network_tx_ptt_start cb lease now_ms s =
     (if \<not> net_owns (net s) lease then (NetStale, s)
      else if \<not> stream_connected (net s) \<or>
              buffered_frames (net s) < NETWORK_TX_MIN_PREBUFFER_FRAMES then (NetNotReady, s)
      else if net_keyed (net s) then (NetOk, s)
      else case (if net_bound (net s) then tx_control_request cb OwnerHttp now_ms s
                 else (TxDisabled, s)) of
        (result, s) \<Rightarrow>
          if result = TxBusy then (NetBusy, s)
          else if result \<noteq> TxOk then (NetHardwareError, s)
          else (NetOk, map_net (\<lambda>n. n\<lparr>net_keyed := True, net_renewed_ms := now_ms\<rparr>) s))"

definition network_tx_ptt_stop ::
  "('x net_sys_scheme) tx_callbacks \<Rightarrow> u64 \<Rightarrow> 'x net_sys_scheme \<Rightarrow>
   network_tx_result \<times> 'x net_sys_scheme" where
  "network_tx_ptt_stop cb lease s =
     (if \<not> net_owns (net s) lease then (NetStale, s)
      else if \<not> net_keyed (net s) then (NetOk, s)
      else case net_release True cb s of (stopped, s) \<Rightarrow>
        (if stopped = TxOk then NetOk else NetHardwareError,
         map_net (\<lambda>n. n\<lparr>net_keyed := False, buffered_frames := 0\<rparr>) s))"

definition network_tx_release ::
  "('x net_sys_scheme) tx_callbacks \<Rightarrow> u64 \<Rightarrow> 'x net_sys_scheme \<Rightarrow>
   network_tx_result \<times> 'x net_sys_scheme" where
  "network_tx_release cb lease s =
     (if \<not> net_owns (net s) lease then (NetStale, s)
      else case stop_if_keyed cb s of (result, s) \<Rightarrow> (result, map_net clear_session s))"

definition network_tx_disconnect_stream ::
  "('x net_sys_scheme) tx_callbacks \<Rightarrow> 'x net_sys_scheme \<Rightarrow> network_tx_result \<times> 'x net_sys_scheme" where
  "network_tx_disconnect_stream cb s =
     (if \<not> reserved (net s) then (NetOk, s)
      else case stop_if_keyed cb s of (result, s) \<Rightarrow>
        (result, map_net (\<lambda>n. n\<lparr>stream_connected := False, buffered_frames := 0\<rparr>) s))"

definition network_tx_tick ::
  "('x net_sys_scheme) tx_callbacks \<Rightarrow> u64 \<Rightarrow> 'x net_sys_scheme \<Rightarrow>
   network_tx_result \<times> 'x net_sys_scheme" where
  "network_tx_tick cb now_ms s =
     (if \<not> reserved (net s) then (NetOk, s)
      else if \<not> (now_ms - net_renewed_ms (net s) \<ge> NETWORK_TX_LEASE_MS) then (NetOk, s)
      else case stop_if_keyed cb s of (stopped, s) \<Rightarrow>
        (if stopped \<noteq> NetOk then stopped else NetExpired, map_net clear_session s))"

definition network_tx_reconcile :: "'x net_sys_scheme \<Rightarrow> 'x net_sys_scheme" where
  "network_tx_reconcile s =
     (if reserved (net s) \<and> net_keyed (net s) \<and>
         (\<not> net_bound (net s) \<or> tx_owner_of (tx s) \<noteq> OwnerHttp)
      then map_net clear_session s else s)"

definition network_tx_result_name :: "network_tx_result \<Rightarrow> string" where
  "network_tx_result_name r =
     (case r of NetOk \<Rightarrow> ''ok'' | NetDisabled \<Rightarrow> ''disabled'' | NetBusy \<Rightarrow> ''busy''
      | NetInvalid \<Rightarrow> ''invalid'' | NetStale \<Rightarrow> ''stale'' | NetNotReady \<Rightarrow> ''not_ready''
      | NetHardwareError \<Rightarrow> ''hardware_error'' | NetExpired \<Rightarrow> ''expired'')"

subsection \<open>The session lease\<close>

interpretation net_hold: lease_contract "\<lambda>s. reserved (net s)" "\<lambda>s. net_lease (net s)"
  "\<lambda>s. net_renewed_ms (net s)" "\<lambda>l now s. snd (network_tx_keepalive l now s)"
  "\<lambda>now s. snd (network_tx_tick cb now s)" NETWORK_TX_LEASE_MS
  for cb :: "('x net_sys_scheme) tx_callbacks"
  by unfold_locales
    (auto simp: network_tx_keepalive_def network_tx_tick_def net_owns_def clear_session_def
      blank_session_def split: if_splits prod.splits)

end
