(* ===== verification/Sessions.thy ===== *)
theory Sessions
  imports Network_Tx
begin

text \<open>
  How the arbiter, the Tune control and the network session fit together. The daemon gives all
  three the same hardware callbacks and drives them from one loop; here are the contract its
  callbacks have to keep (\<open>session_backend\<close>), the invariant that ties the owner of the
  transmitter to the session that holds it, and the step relation of the loop's calls.
\<close>

text \<open>The Tune control without its counters, which the callbacks may bump.\<close>

definition tune_core :: "tune_control \<Rightarrow> tune_control" where
  "tune_core c = c\<lparr>diagnostics := no_diagnostics\<rparr>"

lemma tune_core_eqD:
  assumes "tune_core c = tune_core c'"
  shows "tune_enabled c = tune_enabled c'" "tune_active c = tune_active c'"
    "tune_lease c = tune_lease c'" "tune_started_ms c = tune_started_ms c'"
    "tune_renewed_ms c = tune_renewed_ms c'" "tune_bound c = tune_bound c'"
  using assms by (cases c; cases c'; simp add: tune_core_def)+

definition net_inv :: "network_tx \<Rightarrow> bool" where
  "net_inv n \<longleftrightarrow>
     (reserved n \<longrightarrow> net_lease n \<noteq> 0 \<and> net_bound n \<and> valid_profile (profile n)) \<and>
     (stream_connected n \<longrightarrow> reserved n) \<and>
     (net_keyed n \<longrightarrow> stream_connected n \<and> buffered_frames n = NETWORK_TX_MIN_PREBUFFER_FRAMES) \<and>
     buffered_frames n \<le> NETWORK_TX_MIN_PREBUFFER_FRAMES"

definition session_inv :: "'x net_sys_scheme \<Rightarrow> bool" where
  "session_inv s \<longleftrightarrow>
     (tx_owner_of (tx s) = OwnerTune \<longrightarrow> tune_active (tune s)) \<and>
     (tx_owner_of (tx s) = OwnerHttp \<longrightarrow> net_keyed (net s)) \<and>
     (tune_active (tune s) \<longrightarrow> tune_lease (tune s) \<noteq> 0 \<and> tune_bound (tune s)) \<and>
     net_inv (net s)"

text \<open>What the operations of the arbiter leave alone, and whom they can leave in charge.\<close>

definition same_sessions :: "'x net_sys_scheme \<Rightarrow> 'x net_sys_scheme \<Rightarrow> bool" where
  "same_sessions s s' \<longleftrightarrow> net s' = net s \<and> tune_core (tune s') = tune_core (tune s)"

lemma same_sessions_refl [simp]: "same_sessions s s"
  by (simp add: same_sessions_def)

lemma same_sessions_trans: "same_sessions s t \<Longrightarrow> same_sessions t u \<Longrightarrow> same_sessions s u"
  by (simp add: same_sessions_def)

lemma same_sessions_map_tx [simp]:
  "same_sessions s (map_tx f t) \<longleftrightarrow> same_sessions s t"
  "same_sessions (map_tx f s) t \<longleftrightarrow> same_sessions s t"
  by (simp_all add: same_sessions_def)

lemma session_inv_frame:
  assumes "session_inv s" and "same_sessions s s'"
    and "tx_owner_of (tx s') \<in> {tx_owner_of (tx s), OwnerNone, OwnerPhysicalMic}"
  shows "session_inv s'"
  using assms tune_core_eqD [of "tune s'" "tune s"]
  by (auto simp: session_inv_def same_sessions_def)

text \<open>The calls the daemon makes, with any arguments and at any time.\<close>

inductive session_step ::
  "('x net_sys_scheme) tx_callbacks \<Rightarrow> ('x net_sys_scheme \<Rightarrow> 'x net_sys_scheme \<Rightarrow> bool) \<Rightarrow>
   'x net_sys_scheme \<Rightarrow> 'x net_sys_scheme \<Rightarrow> bool"
  for cb env where
  Arm: "session_step cb env s (tx_control_arm_physical_ptt s)"
| Ptt: "session_step cb env s (snd (tx_control_physical_ptt cb pressed now s))"
| Tx_tick: "session_step cb env s (snd (tx_control_tick cb now s))"
| Tx_shutdown: "session_step cb env s (tx_control_shutdown cb s)"
| Set_timeout: "session_step cb env s (map_tx (\<lambda>c. snd (tx_control_set_timeout_seconds seconds c)) s)"
| Tune_start: "session_step cb env s (snd (tune_control_start cb now lease s))"
| Tune_keepalive: "session_step cb env s (snd (tune_control_keepalive cb now lease s))"
| Tune_stop: "session_step cb env s (snd (tune_control_stop cb lease s))"
| Tune_tick: "session_step cb env s (snd (tune_control_tick cb now s))"
| Tune_shutdown: "session_step cb env s (tune_control_shutdown cb s)"
| Tune_reconcile: "session_step cb env s (tune_control_reconcile watchdog s)"
| Net_acquire: "session_step cb env s (snd (network_tx_acquire p lease now s))"
| Net_keepalive: "session_step cb env s (snd (network_tx_keepalive lease now s))"
| Net_attach: "session_step cb env s (snd (network_tx_attach_stream lease now s))"
| Net_data: "session_step cb env s (snd (network_tx_record_data lease frames now s))"
| Net_ptt_start: "session_step cb env s (snd (network_tx_ptt_start cb lease now s))"
| Net_ptt_stop: "session_step cb env s (snd (network_tx_ptt_stop cb lease s))"
| Net_release: "session_step cb env s (snd (network_tx_release cb lease s))"
| Net_disconnect: "session_step cb env s (snd (network_tx_disconnect_stream cb s))"
| Net_tick: "session_step cb env s (snd (network_tx_tick cb now s))"
| Net_reconcile: "session_step cb env s (network_tx_reconcile s)"
| Env: "env s s' \<Longrightarrow> session_step cb env s s'"

inductive session_reachable ::
  "('x net_sys_scheme) tx_callbacks \<Rightarrow> ('x net_sys_scheme \<Rightarrow> 'x net_sys_scheme \<Rightarrow> bool) \<Rightarrow>
   'x net_sys_scheme \<Rightarrow> 'x net_sys_scheme \<Rightarrow> bool"
  for cb env s0 where
  Init: "session_reachable cb env s0 s0"
| Step: "session_reachable cb env s0 s \<Longrightarrow> session_step cb env s s' \<Longrightarrow> session_reachable cb env s0 s'"

locale session_backend =
  tx_backend cb env keyed tracked
  for cb :: "('x net_sys_scheme) tx_callbacks" and env keyed tracked +
  assumes start_sessions: "same_sessions s (snd (call_start cb ow s))"
    and stop_sessions: "same_sessions s (snd (call_stop cb ow graceful s))"
    and env_sessions: "env s s' \<Longrightarrow> same_sessions s s'"
    and keyed_sessions: "keyed (map_tune f s) = keyed s" "keyed (map_net g s) = keyed s"
    and tracked_sessions: "tracked (map_tune f s) = tracked s" "tracked (map_net g s) = tracked s"
begin

lemma keyed_map_diagnostics: "keyed (map_diagnostics f s) = keyed s" "tracked (map_diagnostics f s) = tracked s"
  by (simp_all add: map_diagnostics_def keyed_sessions tracked_sessions)

lemma safe_map_sessions [simp]:
  "tx_safe keyed tracked (map_tune f s) = tx_safe keyed tracked s"
  "tx_safe keyed tracked (map_net g s) = tx_safe keyed tracked s"
  "tx_safe keyed tracked (map_diagnostics h s) = tx_safe keyed tracked s"
  by (simp_all add: tx_safe_def keyed_sessions tracked_sessions keyed_map_diagnostics)

lemma stop_owner_sessions: "same_sessions s (snd (tx_stop_owner cb graceful s))"
proof (cases "tx_owner_of (tx s) = OwnerNone")
  case True
  then show ?thesis by (simp add: tx_stop_owner_def)
next
  case False
  let ?s = "map_tx (\<lambda>c. c\<lparr>tx_state_of := StateUnkeying\<rparr>) s"
  obtain r s2 where c: "call_stop cb (tx_owner_of (tx s)) graceful ?s = (r, s2)" by fastforce
  with stop_sessions [of ?s "tx_owner_of (tx s)" graceful] False show ?thesis
    by (simp add: tx_stop_owner_def)
qed

lemma request_sessions: "same_sessions s (snd (tx_control_request cb ow now s))"
proof (cases rule: request_cases [of cb ow now s])
  case (refused r)
  then show ?thesis by simp
next
  case (started s2)
  with start_sessions [of "preparing s" ow] show ?thesis by (simp add: preparing_def)
next
  case (failed s2 r s3)
  then have "same_sessions (preparing s) s2" "same_sessions s2 s3"
    using start_sessions [of "preparing s" ow] stop_sessions [of s2 ow False] by simp_all
  then have "same_sessions (preparing s) s3" by (rule same_sessions_trans)
  with failed show ?thesis by (simp add: preparing_def)
qed

lemma request_owner:
  "tx_owner_of (tx (snd (tx_control_request cb ow now s))) \<in> {tx_owner_of (tx s), ow}"
  "fst (tx_control_request cb ow now s) \<noteq> TxOk \<Longrightarrow>
     tx_owner_of (tx (snd (tx_control_request cb ow now s))) = tx_owner_of (tx s)"
proof -
  have "tx_owner_of (tx (snd (tx_control_request cb ow now s))) \<in> {tx_owner_of (tx s), ow} \<and>
    (fst (tx_control_request cb ow now s) \<noteq> TxOk \<longrightarrow>
     tx_owner_of (tx (snd (tx_control_request cb ow now s))) = tx_owner_of (tx s))"
  proof (cases rule: request_cases [of cb ow now s])
    case (failed s2 r s3)
    then have "tx s3 = tx (preparing s)"
      using start_frame [of ow "preparing s"] stop_frame [of ow False s2] by simp
    with failed show ?thesis by (simp add: preparing_def)
  qed simp_all
  then show "tx_owner_of (tx (snd (tx_control_request cb ow now s))) \<in> {tx_owner_of (tx s), ow}"
    "fst (tx_control_request cb ow now s) \<noteq> TxOk \<Longrightarrow>
       tx_owner_of (tx (snd (tx_control_request cb ow now s))) = tx_owner_of (tx s)"
    by blast+
qed

lemma ptt_frame:
  "same_sessions s (snd (tx_control_physical_ptt cb pressed now s)) \<and>
   tx_owner_of (tx (snd (tx_control_physical_ptt cb pressed now s)))
     \<in> {tx_owner_of (tx s), OwnerNone, OwnerPhysicalMic}"
proof -
  define s1 where "s1 = map_tx (\<lambda>c. c\<lparr>physical_ptt_pressed := pressed\<rparr>) s"
  define t where "t = snd (tx_stop_owner cb False s1)"
  have s1: "same_sessions s s1" "tx_owner_of (tx s1) = tx_owner_of (tx s)"
    by (simp_all add: s1_def)
  have t: "same_sessions s1 t" "tx_owner_of (tx t) = OwnerNone"
    by (simp_all add: t_def stop_owner_sessions stop_owner_none)
  have r: "same_sessions s (snd (tx_control_request cb OwnerPhysicalMic now u)) \<and>
      tx_owner_of (tx (snd (tx_control_request cb OwnerPhysicalMic now u)))
        \<in> {tx_owner_of (tx s), OwnerNone, OwnerPhysicalMic}" if "u = s1 \<or> u = t" for u
  proof -
    have "same_sessions s u" using that s1 t same_sessions_trans by blast
    then show ?thesis
      using that s1(2) t(2) request_owner(1) [of OwnerPhysicalMic now u]
        same_sessions_trans [OF _ request_sessions] by auto
  qed
  have stop: "same_sessions s (snd (tx_stop_owner cb g s1)) \<and>
      tx_owner_of (tx (snd (tx_stop_owner cb g s1))) = OwnerNone" for g
    using same_sessions_trans [OF s1(1) stop_owner_sessions] by (simp add: stop_owner_none)
  show ?thesis
    using r [of s1] r [of t] stop [of True] stop [of False] s1
    by (cases "tx_stop_owner cb False s1")
      (auto simp: tx_control_physical_ptt_def s1_def [symmetric] t_def Let_def split: prod.splits)
qed

lemma release_frame:
  assumes "tx_inv (tx s)" and "valid_owner ow"
  shows "same_sessions s (snd (tx_control_release cb ow s)) \<and>
    tx_owner_of (tx (snd (tx_control_release cb ow s))) \<in> {tx_owner_of (tx s), OwnerNone} - {ow}"
    "same_sessions s (snd (tx_control_release_graceful cb ow s)) \<and>
    tx_owner_of (tx (snd (tx_control_release_graceful cb ow s))) \<in> {tx_owner_of (tx s), OwnerNone} - {ow}"
  using assms
  by (auto simp: tx_control_release_def tx_control_release_graceful_def stop_owner_none
      stop_owner_sessions valid_owner_def tx_inv_def)

lemma release_safe:
  "tx_safe keyed tracked s \<Longrightarrow> tx_safe keyed tracked (snd (tx_control_release cb ow s))"
  "tx_safe keyed tracked s \<Longrightarrow> tx_safe keyed tracked (snd (tx_control_release_graceful cb ow s))"
  by (simp_all add: tx_control_release_def tx_control_release_graceful_def stop_owner_safe)

definition good :: "'x net_sys_scheme \<Rightarrow> bool" where
  "good s \<longleftrightarrow> tx_safe keyed tracked s \<and> session_inv s"

lemma good_inv: "good s \<Longrightarrow> tx_inv (tx s)"
  by (simp add: good_def tx_safe_def)

lemma good_map_tune:
  "good s \<Longrightarrow> (tx_owner_of (tx s) = OwnerTune \<longrightarrow> tune_active (f (tune s))) \<Longrightarrow>
     (tune_active (f (tune s)) \<longrightarrow> tune_lease (f (tune s)) \<noteq> 0 \<and> tune_bound (f (tune s))) \<Longrightarrow>
     good (map_tune f s)"
  by (simp add: good_def session_inv_def)

lemma good_map_diagnostics [simp]: "good (map_diagnostics f s) = good s"
  by (simp add: good_def session_inv_def)

lemma tune_stop_good:
  assumes "good s"
  shows "good (snd (tune_stop_active cb reason s))"
proof (cases "tune_active (tune s)")
  case False
  with assms show ?thesis by (simp add: tune_stop_active_def)
next
  case True
  define rs where "rs = tx_control_release cb OwnerTune s"
  have b: "tune_bound (tune s)" using assms True by (simp add: good_def session_inv_def)
  have v: "valid_owner OwnerTune" by (simp add: valid_owner_def)
  note f = release_frame(1) [OF good_inv [OF assms] v]
  have g: "good (snd rs)"
    unfolding rs_def using assms f release_safe(1) [of s OwnerTune]
    by (auto simp: good_def elim: session_inv_frame)
  have "tx_owner_of (tx (snd rs)) \<noteq> OwnerTune" using f by (simp add: rs_def)
  with g have "good (map_tune end_tune (snd rs))"
    by (intro good_map_tune) (simp_all add: end_tune_def)
  moreover have "map_tune end_tune (map_diagnostics h s) = map_diagnostics h (map_tune end_tune s)"
    for h and s :: "'x net_sys_scheme"
    by (simp add: map_tune_def map_diagnostics_def end_tune_def)
  ultimately show ?thesis
    using True b by (simp add: tune_stop_active_def rs_def Let_def case_prod_beta)
qed

lemma tune_start_good:
  assumes "good s"
  shows "good (snd (tune_control_start cb now l s))"
proof (cases "tune_enabled (tune s) \<and> \<not> tune_active (tune s) \<and> l \<noteq> 0 \<and> tune_bound (tune s)")
  case False
  with assms show ?thesis by (auto simp: tune_control_start_def)
next
  case True
  obtain r t where req: "tx_control_request cb OwnerTune now s = (r, t)" by fastforce
  have ss: "same_sessions s t" using request_sessions [of s OwnerTune now] req by simp
  have sf: "tx_safe keyed tracked t"
    using request_safe [of s OwnerTune now] assms req by (simp add: good_def)
  show ?thesis
  proof (cases "r = TxOk")
    case ok: True
    let ?u = "map_tune (\<lambda>c. c\<lparr>tune_active := True, tune_lease := l,
                tune_started_ms := now, tune_renewed_ms := now\<rparr>) t"
    have "tx_owner_of (tx t) \<in> {tx_owner_of (tx s), OwnerTune}"
      using request_owner(1) [of OwnerTune now s] req by simp
    then have "session_inv ?u"
      using assms ss True tune_core_eqD [of "tune t" "tune s"]
      by (auto simp: good_def session_inv_def same_sessions_def)
    with sf have "good ?u" by (simp add: good_def)
    with True req ok show ?thesis by (simp add: tune_control_start_def)
  next
    case False
    then have "tx_owner_of (tx t) = tx_owner_of (tx s)"
      using request_owner(2) [of OwnerTune now s] req by simp
    with assms ss have "session_inv t" by (auto simp: good_def elim: session_inv_frame)
    with sf have "good t" by (simp add: good_def)
    with True req False show ?thesis by (simp add: tune_control_start_def)
  qed
qed

lemma tune_ops_good:
  assumes "good s"
  shows "good (snd (tune_control_keepalive cb now l s))"
    "good (snd (tune_control_stop cb l s))"
    "good (snd (tune_control_tick cb now s))"
    "good (tune_control_reconcile w s)"
    "good (tune_control_shutdown cb s)"
  using assms tune_stop_good [OF assms]
  by (auto simp: tune_control_keepalive_def tune_control_stop_def tune_control_tick_def
      tune_control_shutdown_def tune_control_reconcile_def Let_def end_tune_def intro!: good_map_tune)
    (auto simp: good_def session_inv_def)

lemma good_map_net:
  "tx_safe keyed tracked s \<Longrightarrow> session_inv (map_net f s) \<Longrightarrow> good (map_net f s)"
  by (simp add: good_def)

lemma net_release_frame:
  assumes "tx_inv (tx s)" and "net_bound (net s)" and "tx_safe keyed tracked s"
  shows "same_sessions s (snd (net_release g cb s)) \<and>
    tx_owner_of (tx (snd (net_release g cb s))) \<in> {tx_owner_of (tx s), OwnerNone} - {OwnerHttp} \<and>
    tx_safe keyed tracked (snd (net_release g cb s))"
  using assms release_frame [of s OwnerHttp] release_safe [of s OwnerHttp]
  by (simp add: net_release_def valid_owner_def)

lemma unkey_session:
  assumes "good s" and "reserved (net s)"
    and "net_inv (f (net s))" and "\<not> net_keyed (f (net s))"
  shows "good (map_net f (snd (net_release g cb s)))"
proof (rule good_map_net)
  have sf: "tx_safe keyed tracked s" and inv: "session_inv s" using assms(1) by (simp_all add: good_def)
  then have b: "net_bound (net s)" using assms(2) by (simp add: session_inv_def net_inv_def)
  note r = net_release_frame [OF good_inv [OF assms(1)] b sf, of g]
  then show "tx_safe keyed tracked (snd (net_release g cb s))" by simp
  show "session_inv (map_net f (snd (net_release g cb s)))"
    using r inv assms(3,4) tune_core_eqD [of "tune (snd (net_release g cb s))" "tune s"]
    by (auto simp: session_inv_def same_sessions_def)
qed

lemma unkeyed_session:
  assumes "good s" and "\<not> net_keyed (net s)" and "net_inv (f (net s))"
  shows "good (map_net f s)"
  using assms by (auto simp: good_def session_inv_def)

lemma net_inv_clear: "net_inv (clear_session n)" "\<not> net_keyed (clear_session n)"
  "clear_session (n\<lparr>net_keyed := k\<rparr>) = clear_session n"
  by (simp_all add: net_inv_def clear_session_def blank_session_def)

lemma map_net_map_net [simp]: "map_net f (map_net g s) = map_net (\<lambda>n. f (g n)) s"
  by (simp add: map_net_def)

lemma good_net_inv: "good s \<Longrightarrow> net_inv (net s)"
  by (simp add: good_def session_inv_def)

lemma net_ptt_stop_good:
  assumes "good s"
  shows "good (snd (network_tx_ptt_stop cb l s))"
proof (cases "net_owns (net s) l \<and> net_keyed (net s)")
  case True
  then have "good (map_net (\<lambda>n. n\<lparr>net_keyed := False, buffered_frames := 0\<rparr>) (snd (net_release True cb s)))"
    using good_net_inv [OF assms]
    by (intro unkey_session [OF assms]) (auto simp: net_owns_def net_inv_def)
  with True show ?thesis by (simp add: network_tx_ptt_stop_def case_prod_beta)
qed (use assms in \<open>auto simp: network_tx_ptt_stop_def\<close>)

lemma net_release_good:
  assumes "good s"
  shows "good (snd (network_tx_release cb l s))" "good (snd (network_tx_tick cb now s))"
  using assms unkey_session [OF assms, of clear_session False] unkeyed_session [OF assms, of clear_session]
  by (auto simp: network_tx_release_def network_tx_tick_def stop_if_keyed_def net_owns_def
      case_prod_beta net_inv_clear)

lemma net_disconnect_good:
  assumes "good s"
  shows "good (snd (network_tx_disconnect_stream cb s))"
proof -
  have "net_inv ((net s)\<lparr>net_keyed := False, stream_connected := False, buffered_frames := 0\<rparr>)"
    using good_net_inv [OF assms] by (simp add: net_inv_def)
  moreover have "net_inv ((net s)\<lparr>stream_connected := False, buffered_frames := 0\<rparr>)"
    if "\<not> net_keyed (net s)" using good_net_inv [OF assms] that by (simp add: net_inv_def)
  ultimately show ?thesis
    using assms
      unkey_session [OF assms, of "\<lambda>n. n\<lparr>net_keyed := False, stream_connected := False, buffered_frames := 0\<rparr>" False]
      unkeyed_session [OF assms, of "\<lambda>n. n\<lparr>stream_connected := False, buffered_frames := 0\<rparr>"]
    by (auto simp: network_tx_disconnect_stream_def stop_if_keyed_def case_prod_beta)
qed

lemma net_ptt_start_good:
  assumes "good s"
  shows "good (snd (network_tx_ptt_start cb l now s))"
proof (cases "net_owns (net s) l \<and> stream_connected (net s) \<and>
    \<not> buffered_frames (net s) < NETWORK_TX_MIN_PREBUFFER_FRAMES \<and> \<not> net_keyed (net s)")
  case False
  with assms show ?thesis by (auto simp: network_tx_ptt_start_def)
next
  case True
  obtain r t where req: "tx_control_request cb OwnerHttp now s = (r, t)" by fastforce
  have ss: "same_sessions s t" using request_sessions [of s OwnerHttp now] req by simp
  have sf: "tx_safe keyed tracked t"
    using request_safe [of s OwnerHttp now] assms req by (simp add: good_def)
  have b: "net_bound (net s)" using True good_net_inv [OF assms] by (simp add: net_inv_def net_owns_def)
  show ?thesis
  proof (cases "r = TxOk")
    case ok: True
    let ?u = "map_net (\<lambda>n. n\<lparr>net_keyed := True, net_renewed_ms := now\<rparr>) t"
    have "tx_owner_of (tx t) \<in> {tx_owner_of (tx s), OwnerHttp}"
      using request_owner(1) [of OwnerHttp now s] req by simp
    then have "session_inv ?u"
      using assms ss True tune_core_eqD [of "tune t" "tune s"]
      by (auto simp: good_def session_inv_def same_sessions_def net_inv_def)
    with sf have "good ?u" by (simp add: good_def)
    with True req ok b show ?thesis by (simp add: network_tx_ptt_start_def)
  next
    case False
    then have "tx_owner_of (tx t) = tx_owner_of (tx s)"
      using request_owner(2) [of OwnerHttp now s] req by simp
    with assms ss have "session_inv t" by (auto simp: good_def elim: session_inv_frame)
    with sf have "good t" by (simp add: good_def)
    with True req False b show ?thesis by (simp add: network_tx_ptt_start_def)
  qed
qed

lemma net_other_good:
  assumes "good s"
  shows "good (snd (network_tx_acquire p l now s))"
    "good (snd (network_tx_keepalive l now s))"
    "good (snd (network_tx_attach_stream l now s))"
    "good (snd (network_tx_record_data l frames now s))"
    "good (network_tx_reconcile s)"
proof -
  have nb: "reserved (net s) \<longrightarrow> net_bound (net s)" using good_net_inv [OF assms] by (simp add: net_inv_def)
  have n: "net_inv (net s)" and o: "tx_owner_of (tx s) = OwnerHttp \<longrightarrow> net_keyed (net s)"
    using assms by (simp_all add: good_def session_inv_def)
  have keep: "good (map_net f s)" if "net_inv (f (net s))" and "net_keyed (net s) \<longrightarrow> net_keyed (f (net s))" for f
    using assms that by (auto simp: good_def session_inv_def)
  show "good (snd (network_tx_acquire p l now s))"
    using assms n by (auto simp: network_tx_acquire_def intro!: keep) (auto simp: net_inv_def)
  show "good (snd (network_tx_keepalive l now s))"
    using assms n by (auto simp: network_tx_keepalive_def intro!: keep) (auto simp: net_inv_def)
  show "good (snd (network_tx_attach_stream l now s))"
    using assms n by (auto simp: network_tx_attach_stream_def net_owns_def intro!: keep) (auto simp: net_inv_def)
  show "good (snd (network_tx_record_data l frames now s))"
    using assms n by (auto simp: network_tx_record_data_def Let_def intro!: keep) (auto simp: net_inv_def)
  show "good (network_tx_reconcile s)"
    using assms o n nb
    by (auto simp: network_tx_reconcile_def net_inv_clear good_def session_inv_def)
qed

lemma tx_op_good:
  assumes "good s" and "tx_step cb env s s'" and "same_sessions s s'"
    and "tx_owner_of (tx s') \<in> {tx_owner_of (tx s), OwnerNone, OwnerPhysicalMic}"
  shows "good s'"
  using assms step_safe [OF assms(2)] session_inv_frame [of s s'] by (simp add: good_def)

lemma session_step_good:
  assumes "session_step cb env s s'" and "good s"
  shows "good s'"
  using assms(1)
proof cases
  case Arm
  have "same_sessions s (tx_control_arm_physical_ptt s) \<and>
      tx_owner_of (tx (tx_control_arm_physical_ptt s)) = tx_owner_of (tx s)"
    by (simp add: tx_control_arm_physical_ptt_def)
  with Arm show ?thesis by (auto intro!: tx_op_good [OF assms(2)] tx_step.Arm)
next
  case (Ptt pressed now)
  with ptt_frame [of s pressed now] show ?thesis
    by (auto intro!: tx_op_good [OF assms(2)] tx_step.Physical_ptt)
next
  case (Tx_tick now)
  have "same_sessions s (snd (tx_control_tick cb now s)) \<and>
      tx_owner_of (tx (snd (tx_control_tick cb now s))) \<in> {tx_owner_of (tx s), OwnerNone}"
    using stop_owner_sessions [of s False] stop_owner_none [of False s]
    by (auto simp: tx_control_tick_def split: prod.splits)
  with Tx_tick show ?thesis by (auto intro!: tx_op_good [OF assms(2)] tx_step.Tick)
next
  case Tx_shutdown
  have "same_sessions s (tx_control_shutdown cb s) \<and> tx_owner_of (tx (tx_control_shutdown cb s)) = OwnerNone"
    using stop_owner_sessions [of s False] stop_owner_none [of False s]
    by (simp add: tx_control_shutdown_def)
  with Tx_shutdown show ?thesis by (auto intro!: tx_op_good [OF assms(2)] tx_step.Shutdown)
next
  case (Set_timeout seconds)
  have "tx_owner_of (snd (tx_control_set_timeout_seconds seconds (tx s))) = tx_owner_of (tx s)"
    by (simp add: tx_control_set_timeout_seconds_def)
  with Set_timeout show ?thesis by (auto intro!: tx_op_good [OF assms(2)] tx_step.Set_timeout)
next
  case Env
  with env_sessions [of s s'] env_frame [of s s'] show ?thesis
    by (auto intro!: tx_op_good [OF assms(2)] tx_step.Env)
qed (simp_all add: assms tune_start_good tune_ops_good net_ptt_start_good net_ptt_stop_good
    net_release_good net_disconnect_good net_other_good)

lemma session_reachable_good:
  "session_reachable cb env s0 s \<Longrightarrow> good s0 \<Longrightarrow> good s"
  by (induction rule: session_reachable.induct) (auto intro: session_step_good)

lemma session_reachable_safe:
  assumes "session_reachable cb env s0 s" and "tx_inv (tx s0)" and "session_inv s0" and "\<not> keyed s0"
  shows "tx_safe keyed tracked s \<and> session_inv s"
  using session_reachable_good [OF assms(1)] assms(2-4) unkeyed_tracked [of s0]
  by (simp add: good_def tx_safe_def)

end

text \<open>Whether transmitting is enabled at all is decided once.\<close>

context session_backend
begin

lemma stop_owner_enabled: "tx_enabled (tx (snd (tx_stop_owner cb graceful s))) = tx_enabled (tx s)"
proof -
  let ?s = "map_tx (\<lambda>c. c\<lparr>tx_state_of := StateUnkeying\<rparr>) s"
  have "tx (snd (call_stop cb (tx_owner_of (tx s)) graceful ?s)) = tx ?s" by (rule stop_frame)
  then show ?thesis by (simp add: tx_stop_owner_def Let_def case_prod_beta)
qed

lemma request_enabled: "tx_enabled (tx (snd (tx_control_request cb ow now s))) = tx_enabled (tx s)"
proof -
  have a: "tx (snd (call_start cb ow t)) = tx t" "tx (snd (call_stop cb ow g t)) = tx t" for t ow g
    by (rule start_frame stop_frame)+
  show ?thesis
    by (simp add: tx_control_request_def Let_def case_prod_beta a)
qed

lemma release_enabled:
  "tx_enabled (tx (snd (tx_control_release cb ow s))) = tx_enabled (tx s)"
  "tx_enabled (tx (snd (tx_control_release_graceful cb ow s))) = tx_enabled (tx s)"
  by (simp_all add: tx_control_release_def tx_control_release_graceful_def stop_owner_enabled)

lemma tune_stop_enabled: "tx_enabled (tx (snd (tune_stop_active cb reason s))) = tx_enabled (tx s)"
  by (simp add: tune_stop_active_def Let_def case_prod_beta release_enabled)

lemma net_stop_enabled:
  "tx_enabled (tx (snd (net_release g cb s))) = tx_enabled (tx s)"
  "tx_enabled (tx (snd (stop_if_keyed cb s))) = tx_enabled (tx s)"
  by (simp_all add: net_release_def stop_if_keyed_def case_prod_beta release_enabled)

lemma session_step_enabled:
  assumes "session_step cb env s s'"
  shows "tx_enabled (tx s') = tx_enabled (tx s)"
  using assms
proof cases
  case Env
  then show ?thesis by (simp add: env_frame)
qed (simp_all add: tx_control_arm_physical_ptt_def tx_control_physical_ptt_def tx_control_tick_def
    tx_control_shutdown_def tx_control_set_timeout_seconds_def tune_control_start_def
    tune_control_keepalive_def tune_control_stop_def tune_control_tick_def tune_control_shutdown_def
    tune_control_reconcile_def network_tx_acquire_def network_tx_keepalive_def
    network_tx_attach_stream_def network_tx_record_data_def network_tx_ptt_start_def
    network_tx_ptt_stop_def network_tx_release_def network_tx_disconnect_stream_def
    network_tx_tick_def network_tx_reconcile_def Let_def case_prod_beta stop_owner_enabled
    request_enabled tune_stop_enabled net_stop_enabled)

end

subsection \<open>Reconciliation\<close>

lemma tune_reconcile_effect:
  "tx (tune_control_reconcile w s) = tx s" "net (tune_control_reconcile w s) = net s"
  "tune_active (tune (tune_control_reconcile w s)) \<longleftrightarrow>
     tune_active (tune s) \<and> (\<not> tune_bound (tune s) \<or> tx_owner_of (tx s) = OwnerTune)"
  by (auto simp: tune_control_reconcile_def Let_def end_tune_def)

lemma net_reconcile_effect:
  "tx (network_tx_reconcile s) = tx s" "tune (network_tx_reconcile s) = tune s"
  "net_keyed (net (network_tx_reconcile s)) \<longleftrightarrow>
     net_keyed (net s) \<and> (\<not> reserved (net s) \<or> net_bound (net s) \<and> tx_owner_of (tx s) = OwnerHttp)"
  by (auto simp: network_tx_reconcile_def clear_session_def blank_session_def)

text \<open>
  After the two reconcile calls of the loop, sessions and owner agree both ways: the Tune is
  active exactly when it owns the transmitter, and a network session is keyed exactly when it
  does, whatever took the transmitter away in between.
\<close>

theorem reconcile_agrees:
  assumes "session_inv s" and "s' = network_tx_reconcile (tune_control_reconcile watchdog s)"
  shows "(tune_active (tune s') \<longleftrightarrow> tx_owner_of (tx s') = OwnerTune) \<and>
    (net_keyed (net s') \<longleftrightarrow> tx_owner_of (tx s') = OwnerHttp) \<and> tx s' = tx s"
  unfolding assms(2) net_reconcile_effect tune_reconcile_effect
  using assms(1) by (auto simp: session_inv_def net_inv_def)

theorem reconcile_agrees_witness:
  "\<not> tune_active (tune (network_tx_reconcile (tune_control_reconcile True
      \<lparr>tx = tx_control_init True 180000,
       tune = (tune_control_init True True)\<lparr>tune_active := True, tune_lease := 7\<rparr>,
       net = network_tx_init True True\<rparr>)))"
proof -
  define s where "s = \<lparr>tx = tx_control_init True 180000,
       tune = (tune_control_init True True)\<lparr>tune_active := True, tune_lease := 7\<rparr>,
       net = network_tx_init True True\<rparr>"
  have "session_inv s"
    by (simp add: s_def session_inv_def net_inv_def tx_control_init_def tune_control_init_def
        network_tx_init_def blank_session_def)
  from reconcile_agrees [OF this refl, of True] show ?thesis
    by (simp add: s_def tx_control_init_def)
qed

end
