(* ===== verification/Soft_Float.thy ===== *)
theory Soft_Float
  imports Complex_Main Flex_Prelude
begin

text \<open>
  IEEE arithmetic as the code uses it. A \<open>float\<close> or \<open>double\<close> is the rational number it denotes,
  and every C operation rounds its exact result to the nearest value of the format, ties to
  even (\<open>f32\<close>, \<open>f64\<close>). Only finite values occur: the samples are at most \<open>2 ^ 15\<close> in magnitude
  and the gains and sums stay far below the largest finite \<open>float\<close>, so overflow to infinity and
  NaN are not represented, and neither is the sign of a zero. The functions of \<open>math.h\<close> that
  are not correctly rounded are the fields of \<open>libm\<close>, a parameter of the definitions using them.
\<close>

definition pow2 :: "int \<Rightarrow> rat" where
  "pow2 e = (if 0 \<le> e then 2 ^ nat e else 1 / 2 ^ nat (- e))"

fun nat_bits :: "nat \<Rightarrow> nat" where
  "nat_bits n = (if n = 0 then 0 else Suc (nat_bits (n div 2)))"

declare nat_bits.simps [simp del]

text \<open>The exponent of a positive number: the largest \<open>e\<close> with \<open>pow2 e \<le> x\<close>.\<close>

definition ilog2 :: "rat \<Rightarrow> int" where
  "ilog2 x = (case quotient_of x of (a, b) \<Rightarrow>
     let k = int (nat_bits (nat a)) - int (nat_bits (nat b))
     in if pow2 k \<le> x then k else k - 1)"

definition round_even :: "rat \<Rightarrow> int" where
  "round_even x =
     (let q = \<lfloor>x\<rfloor>; r = x - of_int q
      in if r < 1 / 2 then q else if r > 1 / 2 then q + 1 else if even q then q else q + 1)"

definition round_to :: "int \<Rightarrow> int \<Rightarrow> rat \<Rightarrow> rat" where
  "round_to precision emin x =
     (if x = 0 then 0
      else let e = max (ilog2 \<bar>x\<bar> - (precision - 1)) emin
           in of_int (round_even (x / pow2 e)) * pow2 e)"

definition f32 :: "rat \<Rightarrow> rat" where "f32 = round_to 24 (- 149)"
definition f64 :: "rat \<Rightarrow> rat" where "f64 = round_to 53 (- 1074)"

text \<open>\<open>lrintf\<close> and \<open>lrint\<close> in the default rounding mode.\<close>

definition lrint :: "rat \<Rightarrow> int" where "lrint = round_even"

record libm =
  lib_sinf :: "rat \<Rightarrow> rat"
  lib_cosf :: "rat \<Rightarrow> rat"
  lib_powf :: "rat \<Rightarrow> rat \<Rightarrow> rat"
  lib_hypotf :: "rat \<Rightarrow> rat \<Rightarrow> rat"
  lib_hypot :: "rat \<Rightarrow> rat \<Rightarrow> rat"
  lib_sqrt :: "rat \<Rightarrow> rat"
  lib_sin :: "rat \<Rightarrow> rat"
  lib_cos :: "rat \<Rightarrow> rat"

subsection \<open>Exactness\<close>

lemma pow2_pos [simp]: "0 < pow2 e"
  by (simp add: pow2_def)

lemma pow2_nonneg [simp]: "0 \<le> pow2 e"
  using pow2_pos [of e] by linarith

lemma pow2_nonzero [simp]: "pow2 e \<noteq> 0"
  using pow2_pos [of e] by linarith

lemma pow2_add: "pow2 (a + b) = pow2 a * pow2 b"
proof -
  have p: "pow2 e = (2::rat) powi e" for e
    by (simp add: pow2_def power_int_def inverse_eq_divide power_one_over)
  show ?thesis by (simp add: p power_int_add)
qed

lemma pow2_mono: "a \<le> b \<Longrightarrow> pow2 a \<le> pow2 b"
proof -
  assume "a \<le> b"
  then have "pow2 b = pow2 a * pow2 (b - a)" by (simp flip: pow2_add)
  moreover have "1 \<le> pow2 (b - a)" using \<open>a \<le> b\<close> by (simp add: pow2_def)
  ultimately show ?thesis using pow2_pos [of a] by simp
qed

lemma pow2_nat [simp]: "pow2 (int n) = 2 ^ n"
  by (simp add: pow2_def)

lemma round_even_int [simp]: "round_even (of_int n) = n"
  unfolding round_even_def Let_def by simp

lemma round_even_near: "\<bar>of_int (round_even x) - x\<bar> \<le> 1 / 2"
proof -
  have "of_int \<lfloor>x\<rfloor> \<le> x" "x < of_int \<lfloor>x\<rfloor> + 1" by linarith+
  then show ?thesis by (auto simp: round_even_def Let_def)
qed

lemma round_even_mono: "x \<le> y \<Longrightarrow> round_even x \<le> round_even y"
proof -
  assume xy: "x \<le> y"
  then have f: "\<lfloor>x\<rfloor> \<le> \<lfloor>y\<rfloor>" by (rule floor_mono)
  show ?thesis
  proof (cases "\<lfloor>x\<rfloor> = \<lfloor>y\<rfloor>")
    case True
    with xy show ?thesis by (auto simp: round_even_def Let_def)
  next
    case False
    with f have "\<lfloor>x\<rfloor> + 1 \<le> \<lfloor>y\<rfloor>" by simp
    moreover have "round_even x \<le> \<lfloor>x\<rfloor> + 1" "\<lfloor>y\<rfloor> \<le> round_even y"
      by (simp_all add: round_even_def Let_def)
    ultimately show ?thesis by simp
  qed
qed

lemma lrint_between: "of_int a \<le> x \<Longrightarrow> x \<le> of_int b \<Longrightarrow> a \<le> lrint x \<and> lrint x \<le> b"
  using round_even_mono [of "of_int a" x] round_even_mono [of x "of_int b"] by (simp add: lrint_def)

lemma nat_bits_bounds: "0 < n \<Longrightarrow> 2 ^ (nat_bits n - 1) \<le> n \<and> n < 2 ^ nat_bits n \<and> 0 < nat_bits n"
proof (induction n rule: less_induct)
  case (less n)
  show ?case
  proof (cases "n = 1")
    case True
    then show ?thesis by (simp add: nat_bits.simps)
  next
    case False
    with less have IH: "2 ^ (nat_bits (n div 2) - 1) \<le> n div 2 \<and> n div 2 < 2 ^ nat_bits (n div 2) \<and>
        0 < nat_bits (n div 2)" by simp
    have e: "nat_bits n = Suc (nat_bits (n div 2))" using less.prems by (subst nat_bits.simps) simp
    obtain m where m: "nat_bits (n div 2) = Suc m" using IH by (cases "nat_bits (n div 2)") auto
    from IH m have "2 ^ m \<le> n div 2" "n div 2 < 2 * 2 ^ m" by simp_all
    then have "2 * 2 ^ m \<le> n" "n < 4 * 2 ^ m" by linarith+
    with e m show ?thesis by simp
  qed
qed

lemma nat_bits_scaled:
  assumes "0 < n"
  shows "pow2 (int (nat_bits n) - 1) \<le> rat_of_nat n" "rat_of_nat n < pow2 (int (nat_bits n))"
proof -
  obtain m where m: "nat_bits n = Suc m" using nat_bits_bounds [OF assms] by (cases "nat_bits n") auto
  have "2 ^ m \<le> n" "n < 2 ^ Suc m" using nat_bits_bounds [OF assms] m by simp_all
  then have "rat_of_nat (2 ^ m) \<le> rat_of_nat n" "rat_of_nat n < rat_of_nat (2 ^ Suc m)"
    by (simp_all only: of_nat_le_iff of_nat_less_iff)
  then show "pow2 (int (nat_bits n) - 1) \<le> rat_of_nat n" "rat_of_nat n < pow2 (int (nat_bits n))"
    unfolding m pow2_nat by (simp_all add: pow2_def)
qed

lemma ilog2_bounds:
  assumes "0 < x"
  shows "pow2 (ilog2 x) \<le> x" "x < pow2 (ilog2 x + 1)"
proof -
  obtain a b where q: "quotient_of x = (a, b)" by fastforce
  have b: "0 < b" by (rule quotient_of_denom_pos [OF q])
  have x: "x = of_int a / of_int b" by (rule quotient_of_div [OF q])
  have a: "0 < a" using assms b by (simp add: x zero_less_divide_iff)
  define la lb where "la = int (nat_bits (nat a))" and "lb = int (nat_bits (nat b))"
  have A: "pow2 (la - 1) \<le> of_int a" "of_int a < pow2 la"
    using nat_bits_scaled [of "nat a"] a by (simp_all add: la_def)
  have B: "pow2 (lb - 1) \<le> of_int b" "of_int b < pow2 lb"
    using nat_bits_scaled [of "nat b"] b by (simp_all add: lb_def)
  have b': "0 < rat_of_int b" using b by simp
  have lo: "pow2 (la - lb - 1) \<le> x"
  proof -
    have "pow2 (la - lb - 1) * of_int b \<le> pow2 (la - lb - 1) * pow2 lb"
      using B by (intro mult_left_mono) auto
    also have "\<dots> = pow2 (la - 1)" by (simp flip: pow2_add)
    finally show ?thesis using A b' by (simp add: x pos_le_divide_eq)
  qed
  have hi: "x < pow2 (la - lb + 1)"
  proof -
    have "pow2 la = pow2 (la - lb + 1) * pow2 (lb - 1)" by (simp flip: pow2_add)
    also have "\<dots> \<le> pow2 (la - lb + 1) * of_int b" using B by (intro mult_left_mono) auto
    finally show ?thesis using A b' by (simp add: x pos_divide_less_eq)
  qed
  have "ilog2 x = (if pow2 (la - lb) \<le> x then la - lb else la - lb - 1)"
    by (simp add: ilog2_def q la_def lb_def Let_def)
  with lo hi show "pow2 (ilog2 x) \<le> x" "x < pow2 (ilog2 x + 1)" by (simp_all split: if_splits)
qed

lemma ilog2_less:
  assumes "0 < x" and "x < pow2 k"
  shows "ilog2 x < k"
proof (rule ccontr)
  assume "\<not> ilog2 x < k"
  then have "pow2 k \<le> pow2 (ilog2 x)" by (intro pow2_mono) simp
  with assms ilog2_bounds(1) [OF assms(1)] show False by linarith
qed

lemma round_to_zero [simp]: "round_to precision emin 0 = 0" "f32 0 = 0" "f64 0 = 0"
  by (simp_all add: round_to_def f32_def f64_def)

text \<open>A value with few enough digits is not changed by rounding.\<close>

lemma round_to_exact:
  assumes "x = of_int m * pow2 t" and "\<bar>x\<bar> < pow2 (t + precision)" and "emin \<le> t"
  shows "round_to precision emin x = x"
proof (cases "x = 0")
  case False
  then have "ilog2 \<bar>x\<bar> < t + precision" using assms(2) by (intro ilog2_less) auto
  define e where "e = max (ilog2 \<bar>x\<bar> - (precision - 1)) emin"
  have "e \<le> t" using \<open>ilog2 \<bar>x\<bar> < t + precision\<close> assms(3) by (simp add: e_def)
  then have "pow2 t = 2 ^ nat (t - e) * pow2 e"
    using pow2_add [of "t - e" e] by (simp add: pow2_def [of "t - e"])
  then have "x / pow2 e = of_int (m * 2 ^ nat (t - e))" using assms(1) by simp
  then have "of_int (round_even (x / pow2 e)) * pow2 e = x"
    using round_even_int [of "m * 2 ^ nat (t - e)"] by (simp add: nonzero_divide_eq_eq)
  with False show ?thesis by (simp add: round_to_def e_def)
qed simp

lemma f32_int [simp]: "\<bar>n\<bar> < 2 ^ 24 \<Longrightarrow> f32 (of_int n) = of_int n"
  unfolding f32_def
  by (rule round_to_exact [of _ n 0]) (simp_all add: pow2_def flip: of_int_abs)

lemma f32_sample: "\<bar>n\<bar> < 2 ^ 24 \<Longrightarrow> f32 (of_int n / 32768) = of_int n / 32768"
  unfolding f32_def
  by (rule round_to_exact [of _ n "- 15"]) (simp_all add: pow2_def abs_divide flip: of_int_abs)

text \<open>Rounding does not leave an interval whose ends are integers of the format.\<close>

lemma round_to_bound:
  assumes "\<bar>x\<bar> \<le> of_int n" and "rat_of_int n < pow2 precision" and "emin \<le> 0"
  shows "\<bar>round_to precision emin x\<bar> \<le> of_int n"
proof (cases "x = 0")
  case True
  then show ?thesis using assms(1) by simp
next
  case False
  then have "ilog2 \<bar>x\<bar> < precision" using assms by (intro ilog2_less) auto
  define e where "e = max (ilog2 \<bar>x\<bar> - (precision - 1)) emin"
  define k where "k = nat (- e)"
  have "e \<le> 0" using \<open>ilog2 \<bar>x\<bar> < precision\<close> assms(3) by (simp add: e_def)
  then have pe: "pow2 e = 1 / 2 ^ k" by (simp add: pow2_def k_def)
  have le: "- rat_of_int (n * 2 ^ k) \<le> x * 2 ^ k" "x * 2 ^ k \<le> rat_of_int (n * 2 ^ k)"
    using assms(1) by (auto simp flip: mult_minus_left)
  have "- (n * 2 ^ k) \<le> round_even (x * 2 ^ k)" "round_even (x * 2 ^ k) \<le> n * 2 ^ k"
    using lrint_between [of "- (n * 2 ^ k)" "x * 2 ^ k" "n * 2 ^ k"] le by (simp_all add: lrint_def)
  then have "\<bar>round_even (x * 2 ^ k)\<bar> \<le> n * 2 ^ k" by linarith
  then have "\<bar>rat_of_int (round_even (x * 2 ^ k))\<bar> \<le> rat_of_int (n * 2 ^ k)"
    by (simp only: of_int_abs [symmetric] of_int_le_iff)
  then have "\<bar>rat_of_int (round_even (x * 2 ^ k)) / 2 ^ k\<bar> \<le> of_int n"
    by (simp add: abs_divide pos_divide_le_eq)
  with False show ?thesis by (simp add: round_to_def e_def [symmetric] pe)
qed

lemma f64_bound:
  assumes "\<bar>x\<bar> \<le> of_int n" and "n < 2 ^ 53"
  shows "\<bar>f64 x\<bar> \<le> of_int n"
proof -
  have "rat_of_int n < of_int (2 ^ 53)" using assms(2) by (simp only: of_int_less_iff)
  then have "rat_of_int n < pow2 53" by (simp add: pow2_def)
  with assms(1) show ?thesis unfolding f64_def by (intro round_to_bound) auto
qed

lemma f32_bound:
  assumes "\<bar>x\<bar> \<le> of_int n" and "n < 2 ^ 24"
  shows "\<bar>f32 x\<bar> \<le> of_int n"
proof -
  have "rat_of_int n < of_int (2 ^ 24)" using assms(2) by (simp only: of_int_less_iff)
  then have "rat_of_int n < pow2 24" by (simp add: pow2_def)
  with assms(1) show ?thesis unfolding f32_def by (intro round_to_bound) auto
qed

end
