(* ===== verification/Iq.thy ===== *)
theory Iq
  imports Soft_Float Protocol
begin

text \<open>
  Model of \<open>src/iq.c\<close>: the sample statistics, the DC blocker and the ring between the USB
  callbacks and the network writers. Samples are pairs of \<open>float\<close>s, so their arithmetic is that
  of \<open>Soft_Float\<close>. \<open>size_t\<close> indices are natural numbers; they stay below three capacities.

  The ring is stated against the interface of a bounded queue that drops what does not fit.
\<close>

subsection \<open>Statistics and DC blocker\<close>

record iq_sample =
  i_part :: rat
  q_part :: rat

record iq_stats =
  st_frames :: u64
  st_sentinel_frames :: u64
  st_min_i :: int
  st_max_i :: int
  st_min_q :: int
  st_max_q :: int
  st_mean_i :: rat
  st_mean_q :: rat
  st_have_samples :: bool

record dc_blocker =
  estimate_i :: rat
  estimate_q :: rat
  dc_alpha :: rat
  dc_initialized :: bool

definition iq_stats_reset :: iq_stats where
  "iq_stats_reset = \<lparr>st_frames = 0, st_sentinel_frames = 0, st_min_i = 0, st_max_i = 0,
     st_min_q = 0, st_max_q = 0, st_mean_i = 0, st_mean_q = 0, st_have_samples = False\<rparr>"

definition dc_blocker_init :: "rat \<Rightarrow> dc_blocker" where
  "dc_blocker_init alpha =
     \<lparr>estimate_i = 0, estimate_q = 0, dc_alpha = alpha, dc_initialized = False\<rparr>"

definition update_stats :: "int \<Rightarrow> int \<Rightarrow> iq_stats \<Rightarrow> iq_stats" where
  "update_stats si sq st =
     (let st = st\<lparr>st_frames := st_frames st + 1\<rparr>;
          st = (if si = -1 \<and> sq = -1
                then st\<lparr>st_sentinel_frames := st_sentinel_frames st + 1\<rparr> else st)
      in if \<not> st_have_samples st
         then st\<lparr>st_min_i := si, st_max_i := si, st_min_q := sq, st_max_q := sq,
                 st_mean_i := f64 (of_int si), st_mean_q := f64 (of_int sq),
                 st_have_samples := True\<rparr>
         else
           let st = (if si < st_min_i st then st\<lparr>st_min_i := si\<rparr> else st);
               st = (if si > st_max_i st then st\<lparr>st_max_i := si\<rparr> else st);
               st = (if sq < st_min_q st then st\<lparr>st_min_q := sq\<rparr> else st);
               st = (if sq > st_max_q st then st\<lparr>st_max_q := sq\<rparr> else st);
               n = f64 (of_nat (unat (st_frames st)))
           in st\<lparr>st_mean_i := f64 (st_mean_i st + f64 (f64 (f64 (of_int si) - st_mean_i st) / n)),
                 st_mean_q := f64 (st_mean_q st + f64 (f64 (f64 (of_int sq) - st_mean_q st) / n))\<rparr>)"

definition block_dc :: "int \<Rightarrow> int \<Rightarrow> dc_blocker \<Rightarrow> dc_blocker" where
  "block_dc si sq b =
     (if \<not> dc_initialized b
      then b\<lparr>estimate_i := f32 (of_int si), estimate_q := f32 (of_int sq), dc_initialized := True\<rparr>
      else b\<lparr>estimate_i := f32 (estimate_i b + f32 (dc_alpha b * f32 (f32 (of_int si) - estimate_i b))),
             estimate_q := f32 (estimate_q b + f32 (dc_alpha b * f32 (f32 (of_int sq) - estimate_q b)))\<rparr>)"

fun process_frames ::
  "(int \<times> int) list \<Rightarrow> iq_stats \<Rightarrow> dc_blocker \<Rightarrow> iq_sample list \<times> iq_stats \<times> dc_blocker" where
  "process_frames [] st b = ([], st, b)"
| "process_frames ((si, sq) # frames) st b =
     (let st = update_stats si sq st; b = block_dc si sq b;
          out = \<lparr>i_part = f32 (f32 (of_int si) - estimate_i b),
                 q_part = f32 (f32 (of_int sq) - estimate_q b)\<rparr>
      in case process_frames frames st b of (outs, st, b) \<Rightarrow> (out # outs, st, b))"

text \<open>The frames a buffer holds: its number of whole frames, cut to the output's capacity.\<close>

definition iq_frames :: "u8 list \<Rightarrow> nat \<Rightarrow> (int \<times> int) list" where
  "iq_frames bytes capacity =
     map (\<lambda>frame. decode_iq_frame (drop (4 * frame) bytes)) [0..<min (length bytes div 4) capacity]"

definition process_iq16le ::
  "u8 list \<Rightarrow> nat \<Rightarrow> iq_stats \<Rightarrow> dc_blocker \<Rightarrow> iq_sample list \<times> iq_stats \<times> dc_blocker" where
  "process_iq16le bytes output_capacity st b = process_frames (iq_frames bytes output_capacity) st b"

subsection \<open>The interface of a bounded queue\<close>

datatype 'a fifo_op = Push "'a list" | Pop nat

text \<open>
  A sequence of operations: what the pops returned, what the pushes accepted, and the state.
\<close>

fun fifo_run ::
  "('a list \<Rightarrow> 'q \<Rightarrow> nat \<times> 'q) \<Rightarrow> (nat \<Rightarrow> 'q \<Rightarrow> 'a list \<times> 'q) \<Rightarrow> 'a fifo_op list \<Rightarrow> 'q \<Rightarrow>
   'a list \<times> 'a list \<times> 'q" where
  "fifo_run push pop [] q = ([], [], q)"
| "fifo_run push pop (Push xs # ops) q =
     (case push xs q of (n, q) \<Rightarrow> case fifo_run push pop ops q of (outs, ins, q) \<Rightarrow>
        (outs, take n xs @ ins, q))"
| "fifo_run push pop (Pop n # ops) q =
     (case pop n q of (ys, q) \<Rightarrow> case fifo_run push pop ops q of (outs, ins, q) \<Rightarrow>
        (ys @ outs, ins, q))"

locale bounded_fifo =
  fixes wf :: "'q \<Rightarrow> bool" and contents :: "'q \<Rightarrow> 'a list" and cap :: "'q \<Rightarrow> nat"
    and push :: "'a list \<Rightarrow> 'q \<Rightarrow> nat \<times> 'q" and pop :: "nat \<Rightarrow> 'q \<Rightarrow> 'a list \<times> 'q"
  assumes bounded: "wf q \<Longrightarrow> length (contents q) \<le> cap q"
    and push_wf: "wf q \<Longrightarrow> wf (snd (push xs q)) \<and> cap (snd (push xs q)) = cap q"
    and push_count: "wf q \<Longrightarrow> fst (push xs q) = min (length xs) (cap q - length (contents q))"
    and push_contents: "wf q \<Longrightarrow>
      contents (snd (push xs q)) = contents q @ take (cap q - length (contents q)) xs"
    and pop_wf: "wf q \<Longrightarrow> wf (snd (pop n q)) \<and> cap (snd (pop n q)) = cap q"
    and pop_result: "wf q \<Longrightarrow> fst (pop n q) = take n (contents q)"
    and pop_contents: "wf q \<Longrightarrow> contents (snd (pop n q)) = drop n (contents q)"
begin

lemma push_accepted: "wf q \<Longrightarrow> contents (snd (push xs q)) = contents q @ take (fst (push xs q)) xs"
  by (simp add: push_contents push_count min_def)

lemma run_wf: "wf q \<Longrightarrow> fifo_run push pop ops q = (outs, ins, q') \<Longrightarrow> wf q' \<and> cap q' = cap q"
proof (induction ops arbitrary: q outs ins)
  case (Cons op ops)
  then show ?case
    using push_wf [of q] pop_wf [of q]
    by (cases op) (auto split: prod.splits, metis snd_conv, metis snd_conv, metis snd_conv, metis snd_conv)
qed simp

text \<open>Whatever the interleaving, the output is the accepted input, in order, with nothing lost.\<close>

lemma run_order:
  "wf q \<Longrightarrow> fifo_run push pop ops q = (outs, ins, q') \<Longrightarrow> outs @ contents q' = contents q @ ins"
proof (induction ops arbitrary: q outs ins)
  case (Cons op ops)
  show ?case
  proof (cases op)
    case (Push xs)
    obtain n q1 where p: "push xs q = (n, q1)" by fastforce
    obtain o1 i1 where r: "fifo_run push pop ops q1 = (o1, i1, q')" "outs = o1" "ins = take n xs @ i1"
      using Cons.prems(2) Push p by (auto split: prod.splits)
    have "wf q1" "contents q1 = contents q @ take n xs"
      using push_wf [of q xs] push_accepted [of q xs] Cons.prems(1) p by auto
    with Cons.IH [of q1 o1 i1] r show ?thesis by simp
  next
    case (Pop n)
    obtain ys q1 where p: "pop n q = (ys, q1)" by fastforce
    obtain o1 i1 where r: "fifo_run push pop ops q1 = (o1, i1, q')" "outs = ys @ o1" "ins = i1"
      using Cons.prems(2) Pop p by (auto split: prod.splits)
    have "wf q1" "ys = take n (contents q)" "contents q1 = drop n (contents q)"
      using pop_wf [of q n] pop_result [of q n] pop_contents [of q n] Cons.prems(1) p by auto
    with Cons.IH [of q1 o1 i1] r show ?thesis by simp
  qed
qed simp

end

subsection \<open>The ring\<close>

record 'a iq_ring =
  samples :: "'a list"
  capacity :: nat
  read_index :: nat
  ring_size :: nat
  dropped :: u64

text \<open>\<open>allocated\<close> is whether \<open>calloc\<close> succeeds; the memory it returns is all zero.\<close>

definition iq_ring_init :: "bool \<Rightarrow> 'a \<Rightarrow> nat \<Rightarrow> bool \<times> 'a iq_ring" where
  "iq_ring_init allocated zero cap =
     (let ring = \<lparr>samples = [], capacity = 0, read_index = 0, ring_size = 0, dropped = 0\<rparr>
      in if cap = 0 \<or> \<not> allocated then (False, ring)
         else (True, ring\<lparr>samples := replicate cap zero, capacity := cap\<rparr>))"

definition iq_ring_destroy :: "'a iq_ring \<Rightarrow> 'a iq_ring" where
  "iq_ring_destroy ring = \<lparr>samples = [], capacity = 0, read_index = 0, ring_size = 0, dropped = 0\<rparr>"

fun ring_store :: "nat \<Rightarrow> nat \<Rightarrow> 'a list \<Rightarrow> 'a list \<Rightarrow> 'a list" where
  "ring_store cap pos [] buffer = buffer"
| "ring_store cap pos (x # xs) buffer = ring_store cap (Suc pos) xs (buffer[pos mod cap := x])"

definition iq_ring_push :: "'a list \<Rightarrow> 'a iq_ring \<Rightarrow> nat \<times> 'a iq_ring" where
  "iq_ring_push xs ring =
     (let available = capacity ring - ring_size ring;
          (accepted, ring) = (if length xs > available
             then (available, ring\<lparr>dropped := dropped ring + of_nat (length xs - available)\<rparr>)
             else (length xs, ring));
          ring = ring\<lparr>samples := ring_store (capacity ring) (read_index ring + ring_size ring)
                       (take accepted xs) (samples ring)\<rparr>
      in (accepted, ring\<lparr>ring_size := ring_size ring + accepted\<rparr>))"

definition iq_ring_pop :: "nat \<Rightarrow> 'a iq_ring \<Rightarrow> 'a list \<times> 'a iq_ring" where
  "iq_ring_pop count ring =
     (let count = (if count > ring_size ring then ring_size ring else count);
          out = map (\<lambda>index. samples ring ! ((read_index ring + index) mod capacity ring)) [0..<count]
      in (out, ring\<lparr>read_index := (read_index ring + count) mod capacity ring,
                    ring_size := ring_size ring - count\<rparr>))"

definition iq_ring_clear :: "'a iq_ring \<Rightarrow> 'a iq_ring" where
  "iq_ring_clear ring = ring\<lparr>read_index := 0, ring_size := 0\<rparr>"

definition ring_wf :: "'a iq_ring \<Rightarrow> bool" where
  "ring_wf ring \<longleftrightarrow> length (samples ring) = capacity ring \<and> 0 < capacity ring \<and>
     read_index ring < capacity ring \<and> ring_size ring \<le> capacity ring"

definition ring_contents :: "'a iq_ring \<Rightarrow> 'a list" where
  "ring_contents ring =
     map (\<lambda>k. samples ring ! ((read_index ring + k) mod capacity ring)) [0..<ring_size ring]"

lemma length_ring_contents [simp]: "length (ring_contents ring) = ring_size ring"
  by (simp add: ring_contents_def)

lemma length_ring_store [simp]: "length (ring_store cap pos xs buffer) = length buffer"
  by (induction cap pos xs buffer rule: ring_store.induct) simp_all

lemma ring_store_other:
  "j < cap \<Longrightarrow> length buffer = cap \<Longrightarrow> (\<forall>k < length xs. (pos + k) mod cap \<noteq> j) \<Longrightarrow>
     ring_store cap pos xs buffer ! j = buffer ! j"
proof (induction cap pos xs buffer rule: ring_store.induct)
  case (2 cap pos x xs buffer)
  have "pos mod cap \<noteq> j" using 2(4) by (metis add_0_right length_Cons zero_less_Suc)
  moreover have "\<forall>k < length xs. (Suc pos + k) mod cap \<noteq> j" using 2(4) by auto
  ultimately show ?case using 2 by simp
qed simp

lemma mod_offset_le:
  assumes "a \<le> b" and "b < (cap::nat)" and "(pos + b) mod cap = (pos + a) mod cap"
  shows "b = a"
proof (rule ccontr)
  assume "b \<noteq> a"
  then have pos: "0 < b - a" using assms(1) by simp
  have "cap dvd (pos + b) - (pos + a)"
    using assms(1,3) by (simp only: mod_eq_dvd_iff_nat [symmetric] add_le_cancel_left)
  then have "cap \<le> b - a" using pos by (auto dest: dvd_imp_le)
  with assms(2) pos show False by linarith
qed

lemma mod_offset_eq:
  assumes "j < cap" and "k < (cap::nat)" and "(pos + j) mod cap = (pos + k) mod cap"
  shows "j = k"
  using mod_offset_le [of j k cap pos] mod_offset_le [of k j cap pos] assms
  by (metis nat_le_linear)

lemma ring_store_nth:
  "j < length xs \<Longrightarrow> length xs \<le> cap \<Longrightarrow> length buffer = cap \<Longrightarrow>
     ring_store cap pos xs buffer ! ((pos + j) mod cap) = xs ! j"
proof (induction cap pos xs buffer arbitrary: j rule: ring_store.induct)
  case (2 cap pos x xs buffer)
  show ?case
  proof (cases j)
    case 0
    have "(Suc pos + k) mod cap \<noteq> pos mod cap" if "k < length xs" for k
      using mod_offset_eq [of "Suc k" cap 0 pos] 2(3) that by auto
    then have "ring_store cap (Suc pos) xs (buffer[pos mod cap := x]) ! (pos mod cap) = x"
      using 2(3,4) by (subst ring_store_other) auto
    with 0 show ?thesis by simp
  next
    case (Suc i)
    with 2 show ?thesis by simp
  qed
qed simp

lemma ring_push_contents:
  assumes "ring_wf ring" and "n \<le> capacity ring - ring_size ring" and "n = length ys"
  shows "map (\<lambda>k. ring_store (capacity ring) (read_index ring + ring_size ring) ys (samples ring) !
            ((read_index ring + k) mod capacity ring)) [0..<ring_size ring + n] =
     ring_contents ring @ ys"
proof (rule nth_equalityI)
  let ?c = "capacity ring" and ?p = "read_index ring + ring_size ring"
  show "length (map (\<lambda>k. ring_store ?c ?p ys (samples ring) ! ((read_index ring + k) mod ?c))
      [0..<ring_size ring + n]) = length (ring_contents ring @ ys)" using assms(3) by simp
  fix k assume "k < length (map (\<lambda>k. ring_store ?c ?p ys (samples ring) !
      ((read_index ring + k) mod ?c)) [0..<ring_size ring + n])"
  then have k: "k < ring_size ring + n" by simp
  have wf: "ring_size ring \<le> ?c" "0 < ?c" "length (samples ring) = ?c"
    using assms(1) by (simp_all add: ring_wf_def)
  show "map (\<lambda>k. ring_store ?c ?p ys (samples ring) ! ((read_index ring + k) mod ?c))
      [0..<ring_size ring + n] ! k = (ring_contents ring @ ys) ! k"
  proof (cases "k < ring_size ring")
    case True
    have "(?p + i) mod ?c \<noteq> (read_index ring + k) mod ?c" if "i < length ys" for i
    proof -
      have "ring_size ring + i < ?c" "k < ?c" using that True assms(2,3) wf by auto
      with mod_offset_eq [of "ring_size ring + i" ?c k "read_index ring"] True show ?thesis
        by (auto simp: add.assoc)
    qed
    then have "ring_store ?c ?p ys (samples ring) ! ((read_index ring + k) mod ?c) =
        samples ring ! ((read_index ring + k) mod ?c)"
      using wf by (intro ring_store_other) auto
    with True k show ?thesis by (simp add: nth_append ring_contents_def)
  next
    case False
    then obtain i where i: "k = ring_size ring + i" "i < length ys"
      using k assms(3) by (metis add_less_cancel_left le_add_diff_inverse not_less)
    have "ring_store ?c ?p ys (samples ring) ! ((?p + i) mod ?c) = ys ! i"
      using i assms wf by (intro ring_store_nth) auto
    with i k show ?thesis by (simp add: nth_append ac_simps)
  qed
qed

lemma take_min_available:
  "take (if length xs > n then n else length xs) xs = take n xs"
  by simp

lemma iq_ring_push_unfold:
  "iq_ring_push xs ring =
     (let n = min (length xs) (capacity ring - ring_size ring)
      in (n, ring\<lparr>dropped := dropped ring + of_nat (length xs - n),
                   samples := ring_store (capacity ring) (read_index ring + ring_size ring)
                       (take n xs) (samples ring),
                   ring_size := ring_size ring + n\<rparr>))"
  by (simp add: iq_ring_push_def Let_def min_def)

lemma ring_pop_contents:
  assumes "n \<le> ring_size ring"
  shows "map (\<lambda>k. samples ring ! (((read_index ring + n) mod capacity ring + k) mod capacity ring))
            [0..<ring_size ring - n] = drop n (ring_contents ring)"
  using assms
  by (intro nth_equalityI) (simp_all add: ring_contents_def mod_simps ac_simps less_diff_conv)

interpretation ring: bounded_fifo ring_wf ring_contents capacity iq_ring_push iq_ring_pop
proof
  fix q :: "'a iq_ring" and xs :: "'a list" and n :: nat
  assume wf: "ring_wf q"
  let ?n = "min (length xs) (capacity q - ring_size q)"
  show "length (ring_contents q) \<le> capacity q" using wf by (simp add: ring_wf_def)
  show "ring_wf (snd (iq_ring_push xs q)) \<and> capacity (snd (iq_ring_push xs q)) = capacity q"
    using wf by (auto simp: iq_ring_push_unfold ring_wf_def Let_def)
  show "fst (iq_ring_push xs q) = min (length xs) (capacity q - length (ring_contents q))"
    by (simp add: iq_ring_push_unfold Let_def)
  have "map (\<lambda>k. ring_store (capacity q) (read_index q + ring_size q) (take ?n xs) (samples q) !
            ((read_index q + k) mod capacity q)) [0..<ring_size q + ?n] = ring_contents q @ take ?n xs"
    using wf by (intro ring_push_contents) simp_all
  then show "ring_contents (snd (iq_ring_push xs q)) =
      ring_contents q @ take (capacity q - length (ring_contents q)) xs"
    by (simp add: iq_ring_push_unfold ring_contents_def [of "iq_ring.dropped_update _ _"] Let_def)
      (simp add: ring_contents_def min_def)
  show "ring_wf (snd (iq_ring_pop n q)) \<and> capacity (snd (iq_ring_pop n q)) = capacity q"
    using wf by (auto simp: iq_ring_pop_def ring_wf_def Let_def)
  show "fst (iq_ring_pop n q) = take n (ring_contents q)"
    by (simp add: iq_ring_pop_def ring_contents_def Let_def take_map)
  show "ring_contents (snd (iq_ring_pop n q)) = drop n (ring_contents q)"
  proof (cases "ring_size q < n")
    case True
    then show ?thesis by (simp add: iq_ring_pop_def ring_contents_def Let_def)
  next
    case False
    have "ring_contents (snd (iq_ring_pop n q)) =
        map (\<lambda>k. samples q ! (((read_index q + n) mod capacity q + k) mod capacity q))
          [0..<ring_size q - n]"
      using False by (simp add: iq_ring_pop_def ring_contents_def Let_def)
    with ring_pop_contents [of n q] False show ?thesis by simp
  qed
qed

lemma push_accounts:
  "of_nat (length xs) = of_nat (fst (iq_ring_push xs r)) + (dropped (snd (iq_ring_push xs r)) - dropped r)"
proof -
  define n where "n = min (length xs) (capacity r - ring_size r)"
  have "n \<le> length xs" by (simp add: n_def)
  then have "(of_nat (length xs) :: u64) = of_nat (n + (length xs - n))" by simp
  also have "\<dots> = of_nat n + of_nat (length xs - n)" by (rule of_nat_add)
  finally show ?thesis by (simp add: iq_ring_push_unfold Let_def flip: n_def)
qed

text \<open>
  The queue the ring stands for, written on lists: a push takes what there is room for and refuses
  the rest. The result is what was popped, what is still queued and how many samples were refused.
\<close>

fun queue_run :: "nat \<Rightarrow> 'a fifo_op list \<Rightarrow> 'a list \<Rightarrow> 'a list \<times> 'a list \<times> nat" where
  "queue_run room [] q = ([], q, 0)"
| "queue_run room (Push xs # ops) q =
     (case queue_run room ops (take room (q @ xs)) of (popped, queued, refused) \<Rightarrow>
        (popped, queued, (length q + length xs - room) + refused))"
| "queue_run room (Pop n # ops) q =
     (case queue_run room ops (drop n q) of (popped, queued, refused) \<Rightarrow>
        (take n q @ popped, queued, refused))"

lemma push_drops: "ring_wf q \<Longrightarrow> dropped (snd (iq_ring_push xs q)) =
    dropped q + of_nat (length (ring_contents q) + length xs - capacity q)"
  by (auto simp: iq_ring_push_unfold Let_def ring_wf_def min_def)

lemma ring_run_queue:
  "ring_wf q \<Longrightarrow> fifo_run iq_ring_push iq_ring_pop ops q = (outs, ins, q') \<Longrightarrow>
     \<exists>refused. queue_run (capacity q) ops (ring_contents q) = (outs, ring_contents q', refused) \<and>
       dropped q' = dropped q + of_nat refused"
proof (induction ops arbitrary: q outs ins)
  case (Cons op ops)
  show ?case
  proof (cases op)
    case (Push xs)
    obtain n q1 where p: "iq_ring_push xs q = (n, q1)" by fastforce
    obtain i1 where r: "fifo_run iq_ring_push iq_ring_pop ops q1 = (outs, i1, q')"
      using Cons.prems(2) Push p by (auto split: prod.splits)
    have q1: "ring_wf q1" "capacity q1 = capacity q"
      "ring_contents q1 = take (capacity q) (ring_contents q @ xs)"
      "dropped q1 = dropped q + of_nat (length (ring_contents q) + length xs - capacity q)"
      using ring.push_wf [OF Cons.prems(1), of xs] ring.push_contents [OF Cons.prems(1), of xs]
        ring.bounded [OF Cons.prems(1)] push_drops [OF Cons.prems(1), of xs] p by simp_all
    from Cons.IH [OF q1(1) r] show ?thesis
      by (elim exE) (simp add: Push q1(2-4) del: length_ring_contents)
  next
    case (Pop n)
    obtain ys q1 where p: "iq_ring_pop n q = (ys, q1)" by fastforce
    obtain o1 i1 where r: "fifo_run iq_ring_push iq_ring_pop ops q1 = (o1, i1, q')" "outs = ys @ o1"
      using Cons.prems(2) Pop p by (auto split: prod.splits)
    have q1: "ring_wf q1" "capacity q1 = capacity q" "ys = take n (ring_contents q)"
      "ring_contents q1 = drop n (ring_contents q)" "dropped q1 = dropped q"
      using ring.pop_wf [OF Cons.prems(1), of n] ring.pop_result [OF Cons.prems(1), of n]
        ring.pop_contents [OF Cons.prems(1), of n] p by (auto simp: iq_ring_pop_def Let_def)
    from Cons.IH [OF q1(1) r(1)] show ?thesis
      by (elim exE) (simp add: Pop q1(2-5) r(2))
  qed
qed simp

text \<open>C16.
  The I/Q ring is a bounded first-in first-out queue: over any interleaving of pushes and pops the
  samples popped, those still queued and the count \<open>dropped\<close> (as a 64-bit number) are those of the queue on
  lists, which takes from each push exactly what there is room for and refuses the rest; the
  samples popped, followed by those still queued, are exactly those accepted, in order, and the
  ring never overruns its capacity.
\<close>

theorem iq_ring_fifo:
  assumes "iq_ring_init True zero cap = (True, ring)"
    and "fifo_run iq_ring_push iq_ring_pop ops ring = (outs, ins, ring')"
  shows "(case queue_run cap ops [] of (popped, queued, refused) \<Rightarrow>
       outs = popped \<and> ring_contents ring' = queued \<and> dropped ring' = of_nat refused) \<and>
     outs @ ring_contents ring' = ins \<and> ring_wf ring' \<and> ring_size ring' \<le> cap"
proof -
  have wf: "ring_wf ring" "ring_contents ring = []" "capacity ring = cap" "dropped ring = 0"
    using assms(1) by (auto simp: iq_ring_init_def ring_wf_def ring_contents_def Let_def split: if_splits)
  have "ring_wf ring' \<and> capacity ring' = capacity ring"
    by (rule ring.run_wf [OF wf(1) assms(2)])
  moreover have "outs @ ring_contents ring' = ring_contents ring @ ins"
    by (rule ring.run_order [OF wf(1) assms(2)])
  moreover obtain refused where "queue_run cap ops [] = (outs, ring_contents ring', refused)"
    "dropped ring' = of_nat refused"
    using ring_run_queue [OF wf(1) assms(2)] wf by auto
  ultimately show ?thesis using wf by (auto simp: ring_wf_def)
qed

theorem iq_ring_fifo_witness:
  "\<exists>ring outs ins ring'. iq_ring_init True (0::int) 3 = (True, ring) \<and>
     fifo_run iq_ring_push iq_ring_pop [Push [1, 2], Pop 1, Push [3, 4, 5], Pop 9] ring = (outs, ins, ring') \<and>
     outs = [1, 2, 3, 4] \<and> dropped ring' = 1 \<and> outs @ ring_contents ring' = ins"
proof -
  define ring where "ring = snd (iq_ring_init True (0::int) 3)"
  have i: "iq_ring_init True (0::int) 3 = (True, ring)"
    by (simp add: ring_def iq_ring_init_def)
  define run where "run = fifo_run iq_ring_push iq_ring_pop [Push [1, 2], Pop 1, Push [3, 4, 5], Pop 9] ring"
  have r: "fifo_run iq_ring_push iq_ring_pop [Push [1, 2], Pop 1, Push [3, 4, 5], Pop 9] ring =
      (fst run, fst (snd run), snd (snd run))" by (simp add: run_def)
  have "queue_run 3 [Push [1, 2], Pop 1, Push [3, 4, 5], Pop 9] [] = ([1, 2, 3, 4 :: int], [], 1)"
    by code_simp
  then have "fst run = [1, 2, 3, 4]" "dropped (snd (snd run)) = 1"
    "fst run @ ring_contents (snd (snd run)) = fst (snd run)"
    using iq_ring_fifo [OF i r] by auto
  with i r show ?thesis by blast
qed

subsection \<open>Statistics over a run\<close>

definition stats_inv :: "(int \<times> int) list \<Rightarrow> iq_stats \<Rightarrow> bool" where
  "stats_inv frames st \<longleftrightarrow>
     st_frames st = of_nat (length frames) \<and>
     st_sentinel_frames st = of_nat (length [f \<leftarrow> frames. f = (-1, -1)]) \<and>
     st_have_samples st = (frames \<noteq> []) \<and>
     (frames \<noteq> [] \<longrightarrow>
        st_min_i st = Min (fst ` set frames) \<and> st_max_i st = Max (fst ` set frames) \<and>
        st_min_q st = Min (snd ` set frames) \<and> st_max_q st = Max (snd ` set frames))"

lemma stats_inv_empty: "stats_inv [] iq_stats_reset"
  by (simp add: stats_inv_def iq_stats_reset_def)

lemma update_stats_fields:
  "st_frames (update_stats si sq st) = st_frames st + 1"
  "st_sentinel_frames (update_stats si sq st) =
     st_sentinel_frames st + (if si = -1 \<and> sq = -1 then 1 else 0)"
  "st_have_samples (update_stats si sq st)"
  "st_min_i (update_stats si sq st) = (if st_have_samples st then min si (st_min_i st) else si)"
  "st_max_i (update_stats si sq st) = (if st_have_samples st then max si (st_max_i st) else si)"
  "st_min_q (update_stats si sq st) = (if st_have_samples st then min sq (st_min_q st) else sq)"
  "st_max_q (update_stats si sq st) = (if st_have_samples st then max sq (st_max_q st) else sq)"
  by (simp_all add: update_stats_def Let_def min_def max_def)

lemma stats_inv_update:
  assumes "stats_inv frames st"
  shows "stats_inv (frames @ [(si, sq)]) (update_stats si sq st)"
proof (cases "frames = []")
  case True
  with assms show ?thesis by (simp add: stats_inv_def update_stats_fields)
next
  case False
  then have "fst ` set frames \<noteq> {}" "snd ` set frames \<noteq> {}" by simp_all
  with False assms show ?thesis by (simp add: stats_inv_def update_stats_fields)
qed

lemma process_frames_stats:
  "stats_inv seen st \<Longrightarrow> process_frames frames st b = (outs, st', b') \<Longrightarrow>
     stats_inv (seen @ frames) st' \<and> length outs = length frames"
proof (induction frames st b arbitrary: seen outs rule: process_frames.induct)
  case (2 si sq frames st b)
  obtain o1 where r: "process_frames frames (update_stats si sq st) (block_dc si sq b) = (o1, st', b')"
    "length outs = Suc (length o1)"
    using 2(3) by (auto simp: Let_def split: prod.splits)
  with 2(1) [OF refl refl refl stats_inv_update [OF 2(2), of si sq] r(1)] show ?case by simp
qed simp

text \<open>
  From a reset, processing a buffer produces one output sample per whole frame up to the
  output's capacity, and leaves exact statistics: the frame and sentinel counts and the minimum
  and maximum of either channel over the frames seen.
\<close>

theorem process_iq_stats:
  assumes "process_iq16le bytes cap iq_stats_reset b = (outs, st, b')"
  shows "length outs = min (length bytes div 4) cap \<and> stats_inv (iq_frames bytes cap) st"
  using process_frames_stats [OF stats_inv_empty assms [unfolded process_iq16le_def]]
  by (simp add: iq_frames_def)

theorem process_iq_stats_witness:
  "stats_inv [(1, -2), (-1, -1)]
     (fst (snd (process_iq16le [1, 0, 0xFE, 0xFF, 0xFF, 0xFF, 0xFF, 0xFF, 7] 8 iq_stats_reset
        (dc_blocker_init (f32 (1 / 1000))))))"
proof -
  have f: "iq_frames [1, 0, 0xFE, 0xFF, 0xFF, 0xFF, 0xFF, 0xFF, 7] 8 = [(1, -2), (-1, -1)]"
    by code_simp
  define r where "r = process_iq16le [1, 0, 0xFE, 0xFF, 0xFF, 0xFF, 0xFF, 0xFF, 7] 8 iq_stats_reset
        (dc_blocker_init (f32 (1 / 1000)))"
  have "r = (fst r, fst (snd r), snd (snd r))" by simp
  from process_iq_stats [OF this [unfolded r_def]] show ?thesis by (simp add: f r_def)
qed

end
