(* ===== verification/Tx_Dsp.thy ===== *)
theory Tx_Dsp
  imports Iq
begin

text \<open>
  Model of \<open>src/tx_dsp.c\<close>: the transmit band-pass filter, the Hilbert pair that makes a single
  sideband, and the AM modulator on its 11.025 kHz carrier. Every \<open>float\<close> operation is written
  with its rounding, in the order C evaluates it (no excess precision, no fused operations);
  \<open>sinf\<close> and \<open>cosf\<close> are the parameter \<open>m\<close>.
\<close>

abbreviation TX_FIR_TAPS :: nat where "TX_FIR_TAPS \<equiv> 129"
abbreviation TX_DEFAULT_LOW_CUT_HZ :: u32 where "TX_DEFAULT_LOW_CUT_HZ \<equiv> 300"
abbreviation TX_DEFAULT_HIGH_CUT_HZ :: u32 where "TX_DEFAULT_HIGH_CUT_HZ \<equiv> 3000"
abbreviation TX_MIN_LOW_CUT_HZ :: u32 where "TX_MIN_LOW_CUT_HZ \<equiv> 50"
abbreviation TX_MAX_HIGH_CUT_HZ :: u32 where "TX_MAX_HIGH_CUT_HZ \<equiv> 12000"
abbreviation TX_MIN_PASSBAND_HZ :: u32 where "TX_MIN_PASSBAND_HZ \<equiv> 100"
abbreviation TX_AM_IF_HZ :: u32 where "TX_AM_IF_HZ \<equiv> 11025"

datatype tx_mode = TxUsb | TxLsb | TxAm

record tx_dsp =
  bandpass :: "rat list"
  hilbert :: "rat list"
  audio_history :: "rat list"
  filtered_history :: "rat list"
  audio_index :: nat
  filtered_index :: nat
  previous_input :: rat
  previous_highpass :: rat
  carrier_phase :: rat
  low_cut_hz :: u32
  high_cut_hz :: u32
  dsp_mode :: tx_mode

definition PI_F :: rat where "PI_F = f32 (314159265358979323846 / 10 ^ 20)"
definition two_pi_f :: rat where "two_pi_f = f32 (2 * PI_F)"
definition AM_MODULATION_INDEX :: rat where "AM_MODULATION_INDEX = f32 (8 / 10)"

definition lowpass_coefficient :: "libm \<Rightarrow> rat \<Rightarrow> int \<Rightarrow> rat" where
  "lowpass_coefficient m cutoff offset =
     (if offset = 0 then f32 (f32 (2 * cutoff) / 48000)
      else f32 (lib_sinf m (f32 (f32 (f32 (two_pi_f * cutoff) * of_int offset) / 48000)) /
                f32 (PI_F * of_int offset)))"

definition tap_window :: "libm \<Rightarrow> nat \<Rightarrow> rat" where
  "tap_window m tap =
     f32 (f32 (54 / 100) -
       f32 (f32 (46 / 100) * lib_cosf m (f32 (f32 (two_pi_f * of_nat tap) / 128))))"

definition tx_dsp_init_passband :: "libm \<Rightarrow> tx_mode \<Rightarrow> u32 \<Rightarrow> u32 \<Rightarrow> tx_dsp option" where
  "tx_dsp_init_passband m mode low high =
     (if low < TX_MIN_LOW_CUT_HZ \<or> high > TX_MAX_HIGH_CUT_HZ \<or> high < low + TX_MIN_PASSBAND_HZ
      then None
      else
        let low_f = f32 (of_nat (unat low)); high_f = f32 (of_nat (unat high));
            offset = (\<lambda>tap. int tap - 64)
        in Some \<lparr>bandpass = map (\<lambda>tap.
               f32 (f32 (lowpass_coefficient m high_f (offset tap) -
                         lowpass_coefficient m low_f (offset tap)) * tap_window m tap))
               [0..<TX_FIR_TAPS],
             hilbert = map (\<lambda>tap.
               if offset tap \<noteq> 0 \<and> \<bar>offset tap\<bar> mod 2 \<noteq> 0
               then f32 (f32 (2 * tap_window m tap) / f32 (PI_F * of_int (offset tap))) else 0)
               [0..<TX_FIR_TAPS],
             audio_history = replicate TX_FIR_TAPS 0, filtered_history = replicate TX_FIR_TAPS 0,
             audio_index = 0, filtered_index = 0, previous_input = 0, previous_highpass = 0,
             carrier_phase = 0, low_cut_hz = low, high_cut_hz = high, dsp_mode = mode\<rparr>)"

text \<open>A rejected passband leaves the structure as it was.\<close>

definition tx_dsp_init :: "libm \<Rightarrow> tx_mode \<Rightarrow> tx_dsp \<Rightarrow> tx_dsp" where
  "tx_dsp_init m mode dsp =
     (case tx_dsp_init_passband m mode TX_DEFAULT_LOW_CUT_HZ TX_DEFAULT_HIGH_CUT_HZ of
        None \<Rightarrow> dsp | Some d \<Rightarrow> d)"

fun fir_loop :: "rat list \<Rightarrow> rat list \<Rightarrow> nat \<Rightarrow> rat \<Rightarrow> rat" where
  "fir_loop [] history position out = out"
| "fir_loop (c # coefficients) history position out =
     fir_loop coefficients history (if position = 0 then TX_FIR_TAPS - 1 else position - 1)
       (f32 (out + f32 (c * history ! position)))"

definition fir :: "rat list \<Rightarrow> rat list \<Rightarrow> nat \<Rightarrow> rat" where
  "fir coefficients history newest = fir_loop (take TX_FIR_TAPS coefficients) history newest 0"

definition tx_dsp_process :: "libm \<Rightarrow> tx_dsp \<Rightarrow> rat \<Rightarrow> iq_sample \<times> tx_dsp" where
  "tx_dsp_process m dsp microphone_sample =
     (let highpass = f32 (f32 (microphone_sample - previous_input dsp) +
                          f32 (f32 (995 / 1000) * previous_highpass dsp));
          dsp = dsp\<lparr>previous_input := microphone_sample, previous_highpass := highpass\<rparr>;
          dsp = dsp\<lparr>audio_history := (audio_history dsp)[audio_index dsp := highpass]\<rparr>;
          filtered = fir (bandpass dsp) (audio_history dsp) (audio_index dsp);
          dsp = dsp\<lparr>audio_index := (audio_index dsp + 1) mod TX_FIR_TAPS\<rparr>;
          dsp = dsp\<lparr>filtered_history := (filtered_history dsp)[filtered_index dsp := filtered]\<rparr>;
          delayed = (filtered_index dsp + TX_FIR_TAPS - 64) mod TX_FIR_TAPS;
          in_phase = filtered_history dsp ! delayed;
          (out, dsp) =
            (if dsp_mode dsp = TxAm
             then
               let bounded = max (- 1) (min 1 in_phase);
                   carrier = f32 (1 / f32 (1 + AM_MODULATION_INDEX));
                   envelope = f32 (carrier * f32 (1 + f32 (AM_MODULATION_INDEX * bounded)));
                   out = \<lparr>i_part = f32 (envelope * lib_cosf m (carrier_phase dsp)),
                          q_part = f32 (- envelope * lib_sinf m (carrier_phase dsp))\<rparr>;
                   phase = f32 (carrier_phase dsp + f32 (f32 (two_pi_f * 11025) / 48000));
                   phase = (if phase \<ge> two_pi_f then f32 (phase - two_pi_f) else phase)
               in (out, dsp\<lparr>carrier_phase := phase\<rparr>)
             else
               let quadrature = fir (hilbert dsp) (filtered_history dsp) (filtered_index dsp)
               in (\<lparr>i_part = in_phase,
                    q_part = (if dsp_mode dsp = TxUsb then - quadrature else quadrature)\<rparr>, dsp))
      in (out, dsp\<lparr>filtered_index := (filtered_index dsp + 1) mod TX_FIR_TAPS\<rparr>))"

subsection \<open>Well-formedness and silence\<close>

definition tx_dsp_wf :: "tx_dsp \<Rightarrow> bool" where
  "tx_dsp_wf dsp \<longleftrightarrow>
     length (bandpass dsp) = TX_FIR_TAPS \<and> length (hilbert dsp) = TX_FIR_TAPS \<and>
     length (audio_history dsp) = TX_FIR_TAPS \<and> length (filtered_history dsp) = TX_FIR_TAPS \<and>
     audio_index dsp < TX_FIR_TAPS \<and> filtered_index dsp < TX_FIR_TAPS"

lemma tx_dsp_init_wf:
  "tx_dsp_init_passband m mode low high = Some dsp \<Longrightarrow> tx_dsp_wf dsp \<and> dsp_mode dsp = mode"
  by (auto simp: tx_dsp_init_passband_def tx_dsp_wf_def Let_def split: if_splits)

lemma tx_dsp_init_default: "tx_dsp_init_passband m mode TX_DEFAULT_LOW_CUT_HZ TX_DEFAULT_HIGH_CUT_HZ \<noteq> None"
  by (simp add: tx_dsp_init_passband_def Let_def)

lemma tx_dsp_process_wf:
  "tx_dsp_wf dsp \<Longrightarrow> tx_dsp_wf (snd (tx_dsp_process m dsp x)) \<and>
     dsp_mode (snd (tx_dsp_process m dsp x)) = dsp_mode dsp"
  by (simp add: tx_dsp_process_def tx_dsp_wf_def Let_def)

lemma fir_loop_zero:
  "\<forall>k < TX_FIR_TAPS. history ! k = 0 \<Longrightarrow> position < TX_FIR_TAPS \<Longrightarrow>
     fir_loop coefficients history position 0 = 0"
  by (induction coefficients arbitrary: position) auto

definition tx_dsp_quiet :: "tx_dsp \<Rightarrow> bool" where
  "tx_dsp_quiet dsp \<longleftrightarrow> tx_dsp_wf dsp \<and> previous_input dsp = 0 \<and> previous_highpass dsp = 0 \<and>
     audio_history dsp = replicate TX_FIR_TAPS 0 \<and> filtered_history dsp = replicate TX_FIR_TAPS 0"

lemma replicate_update_same: "(replicate n x)[i := x] = replicate n x"
  by (cases "i < n") (simp_all add: list_update_same_conv list_update_beyond)

lemma tx_dsp_init_quiet:
  "\<forall>dsp. tx_dsp_init_passband m mode low high = Some dsp \<longrightarrow> tx_dsp_quiet dsp \<and> dsp_mode dsp = mode"
  by (simp add: tx_dsp_init_passband_def tx_dsp_quiet_def tx_dsp_wf_def Let_def)

lemma tx_dsp_silent_step:
  assumes "tx_dsp_quiet dsp" and "dsp_mode dsp \<noteq> TxAm"
  shows "fst (tx_dsp_process m dsp 0) = \<lparr>i_part = 0, q_part = 0\<rparr> \<and>
     tx_dsp_quiet (snd (tx_dsp_process m dsp 0)) \<and>
     dsp_mode (snd (tx_dsp_process m dsp 0)) = dsp_mode dsp"
proof -
  have z: "fir c (replicate TX_FIR_TAPS 0) k = 0" if "k < TX_FIR_TAPS" for c k
    unfolding fir_def using that by (intro fir_loop_zero) simp_all
  have "(filtered_index dsp + TX_FIR_TAPS - 64) mod TX_FIR_TAPS < TX_FIR_TAPS" by simp
  then show ?thesis
    using assms z
    by (simp add: tx_dsp_process_def tx_dsp_quiet_def tx_dsp_wf_def Let_def replicate_update_same)
qed

fun tx_dsp_run :: "libm \<Rightarrow> tx_dsp \<Rightarrow> rat list \<Rightarrow> iq_sample list \<times> tx_dsp" where
  "tx_dsp_run m dsp [] = ([], dsp)"
| "tx_dsp_run m dsp (x # xs) =
     (case tx_dsp_process m dsp x of (y, dsp) \<Rightarrow>
        case tx_dsp_run m dsp xs of (ys, dsp) \<Rightarrow> (y # ys, dsp))"

text \<open>
  A freshly initialised single-sideband modulator emits nothing while the microphone is silent:
  however long the silence, every output sample is zero, whatever the trigonometric library
  returns for the coefficients.
\<close>

theorem ssb_silence:
  assumes "tx_dsp_init_passband m mode low high = Some dsp" and "mode \<noteq> TxAm"
  shows "fst (tx_dsp_run m dsp (replicate n 0)) = replicate n \<lparr>i_part = 0, q_part = 0\<rparr>"
proof -
  have quiet: "tx_dsp_quiet dsp \<and> dsp_mode dsp \<noteq> TxAm"
    using assms tx_dsp_init_quiet by blast
  have "fst (tx_dsp_run m d (replicate n 0)) = replicate n \<lparr>i_part = 0, q_part = 0\<rparr>"
    if "tx_dsp_quiet d \<and> dsp_mode d \<noteq> TxAm" for d
    using that
  proof (induction n arbitrary: d)
    case (Suc n)
    with tx_dsp_silent_step [of d m] show ?case by (simp add: case_prod_beta)
  qed simp
  with quiet show ?thesis by blast
qed

theorem ssb_silence_witness:
  "\<forall>m. \<exists>dsp. tx_dsp_init_passband m TxUsb 300 3000 = Some dsp \<and>
     fst (tx_dsp_run m dsp (replicate 500 0)) = replicate 500 \<lparr>i_part = 0, q_part = 0\<rparr>"
proof
  fix m
  obtain dsp where d: "tx_dsp_init_passband m TxUsb 300 3000 = Some dsp"
    using tx_dsp_init_default [of m TxUsb] by auto
  from ssb_silence [OF d, of 500] d
  show "\<exists>dsp. tx_dsp_init_passband m TxUsb 300 3000 = Some dsp \<and>
     fst (tx_dsp_run m dsp (replicate 500 0)) = replicate 500 \<lparr>i_part = 0, q_part = 0\<rparr>" by simp
qed

end
