(* ===== verification/Tx_Audio_Stream.thy ===== *)
theory Tx_Audio_Stream
  imports Tx_Dsp
begin

text \<open>
  Model of \<open>src/tx_audio_stream.c\<close>: the 65536-frame queue of microphone or network audio that
  is waiting to be transmitted, its two producers, and the renderer that turns queued frames into
  the 16-bit I/Q bytes of endpoint 0x01 with gain, compressor, fades and limiter. \<open>float\<close> and
  \<open>double\<close> arithmetic is that of \<open>Soft_Float\<close>; \<open>m\<close> is the mathematical library.
\<close>

unbundle bit_operations_syntax

subsection \<open>State\<close>

abbreviation TX_AUDIO_CAPACITY :: nat where "TX_AUDIO_CAPACITY \<equiv> 65536"
abbreviation TX_FULL_DRIVE_PEAK :: rat where "TX_FULL_DRIVE_PEAK \<equiv> 24890"
abbreviation TX_ENVELOPE_FRAMES :: nat where "TX_ENVELOPE_FRAMES \<equiv> 480"

record tx_audio_stats =
  microphone_frames :: u64
  output_frames :: u64
  dropped_microphone_frames :: u64
  underrun_frames :: u64
  clipped_frames :: u64
  limited_frames :: u64
  peak_queued_frames :: u64
  stop_requested_frames :: u64
  graceful_drained_frames :: u64
  graceful_discarded_frames :: u64
  graceful_drain_ms :: u64
  input_peak :: rat
  input_rms :: rat
  post_gain_peak :: rat
  post_gain_rms :: rat
  output_peak :: rat
  output_rms :: rat
  peak_magnitude :: rat
  maximum_output_step :: rat

record tx_audio_stream =
  stream_dsp :: tx_dsp
  microphone :: "rat list"
  network_iq :: "iq_sample list"
  raw_iq :: bool
  translate_raw_iq :: bool
  raw_iq_phase :: rat
  audio_read_index :: nat
  audio_write_index :: nat
  audio_count :: nat
  drive_percent :: u32
  microphone_gain :: rat
  compressor_enabled :: bool
  input_square_sum :: rat
  post_gain_square_sum :: rat
  output_square_sum :: rat
  post_gain_frames :: u64
  fade_position :: nat
  graceful_stop_requested :: bool
  previous_output_valid :: bool
  previous_output_i :: rat
  previous_output_q :: rat
  audio_stats :: tx_audio_stats

definition zero_stats :: tx_audio_stats where
  "zero_stats =
     \<lparr>microphone_frames = 0, output_frames = 0, dropped_microphone_frames = 0, underrun_frames = 0,
      clipped_frames = 0, limited_frames = 0, peak_queued_frames = 0, stop_requested_frames = 0,
      graceful_drained_frames = 0, graceful_discarded_frames = 0, graceful_drain_ms = 0,
      input_peak = 0, input_rms = 0, post_gain_peak = 0, post_gain_rms = 0, output_peak = 0,
      output_rms = 0, peak_magnitude = 0, maximum_output_step = 0\<rparr>"

definition zero_dsp :: tx_dsp where
  "zero_dsp =
     \<lparr>bandpass = replicate TX_FIR_TAPS 0, hilbert = replicate TX_FIR_TAPS 0,
      audio_history = replicate TX_FIR_TAPS 0, filtered_history = replicate TX_FIR_TAPS 0,
      audio_index = 0, filtered_index = 0, previous_input = 0, previous_highpass = 0,
      carrier_phase = 0, low_cut_hz = 0, high_cut_hz = 0, dsp_mode = TxUsb\<rparr>"

text \<open>All bytes zero.\<close>

definition zero_stream :: tx_audio_stream where
  "zero_stream =
     \<lparr>stream_dsp = zero_dsp, microphone = replicate TX_AUDIO_CAPACITY 0,
      network_iq = replicate TX_AUDIO_CAPACITY \<lparr>i_part = 0, q_part = 0\<rparr>, raw_iq = False,
      translate_raw_iq = False, raw_iq_phase = 0, audio_read_index = 0, audio_write_index = 0,
      audio_count = 0, drive_percent = 0, microphone_gain = 0, compressor_enabled = False,
      input_square_sum = 0, post_gain_square_sum = 0, output_square_sum = 0, post_gain_frames = 0,
      fade_position = 0, graceful_stop_requested = False, previous_output_valid = False,
      previous_output_i = 0, previous_output_q = 0, audio_stats = zero_stats\<rparr>"

definition map_stats :: "(tx_audio_stats \<Rightarrow> tx_audio_stats) \<Rightarrow> tx_audio_stream \<Rightarrow> tx_audio_stream" where
  "map_stats f s = s\<lparr>audio_stats := f (audio_stats s)\<rparr>"

subsection \<open>Set-up\<close>

text \<open>The gain is \<open>None\<close> when it is not a finite number.\<close>

definition tx_audio_stream_init ::
  "libm \<Rightarrow> tx_mode \<Rightarrow> u32 \<Rightarrow> rat option \<Rightarrow> tx_audio_stream \<Rightarrow> bool \<times> tx_audio_stream" where
  "tx_audio_stream_init m mode drive gain s =
     (case gain of
        None \<Rightarrow> (False, s)
      | Some g \<Rightarrow>
          if drive < 1 \<or> drive > 100 \<or> g \<le> 0 then (False, s)
          else
            let s = zero_stream\<lparr>drive_percent := drive, microphone_gain := g\<rparr>
            in case tx_dsp_init_passband m mode TX_DEFAULT_LOW_CUT_HZ TX_DEFAULT_HIGH_CUT_HZ of
                 None \<Rightarrow> (False, s)
               | Some d \<Rightarrow> (True, s\<lparr>stream_dsp := d\<rparr>))"

definition tx_audio_stream_reset :: "libm \<Rightarrow> tx_mode \<Rightarrow> tx_audio_stream \<Rightarrow> tx_audio_stream" where
  "tx_audio_stream_reset m mode s =
     s\<lparr>audio_read_index := 0, audio_write_index := 0, audio_count := 0, fade_position := 0,
       graceful_stop_requested := False, previous_output_valid := False,
       previous_output_i := 0, previous_output_q := 0,
       stream_dsp := tx_dsp_init m mode (stream_dsp s)\<rparr>"

definition tx_audio_stream_set_compressor :: "bool \<Rightarrow> tx_audio_stream \<Rightarrow> tx_audio_stream" where
  "tx_audio_stream_set_compressor enabled s = s\<lparr>compressor_enabled := enabled\<rparr>"

definition tx_audio_stream_begin_graceful_stop :: "tx_audio_stream \<Rightarrow> tx_audio_stream" where
  "tx_audio_stream_begin_graceful_stop s =
     (if \<not> raw_iq s then s\<lparr>graceful_stop_requested := True\<rparr> else s)"

definition tx_audio_stream_set_raw_iq :: "bool \<Rightarrow> tx_audio_stream \<Rightarrow> tx_audio_stream" where
  "tx_audio_stream_set_raw_iq enabled s = s\<lparr>raw_iq := enabled\<rparr>"

definition tx_audio_stream_set_raw_iq_translation :: "bool \<Rightarrow> tx_audio_stream \<Rightarrow> tx_audio_stream" where
  "tx_audio_stream_set_raw_iq_translation enabled s =
     s\<lparr>translate_raw_iq := enabled, raw_iq_phase := 0\<rparr>"

subsection \<open>Carrier detection on a raw I/Q prebuffer\<close>

text \<open>The frames of the buffer, without a limit on their number.\<close>

definition all_frames :: "u8 list \<Rightarrow> (int \<times> int) list" where
  "all_frames input = iq_frames input (length input)"

text \<open>One term of the power sum: \<open>(double)i * i + (double)q * q\<close>.\<close>

definition frame_power :: "int \<Rightarrow> int \<Rightarrow> rat" where
  "frame_power i q = f64 (f64 (of_int i * of_int i) + f64 (of_int q * of_int q))"

fun carrier_sums :: "(int \<times> int) list \<Rightarrow> rat \<times> rat \<times> rat \<Rightarrow> rat \<times> rat \<times> rat" where
  "carrier_sums [] acc = acc"
| "carrier_sums ((i, q) # frames) (sum_i, sum_q, sum_power) =
     carrier_sums frames
       (f64 (sum_i + of_int i), f64 (sum_q + of_int q), f64 (sum_power + frame_power i q))"

definition tx_raw_iq_dc_carrier_ratio :: "libm \<Rightarrow> u8 list \<Rightarrow> rat" where
  "tx_raw_iq_dc_carrier_ratio m input =
     (if length input < 4 then 0
      else case carrier_sums (all_frames input) (0, 0, 0) of (sum_i, sum_q, sum_power) \<Rightarrow>
        let n = f64 (of_nat (length input div 4))
        in if sum_power \<le> 0 then 0
           else f32 (f64 (lib_hypot m (f64 (sum_i / n)) (f64 (sum_q / n)) /
                          lib_sqrt m (f64 (sum_power / n)))))"

definition tx_raw_iq_should_translate :: "libm \<Rightarrow> u8 list \<Rightarrow> bool" where
  "tx_raw_iq_should_translate m input =
     (if length input < 1024 * 4 then False
      else case carrier_sums (all_frames input) (0, 0, 0) of (_, _, sum_power) \<Rightarrow>
        let n = f64 (of_nat (length input div 4));
            normalized_rms = f64 (lib_sqrt m (f64 (sum_power / n)) / 32768)
        in normalized_rms \<ge> f64 (2 / 100) \<and> tx_raw_iq_dc_carrier_ratio m input \<ge> 3 / 4)"

subsection \<open>Producers\<close>

definition normalize_sample :: "int \<Rightarrow> rat" where
  "normalize_sample sample = f32 (f32 (of_int sample) / 32768)"

text \<open>\<open>write_index\<close>, \<open>count\<close> and the peak after one frame was stored.\<close>

definition audio_advance :: "tx_audio_stream \<Rightarrow> tx_audio_stream" where
  "audio_advance s =
     (let s = s\<lparr>audio_write_index := (audio_write_index s + 1) mod TX_AUDIO_CAPACITY,
                audio_count := audio_count s + 1\<rparr>
      in if of_nat (audio_count s) > peak_queued_frames (audio_stats s)
         then map_stats (\<lambda>t. t\<lparr>peak_queued_frames := of_nat (audio_count s)\<rparr>) s else s)"

text \<open>\<open>input_peak\<close> and the sum of squares.\<close>

definition audio_measure :: "rat \<Rightarrow> tx_audio_stream \<Rightarrow> tx_audio_stream" where
  "audio_measure x s =
     (let s = (if \<bar>x\<bar> > input_peak (audio_stats s)
               then map_stats (\<lambda>t. t\<lparr>input_peak := \<bar>x\<bar>\<rparr>) s else s)
      in s\<lparr>input_square_sum := f64 (input_square_sum s + f64 (x * x))\<rparr>)"

definition count_dropped :: "tx_audio_stream \<Rightarrow> tx_audio_stream" where
  "count_dropped = map_stats (\<lambda>t. t\<lparr>dropped_microphone_frames := dropped_microphone_frames t + 1\<rparr>)"

text \<open>What both producers do after their loop.\<close>

definition audio_count_frames :: "libm \<Rightarrow> nat \<Rightarrow> tx_audio_stream \<Rightarrow> tx_audio_stream" where
  "audio_count_frames m frames s =
     (let s = map_stats (\<lambda>t. t\<lparr>microphone_frames := microphone_frames t + of_nat frames\<rparr>) s;
          n = microphone_frames (audio_stats s)
      in if n \<noteq> 0
         then map_stats (\<lambda>t. t\<lparr>input_rms := f32 (lib_sqrt m
                (f64 (input_square_sum s / f64 (of_nat (unat n)))))\<rparr>) s
         else s)"

text \<open>The loop over the samples, which are already normalized.\<close>

fun push_pcm_loop :: "rat list \<Rightarrow> tx_audio_stream \<Rightarrow> nat \<times> tx_audio_stream" where
  "push_pcm_loop [] s = (0, s)"
| "push_pcm_loop (x # rest) s =
     (if audio_count s = TX_AUDIO_CAPACITY then push_pcm_loop rest (count_dropped s)
      else
        let s = s\<lparr>microphone := (microphone s)[audio_write_index s := x]\<rparr>
        in case push_pcm_loop rest (audio_measure x (audio_advance s)) of
             (accepted, s) \<Rightarrow> (Suc accepted, s))"

definition pcm_samples :: "u8 list \<Rightarrow> int list" where
  "pcm_samples input =
     map (\<lambda>k. sint ((ucast (input ! (2 * k)) :: u16) OR push_bit 8 (ucast (input ! (2 * k + 1)))))
       [0..<length input div 2]"

definition tx_audio_stream_push_pcm16le ::
  "libm \<Rightarrow> u8 list \<Rightarrow> tx_audio_stream \<Rightarrow> nat \<times> tx_audio_stream" where
  "tx_audio_stream_push_pcm16le m input s =
     (if raw_iq s \<or> graceful_stop_requested s then (0, s)
      else case push_pcm_loop (map normalize_sample (pcm_samples input)) s of (accepted, s) \<Rightarrow>
        (accepted, audio_count_frames m (length input div 2) s))"

fun push_iq_loop :: "(int \<times> int) list \<Rightarrow> tx_audio_stream \<Rightarrow> nat \<times> tx_audio_stream" where
  "push_iq_loop [] s = (0, s)"
| "push_iq_loop ((i, q) # rest) s =
     (if audio_count s = TX_AUDIO_CAPACITY then push_iq_loop rest (count_dropped s)
      else
        let x = normalize_sample i;
            s = (if raw_iq s
                 then s\<lparr>network_iq := (network_iq s)[audio_write_index s :=
                        \<lparr>i_part = x, q_part = normalize_sample q\<rparr>]\<rparr>
                 else s\<lparr>microphone := (microphone s)[audio_write_index s := x]\<rparr>)
        in case push_iq_loop rest (audio_advance (audio_measure x s)) of
             (accepted, s) \<Rightarrow> (Suc accepted, s))"

definition tx_audio_stream_push_iq16le ::
  "libm \<Rightarrow> u8 list \<Rightarrow> tx_audio_stream \<Rightarrow> nat \<times> tx_audio_stream" where
  "tx_audio_stream_push_iq16le m input s =
     (if graceful_stop_requested s then (0, s)
      else case push_iq_loop (all_frames input) s of (accepted, s) \<Rightarrow>
        (accepted, audio_count_frames m (length input div 4) s))"

definition tx_audio_stream_available :: "tx_audio_stream \<Rightarrow> nat" where
  "tx_audio_stream_available s =
     (if audio_count s \<le> TX_AUDIO_CAPACITY then TX_AUDIO_CAPACITY - audio_count s else 0)"

definition tx_audio_stream_queued :: "tx_audio_stream \<Rightarrow> nat" where
  "tx_audio_stream_queued s = audio_count s"

subsection \<open>The renderer\<close>

definition raised_cosine :: "libm \<Rightarrow> rat \<Rightarrow> rat" where
  "raised_cosine m position =
     (if position \<le> 0 then 0 else if position \<ge> 1 then 1
      else f32 (1 / 2 - f32 (1 / 2 * lib_cosf m (f32 (PI_F * position)))))"

text \<open>The result and whether it was clipped.\<close>

definition clamp_i16 :: "rat \<Rightarrow> int \<times> bool" where
  "clamp_i16 sample =
     (if sample > 32767 then (32767, True)
      else if sample < - 32768 then (- 32768, True)
      else (lrint sample, False))"

text \<open>Rotation of a raw I/Q sample to the AM intermediate frequency.\<close>

definition translate_iq :: "libm \<Rightarrow> tx_audio_stream \<Rightarrow> iq_sample \<Rightarrow> iq_sample \<times> tx_audio_stream" where
  "translate_iq m s iq =
     (if \<not> translate_raw_iq s then (iq, s)
      else
        let cosine = lib_cosf m (raw_iq_phase s); sine = lib_sinf m (raw_iq_phase s);
            out = \<lparr>i_part = f32 (f32 (i_part iq * cosine) + f32 (q_part iq * sine)),
                   q_part = f32 (f32 (q_part iq * cosine) - f32 (i_part iq * sine))\<rparr>;
            phase = f32 (raw_iq_phase s + f32 (f32 (two_pi_f * 11025) / 48000))
        in (out, s\<lparr>raw_iq_phase := (if phase \<ge> two_pi_f then f32 (phase - two_pi_f) else phase)\<rparr>))"

definition COMPRESSOR_THRESHOLD :: rat where "COMPRESSOR_THRESHOLD = 1 / 4"

definition compress :: "libm \<Rightarrow> rat \<Rightarrow> rat" where
  "compress m x =
     (let compressed = f32 (COMPRESSOR_THRESHOLD *
            lib_powf m (f32 (\<bar>x\<bar> / COMPRESSOR_THRESHOLD)) (f32 (1 / 3)))
      in if x < 0 then - \<bar>compressed\<bar> else \<bar>compressed\<bar>)"

text \<open>Post-gain statistics of one frame.\<close>

definition measure_gain :: "libm \<Rightarrow> rat \<Rightarrow> tx_audio_stream \<Rightarrow> tx_audio_stream" where
  "measure_gain m x s =
     (let s = (if \<bar>x\<bar> > post_gain_peak (audio_stats s)
               then map_stats (\<lambda>t. t\<lparr>post_gain_peak := \<bar>x\<bar>\<rparr>) s else s);
          s = s\<lparr>post_gain_square_sum := f64 (post_gain_square_sum s + f64 (x * x)),
                post_gain_frames := post_gain_frames s + 1\<rparr>
      in map_stats (\<lambda>t. t\<lparr>post_gain_rms := f32 (lib_sqrt m
            (f64 (post_gain_square_sum s / f64 (of_nat (unat (post_gain_frames s))))))\<rparr>) s)"

text \<open>The next sample: the oldest queued frame, or silence and an underrun.\<close>

definition render_source :: "libm \<Rightarrow> tx_audio_stream \<Rightarrow> iq_sample \<times> tx_audio_stream" where
  "render_source m s =
     (if audio_count s > 0
      then
        let x = microphone s ! audio_read_index s;
            (iq, s) = (if raw_iq s then translate_iq m s (network_iq s ! audio_read_index s)
                       else (\<lparr>i_part = 0, q_part = 0\<rparr>, s));
            s = s\<lparr>audio_read_index := (audio_read_index s + 1) mod TX_AUDIO_CAPACITY,
                  audio_count := audio_count s - 1\<rparr>;
            x = f32 (x * microphone_gain s);
            s = measure_gain m x s;
            x = (if \<not> raw_iq s \<and> compressor_enabled s \<and> \<bar>x\<bar> > COMPRESSOR_THRESHOLD
                 then compress m x else x)
        in if \<not> raw_iq s
           then (case tx_dsp_process m (stream_dsp s) x of (iq, d) \<Rightarrow> (iq, s\<lparr>stream_dsp := d\<rparr>))
           else (iq, s)
      else
        let s = map_stats (\<lambda>t. t\<lparr>underrun_frames := underrun_frames t + 1\<rparr>) s
        in case tx_dsp_process m (stream_dsp s) 0 of (iq, d) \<Rightarrow> (iq, s\<lparr>stream_dsp := d\<rparr>))"

text \<open>The envelope: the fade at the start and the one of a graceful stop.\<close>

definition render_fade :: "libm \<Rightarrow> tx_audio_stream \<Rightarrow> rat \<times> tx_audio_stream" where
  "render_fade m s =
     (let fade = (if fade_position s < TX_ENVELOPE_FRAMES
                  then raised_cosine m (f32 (of_nat (fade_position s) / of_nat TX_ENVELOPE_FRAMES))
                  else 1);
          s = (if fade_position s < TX_ENVELOPE_FRAMES
               then s\<lparr>fade_position := fade_position s + 1\<rparr> else s);
          fade = (if graceful_stop_requested s \<and> audio_count s < TX_ENVELOPE_FRAMES
                  then f32 (fade * raised_cosine m (f32 (of_nat (audio_count s) / of_nat TX_ENVELOPE_FRAMES)))
                  else fade)
      in (fade, s))"

text \<open>Scaling and limiter.\<close>

definition render_limit :: "libm \<Rightarrow> rat \<Rightarrow> rat \<Rightarrow> iq_sample \<Rightarrow> tx_audio_stream \<Rightarrow> rat \<times> rat \<times> tx_audio_stream" where
  "render_limit m drive_limit fade iq s =
     (let out_i = f32 (f32 (i_part iq * drive_limit) * fade);
          out_q = f32 (f32 (q_part iq * drive_limit) * fade);
          requested = lib_hypotf m out_i out_q
      in if requested > drive_limit \<and> requested > 0
         then let g = f32 (drive_limit / requested)
              in (f32 (out_i * g), f32 (out_q * g),
                  map_stats (\<lambda>t. t\<lparr>limited_frames := limited_frames t + 1\<rparr>) s)
         else (out_i, out_q, s))"

text \<open>Statistics of one 16-bit output pair.\<close>

definition measure_output :: "libm \<Rightarrow> rat \<Rightarrow> int \<Rightarrow> int \<Rightarrow> tx_audio_stream \<Rightarrow> tx_audio_stream" where
  "measure_output m drive_limit sample_i sample_q s =
     (let step = lib_hypotf m (f32 (of_int sample_i - previous_output_i s))
                              (f32 (of_int sample_q - previous_output_q s));
          s = (if previous_output_valid s \<and> step > maximum_output_step (audio_stats s)
               then map_stats (\<lambda>t. t\<lparr>maximum_output_step := step\<rparr>) s else s);
          s = s\<lparr>previous_output_i := of_int sample_i, previous_output_q := of_int sample_q,
                previous_output_valid := True\<rparr>;
          magnitude = lib_hypotf m (of_int sample_i) (of_int sample_q);
          normalized = (if drive_limit > 0 then f32 (magnitude / TX_FULL_DRIVE_PEAK) else 0);
          s = (if normalized > output_peak (audio_stats s)
               then map_stats (\<lambda>t. t\<lparr>output_peak := normalized\<rparr>) s else s);
          s = s\<lparr>output_square_sum := f64 (output_square_sum s + f64 (normalized * normalized))\<rparr>
      in if magnitude > peak_magnitude (audio_stats s)
         then map_stats (\<lambda>t. t\<lparr>peak_magnitude := magnitude\<rparr>) s else s)"

text \<open>The two bytes of a sample.\<close>

definition sample_bytes :: "int \<Rightarrow> u8 list" where
  "sample_bytes sample = [word_of_int sample, ucast (drop_bit 8 (word_of_int sample :: u16))]"

definition render_frame :: "libm \<Rightarrow> rat \<Rightarrow> tx_audio_stream \<Rightarrow> u8 list \<times> tx_audio_stream" where
  "render_frame m drive_limit s =
     (case render_source m s of (iq, s) \<Rightarrow>
      case render_fade m s of (fade, s) \<Rightarrow>
      case render_limit m drive_limit fade iq s of (out_i, out_q, s) \<Rightarrow>
      case clamp_i16 out_i of (sample_i, clipped_i) \<Rightarrow>
      case clamp_i16 out_q of (sample_q, clipped_q) \<Rightarrow>
        let s = (if clipped_i \<or> clipped_q
                 then map_stats (\<lambda>t. t\<lparr>clipped_frames := clipped_frames t + 1\<rparr>) s else s)
        in (sample_bytes sample_i @ sample_bytes sample_q,
            measure_output m drive_limit sample_i sample_q s))"

fun render_loop :: "libm \<Rightarrow> rat \<Rightarrow> nat \<Rightarrow> tx_audio_stream \<Rightarrow> u8 list \<times> tx_audio_stream" where
  "render_loop m drive_limit 0 s = ([], s)"
| "render_loop m drive_limit (Suc frames) s =
     (case render_frame m drive_limit s of (bytes, s) \<Rightarrow>
        case render_loop m drive_limit frames s of (rest, s) \<Rightarrow> (bytes @ rest, s))"

text \<open>The output counters, after the loop.\<close>

definition audio_count_output :: "libm \<Rightarrow> nat \<Rightarrow> tx_audio_stream \<Rightarrow> tx_audio_stream" where
  "audio_count_output m frames s =
     (let s = map_stats (\<lambda>t. t\<lparr>output_frames := output_frames t + of_nat frames\<rparr>) s;
          n = output_frames (audio_stats s)
      in if n \<noteq> 0
         then map_stats (\<lambda>t. t\<lparr>output_rms := f32 (lib_sqrt m
                (f64 (output_square_sum s / f64 (of_nat (unat n)))))\<rparr>) s
         else s)"

definition tx_audio_stream_render_iq16le ::
  "libm \<Rightarrow> nat \<Rightarrow> tx_audio_stream \<Rightarrow> u8 list \<times> tx_audio_stream" where
  "tx_audio_stream_render_iq16le m frames s =
     (let drive_limit = f32 (f32 (TX_FULL_DRIVE_PEAK * f32 (of_nat (unat (drive_percent s)))) / 100)
      in case render_loop m drive_limit frames s of (bytes, s) \<Rightarrow>
        (bytes, audio_count_output m frames s))"

subsection \<open>The queue is the ring of the receiver\<close>

text \<open>
  The stream's microphone queue, seen as the I/Q ring of \<open>Iq\<close>: same storage, same indices, with
  the drop count in the statistics. Both producers' pushes are the ring's push, and rendering
  pops from it.
\<close>

definition audio_ring :: "tx_audio_stream \<Rightarrow> rat iq_ring" where
  "audio_ring s =
     \<lparr>samples = microphone s, capacity = TX_AUDIO_CAPACITY, read_index = audio_read_index s,
      ring_size = audio_count s, dropped = dropped_microphone_frames (audio_stats s)\<rparr>"

definition audio_wf :: "tx_audio_stream \<Rightarrow> bool" where
  "audio_wf s \<longleftrightarrow> ring_wf (audio_ring s) \<and> length (network_iq s) = TX_AUDIO_CAPACITY \<and>
     audio_write_index s = (audio_read_index s + audio_count s) mod TX_AUDIO_CAPACITY \<and>
     tx_dsp_wf (stream_dsp s)"

lemma ring_push_full: "ring_size r = capacity r \<Longrightarrow>
    iq_ring_push xs r = (0, r\<lparr>dropped := dropped r + of_nat (length xs)\<rparr>)"
  by (simp add: iq_ring_push_unfold)

lemma ring_push_Cons:
  assumes "ring_size r < capacity r"
  shows "iq_ring_push (x # xs) r =
    (case iq_ring_push xs (r\<lparr>samples := (samples r)[(read_index r + ring_size r) mod capacity r := x],
                           ring_size := Suc (ring_size r)\<rparr>) of (n, r') \<Rightarrow> (Suc n, r'))"
proof -
  have m: "min (Suc (length xs)) (capacity r - ring_size r) =
      Suc (min (length xs) (capacity r - Suc (ring_size r)))"
    using assms by simp
  show ?thesis by (simp add: iq_ring_push_unfold Let_def m)
qed

lemma audio_ring_measure [simp]:
  "audio_ring (audio_measure x s) = audio_ring s" "network_iq (audio_measure x s) = network_iq s"
  "audio_write_index (audio_measure x s) = audio_write_index s"
  "audio_read_index (audio_measure x s) = audio_read_index s"
  "audio_count (audio_measure x s) = audio_count s"
  "stream_dsp (audio_measure x s) = stream_dsp s" "raw_iq (audio_measure x s) = raw_iq s"
  "graceful_stop_requested (audio_measure x s) = graceful_stop_requested s"
  by (simp_all add: audio_ring_def audio_measure_def map_stats_def Let_def)

lemma audio_advance_fields [simp]:
  "audio_ring (audio_advance s) = (audio_ring s)\<lparr>ring_size := Suc (audio_count s)\<rparr>"
  "network_iq (audio_advance s) = network_iq s"
  "audio_write_index (audio_advance s) = (audio_write_index s + 1) mod TX_AUDIO_CAPACITY"
  "audio_read_index (audio_advance s) = audio_read_index s"
  "audio_count (audio_advance s) = Suc (audio_count s)"
  "stream_dsp (audio_advance s) = stream_dsp s" "raw_iq (audio_advance s) = raw_iq s"
  "graceful_stop_requested (audio_advance s) = graceful_stop_requested s"
  by (simp_all add: audio_ring_def audio_advance_def map_stats_def Let_def)

lemma count_dropped_fields [simp]:
  "audio_ring (count_dropped s) = (audio_ring s)\<lparr>dropped := dropped (audio_ring s) + 1\<rparr>"
  "network_iq (count_dropped s) = network_iq s"
  "audio_write_index (count_dropped s) = audio_write_index s"
  "audio_read_index (count_dropped s) = audio_read_index s"
  "audio_count (count_dropped s) = audio_count s"
  "stream_dsp (count_dropped s) = stream_dsp s" "raw_iq (count_dropped s) = raw_iq s"
  "graceful_stop_requested (count_dropped s) = graceful_stop_requested s"
  by (simp_all add: audio_ring_def count_dropped_def map_stats_def)

lemma audio_count_frames_ring [simp]:
  "audio_ring (audio_count_frames m n s) = audio_ring s"
  "network_iq (audio_count_frames m n s) = network_iq s"
  "audio_write_index (audio_count_frames m n s) = audio_write_index s"
  "audio_read_index (audio_count_frames m n s) = audio_read_index s"
  "audio_count (audio_count_frames m n s) = audio_count s"
  "stream_dsp (audio_count_frames m n s) = stream_dsp s" "raw_iq (audio_count_frames m n s) = raw_iq s"
  "graceful_stop_requested (audio_count_frames m n s) = graceful_stop_requested s"
  by (simp_all add: audio_ring_def audio_count_frames_def map_stats_def Let_def)

lemma audio_wf_count_frames [simp]: "audio_wf (audio_count_frames m n s) = audio_wf s"
  by (simp add: audio_wf_def)

lemma push_pcm_loop_ring:
  "audio_wf s \<Longrightarrow>
     fst (push_pcm_loop xs s) = fst (iq_ring_push xs (audio_ring s)) \<and>
     audio_ring (snd (push_pcm_loop xs s)) = snd (iq_ring_push xs (audio_ring s)) \<and>
     audio_wf (snd (push_pcm_loop xs s)) \<and>
     raw_iq (snd (push_pcm_loop xs s)) = raw_iq s \<and>
     graceful_stop_requested (snd (push_pcm_loop xs s)) = graceful_stop_requested s"
proof (induction xs arbitrary: s)
  case Nil
  then show ?case by (simp add: iq_ring_push_unfold)
next
  case (Cons x xs)
  show ?case
  proof (cases "audio_count s = TX_AUDIO_CAPACITY")
    case True
    have "audio_wf (count_dropped s)" using Cons.prems by (simp add: audio_wf_def ring_wf_def)
    from Cons.IH [OF this] True Cons.prems show ?thesis
      by (simp add: ring_push_full audio_ring_def ac_simps)
        (simp add: count_dropped_def map_stats_def)
  next
    case False
    define t where "t = audio_measure x (audio_advance
        (s\<lparr>microphone := (microphone s)[audio_write_index s := x]\<rparr>))"
    have size: "audio_count s < TX_AUDIO_CAPACITY"
      using False Cons.prems by (simp add: audio_wf_def ring_wf_def audio_ring_def)
    have ring: "audio_ring t = (audio_ring s)\<lparr>samples := (samples (audio_ring s))
        [(read_index (audio_ring s) + ring_size (audio_ring s)) mod capacity (audio_ring s) := x],
        ring_size := Suc (ring_size (audio_ring s))\<rparr>"
    proof -
      have w: "audio_write_index s = (audio_read_index s + audio_count s) mod TX_AUDIO_CAPACITY"
        using Cons.prems by (simp add: audio_wf_def)
      show ?thesis
        unfolding t_def audio_ring_measure audio_advance_fields by (simp add: audio_ring_def w)
    qed
    have "audio_wf t"
      using Cons.prems size
      by (simp add: audio_wf_def ring ring_wf_def)
        (simp add: t_def audio_ring_def mod_simps)
    note IH = Cons.IH [OF this]
    have loop: "push_pcm_loop (x # xs) s = (case push_pcm_loop xs t of (n, u) \<Rightarrow> (Suc n, u))"
      using False by (simp add: t_def Let_def)
    have "ring_size (audio_ring s) < capacity (audio_ring s)" using size by (simp add: audio_ring_def)
    note push = ring_push_Cons [OF this, of x xs, folded ring]
    have "raw_iq t = raw_iq s" "graceful_stop_requested t = graceful_stop_requested s"
      by (simp_all add: t_def)
    with IH show ?thesis by (simp only: loop push case_prod_beta fst_conv snd_conv)
  qed
qed

text \<open>
  Queuing PCM audio is the ring's push on the normalized samples: the accepted ones are appended
  to what was queued, in order, and what does not fit is counted as dropped; nothing is
  overwritten. (A raw I/Q stream or one that is stopping gracefully accepts nothing.)
\<close>

theorem push_pcm_queues:
  assumes "audio_wf s" and "tx_audio_stream_push_pcm16le m input s = (accepted, s')"
  shows "audio_wf s' \<and>
    (if raw_iq s \<or> graceful_stop_requested s then accepted = 0 \<and> s' = s
     else iq_ring_push (map normalize_sample (pcm_samples input)) (audio_ring s) = (accepted, audio_ring s') \<and>
       ring_contents (audio_ring s') =
         ring_contents (audio_ring s) @ map normalize_sample (take accepted (pcm_samples input)))"
proof (cases "raw_iq s \<or> graceful_stop_requested s")
  case True
  with assms show ?thesis by (simp add: tx_audio_stream_push_pcm16le_def)
next
  case False
  let ?xs = "map normalize_sample (pcm_samples input)"
  define r where "r = push_pcm_loop ?xs s"
  have r: "accepted = fst r" "s' = audio_count_frames m (length input div 2) (snd r)"
    using assms(2) False by (simp_all add: tx_audio_stream_push_pcm16le_def case_prod_beta r_def)
  note p = push_pcm_loop_ring [OF assms(1), of ?xs, folded r_def]
  then have push: "fst (iq_ring_push ?xs (audio_ring s)) = accepted"
      "snd (iq_ring_push ?xs (audio_ring s)) = audio_ring s'"
    by (simp_all only: r audio_count_frames_ring)
  have "ring_wf (audio_ring s)" using assms(1) by (simp only: audio_wf_def)
  note ring.push_accepted [OF this, of ?xs, unfolded push take_map]
  moreover have "audio_wf s'" using p by (simp only: r audio_wf_count_frames)
  moreover have "iq_ring_push ?xs (audio_ring s) = (accepted, audio_ring s')"
    using push by (simp only: prod_eq_iff fst_conv snd_conv)
  ultimately show ?thesis using False by simp
qed

lemma zero_dsp_wf: "tx_dsp_wf zero_dsp"
  by (simp add: tx_dsp_wf_def zero_dsp_def)

lemma zero_stream_wf: "audio_wf zero_stream"
  by (simp add: audio_wf_def ring_wf_def audio_ring_def zero_stream_def zero_dsp_wf)

lemma tx_audio_stream_init_wf:
  "tx_audio_stream_init m mode drive gain s = (True, s') \<Longrightarrow> audio_wf s' \<and> audio_count s' = 0"
  using tx_dsp_init_wf zero_stream_wf
  by (auto simp: tx_audio_stream_init_def audio_wf_def audio_ring_def Let_def
      split: option.splits if_splits) (auto simp: zero_stream_def)

theorem push_pcm_queues_witness:
  "\<forall>m. \<exists>s'. tx_audio_stream_push_pcm16le m [0, 0x40, 0, 0xC0, 9] zero_stream = (2, s') \<and>
     ring_contents (audio_ring s') = map normalize_sample [16384, - 16384]"
proof
  fix m
  define r where "r = tx_audio_stream_push_pcm16le m [0, 0x40, 0, 0xC0, 9] zero_stream"
  have x: "pcm_samples [0, 0x40, 0, 0xC0, 9] = [16384, - 16384]" by code_simp
  have z: "ring_contents (audio_ring zero_stream) = []" "raw_iq zero_stream = False"
    "graceful_stop_requested zero_stream = False" "ring_size (audio_ring zero_stream) = 0"
    "capacity (audio_ring zero_stream) = TX_AUDIO_CAPACITY"
    by (simp_all add: ring_contents_def audio_ring_def zero_stream_def)
  have "r = (fst r, snd r)" by simp
  from push_pcm_queues [OF zero_stream_wf this [unfolded r_def]] z
  have p: "iq_ring_push (map normalize_sample [16384, - 16384]) (audio_ring zero_stream) =
      (fst r, audio_ring (snd r))"
    "ring_contents (audio_ring (snd r)) = map normalize_sample (take (fst r) [16384, - 16384])"
    by (simp_all add: x r_def)
  have "fst r = 2" using arg_cong [OF p(1), of fst] z by (simp add: iq_ring_push_unfold)
  with p(2) show "\<exists>s'. tx_audio_stream_push_pcm16le m [0, 0x40, 0, 0xC0, 9] zero_stream = (2, s') \<and>
     ring_contents (audio_ring s') = map normalize_sample [16384, - 16384]"
    by (intro exI [of _ "snd r"]) (simp add: r_def prod_eq_iff)
qed

subsection \<open>What rendering consumes\<close>

lemma measure_gain_fields [simp]:
  "audio_ring (measure_gain m x s) = audio_ring s" "network_iq (measure_gain m x s) = network_iq s"
  "audio_write_index (measure_gain m x s) = audio_write_index s"
  "audio_read_index (measure_gain m x s) = audio_read_index s"
  "audio_count (measure_gain m x s) = audio_count s"
  "stream_dsp (measure_gain m x s) = stream_dsp s"
  "underrun_frames (audio_stats (measure_gain m x s)) = underrun_frames (audio_stats s)"
  by (simp_all add: audio_ring_def measure_gain_def map_stats_def Let_def)

lemma translate_iq_fields [simp]:
  "audio_ring (snd (translate_iq m s iq)) = audio_ring s"
  "network_iq (snd (translate_iq m s iq)) = network_iq s"
  "audio_write_index (snd (translate_iq m s iq)) = audio_write_index s"
  "audio_read_index (snd (translate_iq m s iq)) = audio_read_index s"
  "audio_count (snd (translate_iq m s iq)) = audio_count s"
  "stream_dsp (snd (translate_iq m s iq)) = stream_dsp s"
  "raw_iq (snd (translate_iq m s iq)) = raw_iq s"
  "underrun_frames (audio_stats (snd (translate_iq m s iq))) = underrun_frames (audio_stats s)"
  by (simp_all add: audio_ring_def translate_iq_def Let_def)

definition audio_popped :: "tx_audio_stream \<Rightarrow> tx_audio_stream \<Rightarrow> bool" where
  "audio_popped s s' \<longleftrightarrow>
     audio_ring s' = snd (iq_ring_pop 1 (audio_ring s)) \<and> audio_wf s' \<and>
     underrun_frames (audio_stats s') =
       underrun_frames (audio_stats s) + (if audio_count s = 0 then 1 else 0)"

lemma ring_pop_one: "0 < ring_size r \<Longrightarrow>
   snd (iq_ring_pop 1 r) = r\<lparr>read_index := (read_index r + 1) mod capacity r,
                             ring_size := ring_size r - 1\<rparr>"
  by (simp add: iq_ring_pop_def Let_def)

lemma ring_pop_none: "ring_size r = 0 \<Longrightarrow> read_index r < capacity r \<Longrightarrow> snd (iq_ring_pop n r) = r"
  by (simp add: iq_ring_pop_def Let_def)

lemma render_source_popped:
  assumes "audio_wf s"
  shows "audio_popped s (snd (render_source m s))"
proof (cases "0 < audio_count s")
  case True
  define t where "t = s\<lparr>audio_read_index := (audio_read_index s + 1) mod TX_AUDIO_CAPACITY,
                  audio_count := audio_count s - 1\<rparr>"
  have wf: "audio_wf t"
  proof -
    have "(Suc (audio_read_index s) mod TX_AUDIO_CAPACITY + (audio_count s - 1)) mod TX_AUDIO_CAPACITY =
        (Suc (audio_read_index s) + (audio_count s - 1)) mod TX_AUDIO_CAPACITY"
      by (rule mod_add_left_eq)
    moreover have "Suc (audio_read_index s) + (audio_count s - 1) = audio_read_index s + audio_count s"
      using True by simp
    ultimately show ?thesis
      using assms by (auto simp: t_def audio_wf_def ring_wf_def audio_ring_def)
  qed
  have ring: "audio_ring t = snd (iq_ring_pop 1 (audio_ring s))"
    using True ring_pop_one [of "audio_ring s"] by (simp add: t_def audio_ring_def)
  define u where "u = snd (render_source m s)"
  have "audio_ring u = audio_ring t \<and> network_iq u = network_iq t \<and>
      audio_write_index u = audio_write_index t \<and> audio_read_index u = audio_read_index t \<and>
      audio_count u = audio_count t \<and> tx_dsp_wf (stream_dsp u) \<and>
      underrun_frames (audio_stats u) = underrun_frames (audio_stats s)"
  proof (cases "raw_iq s")
    case True
    with \<open>0 < audio_count s\<close> assms show ?thesis
      by (simp add: u_def t_def render_source_def Let_def case_prod_beta audio_wf_def)
        (simp add: audio_ring_def translate_iq_def Let_def measure_gain_def map_stats_def)
  next
    case False
    with \<open>0 < audio_count s\<close> assms show ?thesis
      by (simp add: u_def t_def render_source_def Let_def case_prod_beta audio_wf_def tx_dsp_process_wf)
        (simp add: audio_ring_def measure_gain_def map_stats_def Let_def)
  qed
  with wf ring True show ?thesis by (simp add: audio_popped_def audio_wf_def u_def)
next
  case False
  with assms show ?thesis
    by (simp add: audio_popped_def render_source_def case_prod_beta audio_wf_def audio_ring_def
        ring_wf_def map_stats_def tx_dsp_process_wf ring_pop_none)
qed

text \<open>The later stages of a frame touch neither the queue nor the underrun count.\<close>

definition same_queue :: "tx_audio_stream \<Rightarrow> tx_audio_stream \<Rightarrow> bool" where
  "same_queue s t \<longleftrightarrow> audio_ring t = audio_ring s \<and> (audio_wf s \<longrightarrow> audio_wf t) \<and>
     underrun_frames (audio_stats t) = underrun_frames (audio_stats s)"

lemma same_queueI:
  "microphone t = microphone s \<Longrightarrow> network_iq t = network_iq s \<Longrightarrow> audio_count t = audio_count s \<Longrightarrow>
   audio_read_index t = audio_read_index s \<Longrightarrow> audio_write_index t = audio_write_index s \<Longrightarrow>
   stream_dsp t = stream_dsp s \<Longrightarrow>
   dropped_microphone_frames (audio_stats t) = dropped_microphone_frames (audio_stats s) \<Longrightarrow>
   underrun_frames (audio_stats t) = underrun_frames (audio_stats s) \<Longrightarrow> same_queue s t"
  by (simp add: same_queue_def audio_wf_def audio_ring_def)

lemma same_queue_stages:
  "same_queue s (snd (render_fade m s))"
  "same_queue s (snd (snd (render_limit m d fade iq s)))"
  "same_queue s (map_stats (\<lambda>t. t\<lparr>clipped_frames := clipped_frames t + 1\<rparr>) s)"
  "same_queue s (measure_output m d i q s)"
  "same_queue s (audio_count_output m n s)"
  by (rule same_queueI; simp add: render_fade_def render_limit_def measure_output_def
      audio_count_output_def map_stats_def Let_def)+

lemma same_queue_popped: "audio_popped s t \<Longrightarrow> same_queue t u \<Longrightarrow> audio_popped s u"
  by (simp add: audio_popped_def same_queue_def)

lemma same_queue_refl: "same_queue s s"
  by (simp add: same_queue_def)

lemma length_sample_bytes [simp]: "length (sample_bytes x) = 2"
  by (simp add: sample_bytes_def)

lemma render_frame_popped:
  assumes "audio_wf s"
  shows "audio_popped s (snd (render_frame m d s)) \<and> length (fst (render_frame m d s)) = 4"
proof -
  obtain iq s1 where 1: "render_source m s = (iq, s1)" by fastforce
  obtain fade s2 where 2: "render_fade m s1 = (fade, s2)" by fastforce
  obtain oi oq s3 where 3: "render_limit m d fade iq s2 = (oi, oq, s3)" by (metis prod_cases3)
  obtain si ci where ci: "clamp_i16 oi = (si, ci)" by fastforce
  obtain sq cq where cq: "clamp_i16 oq = (sq, cq)" by fastforce
  define s4 where "s4 = (if ci \<or> cq
      then map_stats (\<lambda>t. t\<lparr>clipped_frames := clipped_frames t + 1\<rparr>) s3 else s3)"
  have e: "render_frame m d s = (sample_bytes si @ sample_bytes sq, measure_output m d si sq s4)"
    by (simp add: render_frame_def 1 2 3 ci cq s4_def Let_def)
  have "audio_popped s s1" using render_source_popped [OF assms, of m] 1 by simp
  then have "audio_popped s s2" using same_queue_popped same_queue_stages(1) [of s1 m] 2 by fastforce
  then have "audio_popped s s3" using same_queue_popped same_queue_stages(2) [of s2 m d fade iq] 3 by fastforce
  then have "audio_popped s s4"
    using same_queue_popped same_queue_stages(3) same_queue_refl by (simp add: s4_def)
  then have "audio_popped s (measure_output m d si sq s4)"
    using same_queue_popped same_queue_stages(4) by blast
  then show ?thesis by (simp add: e)
qed

lemma ring_pop_Suc:
  assumes "ring_wf r"
  shows "snd (iq_ring_pop n (snd (iq_ring_pop 1 r))) = snd (iq_ring_pop (Suc n) r)"
proof (cases "0 < ring_size r")
  case True
  have one: "snd (iq_ring_pop 1 r) = r\<lparr>read_index := (read_index r + 1) mod capacity r,
      ring_size := ring_size r - 1\<rparr>" by (rule ring_pop_one [OF True])
  have "((read_index r + 1) mod capacity r + k) mod capacity r = (read_index r + Suc k) mod capacity r" for k
    by (simp add: mod_simps)
  with True show ?thesis
    unfolding one by (auto simp: iq_ring_pop_def Let_def)
next
  case False
  with assms show ?thesis by (simp add: ring_pop_none ring_wf_def)
qed

lemma render_loop_popped:
  "audio_wf s \<Longrightarrow>
     audio_ring (snd (render_loop m d n s)) = snd (iq_ring_pop n (audio_ring s)) \<and>
     audio_wf (snd (render_loop m d n s)) \<and>
     underrun_frames (audio_stats (snd (render_loop m d n s))) =
       underrun_frames (audio_stats s) + of_nat (n - audio_count s) \<and>
     length (fst (render_loop m d n s)) = 4 * n"
proof (induction n arbitrary: s)
  case 0
  then show ?case
    by (simp add: audio_wf_def ring_wf_def iq_ring_pop_def)
next
  case (Suc n)
  define t where "t = snd (render_frame m d s)"
  note f = render_frame_popped [OF Suc.prems, of m d, folded t_def]
  then have wf: "audio_wf t" and ring: "audio_ring t = snd (iq_ring_pop 1 (audio_ring s))"
    by (simp_all add: audio_popped_def)
  have count: "audio_count t = audio_count s - 1"
  proof -
    have "ring_size (audio_ring t) = ring_size (audio_ring s) - 1"
      unfolding ring by (simp add: iq_ring_pop_def Let_def)
    then show ?thesis by (simp add: audio_ring_def)
  qed
  have rw: "ring_wf (audio_ring s)" using Suc.prems by (simp add: audio_wf_def)
  have under: "underrun_frames (audio_stats t) + of_nat (n - audio_count t) =
      underrun_frames (audio_stats s) + of_nat (Suc n - audio_count s)"
    using f count by (cases "audio_count s") (simp_all add: audio_popped_def)
  show ?case
    using Suc.IH [OF wf] f under ring_pop_Suc [OF rw, of n]
    by (simp add: case_prod_beta ring t_def [symmetric])
qed

text \<open>
  Rendering any number of frames yields exactly four bytes per frame, takes that many frames (or
  all there are) from the front of the queue and no others, and counts precisely the missing
  ones as underruns; a well-formed stream stays well formed.
\<close>

theorem render_consumes:
  assumes "audio_wf s" and "tx_audio_stream_render_iq16le m frames s = (bytes, s')"
  shows "length bytes = 4 * frames \<and> audio_wf s' \<and>
    ring_contents (audio_ring s') = drop frames (ring_contents (audio_ring s)) \<and>
    underrun_frames (audio_stats s') =
      underrun_frames (audio_stats s) + of_nat (frames - audio_count s)"
proof -
  obtain d where d: "bytes = fst (render_loop m d frames s)"
      "s' = audio_count_output m frames (snd (render_loop m d frames s))"
    using assms(2) by (auto simp: tx_audio_stream_render_iq16le_def Let_def case_prod_beta)
  have rw: "ring_wf (audio_ring s)" using assms(1) by (simp add: audio_wf_def)
  show ?thesis
    using render_loop_popped [OF assms(1), of m d frames] ring.pop_contents [OF rw, of frames]
      same_queue_stages(5) [of "snd (render_loop m d frames s)" m frames]
    by (simp add: same_queue_def d)
qed

theorem render_consumes_witness:
  "\<forall>m. underrun_frames (audio_stats (snd (tx_audio_stream_render_iq16le m 480 zero_stream))) = 480 \<and>
     length (fst (tx_audio_stream_render_iq16le m 480 zero_stream)) = 1920"
proof
  fix m
  define r where "r = tx_audio_stream_render_iq16le m 480 zero_stream"
  have "r = (fst r, snd r)" by simp
  from render_consumes [OF zero_stream_wf this [unfolded r_def]]
  show "underrun_frames (audio_stats (snd (tx_audio_stream_render_iq16le m 480 zero_stream))) = 480 \<and>
     length (fst (tx_audio_stream_render_iq16le m 480 zero_stream)) = 1920"
    by (simp add: r_def zero_stream_def zero_stats_def)
qed

end
