(* ===== verification/Usb_Io.thy ===== *)
theory Usb_Io
  imports Soft_Float Protocol
begin

text \<open>
  The edge of the program towards USB: libusb and the clock as the environment, and the table of
  four operations of \<open>src/usb_io.c\<close> through which the transmit code reaches the device.

  libusb is not under \<open>src/\<close>. The environment \<open>usb_world\<close> holds the answers its calls are going
  to give, in the order they will be asked for, so a theorem about every world is one about
  every behaviour of the device and the clock. A list that has run out answers with an error
  (or, for the clock, with the largest time): whatever the environment does, it does finitely
  often before the device fails for good. \<open>wire\<close> logs every command handed to libusb, newest
  first, with whether the whole packet was reported as transferred.
\<close>

subsection \<open>libusb codes\<close>

abbreviation LIBUSB_SUCCESS :: int where "LIBUSB_SUCCESS \<equiv> 0"
abbreviation LIBUSB_ERROR_IO :: int where "LIBUSB_ERROR_IO \<equiv> -1"
abbreviation LIBUSB_ERROR_INVALID_PARAM :: int where "LIBUSB_ERROR_INVALID_PARAM \<equiv> -2"
abbreviation LIBUSB_ERROR_NO_DEVICE :: int where "LIBUSB_ERROR_NO_DEVICE \<equiv> -4"
abbreviation LIBUSB_ERROR_BUSY :: int where "LIBUSB_ERROR_BUSY \<equiv> -6"
abbreviation LIBUSB_ERROR_INTERRUPTED :: int where "LIBUSB_ERROR_INTERRUPTED \<equiv> -10"
abbreviation LIBUSB_ERROR_NO_MEM :: int where "LIBUSB_ERROR_NO_MEM \<equiv> -11"
abbreviation LIBUSB_ERROR_OTHER :: int where "LIBUSB_ERROR_OTHER \<equiv> -99"

datatype transfer_status =
    TransferCompleted | TransferError | TransferTimedOut | TransferCancelled | TransferStall
  | TransferNoDevice | TransferOverflow

text \<open>
  What one completion callback is called with: an RX transfer with its isochronous packets, a
  status transfer with its bytes, or a transmit transfer.
\<close>

datatype completion =
    RxCompletion nat transfer_status "(transfer_status \<times> u8 list) list"
  | StatusCompletion transfer_status "u8 list"
  | TuneCompletion nat transfer_status

record usb_world =
  w_clock :: "u64 list"
  w_sends :: "(int \<times> nat \<times> completion list) list"
  w_submits :: "int list"
  w_allocs :: "bool list"
  w_events :: "(int \<times> completion list) list"
  w_setup :: "int list"
  wire :: "(u8 list \<times> bool) list"

definition answer :: "'a \<Rightarrow> 'a list \<Rightarrow> 'a \<times> 'a list" where
  "answer final answers = (case answers of [] \<Rightarrow> (final, []) | a # rest \<Rightarrow> (a, rest))"

text \<open>
  The command goes out whatever comes back; the count is what \<open>actual_length\<close> will say. The
  synchronous call runs libusb's event loop while it waits, so other transfers may complete.
\<close>

definition libusb_interrupt_transfer ::
  "u8 list \<Rightarrow> usb_world \<Rightarrow> int \<times> nat \<times> completion list \<times> usb_world" where
  "libusb_interrupt_transfer packet w =
     (case answer (LIBUSB_ERROR_NO_DEVICE, 0, []) (w_sends w) of ((result, actual, done), rest) \<Rightarrow>
        (result, actual, done, w\<lparr>w_sends := rest,
           wire := (packet, result = LIBUSB_SUCCESS \<and> actual = length packet) # wire w\<rparr>))"

definition libusb_submit_transfer :: "usb_world \<Rightarrow> int \<times> usb_world" where
  "libusb_submit_transfer w =
     (case answer LIBUSB_ERROR_NO_DEVICE (w_submits w) of (r, rest) \<Rightarrow> (r, w\<lparr>w_submits := rest\<rparr>))"

definition try_alloc :: "usb_world \<Rightarrow> bool \<times> usb_world" where
  "try_alloc w = (case answer True (w_allocs w) of (ok, rest) \<Rightarrow> (ok, w\<lparr>w_allocs := rest\<rparr>))"

definition libusb_setup_call :: "usb_world \<Rightarrow> int \<times> usb_world" where
  "libusb_setup_call w =
     (case answer LIBUSB_ERROR_OTHER (w_setup w) of (r, rest) \<Rightarrow> (r, w\<lparr>w_setup := rest\<rparr>))"

definition libusb_wait :: "usb_world \<Rightarrow> int \<times> completion list \<times> usb_world" where
  "libusb_wait w =
     (case answer (LIBUSB_ERROR_OTHER, []) (w_events w) of ((r, done), rest) \<Rightarrow>
        (r, done, w\<lparr>w_events := rest\<rparr>))"

definition monotonic_ms :: "usb_world \<Rightarrow> u64 \<times> usb_world" where
  "monotonic_ms w = (case answer (- 1) (w_clock w) of (t, rest) \<Rightarrow> (t, w\<lparr>w_clock := rest\<rparr>))"

lemma wire_frame [simp, frame_simps]:
  "wire (snd (libusb_submit_transfer w)) = wire w"
  "wire (snd (try_alloc w)) = wire w"
  "wire (snd (libusb_setup_call w)) = wire w"
  "wire (snd (snd (libusb_wait w))) = wire w"
  "wire (snd (monotonic_ms w)) = wire w"
  by (simp_all add: libusb_submit_transfer_def try_alloc_def libusb_setup_call_def libusb_wait_def
      monotonic_ms_def split: prod.splits)

text \<open>The radio may be keyed when a \<open>SET_TR(1)\<close> went out after the last \<open>SET_TR(0)\<close> that arrived.\<close>

fun maybe_keyed :: "(u8 list \<times> bool) list \<Rightarrow> bool" where
  "maybe_keyed [] = False"
| "maybe_keyed ((packet, arrived) # sent) =
     (case parse_command packet of
        Some (_, CmdTr True) \<Rightarrow> True
      | Some (_, CmdTr False) \<Rightarrow> \<not> arrived \<and> maybe_keyed sent
      | _ \<Rightarrow> maybe_keyed sent)"

subsection \<open>The operations table\<close>

record 'r usb_io_ops =
  op_send_command :: "u8 list \<Rightarrow> 'r \<Rightarrow> int \<times> nat \<times> 'r"
  op_start_tx_stream :: "bool \<Rightarrow> 'r \<Rightarrow> int \<times> 'r"
  op_service_tx_stream :: "u64 \<Rightarrow> 'r \<Rightarrow> int \<times> 'r"
  op_stop_tx_stream :: "'r \<Rightarrow> 'r"

text \<open>
  \<open>flex1500_usb_io_init\<close> succeeds exactly when every entry of the table is present; \<open>None\<close> is a
  null entry.
\<close>

definition usb_io_init ::
  "(u8 list \<Rightarrow> 'r \<Rightarrow> int \<times> nat \<times> 'r) option \<Rightarrow> (bool \<Rightarrow> 'r \<Rightarrow> int \<times> 'r) option \<Rightarrow>
   (u64 \<Rightarrow> 'r \<Rightarrow> int \<times> 'r) option \<Rightarrow> ('r \<Rightarrow> 'r) option \<Rightarrow> 'r usb_io_ops option" where
  "usb_io_init send start service stop =
     (case (send, start, service, stop) of
        (Some a, Some b, Some c, Some d) \<Rightarrow>
          Some \<lparr>op_send_command = a, op_start_tx_stream = b, op_service_tx_stream = c,
                op_stop_tx_stream = d\<rparr>
      | _ \<Rightarrow> None)"

definition usb_io_send_command :: "'r usb_io_ops \<Rightarrow> u8 list \<Rightarrow> 'r \<Rightarrow> int \<times> nat \<times> 'r" where
  "usb_io_send_command ops packet r =
     (if packet = [] then (-1, 0, r) else op_send_command ops packet r)"

definition usb_io_start_tx_stream :: "'r usb_io_ops \<Rightarrow> bool \<Rightarrow> 'r \<Rightarrow> int \<times> 'r" where
  "usb_io_start_tx_stream ops generated_audio r = op_start_tx_stream ops generated_audio r"

definition usb_io_service_tx_stream :: "'r usb_io_ops \<Rightarrow> u64 \<Rightarrow> 'r \<Rightarrow> int \<times> 'r" where
  "usb_io_service_tx_stream ops duration_ms r = op_service_tx_stream ops duration_ms r"

definition usb_io_stop_tx_stream :: "'r usb_io_ops \<Rightarrow> 'r \<Rightarrow> 'r" where
  "usb_io_stop_tx_stream ops r = op_stop_tx_stream ops r"

end
