(* ===== verification/Usb_Rx.thy ===== *)
theory Usb_Rx
  imports Usb_Io Tx_Lifecycle Tx_Audio_Stream
begin

text \<open>
  Model of the receiver object of \<open>src/usb_rx.c\<close> and of its command side: tuning and gain,
  transmit preparation, keying a Tune carrier or an audio transmission, and the cleanup that
  undoes a transmission however far it got. The four device operations are the parameter \<open>ops\<close>
  (the table of \<open>Usb_Io\<close>); the streaming callbacks that the production table runs are in
  \<open>Usb_Stream\<close>. \<open>L\<close> is the library: libm and \<open>libusb_error_name\<close>.

  The receiver owns the sample ring it was given (\<open>destination\<close>) and carries the environment
  \<open>usb\<close>. The control fields come first, so that \<open>usb_ctl.truncate\<close> is the part of the receiver
  that the device operations leave alone.
\<close>

subsection \<open>State\<close>

record usb_lib = libm +
  lib_error_name :: "int \<Rightarrow> string"

datatype tx_fault_stage = FaultNone | FaultAfterStream | FaultAfterKey

record rx_slot =
  rx_transfer :: bool
  rx_buffer :: bool
  rx_submitted :: bool

record tune_slot =
  tune_transfer :: bool
  tune_buffer :: "u8 list option"
  tune_submitted :: bool
  audio_frames :: nat

record usb_rx_counters =
  c_usb_packets :: u64
  c_usb_packet_errors :: u64
  c_bytes :: u64
  c_transfer_resubmits :: u64
  c_transfer_submit_errors :: u64
  c_rx_tune_operations :: u64
  c_command_errors :: u64
  c_transfer_status_errors :: u64
  c_transfer_timeouts :: u64
  c_transfer_stalls :: u64
  c_transfer_no_device :: u64
  c_transfer_overflows :: u64
  c_transfer_other_errors :: u64
  c_packet_status_errors :: u64
  c_packet_timeouts :: u64
  c_packet_stalls :: u64
  c_packet_no_device :: u64
  c_packet_overflows :: u64
  c_packet_other_errors :: u64
  c_short_packets :: u64
  c_zero_length_packets :: u64
  c_oversized_packets :: u64
  c_missing_bytes :: u64
  c_trailing_bytes :: u64
  c_error_events :: u64
  c_status_packets :: u64
  c_status_changes :: u64
  c_status_errors :: u64
  c_first_error_ms :: u64
  c_last_error_ms :: u64
  c_first_sentinel_frame :: u64
  c_last_sentinel_frame :: u64
  c_first_sentinel_ms :: u64
  c_last_sentinel_ms :: u64

record usb_ctl =
  has_handle :: bool
  rx_tune_prepared :: bool
  rx_tune_active :: bool
  rx_tune_keyed :: bool
  rx_key_attempted :: bool
  rx_transition_attempted :: bool
  rx_frequency_attempted :: bool
  fault_stage :: tx_fault_stage
  transmit_prepared :: bool
  amp_enable_attempted :: bool
  pa_filter_known :: bool
  pa_filter :: u32
  frequency_known :: bool
  filter_known :: bool
  rx_frequency_hz :: u32
  rx_filter :: u32
  gain_known :: bool
  rx_gain_db :: int
  next_command_index :: u8

record usb_rx = usb_ctl +
  has_context :: bool
  destination :: "iq_sample iq_ring"
  rx_slots :: "rx_slot list"
  tune_slots :: "tune_slot list"
  status_transfer :: bool
  status_submitted :: bool
  physical_inputs_known :: bool
  inputs_now :: physical_inputs
  rx_stats :: iq_stats
  rx_dc :: dc_blocker
  counters :: usb_rx_counters
  active_transfers :: nat
  active_tune_transfers :: nat
  interface_claimed :: bool
  running :: bool
  stopping :: bool
  tune_streaming :: bool
  microphone_streaming :: bool
  microphone_capture_enabled :: bool
  tx_accepting_audio :: bool
  microphone_stream :: tx_audio_stream
  rx_started_ms :: u64
  sentinel_seen :: bool
  consecutive_transfer_failures :: nat
  last_error :: string
  usb :: usb_world

abbreviation RX_TRANSFER_COUNT :: nat where "RX_TRANSFER_COUNT \<equiv> 8"
abbreviation TUNE_TRANSFER_COUNT :: nat where "TUNE_TRANSFER_COUNT \<equiv> 8"
abbreviation TUNE_TRANSITION_MS :: u64 where "TUNE_TRANSITION_MS \<equiv> 200"
abbreviation TUNE_PRE_ROLL_MS :: u64 where "TUNE_PRE_ROLL_MS \<equiv> 250"
abbreviation TUNE_TONE_HZ :: u32 where "TUNE_TONE_HZ \<equiv> 600"

definition map_counters :: "(usb_rx_counters \<Rightarrow> usb_rx_counters) \<Rightarrow> usb_rx \<Rightarrow> usb_rx" where
  "map_counters f r = r\<lparr>counters := f (counters r)\<rparr>"

subsection \<open>Partial state\<close>

definition slot_present :: "tune_slot \<Rightarrow> bool" where
  "slot_present slot \<longleftrightarrow> tune_transfer slot \<or> tune_buffer slot \<noteq> None \<or> tune_submitted slot"

definition tx_stream_present :: "usb_rx \<Rightarrow> bool" where
  "tx_stream_present r \<longleftrightarrow>
     tune_streaming r \<or> active_tune_transfers r > 0 \<or> list_ex slot_present (tune_slots r)"

definition tx_partial_state :: "usb_rx \<Rightarrow> u32" where
  "tx_partial_state r =
     (let state = PARTIAL_NONE;
          state = (if pa_filter_known r then state OR PARTIAL_PA_SELECTED else state);
          state = (if amp_enable_attempted r \<or> transmit_prepared r
                   then state OR PARTIAL_AMP_ENABLE_ATTEMPTED else state);
          state = (if tx_stream_present r then state OR PARTIAL_STREAM_STARTED else state);
          state = (if rx_transition_attempted r then state OR PARTIAL_TRANSITION_ATTEMPTED else state);
          state = (if rx_frequency_attempted r then state OR PARTIAL_FREQUENCY_ATTEMPTED else state);
          state = (if rx_key_attempted r \<or> rx_tune_keyed r \<or> rx_tune_active r
                   then state OR PARTIAL_KEY_ATTEMPTED else state)
      in state)"

subsection \<open>Errors and commands\<close>

text \<open>\<open>snprintf\<close> into the 160-byte buffer.\<close>

definition set_error :: "string \<Rightarrow> usb_rx \<Rightarrow> usb_rx" where
  "set_error message r = r\<lparr>last_error := take 159 message\<rparr>"

definition set_libusb_error :: "usb_lib \<Rightarrow> string \<Rightarrow> int \<Rightarrow> usb_rx \<Rightarrow> usb_rx" where
  "set_libusb_error L operation error r =
     r\<lparr>last_error := take 159 (operation @ '': '' @ lib_error_name L error)\<rparr>"

definition send_rx_command ::
  "usb_rx usb_io_ops \<Rightarrow> usb_lib \<Rightarrow> u8 list \<Rightarrow> string \<Rightarrow> usb_rx \<Rightarrow> int \<times> usb_rx" where
  "send_rx_command ops L packet operation r =
     (case usb_io_send_command ops packet r of (result, transferred, r) \<Rightarrow>
        if result \<noteq> LIBUSB_SUCCESS \<or> transferred \<noteq> COMMAND_PACKET_SIZE
        then
          let r = map_counters (\<lambda>c. c\<lparr>c_command_errors := c_command_errors c + 1\<rparr>) r
          in if result \<noteq> LIBUSB_SUCCESS then (result, set_libusb_error L operation result r)
             else (LIBUSB_ERROR_IO, set_error ''RX command transfer was short'' r)
        else (LIBUSB_SUCCESS, r))"

text \<open>
  \<open>build(receiver->next_command_index++, ...)\<close> followed by the send. A builder with a guard is
  only called with arguments it accepts (\<open>built\<close>, and the frequency invariant \<open>usb_rx_inv\<close>).
\<close>

definition built :: "u8 list option \<Rightarrow> u8 list" where
  "built packet = (case packet of None \<Rightarrow> [] | Some p \<Rightarrow> p)"

definition send_next ::
  "usb_rx usb_io_ops \<Rightarrow> usb_lib \<Rightarrow> (u8 \<Rightarrow> u8 list) \<Rightarrow> string \<Rightarrow> usb_rx \<Rightarrow> int \<times> usb_rx" where
  "send_next ops L build operation r =
     send_rx_command ops L (build (next_command_index r)) operation
       (r\<lparr>next_command_index := next_command_index r + 1\<rparr>)"

text \<open>The next statement, unless the last one returned an error (\<open>if (... != 0) goto fail\<close>).\<close>

definition and_then :: "int \<times> usb_rx \<Rightarrow> (usb_rx \<Rightarrow> int \<times> usb_rx) \<Rightarrow> int \<times> usb_rx" where
  "and_then p k = (case p of (result, r) \<Rightarrow> if result = 0 then k r else (result, r))"

subsection \<open>Cleanup\<close>

definition execute_usb_cleanup_action ::
  "usb_rx usb_io_ops \<Rightarrow> usb_lib \<Rightarrow> bool \<Rightarrow> cleanup_action \<Rightarrow> usb_rx \<Rightarrow> int \<times> usb_rx" where
  "execute_usb_cleanup_action ops L preserve_pa action r =
     (case action of
        CleanupTransitionMute \<Rightarrow>
          send_next ops L (\<lambda>i. build_transition_mute_request i True) ''TX cleanup transition mute'' r
      | CleanupUnkey \<Rightarrow>
          send_next ops L (\<lambda>i. build_tr_request i False) ''TX cleanup SET_TR(0)'' r
      | CleanupRestoreRxFrequency \<Rightarrow>
          if \<not> frequency_known r then (LIBUSB_SUCCESS, r)
          else
            (case send_next ops L (\<lambda>i. built (map_option fst (build_rx_tune_request i (rx_frequency_hz r))))
                   ''TX cleanup restore RX frequency'' r of
               (result, r) \<Rightarrow>
                 if result = LIBUSB_SUCCESS \<and> tune_streaming r \<and> running r
                 then usb_io_service_tx_stream ops TUNE_TRANSITION_MS r
                 else (result, r))
      | CleanupTransitionUnmute \<Rightarrow>
          send_next ops L (\<lambda>i. build_transition_mute_request i False) ''TX cleanup transition unmute'' r
      | CleanupResetPaFilter \<Rightarrow>
          let flt = (if preserve_pa \<and> frequency_known r
                     then case pa_filter_for_frequency (rx_frequency_hz r) of
                            Some f \<Rightarrow> f | None \<Rightarrow> 0
                     else 0)
          in (case send_next ops L (\<lambda>i. built (build_pa_filter_request i flt)) ''TX cleanup PA filter'' r of
                (result, r) \<Rightarrow> (result, r\<lparr>pa_filter := flt, pa_filter_known := preserve_pa\<rparr>))
      | CleanupDisableAmplifier \<Rightarrow>
          send_next ops L (\<lambda>i. build_amp_tx1_request i False) ''TX cleanup SET_AMP_TX1(0)'' r
      | CleanupStopStream \<Rightarrow> (LIBUSB_SUCCESS, usb_io_stop_tx_stream ops r)
      | CleanupNone \<Rightarrow> (LIBUSB_SUCCESS, r))"

definition clear_tx_flags :: "usb_rx \<Rightarrow> usb_rx" where
  "clear_tx_flags r =
     r\<lparr>rx_tune_keyed := False, rx_key_attempted := False, rx_tune_active := False,
       rx_tune_prepared := False, rx_transition_attempted := False, rx_frequency_attempted := False\<rparr>"

definition usb_rx_tune_carrier_stop ::
  "usb_rx usb_io_ops \<Rightarrow> usb_lib \<Rightarrow> usb_rx \<Rightarrow> int \<times> usb_rx" where
  "usb_rx_tune_carrier_stop ops L r =
     (if \<not> has_handle r then (LIBUSB_ERROR_INVALID_PARAM, r)
      else if \<not> rx_tune_prepared r \<and> \<not> rx_tune_active r \<and> \<not> rx_tune_keyed r \<and>
              \<not> rx_key_attempted r \<and> \<not> tx_stream_present r \<and> \<not> rx_transition_attempted r \<and>
              \<not> rx_frequency_attempted r
        then (LIBUSB_SUCCESS, r)
      else
        let cleanup = tx_cleanup_plan (tx_partial_state r)
        in (case tx_execute_cleanup cleanup
                   (Some (execute_usb_cleanup_action ops L (transmit_prepared r))) r of
              (first_error, _, r) \<Rightarrow>
                let r = clear_tx_flags r;
                    r = (if tx_stream_present r then usb_io_stop_tx_stream ops r else r)
                in (first_error, r\<lparr>destination := iq_ring_clear (destination r)\<rparr>)))"

definition usb_rx_microphone_tx_stop ::
  "usb_rx usb_io_ops \<Rightarrow> usb_lib \<Rightarrow> usb_rx \<Rightarrow> int \<times> usb_rx" where
  "usb_rx_microphone_tx_stop ops L r = usb_rx_tune_carrier_stop ops L r"

subsection \<open>Transmit preparation\<close>

text \<open>The three actions whose presence in a plan means a transmission is under way.\<close>

definition tx_underway :: "u32 \<Rightarrow> bool" where
  "tx_underway cleanup \<longleftrightarrow>
     cleanup AND (action_bit CleanupUnkey OR action_bit CleanupRestoreRxFrequency OR
                  action_bit CleanupStopStream) \<noteq> 0"

definition usb_rx_enable_transmit_preparation ::
  "usb_rx usb_io_ops \<Rightarrow> usb_lib \<Rightarrow> usb_rx \<Rightarrow> int \<times> usb_rx" where
  "usb_rx_enable_transmit_preparation ops L r =
     (if \<not> running r \<or> \<not> has_handle r \<or> transmit_prepared r then (LIBUSB_ERROR_INVALID_PARAM, r)
      else and_then (send_next ops L build_main_tx_antenna_request ''prepare TX SET_TX_ANT(0)'' r) (\<lambda>r.
        and_then
          (if frequency_known r
           then
             (case pa_filter_for_frequency (rx_frequency_hz r) of
                None \<Rightarrow> (LIBUSB_ERROR_INVALID_PARAM, r)
              | Some flt \<Rightarrow>
                  (case build_pa_filter_request (next_command_index r) flt of
                     None \<Rightarrow> (LIBUSB_ERROR_INVALID_PARAM,
                              r\<lparr>next_command_index := next_command_index r + 1\<rparr>)
                   | Some packet \<Rightarrow>
                       and_then (send_rx_command ops L packet ''prepare TX SET_PA_FILTER''
                           (r\<lparr>next_command_index := next_command_index r + 1\<rparr>))
                         (\<lambda>r. (LIBUSB_SUCCESS, r\<lparr>pa_filter := flt, pa_filter_known := True\<rparr>))))
           else (LIBUSB_SUCCESS, r)) (\<lambda>r.
        case send_next ops L (\<lambda>i. build_amp_tx1_request i True) ''prepare TX SET_AMP_TX1(1)''
               (r\<lparr>amp_enable_attempted := True\<rparr>) of
          (result, r) \<Rightarrow>
            if result \<noteq> LIBUSB_SUCCESS
            then
              let r = (if pa_filter_known r
                       then (snd (send_next ops L (\<lambda>i. built (build_pa_filter_request i 0))
                                ''prepare TX cleanup SET_PA_FILTER(0)'' r))\<lparr>pa_filter_known := False\<rparr>
                       else r);
                  r = snd (send_next ops L (\<lambda>i. build_amp_tx1_request i False)
                             ''prepare TX cleanup SET_AMP_TX1(0)'' r)
              in (result, r\<lparr>amp_enable_attempted := False\<rparr>)
            else (LIBUSB_SUCCESS, r\<lparr>transmit_prepared := True\<rparr>))))"

definition usb_rx_disable_transmit_preparation ::
  "usb_rx usb_io_ops \<Rightarrow> usb_lib \<Rightarrow> usb_rx \<Rightarrow> int \<times> usb_rx" where
  "usb_rx_disable_transmit_preparation ops L r =
     (if \<not> has_handle r then (LIBUSB_ERROR_INVALID_PARAM, r)
      else
        let cleanup = tx_cleanup_plan (tx_partial_state r);
            (cleanup, r) =
              (if tx_underway cleanup
               then let r = snd (usb_rx_tune_carrier_stop ops L r)
                    in (tx_cleanup_plan (tx_partial_state r), r)
               else (cleanup, r));
            prep = action_bit CleanupResetPaFilter OR action_bit CleanupDisableAmplifier
        in if cleanup AND prep = 0 then (LIBUSB_SUCCESS, r)
           else
             (case tx_execute_cleanup (cleanup AND prep)
                     (Some (execute_usb_cleanup_action ops L False)) r of
                (first_error, _, r) \<Rightarrow>
                  (first_error, r\<lparr>transmit_prepared := False, amp_enable_attempted := False,
                                  pa_filter_known := False\<rparr>)))"

definition usb_rx_transmit_prepared :: "usb_rx \<Rightarrow> bool" where
  "usb_rx_transmit_prepared r = transmit_prepared r"

definition usb_rx_pa_filter :: "usb_rx \<Rightarrow> u32 option" where
  "usb_rx_pa_filter r = (if \<not> pa_filter_known r then None else Some (pa_filter r))"

subsection \<open>Keying\<close>

text \<open>The label \<open>fail\<close> of both start functions.\<close>

definition or_fail :: "usb_rx usb_io_ops \<Rightarrow> usb_lib \<Rightarrow> int \<times> usb_rx \<Rightarrow> int \<times> usb_rx" where
  "or_fail ops L p =
     (case p of (result, r) \<Rightarrow>
        if result = 0 then (LIBUSB_SUCCESS, r)
        else (LIBUSB_ERROR_IO, snd (usb_rx_tune_carrier_stop ops L r)))"

text \<open>From the first command of a Tune start to the success return, without the label \<open>fail\<close>.\<close>

definition tune_carrier_key ::
  "usb_rx usb_io_ops \<Rightarrow> usb_lib \<Rightarrow> u32 \<Rightarrow> u32 \<Rightarrow> usb_rx \<Rightarrow> int \<times> usb_rx" where
  "tune_carrier_key ops L flt tune_word r =
    and_then (send_next ops L (\<lambda>i. built (build_pa_filter_request i flt))
        ''Tune SET_PA_FILTER'' (r\<lparr>rx_tune_prepared := True\<rparr>)) (\<lambda>r.
    and_then (send_next ops L (\<lambda>i. build_amp_tx1_request i True)
        ''Tune SET_AMP_TX1(1)'' (r\<lparr>pa_filter := flt, pa_filter_known := True\<rparr>)) (\<lambda>r.
    and_then (usb_io_start_tx_stream ops False r) (\<lambda>r.
    and_then (usb_io_service_tx_stream ops TUNE_PRE_ROLL_MS r) (\<lambda>r.
    if fault_stage r = FaultAfterStream
    then (1, set_error ''injected failure after Tune stream start'' r) else
    and_then (send_next ops L (\<lambda>i. build_transition_mute_request i True)
        ''Tune transition mute'' (r\<lparr>rx_transition_attempted := True\<rparr>)) (\<lambda>r.
    and_then (send_next ops L (\<lambda>i. build_tuning_word_request i tune_word)
        ''Tune carrier frequency'' (r\<lparr>rx_frequency_attempted := True\<rparr>)) (\<lambda>r.
    and_then (send_next ops L (\<lambda>i. build_tr_request i True)
        ''Tune SET_TR(1)'' (r\<lparr>rx_key_attempted := True\<rparr>)) (\<lambda>r.
    let r = r\<lparr>rx_tune_keyed := True\<rparr> in
    if fault_stage r = FaultAfterKey
    then (1, set_error ''injected ambiguous failure after SET_TR(1)'' r) else
    and_then (usb_io_service_tx_stream ops TUNE_TRANSITION_MS r) (\<lambda>r.
    and_then (send_next ops L (\<lambda>i. build_transition_mute_request i False)
        ''Tune transition unmute'' r) (\<lambda>r.
    (LIBUSB_SUCCESS, r\<lparr>rx_transition_attempted := False, rx_tune_active := True\<rparr>))))))))))"

definition usb_rx_tune_carrier_start ::
  "usb_rx usb_io_ops \<Rightarrow> usb_lib \<Rightarrow> usb_rx \<Rightarrow> int \<times> usb_rx" where
  "usb_rx_tune_carrier_start ops L r =
     (if \<not> running r \<or> \<not> has_handle r \<or> \<not> transmit_prepared r \<or> \<not> frequency_known r \<or> rx_tune_active r
      then (LIBUSB_ERROR_INVALID_PARAM, set_error ''Tune start policy rejected'' r)
      else
        case (pa_filter_for_frequency (rx_frequency_hz r),
              usb_tune_frequency_to_tuning_word (rx_frequency_hz r) TUNE_TONE_HZ) of
          (Some flt, Some tune_word) \<Rightarrow>
            or_fail ops L
              (tune_carrier_key ops L flt tune_word r)
        | _ \<Rightarrow> (LIBUSB_ERROR_INVALID_PARAM, set_error ''Tune start policy rejected'' r))"

text \<open>
  Everything after the policy check of \<open>audio_tx_start\<close>: the prebuffer was accepted and the
  stream is set up in \<open>r\<close>.
\<close>

definition audio_tx_key ::
  "usb_rx usb_io_ops \<Rightarrow> usb_lib \<Rightarrow> bool \<Rightarrow> u32 \<Rightarrow> u32 \<Rightarrow> usb_rx \<Rightarrow> int \<times> usb_rx" where
  "audio_tx_key ops L capture_physical flt tx_word r =
     (and_then (send_next ops L (\<lambda>i. built (build_pa_filter_request i flt))
          ''microphone TX SET_PA_FILTER'' (r\<lparr>rx_tune_prepared := True\<rparr>)) (\<lambda>r.
      and_then (send_next ops L (\<lambda>i. build_amp_tx1_request i True)
          ''microphone TX SET_AMP_TX1(1)'' (r\<lparr>pa_filter := flt, pa_filter_known := True\<rparr>)) (\<lambda>r.
      and_then (usb_io_start_tx_stream ops True r) (\<lambda>r.
      and_then (usb_io_service_tx_stream ops TUNE_PRE_ROLL_MS r) (\<lambda>r.
      and_then (send_next ops L (\<lambda>i. build_transition_mute_request i True)
          ''microphone TX transition mute'' (r\<lparr>rx_transition_attempted := True\<rparr>)) (\<lambda>r.
      and_then (send_next ops L (\<lambda>i. build_tuning_word_request i tx_word)
          ''microphone TX exact frequency'' (r\<lparr>rx_frequency_attempted := True\<rparr>)) (\<lambda>r.
      and_then (send_next ops L (\<lambda>i. build_tr_request i True)
          ''microphone TX SET_TR(1)'' (r\<lparr>rx_key_attempted := True\<rparr>)) (\<lambda>r.
      and_then (usb_io_service_tx_stream ops TUNE_TRANSITION_MS
          (r\<lparr>rx_tune_keyed := True, microphone_capture_enabled := capture_physical\<rparr>)) (\<lambda>r.
      and_then (send_next ops L (\<lambda>i. build_transition_mute_request i False)
          ''microphone TX transition unmute'' r) (\<lambda>r.
      (LIBUSB_SUCCESS, r\<lparr>rx_transition_attempted := False, rx_tune_active := True\<rparr>)))))))))))"

text \<open>
  A null prebuffer is the empty one. The conditions are tested in the source's order: the stream
  is initialised only when all the others hold.
\<close>

definition audio_tx_start ::
  "usb_rx usb_io_ops \<Rightarrow> usb_lib \<Rightarrow> tx_mode \<Rightarrow> u32 \<Rightarrow> rat option \<Rightarrow> bool \<Rightarrow> bool \<Rightarrow> bool \<Rightarrow> bool \<Rightarrow>
   u8 list \<Rightarrow> usb_rx \<Rightarrow> int \<times> usb_rx" where
  "audio_tx_start ops L mode drive gain compressor capture_physical raw translate prebuffer r =
     (let m = libm.truncate L;
          tx_offset_hz = (if mode = TxAm \<or> translate then TX_AM_IF_HZ else 0)
      in if \<not> running r \<or> \<not> has_handle r \<or> \<not> transmit_prepared r \<or> \<not> frequency_known r \<or>
            rx_tune_active r \<or> tune_streaming r
         then (LIBUSB_ERROR_INVALID_PARAM, set_error ''microphone TX start policy rejected'' r)
         else
           case (pa_filter_for_frequency (rx_frequency_hz r),
                 usb_tune_frequency_to_tuning_word (rx_frequency_hz r) tx_offset_hz) of
             (Some flt, Some tx_word) \<Rightarrow>
               (case tx_audio_stream_init m mode drive gain (microphone_stream r) of
                  (ok, stream) \<Rightarrow>
                    if \<not> ok
                    then (LIBUSB_ERROR_INVALID_PARAM, set_error ''microphone TX start policy rejected''
                            (r\<lparr>microphone_stream := stream\<rparr>))
                    else
                      let stream = tx_audio_stream_set_compressor compressor stream;
                          stream = tx_audio_stream_set_raw_iq raw stream;
                          stream = tx_audio_stream_set_raw_iq_translation translate stream
                      in (case (if prebuffer \<noteq> []
                                then if raw then tx_audio_stream_push_iq16le m prebuffer stream
                                     else tx_audio_stream_push_pcm16le m prebuffer stream
                                else (1, stream)) of
                            (accepted, stream) \<Rightarrow>
                              if accepted = 0
                              then (LIBUSB_ERROR_INVALID_PARAM, set_error ''network TX prebuffer rejected''
                                      (r\<lparr>microphone_stream := stream\<rparr>))
                              else or_fail ops L (audio_tx_key ops L capture_physical flt tx_word
                                     (r\<lparr>microphone_stream := stream\<rparr>))))
           | _ \<Rightarrow> (LIBUSB_ERROR_INVALID_PARAM, set_error ''microphone TX start policy rejected'' r))"

definition usb_rx_microphone_tx_start ::
  "usb_rx usb_io_ops \<Rightarrow> usb_lib \<Rightarrow> tx_mode \<Rightarrow> u32 \<Rightarrow> rat option \<Rightarrow> bool \<Rightarrow> usb_rx \<Rightarrow> int \<times> usb_rx" where
  "usb_rx_microphone_tx_start ops L mode drive gain compressor r =
     audio_tx_start ops L mode drive gain compressor True False False [] r"

definition usb_rx_network_tx_start ::
  "usb_rx usb_io_ops \<Rightarrow> usb_lib \<Rightarrow> tx_mode \<Rightarrow> u32 \<Rightarrow> bool \<Rightarrow> bool \<Rightarrow> u8 list \<Rightarrow> usb_rx \<Rightarrow> int \<times> usb_rx" where
  "usb_rx_network_tx_start ops L mode drive raw translate prebuffer r =
     audio_tx_start ops L mode drive (Some 1) False False raw translate prebuffer r"

definition usb_rx_network_tx_push :: "usb_lib \<Rightarrow> u8 list \<Rightarrow> bool \<Rightarrow> usb_rx \<Rightarrow> nat \<times> usb_rx" where
  "usb_rx_network_tx_push L data raw r =
     (if \<not> microphone_streaming r \<or> \<not> tx_accepting_audio r \<or> microphone_capture_enabled r \<or>
         raw_iq (microphone_stream r) \<noteq> raw then (0, r)
      else
        case (if raw then tx_audio_stream_push_iq16le (libm.truncate L) data (microphone_stream r)
              else tx_audio_stream_push_pcm16le (libm.truncate L) data (microphone_stream r)) of
          (accepted, stream) \<Rightarrow> (accepted, r\<lparr>microphone_stream := stream\<rparr>))"

definition usb_rx_network_tx_available :: "bool \<Rightarrow> usb_rx \<Rightarrow> nat" where
  "usb_rx_network_tx_available raw r =
     (if \<not> microphone_streaming r \<or> \<not> tx_accepting_audio r \<or> microphone_capture_enabled r \<or>
         raw_iq (microphone_stream r) \<noteq> raw then 0
      else tx_audio_stream_available (microphone_stream r))"

definition usb_rx_tx_pending_frames :: "usb_rx \<Rightarrow> nat" where
  "usb_rx_tx_pending_frames r =
     (if \<not> microphone_streaming r then 0
      else tx_audio_stream_queued (microphone_stream r) +
           sum_list (map audio_frames (filter tune_submitted (tune_slots r))))"

definition usb_rx_tune_carrier_active :: "usb_rx \<Rightarrow> bool" where
  "usb_rx_tune_carrier_active r = rx_tune_active r"

definition usb_rx_set_tx_fault_stage :: "tx_fault_stage \<Rightarrow> usb_rx \<Rightarrow> usb_rx" where
  "usb_rx_set_tx_fault_stage stage r = r\<lparr>fault_stage := stage\<rparr>"

subsection \<open>Tuning and gain\<close>

definition usb_rx_tune ::
  "usb_rx usb_io_ops \<Rightarrow> usb_lib \<Rightarrow> u32 \<Rightarrow> usb_rx \<Rightarrow> int \<times> usb_rx" where
  "usb_rx_tune ops L frequency_hz r =
     (if \<not> running r \<or> \<not> has_handle r \<or> rx_tune_active r \<or> rx_tune_keyed r
      then (LIBUSB_ERROR_INVALID_PARAM, r)
      else
        let index = next_command_index r in
        case (rx_filter_for_frequency frequency_hz, build_rx_tune_request index frequency_hz) of
          (Some flt, Some (tune_packet, _)) \<Rightarrow>
            (case build_rx_filter_request (index + 1) flt of
               None \<Rightarrow> (LIBUSB_ERROR_INVALID_PARAM,
                        set_error ''RX tune rejected by frequency/filter policy'' r)
             | Some filter_packet \<Rightarrow>
                 let command_count = (if transmit_prepared r then 3 else 2);
                     pa = (if transmit_prepared r
                           then (case pa_filter_for_frequency frequency_hz of
                                   None \<Rightarrow> None
                                 | Some f \<Rightarrow> map_option (Pair f) (build_pa_filter_request (index + 2) f))
                           else Some (0, []))
                 in case pa of
                      None \<Rightarrow> (LIBUSB_ERROR_INVALID_PARAM,
                               set_error ''TX PA filter mapping failed during RX tune'' r)
                    | Some (pa_flt, pa_packet) \<Rightarrow>
                        and_then (send_rx_command ops L tune_packet ''send SET_RX1_FREQ_TW''
                            (r\<lparr>next_command_index := index + command_count\<rparr>)) (\<lambda>r.
                        and_then (send_rx_command ops L filter_packet ''send SET_RX1_FILTER''
                            (r\<lparr>rx_frequency_hz := frequency_hz, frequency_known := True,
                               filter_known := False\<rparr>)) (\<lambda>r.
                        let r = r\<lparr>rx_filter := flt, filter_known := True\<rparr> in
                        and_then
                          (if transmit_prepared r
                           then (case send_rx_command ops L pa_packet ''send mapped SET_PA_FILTER'' r of
                                   (result, r) \<Rightarrow>
                                     if result \<noteq> LIBUSB_SUCCESS
                                     then (result, r\<lparr>pa_filter_known := False\<rparr>)
                                     else (LIBUSB_SUCCESS, r\<lparr>pa_filter := pa_flt, pa_filter_known := True\<rparr>))
                           else (LIBUSB_SUCCESS, r)) (\<lambda>r.
                        (LIBUSB_SUCCESS,
                         map_counters (\<lambda>c. c\<lparr>c_rx_tune_operations := c_rx_tune_operations c + 1\<rparr>)
                           (r\<lparr>destination := iq_ring_clear (destination r)\<rparr>))))))
        | _ \<Rightarrow> (LIBUSB_ERROR_INVALID_PARAM,
                set_error ''RX tune rejected by frequency/filter policy'' r))"

text \<open>C's \<open>%\<close> and \<open>/\<close> on the 32-bit signed gain; the guard leaves only multiples of ten.\<close>

definition usb_rx_set_gain ::
  "usb_rx usb_io_ops \<Rightarrow> usb_lib \<Rightarrow> int \<Rightarrow> usb_rx \<Rightarrow> int \<times> usb_rx" where
  "usb_rx_set_gain ops L gain_db r =
     (if \<not> running r \<or> \<not> has_handle r \<or> rx_tune_active r \<or> rx_tune_keyed r \<or>
         gain_db < -10 \<or> gain_db > 30 \<or> gain_db mod 10 \<noteq> 0
      then (LIBUSB_ERROR_INVALID_PARAM, r)
      else
        case build_rx_gain_request (next_command_index r) (word_of_int ((gain_db + 10) div 10)) of
          None \<Rightarrow> (LIBUSB_ERROR_INVALID_PARAM, r\<lparr>next_command_index := next_command_index r + 1\<rparr>)
        | Some packet \<Rightarrow>
            (case send_rx_command ops L packet ''send SET_TRX_PREAMP''
                    (r\<lparr>next_command_index := next_command_index r + 1\<rparr>) of
               (result, r) \<Rightarrow>
                 (result, if result = LIBUSB_SUCCESS
                          then r\<lparr>rx_gain_db := gain_db, gain_known := True\<rparr> else r)))"

subsection \<open>Inspection\<close>

definition usb_rx_is_running :: "usb_rx \<Rightarrow> bool" where "usb_rx_is_running r = running r"

definition usb_rx_frequency :: "usb_rx \<Rightarrow> u32 option" where
  "usb_rx_frequency r = (if \<not> frequency_known r then None else Some (rx_frequency_hz r))"

definition usb_rx_filter :: "usb_rx \<Rightarrow> u32 option" where
  "usb_rx_filter r = (if \<not> filter_known r then None else Some (rx_filter r))"

definition usb_rx_gain :: "usb_rx \<Rightarrow> int option" where
  "usb_rx_gain r = (if \<not> gain_known r then None else Some (rx_gain_db r))"

definition usb_rx_physical_inputs :: "usb_rx \<Rightarrow> physical_inputs option" where
  "usb_rx_physical_inputs r = (if \<not> physical_inputs_known r then None else Some (inputs_now r))"

definition usb_rx_get_counters :: "usb_rx \<Rightarrow> usb_rx_counters" where "usb_rx_get_counters r = counters r"

definition usb_rx_get_iq_stats :: "usb_rx \<Rightarrow> iq_stats" where "usb_rx_get_iq_stats r = rx_stats r"

definition usb_rx_last_error :: "usb_rx \<Rightarrow> string" where "usb_rx_last_error r = last_error r"

definition usb_rx_microphone_tx_stats :: "usb_rx \<Rightarrow> tx_audio_stats" where
  "usb_rx_microphone_tx_stats r = audio_stats (microphone_stream r)"

subsection \<open>What the device operations promise\<close>

text \<open>
  \<open>keyed\<close>: by the log of the wire the radio may be transmitting. \<open>tracked\<close>: then the receiver
  still has the handle and a flag that makes the cleanup unkey it.
\<close>

definition rx_keyed :: "usb_rx \<Rightarrow> bool" where
  "rx_keyed r = maybe_keyed (wire (usb r))"

definition key_flag :: "usb_rx \<Rightarrow> bool" where
  "key_flag r \<longleftrightarrow> rx_key_attempted r \<or> rx_tune_keyed r \<or> rx_tune_active r"

definition rx_tracked :: "usb_rx \<Rightarrow> bool" where
  "rx_tracked r \<longleftrightarrow> (rx_keyed r \<longrightarrow> has_handle r \<and> key_flag r)"

lemma ctl_eqD:
  assumes "usb_ctl.truncate r = usb_ctl.truncate r'"
  shows "has_handle r = has_handle r'" "rx_tune_prepared r = rx_tune_prepared r'"
    "rx_tune_active r = rx_tune_active r'" "rx_tune_keyed r = rx_tune_keyed r'"
    "rx_key_attempted r = rx_key_attempted r'" "rx_transition_attempted r = rx_transition_attempted r'"
    "rx_frequency_attempted r = rx_frequency_attempted r'" "fault_stage r = fault_stage r'"
    "transmit_prepared r = transmit_prepared r'" "amp_enable_attempted r = amp_enable_attempted r'"
    "pa_filter_known r = pa_filter_known r'" "pa_filter r = pa_filter r'"
    "frequency_known r = frequency_known r'" "filter_known r = filter_known r'"
    "rx_frequency_hz r = rx_frequency_hz r'" "rx_filter r = rx_filter r'"
    "gain_known r = gain_known r'" "rx_gain_db r = rx_gain_db r'"
    "next_command_index r = next_command_index r'"
  using assms by (simp_all add: usb_ctl.truncate_def)

lemma ctl_map_counters [simp]: "usb_ctl.truncate (map_counters f r) = usb_ctl.truncate r"
  by (simp add: map_counters_def usb_ctl.truncate_def)

lemma ctl_set_error [simp]:
  "usb_ctl.truncate (set_error message r) = usb_ctl.truncate r"
  "usb_ctl.truncate (set_libusb_error L operation e r) = usb_ctl.truncate r"
  by (simp_all add: set_error_def set_libusb_error_def usb_ctl.truncate_def)

lemma usb_frame [simp]:
  "usb (map_counters f r) = usb r" "usb (set_error message r) = usb r"
  "usb (set_libusb_error L operation e r) = usb r" "usb (clear_tx_flags r) = usb r"
  by (simp_all add: map_counters_def set_error_def set_libusb_error_def clear_tx_flags_def)

text \<open>The newest \<open>SET_TR\<close> on the wire is a \<open>SET_TR(1)\<close>, arrived or not.\<close>

fun last_tr_on :: "(u8 list \<times> bool) list \<Rightarrow> bool" where
  "last_tr_on [] = False"
| "last_tr_on ((packet, arrived) # sent) =
     (case parse_command packet of Some (_, CmdTr on) \<Rightarrow> on | _ \<Rightarrow> last_tr_on sent)"

definition not_tr :: "u8 list \<Rightarrow> bool" where
  "not_tr packet \<longleftrightarrow> (\<forall>i b. parse_command packet \<noteq> Some (i, CmdTr b))"

lemma not_tr_log [simp]:
  "not_tr packet \<Longrightarrow> maybe_keyed ((packet, a) # sent) = maybe_keyed sent"
  "not_tr packet \<Longrightarrow> last_tr_on ((packet, a) # sent) = last_tr_on sent"
  by (auto simp: not_tr_def split: option.splits radio_command.splits bool.splits)

lemma tr_log [simp]:
  "maybe_keyed ((build_tr_request i True, a) # sent)"
  "maybe_keyed ((build_tr_request i False, a) # sent) \<longleftrightarrow> \<not> a \<and> maybe_keyed sent"
  "last_tr_on ((build_tr_request i on, a) # sent) = on"
  by simp_all

lemma last_tr_on_keyed: "last_tr_on sent \<Longrightarrow> maybe_keyed sent"
  by (induction sent) (auto split: option.splits radio_command.splits bool.splits)

declare maybe_keyed.simps(2) [simp del] last_tr_on.simps(2) [simp del]

lemma not_tr_builders [simp]:
  "not_tr (build_initialize_request i)" "not_tr (build_tuning_word_request i w)"
  "not_tr (build_main_tx_antenna_request i)" "not_tr (build_amp_tx1_request i e)"
  "not_tr (build_transition_mute_request i muted)"
  by (simp_all add: not_tr_def)

lemma parse_command_Nil [simp]: "parse_command [] = None"
  by (simp add: parse_command_def)

lemma not_tr_Nil [simp]: "not_tr []"
  by (simp add: not_tr_def)

lemma not_tr_built [simp]:
  "not_tr (built (build_pa_filter_request i flt))"
  "not_tr (built (build_rx_filter_request i flt))"
  "not_tr (built (map_option fst (build_rx_tune_request i f)))"
  by (auto simp: built_def not_tr_def dest: parse_guarded_builders parse_rx_tune split: option.splits)

text \<open>The control fields that a cleanup action leaves alone.\<close>

definition tx_view :: "usb_rx \<Rightarrow> usb_ctl" where
  "tx_view r = (usb_ctl.truncate r)\<lparr>next_command_index := 0, pa_filter := 0, pa_filter_known := False\<rparr>"

lemma tx_view_eqD:
  assumes "tx_view r = tx_view r'"
  shows "has_handle r = has_handle r'" "key_flag r = key_flag r'"
    "transmit_prepared r = transmit_prepared r'" "frequency_known r = frequency_known r'"
    "rx_frequency_hz r = rx_frequency_hz r'" "rx_tune_prepared r = rx_tune_prepared r'"
    "rx_transition_attempted r = rx_transition_attempted r'"
    "rx_frequency_attempted r = rx_frequency_attempted r'"
    "rx_tune_active r = rx_tune_active r'" "rx_tune_keyed r = rx_tune_keyed r'"
    "rx_key_attempted r = rx_key_attempted r'" "fault_stage r = fault_stage r'"
  using assms by (simp_all add: tx_view_def usb_ctl.truncate_def key_flag_def)

lemma ctl_tx_view: "usb_ctl.truncate r = usb_ctl.truncate r' \<Longrightarrow> tx_view r = tx_view r'"
  by (simp add: tx_view_def)

lemma tx_view_updates [simp]:
  "tx_view (r\<lparr>next_command_index := i\<rparr>) = tx_view r"
  "tx_view (r\<lparr>pa_filter := f, pa_filter_known := k\<rparr>) = tx_view r"
  by (simp_all add: tx_view_def usb_ctl.truncate_def)

text \<open>
  Before and after a command of a start: the handle is there and a \<open>SET_TR(1)\<close> on the wire has
  left a flag. \<open>rejected\<close> is a start turned down before anything was sent, and \<open>same_key\<close> says
  that an operation changed nothing about keying.
\<close>

definition key_inv :: "usb_rx \<Rightarrow> bool" where
  "key_inv r \<longleftrightarrow> has_handle r \<and> (last_tr_on (wire (usb r)) \<longrightarrow> key_flag r)"

definition key_post :: "int \<times> usb_rx \<Rightarrow> bool" where
  "key_post p \<longleftrightarrow> key_inv (snd p) \<and> (fst p = 0 \<longrightarrow> key_flag (snd p))"

definition rejected :: "usb_rx \<Rightarrow> int \<times> usb_rx \<Rightarrow> bool" where
  "rejected r p \<longleftrightarrow> fst p \<noteq> 0 \<and> usb (snd p) = usb r \<and> usb_ctl.truncate (snd p) = usb_ctl.truncate r"

definition same_key :: "usb_rx \<Rightarrow> usb_rx \<Rightarrow> bool" where
  "same_key r r' \<longleftrightarrow> rx_keyed r' = rx_keyed r \<and> has_handle r' = has_handle r \<and> key_flag r' = key_flag r"

text \<open>
  The contract of the operations table: none of the four touches the control fields, a send
  appends exactly its packet to the wire, the stream operations append nothing, and after a stop
  no transmit stream is left.
\<close>

locale usb_device =
  fixes ops :: "usb_rx usb_io_ops"
  assumes send_ctl: "usb_ctl.truncate (snd (snd (op_send_command ops packet r))) = usb_ctl.truncate r"
    and send_wire: "wire (usb (snd (snd (op_send_command ops packet r)))) =
      (packet, fst (op_send_command ops packet r) = 0 \<and>
               fst (snd (op_send_command ops packet r)) = length packet) # wire (usb r)"
    and start_ctl: "usb_ctl.truncate (snd (op_start_tx_stream ops g r)) = usb_ctl.truncate r"
    and start_wire: "wire (usb (snd (op_start_tx_stream ops g r))) = wire (usb r)"
    and service_ctl: "usb_ctl.truncate (snd (op_service_tx_stream ops ms r)) = usb_ctl.truncate r"
    and service_wire: "wire (usb (snd (op_service_tx_stream ops ms r))) = wire (usb r)"
    and stop_ctl: "usb_ctl.truncate (op_stop_tx_stream ops r) = usb_ctl.truncate r"
    and stop_wire: "wire (usb (op_stop_tx_stream ops r)) = wire (usb r)"
    and stop_gone: "\<not> tx_stream_present (op_stop_tx_stream ops r)"

begin

lemma send_effect:
  "usb_ctl.truncate (snd (send_rx_command ops L packet operation r)) = usb_ctl.truncate r \<and>
   (packet \<noteq> [] \<longrightarrow> (\<exists>arrived. wire (usb (snd (send_rx_command ops L packet operation r))) =
        (packet, arrived) # wire (usb r) \<and>
      (fst (send_rx_command ops L packet operation r) = 0 \<longrightarrow> length packet = 20 \<longrightarrow> arrived))) \<and>
   (packet = [] \<longrightarrow> wire (usb (snd (send_rx_command ops L packet operation r))) = wire (usb r))"
proof (cases "packet = []")
  case True
  then show ?thesis by (simp add: send_rx_command_def usb_io_send_command_def Let_def)
next
  case False
  obtain res n r1 where o: "op_send_command ops packet r = (res, n, r1)" by (metis prod_cases3)
  have "usb_ctl.truncate r1 = usb_ctl.truncate r"
    "wire (usb r1) = (packet, res = 0 \<and> n = length packet) # wire (usb r)"
    using send_ctl [of packet r] send_wire [of packet r] by (simp_all add: o)
  with False show ?thesis
    by (cases "res = 0 \<and> n = 20") (auto simp: send_rx_command_def usb_io_send_command_def o Let_def)
qed

lemma send_next_view [simp]: "tx_view (snd (send_next ops L build operation r)) = tx_view r"
  using send_effect [of L "build (next_command_index r)" operation
      "r\<lparr>next_command_index := next_command_index r + 1\<rparr>"]
    ctl_tx_view [of _ "r\<lparr>next_command_index := next_command_index r + 1\<rparr>"]
  by (simp add: send_next_def)

lemma send_not_tr:
  assumes "not_tr packet"
  shows "rx_keyed (snd (send_rx_command ops L packet operation r)) = rx_keyed r \<and>
    last_tr_on (wire (usb (snd (send_rx_command ops L packet operation r)))) = last_tr_on (wire (usb r))"
  using send_effect [of L packet operation r] assms
  by (cases "packet = []") (auto simp: rx_keyed_def)

lemma send_next_not_tr [simp]:
  assumes "\<And>i. not_tr (build i)"
  shows "rx_keyed (snd (send_next ops L build operation r)) = rx_keyed r"
    "last_tr_on (wire (usb (snd (send_next ops L build operation r)))) = last_tr_on (wire (usb r))"
    "maybe_keyed (wire (usb (snd (send_next ops L build operation r)))) = maybe_keyed (wire (usb r))"
  using send_not_tr [OF assms] by (simp_all add: send_next_def rx_keyed_def)

lemma send_next_unkey:
  "rx_keyed (snd (send_next ops L (\<lambda>i. build_tr_request i False) operation r)) \<Longrightarrow> rx_keyed r"
  "fst (send_next ops L (\<lambda>i. build_tr_request i False) operation r) = 0 \<Longrightarrow>
     \<not> rx_keyed (snd (send_next ops L (\<lambda>i. build_tr_request i False) operation r))"
  "\<not> last_tr_on (wire (usb (snd (send_next ops L (\<lambda>i. build_tr_request i False) operation r))))"
proof -
  let ?p = "build_tr_request (next_command_index r) False"
  have n: "?p \<noteq> []" "length ?p = 20"
    by (metis length_build_tr length_0_conv zero_neq_numeral) simp
  obtain a where a: "wire (usb (snd (send_next ops L (\<lambda>i. build_tr_request i False) operation r))) =
      (?p, a) # wire (usb r)"
    "fst (send_next ops L (\<lambda>i. build_tr_request i False) operation r) = 0 \<longrightarrow> a"
    using send_effect [of L ?p operation "r\<lparr>next_command_index := next_command_index r + 1\<rparr>"] n
    by (auto simp: send_next_def)
  then show "rx_keyed (snd (send_next ops L (\<lambda>i. build_tr_request i False) operation r)) \<Longrightarrow> rx_keyed r"
    "fst (send_next ops L (\<lambda>i. build_tr_request i False) operation r) = 0 \<Longrightarrow>
     \<not> rx_keyed (snd (send_next ops L (\<lambda>i. build_tr_request i False) operation r))"
    "\<not> last_tr_on (wire (usb (snd (send_next ops L (\<lambda>i. build_tr_request i False) operation r))))"
    by (simp_all add: rx_keyed_def)
qed

lemma stream_effect [simp]:
  "tx_view (snd (usb_io_start_tx_stream ops g r)) = tx_view r"
  "tx_view (snd (usb_io_service_tx_stream ops ms r)) = tx_view r"
  "tx_view (usb_io_stop_tx_stream ops r) = tx_view r"
  "wire (usb (snd (usb_io_start_tx_stream ops g r))) = wire (usb r)"
  "wire (usb (snd (usb_io_service_tx_stream ops ms r))) = wire (usb r)"
  "wire (usb (usb_io_stop_tx_stream ops r)) = wire (usb r)"
  "\<not> tx_stream_present (usb_io_stop_tx_stream ops r)"
  unfolding usb_io_start_tx_stream_def usb_io_service_tx_stream_def usb_io_stop_tx_stream_def
  by (rule ctl_tx_view [OF start_ctl] ctl_tx_view [OF service_ctl] ctl_tx_view [OF stop_ctl]
      start_wire service_wire stop_wire stop_gone)+

lemma action_effect:
  "tx_view (snd (execute_usb_cleanup_action ops L p action r)) = tx_view r \<and>
   (rx_keyed (snd (execute_usb_cleanup_action ops L p action r)) \<longrightarrow> rx_keyed r) \<and>
   (last_tr_on (wire (usb (snd (execute_usb_cleanup_action ops L p action r)))) \<longrightarrow>
      last_tr_on (wire (usb r))) \<and>
   (action = CleanupUnkey \<longrightarrow>
      \<not> last_tr_on (wire (usb (snd (execute_usb_cleanup_action ops L p action r)))) \<and>
      (fst (execute_usb_cleanup_action ops L p action r) = 0 \<longrightarrow>
         \<not> rx_keyed (snd (execute_usb_cleanup_action ops L p action r))))"
proof (cases action)
  case CleanupUnkey
  then show ?thesis using send_next_unkey by (auto simp: execute_usb_cleanup_action_def)
next
  case CleanupRestoreRxFrequency
  let ?s = "send_next ops L (\<lambda>i. built (map_option fst (build_rx_tune_request i (rx_frequency_hz r))))
      ''TX cleanup restore RX frequency'' r"
  have s: "tx_view (snd ?s) = tx_view r" "rx_keyed (snd ?s) = rx_keyed r"
    "last_tr_on (wire (usb (snd ?s))) = last_tr_on (wire (usb r))"
    by (simp_all only: send_next_view) (rule send_next_not_tr, simp)+
  with CleanupRestoreRxFrequency show ?thesis
    by (auto simp: execute_usb_cleanup_action_def case_prod_beta rx_keyed_def)
next
  case CleanupResetPaFilter
  then show ?thesis
    by (simp add: execute_usb_cleanup_action_def Let_def case_prod_beta rx_keyed_def)
qed (simp_all add: execute_usb_cleanup_action_def rx_keyed_def)

lemma perform_effect:
  assumes "perform (execute_usb_cleanup_action ops L p) actions r = (results, r')"
  shows "tx_view r' = tx_view r \<and> (rx_keyed r' \<longrightarrow> rx_keyed r) \<and>
    (last_tr_on (wire (usb r')) \<longrightarrow> last_tr_on (wire (usb r))) \<and>
    (CleanupUnkey \<in> set actions \<longrightarrow>
       \<not> last_tr_on (wire (usb r')) \<and> (first_failure results = 0 \<longrightarrow> \<not> rx_keyed r'))"
  using assms
proof (induction actions arbitrary: r results)
  case (Cons a actions)
  obtain x r1 where 1: "execute_usb_cleanup_action ops L p a r = (x, r1)" by fastforce
  obtain xs where 2: "perform (execute_usb_cleanup_action ops L p) actions r1 = (xs, r')"
      "results = x # xs"
    using Cons.prems 1 by (auto split: prod.splits)
  show ?case
    using Cons.IH [OF 2(1)] action_effect [of L p a r] 1 2(2) by auto
qed simp

lemma unkey_planned:
  "key_flag r \<Longrightarrow> CleanupUnkey \<in> set (cleanup_steps (tx_cleanup_plan (tx_partial_state r)))"
proof -
  assume k: "key_flag r"
  have "(x OR PARTIAL_KEY_ATTEMPTED) AND PARTIAL_KEY_ATTEMPTED = PARTIAL_KEY_ATTEMPTED" for x :: u32
    by (rule bit_word_eqI) (auto simp: bit_simps)
  then have "tx_partial_state r AND PARTIAL_KEY_ATTEMPTED \<noteq> 0"
    using k by (simp add: tx_partial_state_def key_flag_def Let_def)
  then show ?thesis
    by (simp add: cleanup_steps_def cleanup_order_def planned_cleanup_plan)
qed

lemma clear_tx_flags_effect [simp]:
  "\<not> key_flag (clear_tx_flags r)" "has_handle (clear_tx_flags r) = has_handle r"
  "transmit_prepared (clear_tx_flags r) = transmit_prepared r"
  "\<not> rx_tune_prepared (clear_tx_flags r)" "\<not> rx_transition_attempted (clear_tx_flags r)"
  "\<not> rx_frequency_attempted (clear_tx_flags r)"
  by (simp_all add: clear_tx_flags_def key_flag_def)

text \<open>All that a stop leaves, whatever the device answered.\<close>

lemma carrier_stop_effect:
  assumes "has_handle r" and "usb_rx_tune_carrier_stop ops L r = (e, r')"
  shows "has_handle r' \<and> transmit_prepared r' = transmit_prepared r \<and> \<not> key_flag r' \<and>
    \<not> rx_tune_prepared r' \<and> \<not> rx_transition_attempted r' \<and> \<not> rx_frequency_attempted r' \<and>
    \<not> tx_stream_present r' \<and>
    (rx_keyed r' \<longrightarrow> rx_keyed r) \<and> (rx_tracked r \<longrightarrow> e = 0 \<longrightarrow> \<not> rx_keyed r') \<and>
    ((last_tr_on (wire (usb r)) \<longrightarrow> key_flag r) \<longrightarrow> \<not> last_tr_on (wire (usb r')))"
proof (cases "\<not> rx_tune_prepared r \<and> \<not> rx_tune_active r \<and> \<not> rx_tune_keyed r \<and>
    \<not> rx_key_attempted r \<and> \<not> tx_stream_present r \<and> \<not> rx_transition_attempted r \<and>
    \<not> rx_frequency_attempted r")
  case True
  with assms show ?thesis
    by (auto simp: usb_rx_tune_carrier_stop_def key_flag_def rx_tracked_def)
next
  case False
  define steps where "steps = cleanup_steps (tx_cleanup_plan (tx_partial_state r))"
  obtain results r1 where p: "perform (execute_usb_cleanup_action ops L (transmit_prepared r)) steps r =
      (results, r1)" by fastforce
  have steps: "steps = [a \<leftarrow> cleanup_order. planned (tx_cleanup_plan (tx_partial_state r)) a]"
    by (simp add: steps_def cleanup_steps_def)
  define r2 where "r2 = (if tx_stream_present (clear_tx_flags r1)
      then usb_io_stop_tx_stream ops (clear_tx_flags r1) else clear_tx_flags r1)"
  have out: "e = first_failure results" "r' = r2\<lparr>destination := iq_ring_clear (destination r2)\<rparr>"
    using assms False p
    by (auto simp: usb_rx_tune_carrier_stop_def tx_execute_cleanup_def cleanup_loop_perform steps
        Let_def r2_def)
  note eff = perform_effect [OF p]
  have v2: "tx_view r2 = tx_view (clear_tx_flags r1)" "wire (usb r2) = wire (usb r1)"
    "\<not> tx_stream_present r2"
    by (simp_all add: r2_def)
  note v2d = tx_view_eqD [OF v2(1)]
  have view': "has_handle r' = has_handle r2" "transmit_prepared r' = transmit_prepared r2"
    "key_flag r' = key_flag r2" "rx_tune_prepared r' = rx_tune_prepared r2"
    "rx_transition_attempted r' = rx_transition_attempted r2"
    "rx_frequency_attempted r' = rx_frequency_attempted r2"
    "tx_stream_present r' = tx_stream_present r2" "usb r' = usb r2"
    by (simp_all add: out(2) key_flag_def tx_stream_present_def)
  have unkey: "key_flag r \<Longrightarrow> CleanupUnkey \<in> set steps"
    unfolding steps_def by (rule unkey_planned)
  have v1: "has_handle r1 = has_handle r" "transmit_prepared r1 = transmit_prepared r"
    using eff tx_view_eqD [of r1 r] by simp_all
  show ?thesis
    unfolding view' v2d using assms(1) eff unkey v2 v1
    by (auto simp: rx_keyed_def view' rx_tracked_def out(1))
qed

lemma and_then_post:
  "key_inv (snd p) \<Longrightarrow> (\<And>r. key_inv r \<Longrightarrow> key_post (k r)) \<Longrightarrow> key_post (and_then p k)"
  by (auto simp: and_then_def key_post_def split: prod.splits)

lemma key_inv_send:
  "(\<And>i. not_tr (build i)) \<Longrightarrow> key_inv r \<Longrightarrow> key_inv (snd (send_next ops L build operation r))"
  using tx_view_eqD [OF send_next_view] by (simp add: key_inv_def)

lemma key_inv_key:
  "key_inv r \<Longrightarrow> key_inv (snd (send_next ops L build operation (r\<lparr>rx_key_attempted := True\<rparr>)))"
  using tx_view_eqD [OF send_next_view, of L build operation "r\<lparr>rx_key_attempted := True\<rparr>"]
  by (simp add: key_inv_def key_flag_def)

lemma key_inv_stream:
  "key_inv r \<Longrightarrow> key_inv (snd (usb_io_start_tx_stream ops g r))"
  "key_inv r \<Longrightarrow> key_inv (snd (usb_io_service_tx_stream ops ms r))"
  using tx_view_eqD [OF stream_effect(1), of g r] tx_view_eqD [OF stream_effect(2), of ms r]
  by (simp_all add: key_inv_def)

lemma key_inv_updates:
  "key_inv r \<Longrightarrow> key_inv (r\<lparr>rx_tune_prepared := b\<rparr>)"
  "key_inv r \<Longrightarrow> key_inv (r\<lparr>pa_filter := f, pa_filter_known := b\<rparr>)"
  "key_inv r \<Longrightarrow> key_inv (r\<lparr>rx_transition_attempted := b\<rparr>)"
  "key_inv r \<Longrightarrow> key_inv (r\<lparr>rx_frequency_attempted := b\<rparr>)"
  "key_inv r \<Longrightarrow> key_inv (r\<lparr>rx_tune_keyed := True\<rparr>)"
  "key_inv r \<Longrightarrow> key_inv (r\<lparr>rx_tune_keyed := True, microphone_capture_enabled := b\<rparr>)"
  "key_inv r \<Longrightarrow> key_inv (set_error message r)"
  by (auto simp: key_inv_def key_flag_def set_error_def)

lemma key_post_fail: "key_inv r \<Longrightarrow> key_post (1, set_error message r)"
  by (simp add: key_post_def key_inv_updates)

lemma key_post_done:
  "key_inv r \<Longrightarrow> key_post (0, r\<lparr>rx_transition_attempted := False, rx_tune_active := True\<rparr>)"
  by (auto simp: key_post_def key_inv_def key_flag_def)

lemma or_fail_effect:
  assumes "key_post p" and "or_fail ops L p = (e, r')"
  shows "(e = 0 \<longrightarrow> has_handle r' \<and> key_flag r') \<and> (e \<noteq> 0 \<longrightarrow> \<not> last_tr_on (wire (usb r')) \<and> \<not> key_flag r')"
proof (cases "fst p = 0")
  case True
  with assms show ?thesis by (auto simp: or_fail_def key_post_def key_inv_def split: prod.splits)
next
  case False
  obtain e' where s: "usb_rx_tune_carrier_stop ops L (snd p) = (e', r')" and "e \<noteq> 0"
    using assms(2) False by (cases "usb_rx_tune_carrier_stop ops L (snd p)") (auto simp: or_fail_def split: prod.splits)
  have "has_handle (snd p)" "last_tr_on (wire (usb (snd p))) \<longrightarrow> key_flag (snd p)"
    using assms(1) by (simp_all add: key_post_def key_inv_def)
  with carrier_stop_effect [OF _ s] \<open>e \<noteq> 0\<close> show ?thesis by blast
qed

lemmas key_rules = and_then_post key_inv_send key_inv_key key_inv_stream key_inv_updates
  key_post_fail key_post_done

lemma tune_carrier_key_post:
  assumes "key_inv r"
  shows "key_post (tune_carrier_key ops L flt tune_word r)"
  unfolding tune_carrier_key_def Let_def using assms
  by (auto intro!: key_rules)

lemma audio_tx_key_post:
  assumes "key_inv r"
  shows "key_post (audio_tx_key ops L capture flt tx_word r)"
  unfolding audio_tx_key_def using assms
  by (auto intro!: key_rules)

lemma rejected_errors:
  "rejected r (LIBUSB_ERROR_INVALID_PARAM, set_error m r)"
  "rejected r (LIBUSB_ERROR_INVALID_PARAM, set_error m (r\<lparr>microphone_stream := s\<rparr>))"
  by (simp_all add: rejected_def) (simp add: usb_ctl.truncate_def)

lemma tune_start_cases:
  "rejected r (usb_rx_tune_carrier_start ops L r) \<or>
   (has_handle r \<and> (\<exists>flt tw. usb_rx_tune_carrier_start ops L r =
      or_fail ops L (tune_carrier_key ops L flt tw r)))"
  by (auto simp: usb_rx_tune_carrier_start_def rejected_errors split: option.splits)

lemma audio_start_cases:
  "rejected r (audio_tx_start ops L mode drive gain cmpr cap raw tr pre r) \<or>
   (has_handle r \<and> (\<exists>flt tw s. audio_tx_start ops L mode drive gain cmpr cap raw tr pre r =
      or_fail ops L (audio_tx_key ops L cap flt tw (r\<lparr>microphone_stream := s\<rparr>))))"
proof (cases "running r \<and> has_handle r \<and> transmit_prepared r \<and> frequency_known r \<and>
    \<not> rx_tune_active r \<and> \<not> tune_streaming r")
  case False
  then show ?thesis by (auto simp: audio_tx_start_def Let_def rejected_errors)
next
  case True
  define off where "off = (if mode = TxAm \<or> tr then TX_AM_IF_HZ else 0)"
  obtain ok s0 where init: "tx_audio_stream_init (libm.truncate L) mode drive gain (microphone_stream r) = (ok, s0)"
    by fastforce
  define s1 where "s1 = tx_audio_stream_set_raw_iq_translation tr
    (tx_audio_stream_set_raw_iq raw (tx_audio_stream_set_compressor cmpr s0))"
  obtain n s2 where push: "(if pre \<noteq> [] then if raw then tx_audio_stream_push_iq16le (libm.truncate L) pre s1
      else tx_audio_stream_push_pcm16le (libm.truncate L) pre s1 else (1, s1)) = (n, s2)"
    by fastforce
  have val: "audio_tx_start ops L mode drive gain cmpr cap raw tr pre r =
    (case (pa_filter_for_frequency (rx_frequency_hz r),
           usb_tune_frequency_to_tuning_word (rx_frequency_hz r) off) of
       (Some flt, Some tw) \<Rightarrow>
         if \<not> ok then (LIBUSB_ERROR_INVALID_PARAM, set_error ''microphone TX start policy rejected''
             (r\<lparr>microphone_stream := s0\<rparr>))
         else if n = 0 then (LIBUSB_ERROR_INVALID_PARAM, set_error ''network TX prebuffer rejected''
             (r\<lparr>microphone_stream := s2\<rparr>))
         else or_fail ops L (audio_tx_key ops L cap flt tw (r\<lparr>microphone_stream := s2\<rparr>))
     | _ \<Rightarrow> (LIBUSB_ERROR_INVALID_PARAM, set_error ''microphone TX start policy rejected'' r))"
    unfolding audio_tx_start_def Let_def off_def [symmetric] init prod.case s1_def [symmetric] push
    using True by (simp only: simp_thms if_True if_False)
  show ?thesis
    unfolding val using True by (auto simp: rejected_errors split: option.split)
qed

lemma start_effect:
  assumes "rejected r p \<or> (has_handle r \<and> (\<exists>b. p = or_fail ops L b \<and> (key_inv r \<longrightarrow> key_post b)))"
  shows "rx_tracked r \<Longrightarrow> fst p = 0 \<Longrightarrow> has_handle (snd p) \<and> key_flag (snd p)"
    "\<not> last_tr_on (wire (usb r)) \<Longrightarrow> fst p \<noteq> 0 \<Longrightarrow> \<not> last_tr_on (wire (usb (snd p)))"
proof -
  have inv: "key_inv r" if "has_handle r" "rx_tracked r \<or> \<not> last_tr_on (wire (usb r))"
    using that last_tr_on_keyed by (auto simp: key_inv_def rx_tracked_def rx_keyed_def)
  have fail: "(fst p = 0 \<longrightarrow> has_handle (snd p) \<and> key_flag (snd p)) \<and>
      (fst p \<noteq> 0 \<longrightarrow> \<not> last_tr_on (wire (usb (snd p))))" if "p = or_fail ops L b" "key_post b" for b
    using or_fail_effect [OF that(2), of L "fst p" "snd p"] that(1) by simp
  show "rx_tracked r \<Longrightarrow> fst p = 0 \<Longrightarrow> has_handle (snd p) \<and> key_flag (snd p)"
    using assms inv fail unfolding rejected_def by metis
  show "\<not> last_tr_on (wire (usb r)) \<Longrightarrow> fst p \<noteq> 0 \<Longrightarrow> \<not> last_tr_on (wire (usb (snd p)))"
    using assms inv fail unfolding rejected_def by metis
qed

lemma tune_start_effect:
  "rx_tracked r \<Longrightarrow> fst (usb_rx_tune_carrier_start ops L r) = 0 \<Longrightarrow>
     has_handle (snd (usb_rx_tune_carrier_start ops L r)) \<and> key_flag (snd (usb_rx_tune_carrier_start ops L r))"
  "\<not> last_tr_on (wire (usb r)) \<Longrightarrow> fst (usb_rx_tune_carrier_start ops L r) \<noteq> 0 \<Longrightarrow>
     \<not> last_tr_on (wire (usb (snd (usb_rx_tune_carrier_start ops L r))))"
proof -
  have "rejected r (usb_rx_tune_carrier_start ops L r) \<or> (has_handle r \<and>
      (\<exists>b. usb_rx_tune_carrier_start ops L r = or_fail ops L b \<and> (key_inv r \<longrightarrow> key_post b)))"
    using tune_start_cases [of r L] tune_carrier_key_post by blast
  note eff = start_effect [OF this]
  show "rx_tracked r \<Longrightarrow> fst (usb_rx_tune_carrier_start ops L r) = 0 \<Longrightarrow>
     has_handle (snd (usb_rx_tune_carrier_start ops L r)) \<and> key_flag (snd (usb_rx_tune_carrier_start ops L r))"
    by (rule eff(1))
  show "\<not> last_tr_on (wire (usb r)) \<Longrightarrow> fst (usb_rx_tune_carrier_start ops L r) \<noteq> 0 \<Longrightarrow>
     \<not> last_tr_on (wire (usb (snd (usb_rx_tune_carrier_start ops L r))))"
    by (rule eff(2))
qed

lemma audio_start_effect:
  fixes r mode drive gain cmpr cap raw tr pre L
  defines "p \<equiv> audio_tx_start ops L mode drive gain cmpr cap raw tr pre r"
  shows "rx_tracked r \<Longrightarrow> fst p = 0 \<Longrightarrow> has_handle (snd p) \<and> key_flag (snd p)"
    "\<not> last_tr_on (wire (usb r)) \<Longrightarrow> fst p \<noteq> 0 \<Longrightarrow> \<not> last_tr_on (wire (usb (snd p)))"
proof -
  have frame: "key_inv (r\<lparr>microphone_stream := s\<rparr>) = key_inv r" for s
    by (simp add: key_inv_def key_flag_def)
  have "rejected r p \<or> (has_handle r \<and> (\<exists>b. p = or_fail ops L b \<and> (key_inv r \<longrightarrow> key_post b)))"
    using audio_start_cases [of r L mode drive gain cmpr cap raw tr pre] audio_tx_key_post frame
    unfolding p_def by metis
  note eff = start_effect [OF this]
  show "rx_tracked r \<Longrightarrow> fst p = 0 \<Longrightarrow> has_handle (snd p) \<and> key_flag (snd p)"
    by (rule eff(1))
  show "\<not> last_tr_on (wire (usb r)) \<Longrightarrow> fst p \<noteq> 0 \<Longrightarrow> \<not> last_tr_on (wire (usb (snd p)))"
    by (rule eff(2))
qed

text \<open>Tuning, gain and transmit preparation send no \<open>SET_TR(1)\<close>.\<close>

lemma and_then_frame:
  assumes "P (snd p)" and "\<And>r. P r \<Longrightarrow> P (snd (k r))"
  shows "P (snd (and_then p k))"
  using assms by (auto simp: and_then_def split: prod.splits)

lemma send_packet_frame:
  assumes "not_tr packet"
  shows "rx_keyed (snd (send_rx_command ops L packet operation r)) = rx_keyed r"
    "has_handle (snd (send_rx_command ops L packet operation r)) = has_handle r"
    "key_flag (snd (send_rx_command ops L packet operation r)) = key_flag r"
  using send_not_tr [OF assms, of L operation r] send_effect [of L packet operation r]
    tx_view_eqD(1,2) [OF ctl_tx_view, of "snd (send_rx_command ops L packet operation r)" r] by simp_all

lemma same_key_send:
  "not_tr packet \<Longrightarrow> same_key r r1 \<Longrightarrow> same_key r (snd (send_rx_command ops L packet operation r1))"
  "(\<And>i. not_tr (build i)) \<Longrightarrow> same_key r r1 \<Longrightarrow> same_key r (snd (send_next ops L build operation r1))"
  using tx_view_eqD(1,2) [OF send_next_view, of L build operation r1]
  by (simp_all add: same_key_def send_packet_frame)

lemma same_key_updates:
  "same_key r r" "same_key r r1 \<Longrightarrow> same_key r (set_error m r1)"
  "same_key r r1 \<Longrightarrow> same_key r (map_counters f r1)"
  "same_key r r1 \<Longrightarrow> same_key r (r1\<lparr>next_command_index := i\<rparr>)"
  "same_key r r1 \<Longrightarrow> same_key r (r1\<lparr>pa_filter_known := b\<rparr>)"
  "same_key r r1 \<Longrightarrow> same_key r (r1\<lparr>pa_filter := flt, pa_filter_known := b\<rparr>)"
  "same_key r r1 \<Longrightarrow> same_key r (r1\<lparr>amp_enable_attempted := b\<rparr>)"
  "same_key r r1 \<Longrightarrow> same_key r (r1\<lparr>transmit_prepared := b\<rparr>)"
  "same_key r r1 \<Longrightarrow> same_key r (r1\<lparr>rx_frequency_hz := f', frequency_known := b, filter_known := c\<rparr>)"
  "same_key r r1 \<Longrightarrow> same_key r (r1\<lparr>rx_filter := flt, filter_known := b\<rparr>)"
  "same_key r r1 \<Longrightarrow> same_key r (r1\<lparr>rx_gain_db := g, gain_known := b\<rparr>)"
  "same_key r r1 \<Longrightarrow> same_key r (r1\<lparr>destination := ring\<rparr>)"
  by (simp_all add: same_key_def rx_keyed_def key_flag_def set_error_def map_counters_def)

lemma not_tr_Some:
  "build_rx_tune_request i f = Some (packet, w) \<Longrightarrow> not_tr packet"
  "build_rx_filter_request i flt = Some packet \<Longrightarrow> not_tr packet"
  "build_pa_filter_request i flt = Some packet \<Longrightarrow> not_tr packet"
  "build_rx_gain_request i k = Some packet \<Longrightarrow> not_tr packet"
  by (auto simp: not_tr_def dest: parse_guarded_builders parse_rx_tune)

lemma same_key_if:
  "(b \<Longrightarrow> same_key r (snd p)) \<Longrightarrow> (\<not> b \<Longrightarrow> same_key r (snd q)) \<Longrightarrow> same_key r (snd (if b then p else q))"
  "(b \<Longrightarrow> same_key r r1) \<Longrightarrow> (\<not> b \<Longrightarrow> same_key r r2) \<Longrightarrow> same_key r (if b then r1 else r2)"
  by simp_all

lemma same_key_case:
  "same_key r (snd p) \<Longrightarrow> (\<And>e r1. same_key r r1 \<Longrightarrow> same_key r (snd (f e r1))) \<Longrightarrow>
     same_key r (snd (case p of (e, r1) \<Rightarrow> f e r1))"
  by (cases p) simp

lemma same_key_return: "same_key r r1 \<Longrightarrow> same_key r (snd (e, r1))"
  by simp

lemma and_then_same_key:
  "same_key r (snd p) \<Longrightarrow> (\<And>r1. same_key r r1 \<Longrightarrow> same_key r (snd (k r1))) \<Longrightarrow>
     same_key r (snd (and_then p k))"
  by (rule and_then_frame)

lemmas same_key_rules = and_then_same_key same_key_if same_key_case same_key_return same_key_send
  same_key_updates

lemma tune_same_key: "same_key r (snd (usb_rx_tune ops L f r))"
proof -
  define pa where "pa = (if transmit_prepared r
     then (case pa_filter_for_frequency f of None \<Rightarrow> None
           | Some k \<Rightarrow> map_option (Pair k) (build_pa_filter_request (next_command_index r + 2) k))
     else Some (0, []))"
  have pa: "not_tr packet" if "pa = Some (k, packet)" for k packet
    using that by (auto simp: pa_def not_tr_Some split: if_splits option.splits)
  define count :: u8 where "count = (if transmit_prepared r then 3 else 2)"
  show ?thesis
  proof (cases "\<not> (\<not> running r \<or> \<not> has_handle r \<or> rx_tune_active r \<or> rx_tune_keyed r) \<and>
      rx_filter_for_frequency f \<noteq> None \<and> build_rx_tune_request (next_command_index r) f \<noteq> None")
    case False
    then show ?thesis
      by (cases "rx_filter_for_frequency f"; cases "build_rx_tune_request (next_command_index r) f")
        (auto simp: usb_rx_tune_def Let_def same_key_updates)
  next
    case True
    then obtain flt packet w where t: "rx_filter_for_frequency f = Some flt"
        "build_rx_tune_request (next_command_index r) f = Some (packet, w)" by auto
    note n = not_tr_Some(1) [OF t(2)]
    show ?thesis
    proof (cases "build_rx_filter_request (next_command_index r + 1) flt = None \<or> pa = None")
      case False
      then obtain fp k pp where p: "build_rx_filter_request (next_command_index r + 1) flt = Some fp"
        "pa = Some (k, pp)" by auto
      note n' = not_tr_Some(2) [OF p(1)] pa [OF p(2)]
      show ?thesis
        unfolding usb_rx_tune_def Let_def pa_def [symmetric] count_def [symmetric] t p
          option.case prod.case
        by (intro same_key_rules n n')
    next
      case reject: True
      with True show ?thesis
        unfolding usb_rx_tune_def Let_def pa_def [symmetric] count_def [symmetric] t
        by (cases "build_rx_filter_request (next_command_index r + 1) flt")
          (simp_all add: same_key_updates)
    qed
  qed
qed

lemma gain_same_key: "same_key r (snd (usb_rx_set_gain ops L g r))"
proof (cases "build_rx_gain_request (next_command_index r) (word_of_int ((g + 10) div 10))")
  case None
  then show ?thesis by (simp add: usb_rx_set_gain_def same_key_updates)
next
  case (Some packet)
  note n = not_tr_Some(4) [OF this]
  show ?thesis
    unfolding usb_rx_set_gain_def Some option.case by (intro same_key_rules n)
qed

lemma enable_same_key: "same_key r (snd (usb_rx_enable_transmit_preparation ops L r))"
proof -
  have prep: "same_key r (snd (case pa_filter_for_frequency (rx_frequency_hz r1) of
        None \<Rightarrow> (LIBUSB_ERROR_INVALID_PARAM, r1)
      | Some flt \<Rightarrow>
          (case build_pa_filter_request (next_command_index r1) flt of
             None \<Rightarrow> (LIBUSB_ERROR_INVALID_PARAM, r1\<lparr>next_command_index := next_command_index r1 + 1\<rparr>)
           | Some packet \<Rightarrow>
               and_then (send_rx_command ops L packet ''prepare TX SET_PA_FILTER''
                   (r1\<lparr>next_command_index := next_command_index r1 + 1\<rparr>))
                 (\<lambda>r. (LIBUSB_SUCCESS, r\<lparr>pa_filter := flt, pa_filter_known := True\<rparr>)))))"
    if "same_key r r1" for r1
    using that
    by (cases "pa_filter_for_frequency (rx_frequency_hz r1)"; simp add: same_key_updates)
      (auto split: option.split intro!: same_key_rules not_tr_Some(3))
  show ?thesis
    unfolding usb_rx_enable_transmit_preparation_def Let_def
    by (intro same_key_rules prep not_tr_builders not_tr_built)
qed

lemma or_zero_iff: "(x :: u32) OR y = 0 \<longleftrightarrow> x = 0 \<and> y = 0"
  by (metis or_eq_0_iff)

lemma and_or_zero: "(x :: u32) AND (y OR z) = 0 \<longleftrightarrow> x AND y = 0 \<and> x AND z = 0"
  by (simp add: bit.conj_disj_distrib or_zero_iff)

lemma partial_bits:
  "tx_partial_state r AND PARTIAL_PA_SELECTED \<noteq> 0 \<longleftrightarrow> pa_filter_known r"
  "tx_partial_state r AND PARTIAL_AMP_ENABLE_ATTEMPTED \<noteq> 0 \<longleftrightarrow>
     amp_enable_attempted r \<or> transmit_prepared r"
  by (simp_all add: tx_partial_state_def Let_def)

text \<open>Giving up transmit preparation never keys the radio and leaves nothing prepared.\<close>

lemma disable_effect:
  assumes "has_handle r" and "usb_rx_disable_transmit_preparation ops L r = (e, r')"
  shows "(rx_keyed r' \<longrightarrow> rx_keyed r) \<and> \<not> transmit_prepared r' \<and> \<not> amp_enable_attempted r'
    \<and> \<not> pa_filter_known r' \<and> (\<not> last_tr_on (wire (usb r)) \<longrightarrow> \<not> last_tr_on (wire (usb r')))"
proof -
  define busy where "busy = tx_underway (tx_cleanup_plan (tx_partial_state r))"
  define r1 where "r1 = (if busy then snd (usb_rx_tune_carrier_stop ops L r) else r)"
  define prep where "prep = action_bit CleanupResetPaFilter OR action_bit CleanupDisableAmplifier"
  define plan where "plan = tx_cleanup_plan (tx_partial_state r1)"
  have r1: "rx_keyed r1 \<longrightarrow> rx_keyed r" "\<not> last_tr_on (wire (usb r)) \<longrightarrow> \<not> last_tr_on (wire (usb r1))"
    using carrier_stop_effect [OF assms(1), of L "fst (usb_rx_tune_carrier_stop ops L r)"
        "snd (usb_rx_tune_carrier_stop ops L r)"] by (auto simp: r1_def)
  obtain results r2 where p: "perform (execute_usb_cleanup_action ops L False)
      (cleanup_steps (plan AND prep)) r1 = (results, r2)" by fastforce
  show ?thesis
  proof (cases "plan AND prep = 0")
    case True
    then have "r' = r1"
      using assms by (simp add: usb_rx_disable_transmit_preparation_def Let_def busy_def [symmetric]
          prep_def plan_def r1_def split: if_splits)
    moreover have "\<not> planned plan CleanupResetPaFilter" "\<not> planned plan CleanupDisableAmplifier"
      using True unfolding prep_def and_or_zero by (simp_all add: planned_def)
    ultimately show ?thesis
      using r1 partial_bits [of r1] by (simp add: plan_def planned_cleanup_plan)
  next
    case False
    then have "r' = r2\<lparr>transmit_prepared := False, amp_enable_attempted := False, pa_filter_known := False\<rparr>"
      using assms p by (auto simp: usb_rx_disable_transmit_preparation_def Let_def busy_def [symmetric]
          prep_def plan_def r1_def tx_execute_cleanup_def cleanup_loop_perform
          cleanup_steps_def split: if_splits prod.splits)
    then show ?thesis
      using perform_effect [OF p] r1 by (auto simp: rx_keyed_def)
  qed
qed

text \<open>Nothing under way and no preparation flag set: the plan has no \<open>SET_TR(0)\<close>.\<close>

lemma underway_unkey: "key_flag r \<Longrightarrow> tx_underway (tx_cleanup_plan (tx_partial_state r))"
proof -
  assume "key_flag r"
  then have "planned (tx_cleanup_plan (tx_partial_state r)) CleanupUnkey"
    using unkey_planned [of r] by (simp add: cleanup_steps_def)
  then show ?thesis
    unfolding tx_underway_def and_or_zero by (simp add: planned_def)
qed

end

end
