(* ===== verification/Usb_Stream.thy ===== *)
theory Usb_Stream
  imports Usb_Rx
begin

text \<open>
  Model of the streaming side of \<open>src/usb_rx.c\<close>: the completion callbacks, the transmit stream,
  the event loops, and the receiver's life from create to destroy. The production operations
  table is built from them, and the interface \<open>usb_device\<close> of \<open>Usb_Rx\<close> is interpreted on it.

  \<open>deliver\<close> runs the callbacks of the transfers that libusb reports as done. libusb completes
  a transfer only while it is submitted, so a completion for a slot that is not is none. Freed
  memory is a slot back in the state \<open>calloc\<close> gave it.
\<close>

subsection \<open>Clock and error statistics\<close>

definition on_usb :: "(usb_world \<Rightarrow> 'a \<times> usb_world) \<Rightarrow> usb_rx \<Rightarrow> 'a \<times> usb_rx" where
  "on_usb f r = (case f (usb r) of (x, w) \<Rightarrow> (x, r\<lparr>usb := w\<rparr>))"

definition elapsed_ms :: "usb_rx \<Rightarrow> u64 \<times> usb_rx" where
  "elapsed_ms r =
     (case on_usb monotonic_ms r of (now, r) \<Rightarrow>
        (if rx_started_ms r \<le> now then now - rx_started_ms r else 0, r))"

definition mark_error_event :: "usb_rx \<Rightarrow> usb_rx" where
  "mark_error_event r =
     (case elapsed_ms r of (now, r) \<Rightarrow>
        map_counters (\<lambda>c.
          let c = (if c_error_events c = 0 then c\<lparr>c_first_error_ms := now\<rparr> else c)
          in c\<lparr>c_last_error_ms := now, c_error_events := c_error_events c + 1\<rparr>) r)"

definition count_status :: "transfer_status \<Rightarrow> bool \<Rightarrow> usb_rx_counters \<Rightarrow> usb_rx_counters" where
  "count_status status packet c =
     (case status of
        TransferTimedOut \<Rightarrow>
          if packet then c\<lparr>c_packet_timeouts := c_packet_timeouts c + 1\<rparr>
          else c\<lparr>c_transfer_timeouts := c_transfer_timeouts c + 1\<rparr>
      | TransferStall \<Rightarrow>
          if packet then c\<lparr>c_packet_stalls := c_packet_stalls c + 1\<rparr>
          else c\<lparr>c_transfer_stalls := c_transfer_stalls c + 1\<rparr>
      | TransferNoDevice \<Rightarrow>
          if packet then c\<lparr>c_packet_no_device := c_packet_no_device c + 1\<rparr>
          else c\<lparr>c_transfer_no_device := c_transfer_no_device c + 1\<rparr>
      | TransferOverflow \<Rightarrow>
          if packet then c\<lparr>c_packet_overflows := c_packet_overflows c + 1\<rparr>
          else c\<lparr>c_transfer_overflows := c_transfer_overflows c + 1\<rparr>
      | _ \<Rightarrow>
          if packet then c\<lparr>c_packet_other_errors := c_packet_other_errors c + 1\<rparr>
          else c\<lparr>c_transfer_other_errors := c_transfer_other_errors c + 1\<rparr>)"

definition classify_transfer_status :: "transfer_status \<Rightarrow> bool \<Rightarrow> usb_rx \<Rightarrow> usb_rx" where
  "classify_transfer_status status packet r =
     mark_error_event (map_counters (count_status status packet) r)"

subsection \<open>Receiving\<close>

definition mark_sentinel :: "u64 \<Rightarrow> usb_rx \<Rightarrow> usb_rx" where
  "mark_sentinel frame r =
     (case elapsed_ms r of (now, r) \<Rightarrow>
        let r = (if \<not> sentinel_seen r
                 then map_counters (\<lambda>c. c\<lparr>c_first_sentinel_frame := frame, c_first_sentinel_ms := now\<rparr>)
                        (r\<lparr>sentinel_seen := True\<rparr>)
                 else r)
        in map_counters (\<lambda>c. c\<lparr>c_last_sentinel_frame := frame, c_last_sentinel_ms := now\<rparr>) r)"

fun mark_sentinels :: "u64 \<Rightarrow> (int \<times> int) list \<Rightarrow> usb_rx \<Rightarrow> usb_rx" where
  "mark_sentinels frame [] r = r"
| "mark_sentinels frame ((si, sq) # frames) r =
     mark_sentinels (frame + 1) frames
       (if si = -1 \<and> sq = -1 then mark_sentinel frame r else r)"

definition process_packet :: "usb_lib \<Rightarrow> u8 list \<Rightarrow> usb_rx \<Rightarrow> usb_rx" where
  "process_packet L data r =
     (if microphone_streaming r
      then
        if microphone_capture_enabled r \<and> tx_accepting_audio r
        then r\<lparr>microphone_stream :=
                 snd (tx_audio_stream_push_iq16le (libm.truncate L) data (microphone_stream r))\<rparr>
        else r
      else
        let r = mark_sentinels (st_frames (rx_stats r)) (all_frames data) r
        in case process_iq16le data (SAMPLE_PACKET_SIZE div 4) (rx_stats r) (rx_dc r) of
             (frames, st, dc) \<Rightarrow>
               r\<lparr>rx_stats := st, rx_dc := dc,
                 destination := snd (iq_ring_push frames (destination r))\<rparr>)"

definition submit_slot :: "usb_lib \<Rightarrow> nat \<Rightarrow> bool \<Rightarrow> usb_rx \<Rightarrow> int \<times> usb_rx" where
  "submit_slot L i resubmit r =
     (case on_usb libusb_submit_transfer r of (result, r) \<Rightarrow>
        if result \<noteq> LIBUSB_SUCCESS
        then (result,
              (set_libusb_error L ''submit RX transfer'' result
                (map_counters (\<lambda>c. c\<lparr>c_transfer_submit_errors := c_transfer_submit_errors c + 1\<rparr>) r))
                \<lparr>running := False\<rparr>)
        else
          let r = r\<lparr>rx_slots := (rx_slots r)[i := (rx_slots r ! i)\<lparr>rx_submitted := True\<rparr>],
                    active_transfers := active_transfers r + 1\<rparr>
          in (LIBUSB_SUCCESS,
              if resubmit
              then map_counters (\<lambda>c. c\<lparr>c_transfer_resubmits := c_transfer_resubmits c + 1\<rparr>) r
              else r))"

text \<open>\<open>SAMPLE_PACKET_SIZE\<close> bytes are expected in every isochronous packet.\<close>

definition count_packet_length :: "nat \<Rightarrow> usb_rx \<Rightarrow> usb_rx" where
  "count_packet_length actual r =
     (if actual = 0
      then mark_error_event (map_counters (\<lambda>c.
             c\<lparr>c_zero_length_packets := c_zero_length_packets c + 1,
               c_short_packets := c_short_packets c + 1,
               c_missing_bytes := c_missing_bytes c + of_nat SAMPLE_PACKET_SIZE\<rparr>) r)
      else if actual < SAMPLE_PACKET_SIZE
      then mark_error_event (map_counters (\<lambda>c.
             c\<lparr>c_short_packets := c_short_packets c + 1,
               c_missing_bytes := c_missing_bytes c + of_nat (SAMPLE_PACKET_SIZE - actual)\<rparr>) r)
      else if actual > SAMPLE_PACKET_SIZE
      then mark_error_event (map_counters (\<lambda>c.
             c\<lparr>c_oversized_packets := c_oversized_packets c + 1\<rparr>) r)
      else r)"

definition rx_packet :: "usb_lib \<Rightarrow> transfer_status \<times> u8 list \<Rightarrow> usb_rx \<Rightarrow> usb_rx" where
  "rx_packet L packet r =
     (case packet of (status, data) \<Rightarrow>
        if status \<noteq> TransferCompleted
        then classify_transfer_status status True (map_counters (\<lambda>c.
               c\<lparr>c_usb_packet_errors := c_usb_packet_errors c + 1,
                 c_packet_status_errors := c_packet_status_errors c + 1\<rparr>) r)
        else
          let r = map_counters (\<lambda>c. c\<lparr>c_usb_packets := c_usb_packets c + 1,
                                      c_bytes := c_bytes c + of_nat (length data)\<rparr>) r;
              r = count_packet_length (length data) r;
              r = map_counters (\<lambda>c. c\<lparr>c_trailing_bytes :=
                                        c_trailing_bytes c + of_nat (length data mod 4)\<rparr>) r
          in if length data > 0 then process_packet L data r else r)"

definition rx_complete ::
  "usb_lib \<Rightarrow> nat \<Rightarrow> transfer_status \<Rightarrow> (transfer_status \<times> u8 list) list \<Rightarrow> usb_rx \<Rightarrow> usb_rx" where
  "rx_complete L i status packets r =
     (let r = r\<lparr>rx_slots := (rx_slots r)[i := (rx_slots r ! i)\<lparr>rx_submitted := False\<rparr>],
                active_transfers := active_transfers r - 1\<rparr>;
          r = (if status = TransferCompleted
               then fold (rx_packet L) packets (r\<lparr>consecutive_transfer_failures := 0\<rparr>)
               else if status \<noteq> TransferCancelled
               then
                 let r = classify_transfer_status status False (map_counters (\<lambda>c.
                           c\<lparr>c_usb_packet_errors := c_usb_packet_errors c + 64,
                             c_transfer_status_errors := c_transfer_status_errors c + 1\<rparr>) r);
                     r = r\<lparr>consecutive_transfer_failures := consecutive_transfer_failures r + 1\<rparr>
                 in if consecutive_transfer_failures r \<ge> RX_TRANSFER_COUNT
                    then (set_error ''RX stream unhealthy after repeated USB transfer failures'' r)
                           \<lparr>running := False\<rparr>
                    else r
               else r)
      in if \<not> stopping r \<and> running r then snd (submit_slot L i True r) else r)"

definition submit_status :: "usb_lib \<Rightarrow> usb_rx \<Rightarrow> int \<times> usb_rx" where
  "submit_status L r =
     (case on_usb libusb_submit_transfer r of (result, r) \<Rightarrow>
        if result \<noteq> LIBUSB_SUCCESS
        then (result,
              (set_libusb_error L ''submit endpoint-0x83 status transfer'' result
                (map_counters (\<lambda>c. c\<lparr>c_status_errors := c_status_errors c + 1\<rparr>) r))
                \<lparr>running := False\<rparr>)
        else (LIBUSB_SUCCESS, r\<lparr>status_submitted := True, active_transfers := active_transfers r + 1\<rparr>))"

definition status_complete :: "usb_lib \<Rightarrow> transfer_status \<Rightarrow> u8 list \<Rightarrow> usb_rx \<Rightarrow> usb_rx" where
  "status_complete L status data r =
     (let r = r\<lparr>status_submitted := False, active_transfers := active_transfers r - 1\<rparr>;
          r = (if status = TransferCompleted
               then
                 let r = map_counters (\<lambda>c. c\<lparr>c_status_packets := c_status_packets c + 1\<rparr>) r
                 in case decode_physical_inputs data of
                      Some inputs \<Rightarrow>
                        let r = (if \<not> physical_inputs_known r \<or>
                                    \<not> physical_inputs_equal (inputs_now r) inputs
                                 then map_counters (\<lambda>c. c\<lparr>c_status_changes := c_status_changes c + 1\<rparr>) r
                                 else r)
                        in r\<lparr>inputs_now := inputs, physical_inputs_known := True\<rparr>
                    | None \<Rightarrow> map_counters (\<lambda>c. c\<lparr>c_status_errors := c_status_errors c + 1\<rparr>) r
               else if status \<noteq> TransferCancelled
               then
                 let r = map_counters (\<lambda>c. c\<lparr>c_status_errors := c_status_errors c + 1\<rparr>) r
                 in if status = TransferNoDevice
                    then (set_error ''endpoint-0x83 status listener lost device'' r)\<lparr>running := False\<rparr>
                    else r
               else r)
      in if \<not> stopping r \<and> running r then snd (submit_status L r) else r)"

subsection \<open>The transmit stream\<close>

definition with_tune_slot :: "nat \<Rightarrow> (tune_slot \<Rightarrow> tune_slot) \<Rightarrow> usb_rx \<Rightarrow> usb_rx" where
  "with_tune_slot i f r = r\<lparr>tune_slots := (tune_slots r)[i := f (tune_slots r ! i)]\<rparr>"

text \<open>
  \<open>before - after\<close> is a difference of sizes; rendering only takes from the queue
  (\<open>render_queue\<close> below), so it does not wrap.
\<close>

definition tune_refill :: "usb_lib \<Rightarrow> nat \<Rightarrow> usb_rx \<Rightarrow> usb_rx" where
  "tune_refill L i r =
     (case tune_buffer (tune_slots r ! i) of
        None \<Rightarrow> r
      | Some buffer \<Rightarrow>
          (case tx_audio_stream_render_iq16le (libm.truncate L) (length buffer div 4) (microphone_stream r) of
             (bytes, stream) \<Rightarrow>
               let before = tx_audio_stream_queued (microphone_stream r);
                   after = tx_audio_stream_queued stream
               in with_tune_slot i (\<lambda>s. s\<lparr>tune_buffer := Some bytes, audio_frames := before - after\<rparr>)
                    (r\<lparr>microphone_stream := stream\<rparr>)))"

definition tune_complete :: "usb_lib \<Rightarrow> nat \<Rightarrow> transfer_status \<Rightarrow> usb_rx \<Rightarrow> usb_rx" where
  "tune_complete L i status r =
     (let r = (with_tune_slot i (\<lambda>s. s\<lparr>tune_submitted := False, audio_frames := 0\<rparr>) r)
                \<lparr>active_tune_transfers := active_tune_transfers r - 1\<rparr>;
          r = (if status \<noteq> TransferCompleted \<and> status \<noteq> TransferCancelled
               then (set_error ''Tune endpoint-0x01 stream failed'' r)
                      \<lparr>tune_streaming := False, running := False\<rparr>
               else r)
      in if tune_streaming r \<and> running r
         then
           let r = (if microphone_streaming r then tune_refill L i r else r)
           in case on_usb libusb_submit_transfer r of (result, r) \<Rightarrow>
                if result = LIBUSB_SUCCESS
                then (with_tune_slot i (\<lambda>s. s\<lparr>tune_submitted := True\<rparr>) r)
                       \<lparr>active_tune_transfers := active_tune_transfers r + 1\<rparr>
                else (set_libusb_error L ''resubmit Tune endpoint-0x01'' result r)
                       \<lparr>tune_streaming := False, running := False\<rparr>
         else r)"

definition complete_one :: "usb_lib \<Rightarrow> completion \<Rightarrow> usb_rx \<Rightarrow> usb_rx" where
  "complete_one L c r =
     (case c of
        RxCompletion i status packets \<Rightarrow>
          if i < length (rx_slots r) \<and> rx_submitted (rx_slots r ! i)
          then rx_complete L i status packets r else r
      | StatusCompletion status data \<Rightarrow>
          if status_submitted r then status_complete L status data r else r
      | TuneCompletion i status \<Rightarrow>
          if i < length (tune_slots r) \<and> tune_submitted (tune_slots r ! i)
          then tune_complete L i status r else r)"

definition deliver :: "usb_lib \<Rightarrow> completion list \<Rightarrow> usb_rx \<Rightarrow> usb_rx" where
  "deliver L = fold (complete_one L)"

definition handle_events :: "usb_lib \<Rightarrow> usb_rx \<Rightarrow> int \<times> usb_rx" where
  "handle_events L r =
     (case libusb_wait (usb r) of (result, done, w) \<Rightarrow> (result, deliver L done (r\<lparr>usb := w\<rparr>)))"

abbreviation event_failure :: "int \<Rightarrow> bool" where
  "event_failure result \<equiv> result \<noteq> LIBUSB_SUCCESS \<and> result \<noteq> LIBUSB_ERROR_INTERRUPTED"

text \<open>
  The tone: \<open>2.0 * pi * 600 * frame / 48000\<close> in double arithmetic, left to right;
  \<open>(uint8_t)sample_i\<close> and its high byte are \<open>sample_bytes\<close>.
\<close>

definition C_PI :: rat where "C_PI = f64 (314159265358979323846 / 10 ^ 20)"

definition tone_frame :: "usb_lib \<Rightarrow> nat \<Rightarrow> u8 list" where
  "tone_frame L frame =
     (let phase = f64 (f64 (f64 (f64 (2 * C_PI) * 600) * of_nat frame) / 48000)
      in sample_bytes (lrint (f64 (24890 * lib_cos L phase))) @
         sample_bytes (lrint (f64 (- 24890 * lib_sin L phase))))"

definition fill_tune_tone :: "usb_lib \<Rightarrow> nat \<Rightarrow> u8 list" where
  "fill_tune_tone L bytes = concat (map (tone_frame L) [0..<bytes div 4])"

lemma length_fill_tune_tone: "4 dvd bytes \<Longrightarrow> length (fill_tune_tone L bytes) = bytes"
  by (auto simp: fill_tune_tone_def length_concat comp_def tone_frame_def Let_def sum_list_triv)

subsection \<open>What the callbacks leave alone\<close>

text \<open>
  A callback touches neither the control fields nor the wire, opens or closes nothing, and takes
  no event. \<open>same_ctl\<close> is all of that.
\<close>

definition same_ctl :: "usb_rx \<Rightarrow> usb_rx \<Rightarrow> bool" where
  "same_ctl r r' \<longleftrightarrow>
     usb_ctl.truncate r' = usb_ctl.truncate r \<and> wire (usb r') = wire (usb r) \<and>
     w_events (usb r') = w_events (usb r) \<and> has_context r' = has_context r \<and>
     length (tune_slots r') = length (tune_slots r)"

lemma same_ctl_refl [intro!, simp]: "same_ctl r r"
  by (simp add: same_ctl_def)

lemma same_ctl_trans [trans]: "same_ctl r r1 \<Longrightarrow> same_ctl r1 r2 \<Longrightarrow> same_ctl r r2"
  by (simp add: same_ctl_def)

lemma truncate_updates [simp]:
  "usb_ctl.truncate (r\<lparr>usb := w\<rparr>) = usb_ctl.truncate r"
  "usb_ctl.truncate (r\<lparr>running := b\<rparr>) = usb_ctl.truncate r"
  "usb_ctl.truncate (r\<lparr>tune_streaming := b\<rparr>) = usb_ctl.truncate r"
  "usb_ctl.truncate (r\<lparr>rx_slots := rs\<rparr>) = usb_ctl.truncate r"
  "usb_ctl.truncate (r\<lparr>active_transfers := n\<rparr>) = usb_ctl.truncate r"
  "usb_ctl.truncate (r\<lparr>active_tune_transfers := n\<rparr>) = usb_ctl.truncate r"
  "usb_ctl.truncate (r\<lparr>tune_slots := ts\<rparr>) = usb_ctl.truncate r"
  "usb_ctl.truncate (r\<lparr>microphone_stream := s\<rparr>) = usb_ctl.truncate r"
  "usb_ctl.truncate (r\<lparr>sentinel_seen := b\<rparr>) = usb_ctl.truncate r"
  "usb_ctl.truncate (r\<lparr>rx_stats := st\<rparr>) = usb_ctl.truncate r"
  "usb_ctl.truncate (r\<lparr>rx_dc := d\<rparr>) = usb_ctl.truncate r"
  "usb_ctl.truncate (r\<lparr>destination := q\<rparr>) = usb_ctl.truncate r"
  "usb_ctl.truncate (r\<lparr>status_submitted := b\<rparr>) = usb_ctl.truncate r"
  "usb_ctl.truncate (r\<lparr>inputs_now := i, physical_inputs_known := b\<rparr>) = usb_ctl.truncate r"
  "usb_ctl.truncate (r\<lparr>consecutive_transfer_failures := n\<rparr>) = usb_ctl.truncate r"
  "usb_ctl.truncate (r\<lparr>microphone_streaming := b\<rparr>) = usb_ctl.truncate r"
  "usb_ctl.truncate (r\<lparr>microphone_capture_enabled := b\<rparr>) = usb_ctl.truncate r"
  "usb_ctl.truncate (r\<lparr>tx_accepting_audio := b\<rparr>) = usb_ctl.truncate r"
  by (simp_all add: usb_ctl.truncate_def)

lemma same_ctl_errors [simp]:
  "same_ctl r (map_counters f r1) = same_ctl r r1"
  "same_ctl r (set_error m r1) = same_ctl r r1"
  "same_ctl r (set_libusb_error L m e r1) = same_ctl r r1"
  by (simp_all add: same_ctl_def) (simp_all add: map_counters_def set_error_def set_libusb_error_def)

lemma same_ctl_clock [simp]:
  "same_ctl r (snd (on_usb monotonic_ms r1)) = same_ctl r r1"
  "same_ctl r (snd (on_usb libusb_submit_transfer r1)) = same_ctl r r1"
  "same_ctl r (snd (elapsed_ms r1)) = same_ctl r r1"
  "same_ctl r (mark_error_event r1) = same_ctl r r1"
  by (simp_all add: same_ctl_def on_usb_def elapsed_ms_def mark_error_event_def monotonic_ms_def
      libusb_submit_transfer_def map_counters_def usb_ctl.truncate_def split: prod.splits)

lemma same_ctl_slots [simp]:
  "same_ctl r (r1\<lparr>rx_slots := rs\<rparr>) = same_ctl r r1"
  "same_ctl r (r1\<lparr>running := b\<rparr>) = same_ctl r r1"
  "same_ctl r (r1\<lparr>tune_streaming := b\<rparr>) = same_ctl r r1"
  "same_ctl r (r1\<lparr>active_transfers := n\<rparr>) = same_ctl r r1"
  "same_ctl r (r1\<lparr>active_tune_transfers := n\<rparr>) = same_ctl r r1"
  "same_ctl r (r1\<lparr>microphone_stream := st\<rparr>) = same_ctl r r1"
  "same_ctl r (r1\<lparr>sentinel_seen := b\<rparr>) = same_ctl r r1"
  "same_ctl r (r1\<lparr>rx_stats := x, rx_dc := d, destination := q\<rparr>) = same_ctl r r1"
  "same_ctl r (r1\<lparr>status_submitted := b\<rparr>) = same_ctl r r1"
  "same_ctl r (r1\<lparr>status_submitted := b, active_transfers := n\<rparr>) = same_ctl r r1"
  "same_ctl r (r1\<lparr>rx_slots := rs, active_transfers := n\<rparr>) = same_ctl r r1"
  "same_ctl r (r1\<lparr>inputs_now := i, physical_inputs_known := b\<rparr>) = same_ctl r r1"
  "same_ctl r (r1\<lparr>consecutive_transfer_failures := n\<rparr>) = same_ctl r r1"
  "same_ctl r (r1\<lparr>microphone_streaming := b\<rparr>) = same_ctl r r1"
  "same_ctl r (r1\<lparr>microphone_capture_enabled := b\<rparr>) = same_ctl r r1"
  "same_ctl r (r1\<lparr>tx_accepting_audio := b\<rparr>) = same_ctl r r1"
  "same_ctl r (with_tune_slot k g r1) = same_ctl r r1"
  by (simp_all add: same_ctl_def with_tune_slot_def usb_ctl.truncate_def)

lemma same_ctl_sentinels [simp]:
  "same_ctl r (mark_sentinel f r1) = same_ctl r r1"
  "same_ctl r (mark_sentinels f frames r1) = same_ctl r r1"
proof -
  show m: "same_ctl r (mark_sentinel f r1) = same_ctl r r1" for f r1
    by (simp add: mark_sentinel_def Let_def case_prod_beta)
  show "same_ctl r (mark_sentinels f frames r1) = same_ctl r r1"
    by (induction f frames r1 rule: mark_sentinels.induct) (simp_all add: m)
qed

lemma same_ctl_packets [simp]:
  "same_ctl r (classify_transfer_status st packet r1) = same_ctl r r1"
  "same_ctl r (process_packet L data r1) = same_ctl r r1"
  "same_ctl r (snd (submit_slot L k b r1)) = same_ctl r r1"
  "same_ctl r (snd (submit_status L r1)) = same_ctl r r1"
  "same_ctl r (count_packet_length n r1) = same_ctl r r1"
  "same_ctl r (tune_refill L k r1) = same_ctl r r1"
  by (simp_all add: classify_transfer_status_def process_packet_def submit_slot_def submit_status_def
      count_packet_length_def tune_refill_def Let_def case_prod_beta split: option.split)

lemma same_ctl_rx_packet [simp]: "same_ctl r (rx_packet L p r1) = same_ctl r r1"
  by (simp add: rx_packet_def Let_def case_prod_beta)

lemma same_ctl_rx_packets [simp]: "same_ctl r (fold (rx_packet L) ps r1) = same_ctl r r1"
  by (induction ps arbitrary: r1) simp_all

lemma same_ctl_complete [simp]: "same_ctl r (complete_one L c r1) = same_ctl r r1"
  by (simp add: complete_one_def rx_complete_def status_complete_def tune_complete_def Let_def
      case_prod_beta split: completion.split option.split)

lemma same_ctl_deliver [simp]: "same_ctl r (deliver L cs r1) = same_ctl r r1"
  unfolding deliver_def by (induction cs arbitrary: r1) simp_all

lemma handle_events_same:
  "usb_ctl.truncate (snd (handle_events L r)) = usb_ctl.truncate r"
  "wire (usb (snd (handle_events L r))) = wire (usb r)"
  "has_context (snd (handle_events L r)) = has_context r"
  "length (tune_slots (snd (handle_events L r))) = length (tune_slots r)"
  "w_events (usb (snd (handle_events L r))) = tl (w_events (usb r))"
proof -
  obtain x cs w where w: "libusb_wait (usb r) = (x, cs, w)" by (metis prod_cases3)
  have "wire w = wire (usb r)" "w_events w = tl (w_events (usb r))"
    using w by (auto simp: libusb_wait_def answer_def split: list.splits prod.splits)
  moreover have "same_ctl (r\<lparr>usb := w\<rparr>) (deliver L cs (r\<lparr>usb := w\<rparr>))" by simp
  ultimately show "usb_ctl.truncate (snd (handle_events L r)) = usb_ctl.truncate r"
    "wire (usb (snd (handle_events L r))) = wire (usb r)"
    "has_context (snd (handle_events L r)) = has_context r"
    "length (tune_slots (snd (handle_events L r))) = length (tune_slots r)"
    "w_events (usb (snd (handle_events L r))) = tl (w_events (usb r))"
    by (simp_all add: handle_events_def w same_ctl_def)
qed

text \<open>With no answer left the event loop fails, so every loop over it ends.\<close>

lemma handle_events_exhausted: "w_events (usb r) = [] \<Longrightarrow> event_failure (fst (handle_events L r))"
  by (simp add: handle_events_def libusb_wait_def answer_def)

lemma handle_events_less:
  assumes "handle_events L r = (result, r')" and "\<not> event_failure result"
  shows "length (w_events (usb r')) < length (w_events (usb r))"
  using assms handle_events_exhausted [of r L] handle_events_same(5) [of L r]
  by (cases "w_events (usb r)") auto

text \<open>
  The transmit side of the receiver. What arrives from the device leaves it alone; only the
  completion of a transmit transfer changes it, and never starts the stream.
\<close>

definition tx_side where
  "tx_side r = (tune_streaming r, tune_slots r, active_tune_transfers r, microphone_streaming r,
     microphone_capture_enabled r, tx_accepting_audio r)"

lemma tx_side_clock [simp]:
  "tx_side (map_counters f r) = tx_side r"
  "tx_side (set_error m r) = tx_side r"
  "tx_side (set_libusb_error L m e r) = tx_side r"
  "tx_side (snd (on_usb g r)) = tx_side r"
  "tx_side (snd (elapsed_ms r)) = tx_side r"
  "tx_side (mark_error_event r) = tx_side r"
  "tx_side (r\<lparr>running := b\<rparr>) = tx_side r"
  "tx_side (r\<lparr>sentinel_seen := b\<rparr>) = tx_side r"
  "tx_side (r\<lparr>microphone_stream := stream\<rparr>) = tx_side r"
  "tx_side (r\<lparr>consecutive_transfer_failures := n\<rparr>) = tx_side r"
  "tx_side (r\<lparr>usb := w\<rparr>) = tx_side r"
  "tx_side (r\<lparr>rx_slots := rs, active_transfers := n\<rparr>) = tx_side r"
  "tx_side (r\<lparr>status_submitted := b, active_transfers := n\<rparr>) = tx_side r"
  "tx_side (r\<lparr>inputs_now := i, physical_inputs_known := b\<rparr>) = tx_side r"
  "tx_side (r\<lparr>rx_stats := st, rx_dc := d, destination := q\<rparr>) = tx_side r"
  by (simp_all add: tx_side_def on_usb_def elapsed_ms_def mark_error_event_def map_counters_def
      set_error_def set_libusb_error_def case_prod_beta)

lemma tx_side_sentinels [simp]:
  "tx_side (mark_sentinels f frames r) = tx_side r"
proof (induction f frames r rule: mark_sentinels.induct)
  case (2 frame si sq frames r)
  have "tx_side (mark_sentinel frame r) = tx_side r"
    by (simp add: mark_sentinel_def Let_def case_prod_beta)
  with 2 show ?case by simp
qed simp

lemma tx_side_rx [simp]:
  "tx_side (rx_packet L p r) = tx_side r"
  "tx_side (snd (submit_slot L k b r)) = tx_side r"
  "tx_side (snd (submit_status L r)) = tx_side r"
  "tx_side (classify_transfer_status st packet r) = tx_side r"
  by (simp_all add: rx_packet_def process_packet_def count_packet_length_def submit_slot_def
      submit_status_def classify_transfer_status_def Let_def case_prod_beta)

lemma tx_side_rx_packets [simp]: "tx_side (fold (rx_packet L) ps r) = tx_side r"
  by (induction ps arbitrary: r) simp_all

lemma tx_side_complete:
  "tx_side (complete_one L (RxCompletion i status packets) r) = tx_side r"
  "tx_side (complete_one L (StatusCompletion status' data) r) = tx_side r"
  by (simp_all add: complete_one_def rx_complete_def status_complete_def Let_def split: option.split)

lemma tune_streaming_complete:
  "tune_streaming (complete_one L c r) \<Longrightarrow> tune_streaming r"
proof (cases c)
  case (TuneCompletion i status)
  then show "tune_streaming (complete_one L c r) \<Longrightarrow> tune_streaming r"
    by (auto simp: complete_one_def tune_complete_def Let_def case_prod_beta with_tune_slot_def
        set_error_def split: if_splits)
qed (use tx_side_complete in \<open>simp_all add: tx_side_def\<close>)

lemma tune_streaming_deliver: "tune_streaming (deliver L cs r) \<Longrightarrow> tune_streaming r"
  unfolding deliver_def by (induction cs arbitrary: r) (auto dest: tune_streaming_complete)

lemma tune_streaming_events: "tune_streaming (snd (handle_events L r)) \<Longrightarrow> tune_streaming r"
  by (auto simp: handle_events_def dest: tune_streaming_deliver split: prod.splits)

subsection \<open>Event loops\<close>

text \<open>
  \<open>while (cond) { handle events; if (it failed) break; }\<close>, the loop that waits for cancelled
  transfers, twice in the source.
\<close>

function drain_events :: "usb_lib \<Rightarrow> (usb_rx \<Rightarrow> bool) \<Rightarrow> usb_rx \<Rightarrow> usb_rx" where
  "drain_events L waiting r =
     (if \<not> waiting r then r
      else case handle_events L r of (result, r') \<Rightarrow>
        if event_failure result then r' else drain_events L waiting r')"
  by pat_completeness auto
termination
  by (relation "measure (\<lambda>(_, _, r). length (w_events (usb r)))")
    (auto dest: handle_events_less [OF sym])

declare drain_events.simps [simp del]

lemma clock_same:
  "usb_ctl.truncate (snd (on_usb monotonic_ms r)) = usb_ctl.truncate r"
  "wire (usb (snd (on_usb monotonic_ms r))) = wire (usb r)"
  "has_context (snd (on_usb monotonic_ms r)) = has_context r"
  "w_events (usb (snd (on_usb monotonic_ms r))) = w_events (usb r)"
  "tune_slots (snd (on_usb monotonic_ms r)) = tune_slots r"
  "microphone_streaming (snd (on_usb monotonic_ms r)) = microphone_streaming r"
  "microphone_stream (snd (on_usb monotonic_ms r)) = microphone_stream r"
  by (simp_all add: on_usb_def monotonic_ms_def case_prod_beta)

lemma clock_events: "(now, r1) = on_usb monotonic_ms r \<Longrightarrow> w_events (usb r1) = w_events (usb r)"
  using clock_same(4) [of r] by (metis snd_conv)

function service_loop :: "usb_lib \<Rightarrow> u64 \<Rightarrow> usb_rx \<Rightarrow> int \<times> usb_rx" where
  "service_loop L deadline r =
     (case on_usb monotonic_ms r of (now, r1) \<Rightarrow>
        if \<not> now < deadline then (LIBUSB_SUCCESS, r1)
        else case handle_events L r1 of (result, r2) \<Rightarrow>
          if event_failure result then (result, set_libusb_error L ''service Tune USB events'' result r2)
          else if \<not> tune_streaming r2 \<or> \<not> running r2 then (LIBUSB_ERROR_IO, r2)
          else service_loop L deadline r2)"
  by pat_completeness auto
termination
  by (relation "measure (\<lambda>(_, _, r). length (w_events (usb r)))")
    (auto dest!: handle_events_less [OF sym] clock_events)

declare service_loop.simps [simp del]

definition service_usb_for :: "usb_lib \<Rightarrow> u64 \<Rightarrow> usb_rx \<Rightarrow> int \<times> usb_rx" where
  "service_usb_for L duration_ms r =
     (case on_usb monotonic_ms r of (now, r) \<Rightarrow> service_loop L (now + duration_ms) r)"

subsection \<open>Transmit stream operations\<close>

definition free_tune_slot :: tune_slot where
  "free_tune_slot =
     \<lparr>tune_transfer = False, tune_buffer = None, tune_submitted = False, audio_frames = 0\<rparr>"

definition release_tune_stream :: "usb_lib \<Rightarrow> usb_rx \<Rightarrow> usb_rx" where
  "release_tune_stream L r =
     (let r = drain_events L (\<lambda>r. has_context r \<and> active_tune_transfers r > 0)
                (r\<lparr>tune_streaming := False\<rparr>)
      in r\<lparr>tune_slots := replicate TUNE_TRANSFER_COUNT free_tune_slot, active_tune_transfers := 0,
           microphone_streaming := False, microphone_capture_enabled := False,
           tx_accepting_audio := False\<rparr>)"

abbreviation AUDIO_PACKETS_PER_TRANSFER :: nat where "AUDIO_PACKETS_PER_TRANSFER \<equiv> 10"
abbreviation TUNE_PACKETS_PER_TRANSFER :: nat where "TUNE_PACKETS_PER_TRANSFER \<equiv> 50"

text \<open>The loop over the slots, from slot \<open>i\<close> with \<open>n\<close> slots left.\<close>

fun start_tune_slots :: "usb_lib \<Rightarrow> bool \<Rightarrow> nat \<Rightarrow> nat \<Rightarrow> usb_rx \<Rightarrow> int \<times> usb_rx" where
  "start_tune_slots L audio i 0 r = (LIBUSB_SUCCESS, r)"
| "start_tune_slots L audio i (Suc n) r =
     (let bytes = (if audio then AUDIO_PACKETS_PER_TRANSFER else TUNE_PACKETS_PER_TRANSFER)
                  * SAMPLE_PACKET_SIZE;
          contents = (if audio then replicate bytes 0 else fill_tune_tone L bytes)
      in case on_usb try_alloc r of (buffer, r) \<Rightarrow>
         case on_usb try_alloc r of (transfer, r) \<Rightarrow>
           let r = with_tune_slot i (\<lambda>s. s\<lparr>tune_transfer := transfer,
                      tune_buffer := (if buffer then Some contents else None)\<rparr>) r
           in if \<not> buffer \<or> \<not> transfer
              then (LIBUSB_ERROR_NO_MEM, release_tune_stream L
                      (set_error ''allocate Tune endpoint-0x01 transfer failed'' r))
              else case on_usb libusb_submit_transfer r of (result, r) \<Rightarrow>
                if result \<noteq> LIBUSB_SUCCESS
                then (result, release_tune_stream L
                        (set_libusb_error L ''submit Tune endpoint-0x01'' result r))
                else start_tune_slots L audio (i + 1) n
                       ((with_tune_slot i (\<lambda>s. s\<lparr>tune_submitted := True\<rparr>) r)
                          \<lparr>active_tune_transfers := active_tune_transfers r + 1\<rparr>))"

definition start_tune_stream :: "usb_lib \<Rightarrow> bool \<Rightarrow> usb_rx \<Rightarrow> int \<times> usb_rx" where
  "start_tune_stream L audio r =
     start_tune_slots L audio 0 TUNE_TRANSFER_COUNT
       (r\<lparr>tune_streaming := True, microphone_streaming := audio, tx_accepting_audio := audio\<rparr>)"

definition production_send_command :: "usb_lib \<Rightarrow> u8 list \<Rightarrow> usb_rx \<Rightarrow> int \<times> nat \<times> usb_rx" where
  "production_send_command L packet r =
     (case libusb_interrupt_transfer packet (usb r) of (result, actual, completed, w) \<Rightarrow>
        (result, actual, deliver L completed (r\<lparr>usb := w\<rparr>)))"

definition PRODUCTION_USB_IO_OPS :: "usb_lib \<Rightarrow> usb_rx usb_io_ops" where
  "PRODUCTION_USB_IO_OPS L =
     \<lparr>op_send_command = production_send_command L, op_start_tx_stream = start_tune_stream L,
      op_service_tx_stream = service_usb_for L, op_stop_tx_stream = release_tune_stream L\<rparr>"

lemma drain_events_same:
  "usb_ctl.truncate (drain_events L w r) = usb_ctl.truncate r \<and>
   wire (usb (drain_events L w r)) = wire (usb r) \<and>
   has_context (drain_events L w r) = has_context r"
proof (induction L w r rule: drain_events.induct)
  case (1 L w r)
  obtain e r' where h: "handle_events L r = (e, r')" by fastforce
  then show ?case
    using 1 handle_events_same [of L r]
    by (subst (1 2 3) drain_events.simps) (auto simp: h)
qed

lemma drain_events_streaming: "tune_streaming (drain_events L w r) \<Longrightarrow> tune_streaming r"
proof (induction L w r rule: drain_events.induct)
  case (1 L w r)
  obtain e r' where h: "handle_events L r = (e, r')" by fastforce
  have "tune_streaming r \<or> tune_streaming r' \<or> (w r \<and> \<not> event_failure e \<and> tune_streaming (drain_events L w r'))"
    using 1(2) by (subst (asm) drain_events.simps) (auto simp: h split: if_splits)
  then show ?case
    using 1(1) [OF _ h [symmetric]] tune_streaming_events [of L r] by (auto simp: h)
qed

lemma service_loop_same:
  "usb_ctl.truncate (snd (service_loop L d r)) = usb_ctl.truncate r \<and>
   wire (usb (snd (service_loop L d r))) = wire (usb r)"
proof (induction L d r rule: service_loop.induct)
  case (1 L d r)
  obtain now r1 where c: "on_usb monotonic_ms r = (now, r1)" by fastforce
  obtain e r2 where h: "handle_events L r1 = (e, r2)" by fastforce
  show ?case
    using 1 [OF c [symmetric] _ h [symmetric]] handle_events_same [of L r1] clock_same [of r]
    by (subst (1 2) service_loop.simps) (auto simp: h c 1)
qed

lemma release_tune_stream_same:
  "usb_ctl.truncate (release_tune_stream L r) = usb_ctl.truncate r"
  "wire (usb (release_tune_stream L r)) = wire (usb r)"
  "\<not> tx_stream_present (release_tune_stream L r)"
  using drain_events_same [of L "\<lambda>r. has_context r \<and> active_tune_transfers r > 0"
      "r\<lparr>tune_streaming := False\<rparr>"]
    drain_events_streaming [of L "\<lambda>r. has_context r \<and> active_tune_transfers r > 0"
      "r\<lparr>tune_streaming := False\<rparr>"]
  by (auto simp: release_tune_stream_def Let_def tx_stream_present_def slot_present_def
      free_tune_slot_def list_ex_iff)

lemma alloc_same:
  "same_ctl r (snd (on_usb try_alloc r1)) = same_ctl r r1"
  by (simp add: same_ctl_def on_usb_def try_alloc_def case_prod_beta)

lemma same_ctl_truncate:
  "same_ctl r r1 \<Longrightarrow> usb_ctl.truncate r1 = usb_ctl.truncate r \<and> wire (usb r1) = wire (usb r)"
  by (simp add: same_ctl_def)

lemma start_tune_slots_same:
  "same_ctl r0 r \<Longrightarrow> usb_ctl.truncate (snd (start_tune_slots L a i n r)) = usb_ctl.truncate r0 \<and>
   wire (usb (snd (start_tune_slots L a i n r))) = wire (usb r0)"
proof (induction n arbitrary: i r)
  case 0
  then show ?case by (simp add: same_ctl_truncate)
next
  case (Suc n)
  have "usb_ctl.truncate (release_tune_stream L r1) = usb_ctl.truncate r0 \<and>
      wire (usb (release_tune_stream L r1)) = wire (usb r0)" if "same_ctl r0 r1" for r1
    using same_ctl_truncate [OF that] by (simp add: release_tune_stream_same)
  then show ?case
    using Suc by (simp add: Let_def case_prod_beta alloc_same)
qed

lemma start_tune_stream_same:
  "usb_ctl.truncate (snd (start_tune_stream L a r)) = usb_ctl.truncate r \<and>
   wire (usb (snd (start_tune_stream L a r))) = wire (usb r)"
  unfolding start_tune_stream_def
  by (rule start_tune_slots_same) (simp add: same_ctl_def usb_ctl.truncate_def)

lemma production_send_same:
  "usb_ctl.truncate (snd (snd (production_send_command L packet r))) = usb_ctl.truncate r"
  "wire (usb (snd (snd (production_send_command L packet r)))) =
     (packet, fst (production_send_command L packet r) = 0 \<and>
        fst (snd (production_send_command L packet r)) = length packet) # wire (usb r)"
proof -
  obtain e n cs w where t: "libusb_interrupt_transfer packet (usb r) = (e, n, cs, w)"
    by (metis prod_cases4)
  have w: "wire w = (packet, e = 0 \<and> n = length packet) # wire (usb r)"
    using t by (auto simp: libusb_interrupt_transfer_def split: prod.splits)
  have "same_ctl (r\<lparr>usb := w\<rparr>) (deliver L cs (r\<lparr>usb := w\<rparr>))" by simp
  then show "usb_ctl.truncate (snd (snd (production_send_command L packet r))) = usb_ctl.truncate r"
    "wire (usb (snd (snd (production_send_command L packet r)))) =
     (packet, fst (production_send_command L packet r) = 0 \<and>
        fst (snd (production_send_command L packet r)) = length packet) # wire (usb r)"
    by (simp_all add: production_send_command_def t w same_ctl_def)
qed

lemma service_usb_for_same:
  "usb_ctl.truncate (snd (service_usb_for L d r)) = usb_ctl.truncate r"
  "wire (usb (snd (service_usb_for L d r))) = wire (usb r)"
  by (simp_all add: service_usb_for_def case_prod_beta service_loop_same clock_same)

interpretation production: usb_device "PRODUCTION_USB_IO_OPS L" for L
  by unfold_locales
    (simp_all add: PRODUCTION_USB_IO_OPS_def start_tune_stream_same release_tune_stream_same
      service_usb_for_same production_send_same)

subsection \<open>Graceful stop\<close>

text \<open>
  \<open>while (pending != 0 && monotonic_ms() - started < maximum)\<close>: the clock is read only when
  something is pending.
\<close>

function graceful_loop :: "usb_lib \<Rightarrow> u64 \<Rightarrow> u64 \<Rightarrow> usb_rx \<Rightarrow> usb_rx" where
  "graceful_loop L started maximum r =
     (if usb_rx_tx_pending_frames r = 0 then r
      else case on_usb monotonic_ms r of (now, r1) \<Rightarrow>
        if \<not> now - started < maximum then r1
        else case handle_events L r1 of (result, r2) \<Rightarrow>
          if event_failure result then set_libusb_error L ''graceful TX drain'' result r2
          else if \<not> tune_streaming r2 \<or> \<not> running r2 then r2
          else graceful_loop L started maximum r2)"
  by pat_completeness auto
termination
  by (relation "measure (\<lambda>(_, _, _, r). length (w_events (usb r)))")
    (auto dest!: handle_events_less [OF sym] clock_events)

declare graceful_loop.simps [simp del]

definition with_stats :: "(tx_audio_stats \<Rightarrow> tx_audio_stats) \<Rightarrow> usb_rx \<Rightarrow> usb_rx" where
  "with_stats f r = r\<lparr>microphone_stream := map_stats f (microphone_stream r)\<rparr>"

text \<open>\<open>size_t\<close> and \<open>uint64_t\<close> are the same width, so the differences are on words.\<close>

definition graceful_drain :: "usb_lib \<Rightarrow> u64 \<Rightarrow> usb_rx \<Rightarrow> usb_rx" where
  "graceful_drain L maximum r =
     (let r = r\<lparr>tx_accepting_audio := False,
                microphone_stream := tx_audio_stream_begin_graceful_stop (microphone_stream r)\<rparr>;
          requested = (of_nat (usb_rx_tx_pending_frames r) :: u64);
          r = with_stats (\<lambda>t. t\<lparr>stop_requested_frames := stop_requested_frames t + requested\<rparr>) r
      in case on_usb monotonic_ms r of (started, r) \<Rightarrow>
           let r = graceful_loop L started maximum r;
               discarded = (of_nat (usb_rx_tx_pending_frames r) :: u64);
               r = with_stats (\<lambda>t. t\<lparr>
                     graceful_drained_frames := graceful_drained_frames t + (requested - discarded),
                     graceful_discarded_frames := graceful_discarded_frames t + discarded\<rparr>) r
           in case on_usb monotonic_ms r of (now, r) \<Rightarrow>
                with_stats (\<lambda>t. t\<lparr>graceful_drain_ms := graceful_drain_ms t + (now - started)\<rparr>) r)"

definition usb_rx_microphone_tx_stop_graceful ::
  "usb_rx usb_io_ops \<Rightarrow> usb_lib \<Rightarrow> u64 \<Rightarrow> usb_rx \<Rightarrow> int \<times> usb_rx" where
  "usb_rx_microphone_tx_stop_graceful ops L maximum r =
     (if \<not> has_handle r then (LIBUSB_ERROR_INVALID_PARAM, r)
      else usb_rx_tune_carrier_stop ops L (graceful_drain L maximum r))"

subsection \<open>The life of a receiver\<close>

definition free_rx_slot :: rx_slot where
  "free_rx_slot = \<lparr>rx_transfer = False, rx_buffer = False, rx_submitted = False\<rparr>"

definition no_counters :: usb_rx_counters where
  "no_counters =
     \<lparr>c_usb_packets = 0, c_usb_packet_errors = 0, c_bytes = 0, c_transfer_resubmits = 0,
      c_transfer_submit_errors = 0, c_rx_tune_operations = 0, c_command_errors = 0,
      c_transfer_status_errors = 0, c_transfer_timeouts = 0, c_transfer_stalls = 0,
      c_transfer_no_device = 0, c_transfer_overflows = 0, c_transfer_other_errors = 0,
      c_packet_status_errors = 0, c_packet_timeouts = 0, c_packet_stalls = 0,
      c_packet_no_device = 0, c_packet_overflows = 0, c_packet_other_errors = 0,
      c_short_packets = 0, c_zero_length_packets = 0, c_oversized_packets = 0,
      c_missing_bytes = 0, c_trailing_bytes = 0, c_error_events = 0, c_status_packets = 0,
      c_status_changes = 0, c_status_errors = 0, c_first_error_ms = 0, c_last_error_ms = 0,
      c_first_sentinel_frame = 0, c_last_sentinel_frame = 0, c_first_sentinel_ms = 0,
      c_last_sentinel_ms = 0\<rparr>"

definition no_inputs :: physical_inputs where
  "no_inputs = \<lparr>raw_status = 0, mic_ptt = False, flexwire_ptt = False, dash = False, dot = False\<rparr>"

text \<open>\<open>0.001f\<close> as a \<open>float\<close>.\<close>

definition RX_DC_ALPHA :: rat where "RX_DC_ALPHA = f32 (1 / 1000)"

text \<open>\<open>calloc\<close> and the initialisers, in an environment \<open>w\<close>; \<open>None\<close> when there is no ring.\<close>

definition usb_rx_create :: "iq_sample iq_ring \<Rightarrow> usb_world \<Rightarrow> usb_rx option" where
  "usb_rx_create ring w =
     (if samples ring = [] then None
      else Some
        \<lparr>has_handle = False, rx_tune_prepared = False, rx_tune_active = False, rx_tune_keyed = False,
         rx_key_attempted = False, rx_transition_attempted = False, rx_frequency_attempted = False,
         fault_stage = FaultNone, transmit_prepared = False, amp_enable_attempted = False,
         pa_filter_known = False, pa_filter = 0, frequency_known = False, filter_known = False,
         rx_frequency_hz = 0, rx_filter = 0, gain_known = False, rx_gain_db = 0,
         next_command_index = 0, has_context = False, destination = ring,
         rx_slots = replicate RX_TRANSFER_COUNT free_rx_slot,
         tune_slots = replicate TUNE_TRANSFER_COUNT free_tune_slot,
         status_transfer = False, status_submitted = False, physical_inputs_known = False,
         inputs_now = no_inputs, rx_stats = iq_stats_reset, rx_dc = dc_blocker_init RX_DC_ALPHA,
         counters = no_counters, active_transfers = 0, active_tune_transfers = 0,
         interface_claimed = False, running = False, stopping = False, tune_streaming = False,
         microphone_streaming = False, microphone_capture_enabled = False,
         tx_accepting_audio = False, microphone_stream = zero_stream, rx_started_ms = 0,
         sentinel_seen = False, consecutive_transfer_failures = 0, last_error = [], usb = w\<rparr>)"

definition free_slots :: "usb_rx \<Rightarrow> usb_rx" where
  "free_slots r = r\<lparr>rx_slots := replicate RX_TRANSFER_COUNT free_rx_slot,
     tune_slots := replicate TUNE_TRANSFER_COUNT free_tune_slot, status_transfer := False\<rparr>"

abbreviation INITIALIZE_INDEX :: u8 where "INITIALIZE_INDEX \<equiv> 3"

text \<open>The transmit part of a stop: unkey, then give up preparation.\<close>

definition stop_transmit :: "usb_rx usb_io_ops \<Rightarrow> usb_lib \<Rightarrow> usb_rx \<Rightarrow> usb_rx" where
  "stop_transmit ops L r =
     (let cleanup = tx_cleanup_plan (tx_partial_state r);
          r = (if rx_tune_prepared r \<or> tx_underway cleanup
               then snd (usb_rx_tune_carrier_stop ops L r) else r)
      in if transmit_prepared r \<or> amp_enable_attempted r \<or> pa_filter_known r
         then snd (usb_rx_disable_transmit_preparation ops L r) else r)"

definition usb_rx_stop :: "usb_rx usb_io_ops \<Rightarrow> usb_lib \<Rightarrow> usb_rx \<Rightarrow> usb_rx" where
  "usb_rx_stop ops L r =
     (let r = (stop_transmit ops L r)\<lparr>stopping := True, running := False\<rparr>;
          r = drain_events L (\<lambda>r. has_context r \<and> active_transfers r > 0) r;
          r = free_slots r
      in r\<lparr>interface_claimed := False, has_handle := False, has_context := False,
           active_transfers := 0, active_tune_transfers := 0, stopping := False,
           frequency_known := False, filter_known := False, sentinel_seen := False,
           physical_inputs_known := False, transmit_prepared := False,
           amp_enable_attempted := False, pa_filter_known := False, rx_key_attempted := False,
           rx_transition_attempted := False, rx_frequency_attempted := False,
           consecutive_transfer_failures := 0, next_command_index := INITIALIZE_INDEX + 1\<rparr>)"

text \<open>A failed start stops the receiver and returns the error.\<close>

definition fail_start :: "usb_rx usb_io_ops \<Rightarrow> usb_lib \<Rightarrow> int \<Rightarrow> usb_rx \<Rightarrow> int \<times> usb_rx" where
  "fail_start ops L result r = (result, usb_rx_stop ops L r)"

fun start_rx_slots :: "usb_rx usb_io_ops \<Rightarrow> usb_lib \<Rightarrow> nat \<Rightarrow> nat \<Rightarrow> usb_rx \<Rightarrow> int \<times> usb_rx" where
  "start_rx_slots ops L i 0 r = (LIBUSB_SUCCESS, r)"
| "start_rx_slots ops L i (Suc n) r =
     (case on_usb try_alloc r of (transfer, r) \<Rightarrow>
      case on_usb try_alloc r of (buffer, r) \<Rightarrow>
        let r = r\<lparr>rx_slots := (rx_slots r)[i := (rx_slots r ! i)\<lparr>rx_transfer := transfer, rx_buffer := buffer\<rparr>]\<rparr>
        in if \<not> transfer \<or> \<not> buffer
           then fail_start ops L LIBUSB_ERROR_NO_MEM (set_error ''allocate RX transfer failed'' r)
           else case submit_slot L i False r of (result, r) \<Rightarrow>
             if result \<noteq> LIBUSB_SUCCESS then fail_start ops L result r
             else start_rx_slots ops L (i + 1) n r)"

definition start_streams :: "usb_rx usb_io_ops \<Rightarrow> usb_lib \<Rightarrow> usb_rx \<Rightarrow> int \<times> usb_rx" where
  "start_streams ops L r =
     (case on_usb try_alloc (r\<lparr>running := True\<rparr>) of (ok, r) \<Rightarrow>
        let r = r\<lparr>status_transfer := ok\<rparr>
        in if \<not> ok
           then fail_start ops L LIBUSB_ERROR_NO_MEM
                  (set_error ''allocate endpoint-0x83 status transfer failed'' r)
           else case submit_status L r of (result, r) \<Rightarrow>
             if result \<noteq> LIBUSB_SUCCESS then fail_start ops L result r
             else start_rx_slots ops L 0 RX_TRANSFER_COUNT r)"

text \<open>
  The set-up calls, in order: \<open>libusb_init\<close>, the open (0 when it found the device),
  \<open>libusb_kernel_driver_active\<close> and \<open>libusb_claim_interface\<close>.
\<close>

definition start_device :: "usb_rx usb_io_ops \<Rightarrow> usb_lib \<Rightarrow> usb_rx \<Rightarrow> int \<times> usb_rx" where
  "start_device ops L r =
     (case on_usb libusb_setup_call r of (result, r) \<Rightarrow>
      if result \<noteq> LIBUSB_SUCCESS
      then fail_start ops L result (set_libusb_error L ''initialize libusb'' result r)
      else case on_usb libusb_setup_call (r\<lparr>has_context := True\<rparr>) of (opened, r) \<Rightarrow>
      if opened \<noteq> LIBUSB_SUCCESS
      then fail_start ops L LIBUSB_ERROR_NO_DEVICE (set_error ''open FLEX-1500 2192:1502 failed'' r)
      else case on_usb libusb_setup_call (r\<lparr>has_handle := True\<rparr>) of (result, r) \<Rightarrow>
      if result \<noteq> 0
      then fail_start ops L (if result = 1 then LIBUSB_ERROR_BUSY else result)
             (set_error ''interface 3 is not confirmed driver-free'' r)
      else case on_usb libusb_setup_call r of (result, r) \<Rightarrow>
      if result \<noteq> LIBUSB_SUCCESS
      then fail_start ops L result (set_libusb_error L ''claim interface 3'' result r)
      else case usb_io_send_command ops (build_initialize_request INITIALIZE_INDEX)
                  (r\<lparr>interface_claimed := True\<rparr>) of (result, transferred, r) \<Rightarrow>
      if result \<noteq> LIBUSB_SUCCESS
      then fail_start ops L result (set_libusb_error L ''send fixed INITIALIZE'' result r)
      else if transferred \<noteq> COMMAND_PACKET_SIZE
      then fail_start ops L LIBUSB_ERROR_IO (set_error ''fixed INITIALIZE transfer was short'' r)
      else start_streams ops L r)"

definition usb_rx_start :: "usb_rx usb_io_ops \<Rightarrow> usb_lib \<Rightarrow> usb_rx \<Rightarrow> int \<times> usb_rx" where
  "usb_rx_start ops L r =
     (if running r \<or> has_context r then (LIBUSB_ERROR_INVALID_PARAM, r)
      else case on_usb monotonic_ms (r\<lparr>counters := no_counters, rx_stats := iq_stats_reset,
                     rx_dc := dc_blocker_init RX_DC_ALPHA\<rparr>) of (now, r) \<Rightarrow>
        start_device ops L (r\<lparr>rx_started_ms := now, frequency_known := False, filter_known := False,
          sentinel_seen := False, physical_inputs_known := False,
          next_command_index := INITIALIZE_INDEX + 1, last_error := [], stopping := False\<rparr>))"

definition usb_rx_destroy :: "usb_rx usb_io_ops \<Rightarrow> usb_lib \<Rightarrow> usb_rx \<Rightarrow> usb_world" where
  "usb_rx_destroy ops L r = usb (usb_rx_stop ops L r)"

definition usb_rx_pump :: "usb_lib \<Rightarrow> usb_rx \<Rightarrow> int \<times> usb_rx" where
  "usb_rx_pump L r =
     (if \<not> running r \<or> \<not> has_context r then (LIBUSB_ERROR_INVALID_PARAM, r)
      else case handle_events L r of (result, r) \<Rightarrow>
        if result = LIBUSB_ERROR_INTERRUPTED then (LIBUSB_SUCCESS, r)
        else if result \<noteq> LIBUSB_SUCCESS
        then (result, (set_libusb_error L ''handle RX events'' result r)\<lparr>running := False\<rparr>)
        else (result, r))"

end
