(* ===== verification/Usb_Safety.thy ===== *)
theory Usb_Safety
  imports Usb_Stream
begin

text \<open>
  What the receiver guarantees with its own operations table, whatever the device, the clock and
  libusb answer: the properties of \<open>src/usb_rx.c\<close> as a whole. The facts of the \<open>usb_device\<close>
  interface enter through its interpretation \<open>production\<close>.
\<close>

subsection \<open>Stopping\<close>

lemma stop_transmit_effect:
  assumes "rx_tracked r"
  shows "\<not> last_tr_on (wire (usb (stop_transmit (PRODUCTION_USB_IO_OPS L) L r))) \<and>
    (rx_keyed (stop_transmit (PRODUCTION_USB_IO_OPS L) L r) \<longrightarrow> rx_keyed r)"
proof (cases "has_handle r")
  case False
  then have "\<not> rx_keyed r" "\<not> last_tr_on (wire (usb r))"
    using assms last_tr_on_keyed by (auto simp: rx_tracked_def rx_keyed_def)
  then show ?thesis
    using False by (simp add: stop_transmit_def Let_def usb_rx_tune_carrier_stop_def
        usb_rx_disable_transmit_preparation_def)
next
  case handle: True
  let ?ops = "PRODUCTION_USB_IO_OPS L"
  define busy where "busy = (rx_tune_prepared r \<or> tx_underway (tx_cleanup_plan (tx_partial_state r)))"
  define r1 where "r1 = (if busy then snd (usb_rx_tune_carrier_stop ?ops L r) else r)"
  have last: "last_tr_on (wire (usb r)) \<longrightarrow> key_flag r"
    using assms last_tr_on_keyed by (auto simp: rx_tracked_def rx_keyed_def)
  have "key_flag r \<longrightarrow> busy"
    using production.underway_unkey by (simp add: busy_def)
  then have r1: "has_handle r1 \<and> \<not> last_tr_on (wire (usb r1)) \<and> (rx_keyed r1 \<longrightarrow> rx_keyed r)"
    using production.carrier_stop_effect [OF handle, of L L "fst (usb_rx_tune_carrier_stop ?ops L r)"
        "snd (usb_rx_tune_carrier_stop ?ops L r)"] last handle
    by (auto simp: r1_def)
  have out: "stop_transmit ?ops L r =
      (if transmit_prepared r1 \<or> amp_enable_attempted r1 \<or> pa_filter_known r1
       then snd (usb_rx_disable_transmit_preparation ?ops L r1) else r1)"
    by (simp add: stop_transmit_def Let_def busy_def r1_def)
  show ?thesis
    using r1 production.disable_effect [of r1 L L "fst (usb_rx_disable_transmit_preparation ?ops L r1)"
        "snd (usb_rx_disable_transmit_preparation ?ops L r1)"]
    by (auto simp: out)
qed

lemma usb_rx_stop_fields:
  "\<not> has_handle (usb_rx_stop ops L r)" "\<not> has_context (usb_rx_stop ops L r)"
  "\<not> interface_claimed (usb_rx_stop ops L r)"
  "active_transfers (usb_rx_stop ops L r) = 0" "active_tune_transfers (usb_rx_stop ops L r) = 0"
  "rx_slots (usb_rx_stop ops L r) = replicate RX_TRANSFER_COUNT free_rx_slot"
  "tune_slots (usb_rx_stop ops L r) = replicate TUNE_TRANSFER_COUNT free_tune_slot"
  "\<not> transmit_prepared (usb_rx_stop ops L r)" "\<not> amp_enable_attempted (usb_rx_stop ops L r)"
  "\<not> frequency_known (usb_rx_stop ops L r)"
  by (simp_all add: usb_rx_stop_def Let_def free_slots_def)

lemma usb_rx_stop_wire: "wire (usb (usb_rx_stop ops L r)) = wire (usb (stop_transmit ops L r))"
  using drain_events_same [of L "\<lambda>r. has_context r \<and> active_transfers r > 0"
      "(stop_transmit ops L r)\<lparr>stopping := True, running := False\<rparr>"]
  by (simp add: usb_rx_stop_def Let_def free_slots_def)

text \<open>C14.
  Stopping the receiver, at any point of a transmission and whatever the device answers: when
  every possible keying is one the receiver knows of, the last \<open>SET_TR\<close> it leaves on the wire is
  not a \<open>SET_TR(1)\<close>, the radio is not keyed unless it was, and the device, its transfers and
  buffers are given back.
\<close>

theorem stop_releases_device:
  assumes "rx_tracked r" and "r' = usb_rx_stop (PRODUCTION_USB_IO_OPS L) L r"
  shows "\<not> last_tr_on (wire (usb r')) \<and> (rx_keyed r' \<longrightarrow> rx_keyed r) \<and>
    \<not> has_handle r' \<and> \<not> has_context r' \<and> \<not> transmit_prepared r' \<and>
    rx_slots r' = replicate RX_TRANSFER_COUNT free_rx_slot \<and>
    tune_slots r' = replicate TUNE_TRANSFER_COUNT free_tune_slot"
  using stop_transmit_effect [OF assms(1), of L]
  by (simp add: assms(2) usb_rx_stop_fields usb_rx_stop_wire rx_keyed_def)

subsection \<open>Starting\<close>

text \<open>Opened and running on success, given back on failure.\<close>

definition start_outcome :: "int \<times> usb_rx \<Rightarrow> bool" where
  "start_outcome p \<longleftrightarrow>
     (if fst p = LIBUSB_SUCCESS then has_handle (snd p) \<and> has_context (snd p) \<and> running (snd p)
      else \<not> has_handle (snd p) \<and> \<not> has_context (snd p) \<and>
        rx_slots (snd p) = replicate RX_TRANSFER_COUNT free_rx_slot)"

lemma started_fail: "result \<noteq> LIBUSB_SUCCESS \<Longrightarrow> start_outcome (fail_start ops L result r)"
  by (simp add: start_outcome_def fail_start_def usb_rx_stop_fields)

lemma open_frame [simp]:
  "has_handle (snd (on_usb f r)) = has_handle r" "has_context (snd (on_usb f r)) = has_context r"
  "running (snd (on_usb f r)) = running r"
  by (simp_all add: on_usb_def case_prod_beta)

lemma submit_open:
  "has_handle (snd (submit_slot L i b r)) = has_handle r"
  "has_context (snd (submit_slot L i b r)) = has_context r"
  "fst (submit_slot L i b r) = LIBUSB_SUCCESS \<Longrightarrow> running (snd (submit_slot L i b r)) = running r"
  "has_handle (snd (submit_status L r)) = has_handle r"
  "has_context (snd (submit_status L r)) = has_context r"
  "fst (submit_status L r) = LIBUSB_SUCCESS \<Longrightarrow> running (snd (submit_status L r)) = running r"
  by (simp_all add: submit_slot_def submit_status_def Let_def case_prod_beta map_counters_def
      set_libusb_error_def split: if_splits)

lemma start_rx_slots_started:
  "has_handle r \<Longrightarrow> has_context r \<Longrightarrow> running r \<Longrightarrow> start_outcome (start_rx_slots ops L i n r)"
proof (induction n arbitrary: i r)
  case 0
  then show ?case by (simp add: start_outcome_def)
next
  case (Suc n)
  then show ?case
    using submit_open(1-3) by (simp add: case_prod_beta Let_def started_fail)
qed

lemma start_streams_started:
  "has_handle r \<Longrightarrow> has_context r \<Longrightarrow> start_outcome (start_streams ops L r)"
  using submit_open(4-6)
  by (simp add: start_streams_def case_prod_beta Let_def started_fail start_rx_slots_started)

lemma start_device_started: "start_outcome (start_device (PRODUCTION_USB_IO_OPS L) L r)"
proof -
  have send: "has_handle (snd (snd (usb_io_send_command (PRODUCTION_USB_IO_OPS L) packet q))) = has_handle q"
    "has_context (snd (snd (usb_io_send_command (PRODUCTION_USB_IO_OPS L) packet q))) = has_context q" for packet q
  proof -
    obtain e n cs w where t: "libusb_interrupt_transfer packet (usb q) = (e, n, cs, w)"
      by (metis prod_cases4)
    have "same_ctl (q\<lparr>usb := w\<rparr>) (deliver L cs (q\<lparr>usb := w\<rparr>))" by simp
    then show "has_handle (snd (snd (usb_io_send_command (PRODUCTION_USB_IO_OPS L) packet q))) = has_handle q"
      "has_context (snd (snd (usb_io_send_command (PRODUCTION_USB_IO_OPS L) packet q))) = has_context q"
      using ctl_eqD(1) [of "deliver L cs (q\<lparr>usb := w\<rparr>)" "q\<lparr>usb := w\<rparr>"]
      by (simp_all add: usb_io_send_command_def PRODUCTION_USB_IO_OPS_def production_send_command_def t
          same_ctl_def)
  qed
  show ?thesis
    unfolding start_device_def
    by (auto simp: case_prod_beta Let_def started_fail start_streams_started send)
qed

text \<open>
  Starting the receiver is all or nothing: it either returns success with the device open and
  the stream running, or an error with the device closed and every buffer freed.
\<close>

theorem start_all_or_nothing:
  assumes "\<not> running r" and "\<not> has_context r"
  shows "start_outcome (usb_rx_start (PRODUCTION_USB_IO_OPS L) L r)"
  using assms start_device_started by (simp add: usb_rx_start_def case_prod_beta)

subsection \<open>Unkeying\<close>

text \<open>C13.
  Stopping a transmission is complete however it was interrupted: every transmit flag is clear
  and no stream is left, transmit preparation survives, the radio is never keyed by it, and when
  the stop reports success and the receiver knew of the keying, the radio is unkeyed.
\<close>

theorem carrier_stop_complete:
  assumes "has_handle r"
    and "usb_rx_tune_carrier_stop (PRODUCTION_USB_IO_OPS L) L r = (e, r')"
  shows "\<not> key_flag r' \<and> \<not> rx_tune_prepared r' \<and> \<not> rx_transition_attempted r' \<and>
    \<not> rx_frequency_attempted r' \<and> \<not> tx_stream_present r' \<and>
    transmit_prepared r' = transmit_prepared r \<and> (rx_keyed r' \<longrightarrow> rx_keyed r) \<and>
    (rx_tracked r \<longrightarrow> e = LIBUSB_SUCCESS \<longrightarrow> \<not> rx_keyed r')"
  using production.carrier_stop_effect [OF assms] by simp

text \<open>C12.
  A start that fails, at whatever step, in whatever mode, has \<open>SET_TR(0)\<close> behind any
  \<open>SET_TR(1)\<close> it sent: from a wire whose last \<open>SET_TR\<close> is off, it leaves one whose last
  \<open>SET_TR\<close> is off.
\<close>

theorem failed_start_unkeys:
  assumes "\<not> last_tr_on (wire (usb r))"
  shows "(fst (usb_rx_tune_carrier_start (PRODUCTION_USB_IO_OPS L) L r) \<noteq> LIBUSB_SUCCESS \<longrightarrow>
      \<not> last_tr_on (wire (usb (snd (usb_rx_tune_carrier_start (PRODUCTION_USB_IO_OPS L) L r))))) \<and>
    (fst (audio_tx_start (PRODUCTION_USB_IO_OPS L) L mode drive gain cmpr capture raw tr pre r) \<noteq> LIBUSB_SUCCESS \<longrightarrow>
      \<not> last_tr_on (wire (usb (snd (audio_tx_start (PRODUCTION_USB_IO_OPS L) L mode drive gain cmpr capture raw tr pre r)))))"
  using production.tune_start_effect(2) [OF assms, of L L]
    production.audio_start_effect(2) [OF assms, of L L] by blast

text \<open>
  Retuning, changing the gain and preparing to transmit neither key nor unkey the radio, and keep
  the receiver's record of it.
\<close>

theorem settings_keep_key:
  "same_key r (snd (usb_rx_tune (PRODUCTION_USB_IO_OPS L) L f r)) \<and>
   same_key r (snd (usb_rx_set_gain (PRODUCTION_USB_IO_OPS L) L g r)) \<and>
   same_key r (snd (usb_rx_enable_transmit_preparation (PRODUCTION_USB_IO_OPS L) L r))"
  by (simp add: production.tune_same_key production.gain_same_key production.enable_same_key)

subsection \<open>Draining\<close>

lemma same_queue_count: "same_queue s t \<Longrightarrow> audio_count t = audio_count s"
  by (simp add: same_queue_def audio_ring_def)

lemma render_source_count: "audio_count (snd (render_source m s)) \<le> audio_count s"
proof (cases "audio_count s")
  case 0
  then show ?thesis by (simp add: render_source_def case_prod_beta map_stats_def)
next
  case (Suc k)
  define t where "t = s\<lparr>audio_read_index := (audio_read_index s + 1) mod TX_AUDIO_CAPACITY, audio_count := k\<rparr>"
  show ?thesis
    using Suc by (cases "raw_iq s"; cases "translate_raw_iq s")
      (simp_all add: render_source_def Let_def case_prod_beta)
qed

lemma render_frame_count: "audio_count (snd (render_frame m d s)) \<le> audio_count s"
proof -
  obtain iq s1 where 1: "render_source m s = (iq, s1)" by fastforce
  obtain fade s2 where 2: "render_fade m s1 = (fade, s2)" by fastforce
  obtain oi oq s3 where 3: "render_limit m d fade iq s2 = (oi, oq, s3)" by (metis prod_cases3)
  obtain si ci where ci: "clamp_i16 oi = (si, ci)" by fastforce
  obtain sq cq where cq: "clamp_i16 oq = (sq, cq)" by fastforce
  have "audio_count s1 \<le> audio_count s" using render_source_count [of m s] 1 by simp
  moreover have "audio_count s2 = audio_count s1" "audio_count s3 = audio_count s2"
    using same_queue_count [OF same_queue_stages(1) [of s1 m]] 2
      same_queue_count [OF same_queue_stages(2) [of s2 m d fade iq]] 3 by simp_all
  ultimately show ?thesis
    by (simp add: render_frame_def 1 2 3 ci cq Let_def same_queue_count [OF same_queue_stages(3)]
        same_queue_count [OF same_queue_stages(4)])
qed

lemma render_queue:
  "audio_count (snd (tx_audio_stream_render_iq16le m n s)) \<le> audio_count s"
proof -
  have "audio_count (snd (render_loop m d n s)) \<le> audio_count s" for d
    by (induction n arbitrary: s) (auto simp: case_prod_beta intro: order_trans [OF _ render_frame_count])
  then show ?thesis
    by (simp add: tx_audio_stream_render_iq16le_def Let_def case_prod_beta
        same_queue_count [OF same_queue_stages(5)])
qed

text \<open>
  What is still to be sent. While no audio is accepted it never grows: callbacks of the receive
  side leave it alone, and a transmit transfer that completes moves frames from the queue into
  its own buffer.
\<close>

definition slot_pending :: "tune_slot \<Rightarrow> nat" where
  "slot_pending s = (if tune_submitted s then audio_frames s else 0)"

lemma pending_frames:
  "usb_rx_tx_pending_frames r =
     (if microphone_streaming r
      then audio_count (microphone_stream r) + sum_list (map slot_pending (tune_slots r)) else 0)"
proof -
  have "sum_list (map audio_frames (filter tune_submitted xs)) = sum_list (map slot_pending xs)" for xs
    by (induction xs) (auto simp: slot_pending_def)
  then show ?thesis by (simp add: usb_rx_tx_pending_frames_def tx_audio_stream_queued_def)
qed

lemma stream_frame [simp]:
  "microphone_stream (map_counters f r) = microphone_stream r"
  "microphone_stream (set_error m r) = microphone_stream r"
  "microphone_stream (set_libusb_error L m e r) = microphone_stream r"
  "microphone_stream (snd (on_usb g r)) = microphone_stream r"
  "microphone_stream (snd (elapsed_ms r)) = microphone_stream r"
  "microphone_stream (mark_error_event r) = microphone_stream r"
  "microphone_stream (mark_sentinel f' r) = microphone_stream r"
  by (simp_all add: map_counters_def set_error_def set_libusb_error_def on_usb_def elapsed_ms_def
      mark_error_event_def mark_sentinel_def case_prod_beta Let_def)

lemma stream_sentinels [simp]: "microphone_stream (mark_sentinels f frames r) = microphone_stream r"
  by (induction f frames r rule: mark_sentinels.induct) simp_all

lemma stream_submit [simp]:
  "microphone_stream (snd (submit_slot L k b r)) = microphone_stream r"
  "microphone_stream (snd (submit_status L r)) = microphone_stream r"
  "microphone_stream (classify_transfer_status st packet r) = microphone_stream r"
  "microphone_stream (count_packet_length n r) = microphone_stream r"
  by (simp_all add: submit_slot_def submit_status_def classify_transfer_status_def
      count_packet_length_def case_prod_beta Let_def)

lemma stream_rx_packets:
  assumes "\<not> tx_accepting_audio r"
  shows "microphone_stream (fold (rx_packet L) ps r) = microphone_stream r"
  using assms
proof (induction ps arbitrary: r)
  case (Cons p ps)
  have "tx_side (count_packet_length n r1) = tx_side r1" for n r1
    by (simp add: count_packet_length_def)
  then have acc: "tx_accepting_audio (count_packet_length n r1) = tx_accepting_audio r1" for n r1
    by (simp add: tx_side_def)
  have acc': "tx_accepting_audio (map_counters f r1) = tx_accepting_audio r1" for f r1
    by (simp add: map_counters_def)
  have one: "microphone_stream (rx_packet L p r) = microphone_stream r"
    using Cons.prems
    by (simp add: rx_packet_def process_packet_def Let_def case_prod_beta acc acc')
  have "tx_accepting_audio (rx_packet L p r) = tx_accepting_audio r"
    using tx_side_rx(1) [of L p r] by (simp add: tx_side_def)
  with Cons one show ?case by simp
qed simp

lemma pending_rx_complete:
  assumes "\<not> tx_accepting_audio r" and "\<forall>i st. c \<noteq> TuneCompletion i st"
  shows "usb_rx_tx_pending_frames (complete_one L c r) = usb_rx_tx_pending_frames r \<and>
    tx_side (complete_one L c r) = tx_side r"
proof -
  have side: "tx_side (complete_one L c r) = tx_side r"
    using assms(2) tx_side_complete by (cases c) simp_all
  moreover have "microphone_stream (complete_one L c r) = microphone_stream r"
    using assms stream_rx_packets
    by (cases c) (simp_all add: complete_one_def rx_complete_def status_complete_def Let_def split: option.split)
  ultimately show ?thesis
    by (simp add: pending_frames tx_side_def)
qed

lemma pending_tune_complete:
  assumes "i < length (tune_slots r)" and "tune_submitted (tune_slots r ! i)"
  shows "usb_rx_tx_pending_frames (tune_complete L i st r) \<le> usb_rx_tx_pending_frames r"
proof -
  have sum: "sum_list (map slot_pending ((tune_slots r)[i := x])) =
      sum_list (map slot_pending (tune_slots r)) + slot_pending x - slot_pending (tune_slots r ! i)" for x
    using assms(1) by (simp add: map_update sum_list_update)
  have le: "slot_pending (tune_slots r ! i) \<le> sum_list (map slot_pending (tune_slots r))"
    using assms(1) by (metis elem_le_sum_list length_map nth_map)
  define r1 where "r1 = (with_tune_slot i (\<lambda>s. s\<lparr>tune_submitted := False, audio_frames := 0\<rparr>) r)
    \<lparr>active_tune_transfers := active_tune_transfers r - 1\<rparr>"
  define r2 where "r2 = (if st \<noteq> TransferCompleted \<and> st \<noteq> TransferCancelled
    then (set_error ''Tune endpoint-0x01 stream failed'' r1)\<lparr>tune_streaming := False, running := False\<rparr> else r1)"
  define r3 where "r3 = (if microphone_streaming r2 then tune_refill L i r2 else r2)"
  obtain e r4 where u: "on_usb libusb_submit_transfer r3 = (e, r4)" by fastforce
  have r2: "microphone_streaming r2 = microphone_streaming r" "microphone_stream r2 = microphone_stream r"
    "tune_slots r2 = (tune_slots r)[i := (tune_slots r ! i)\<lparr>tune_submitted := False, audio_frames := 0\<rparr>]"
    by (simp_all add: r2_def r1_def with_tune_slot_def set_error_def)
  have r4: "microphone_streaming r4 = microphone_streaming r3" "microphone_stream r4 = microphone_stream r3"
    "tune_slots r4 = tune_slots r3"
    using u by (auto simp: on_usb_def split: prod.splits)
  have r3: "microphone_streaming r3 = microphone_streaming r \<and>
      (\<exists>x. tune_slots r3 = (tune_slots r)[i := x] \<and> \<not> tune_submitted x \<and>
        audio_count (microphone_stream r3) + audio_frames x = audio_count (microphone_stream r))"
  proof (cases "microphone_streaming r2 \<and> tune_buffer (tune_slots r ! i) \<noteq> None")
    case False
    then show ?thesis
      using assms(1) r2 by (auto simp: r3_def tune_refill_def intro!: exI)
  next
    case True
    then obtain buf where buf: "tune_buffer (tune_slots r ! i) = Some buf" by auto
    obtain out s' where out: "tx_audio_stream_render_iq16le (libm.truncate L) (length buf div 4)
        (microphone_stream r) = (out, s')" by fastforce
    have "audio_count s' \<le> audio_count (microphone_stream r)"
      using render_queue [of "libm.truncate L" "length buf div 4" "microphone_stream r"] out by simp
    then show ?thesis
      using True assms(1) r2 buf out
      by (auto simp: r3_def tune_refill_def with_tune_slot_def tx_audio_stream_queued_def intro!: exI)
  qed
  then obtain x where x: "tune_slots r3 = (tune_slots r)[i := x]" "\<not> tune_submitted x"
    "audio_count (microphone_stream r3) + audio_frames x = audio_count (microphone_stream r)" by blast
  have out: "tune_complete L i st r =
      (if tune_streaming r2 \<and> running r2
       then if e = LIBUSB_SUCCESS
            then (with_tune_slot i (\<lambda>s. s\<lparr>tune_submitted := True\<rparr>) r4)
                   \<lparr>active_tune_transfers := active_tune_transfers r4 + 1\<rparr>
            else (set_libusb_error L ''resubmit Tune endpoint-0x01'' e r4)
                   \<lparr>tune_streaming := False, running := False\<rparr>
       else r2)"
    unfolding tune_complete_def Let_def r1_def [symmetric] r2_def [symmetric] r3_def [symmetric] u
    by simp
  show ?thesis
    using sum [of "x\<lparr>tune_submitted := True\<rparr>"] sum [of x] le x r3 r4 r2 assms
      sum [of "(tune_slots r ! i)\<lparr>tune_submitted := False, audio_frames := 0\<rparr>"]
    by (auto simp: out pending_frames with_tune_slot_def set_libusb_error_def slot_pending_def)
qed

lemma pending_complete:
  assumes "\<not> tx_accepting_audio r"
  shows "usb_rx_tx_pending_frames (complete_one L c r) \<le> usb_rx_tx_pending_frames r \<and>
    \<not> tx_accepting_audio (complete_one L c r)"
proof (cases "\<exists>i st. c = TuneCompletion i st")
  case False
  with pending_rx_complete [OF assms, of c L] show ?thesis using assms by (simp add: tx_side_def)
next
  case True
  then obtain i st where c: "c = TuneCompletion i st" by blast
  have "\<not> tx_accepting_audio (tune_complete L i st r)"
    using assms by (auto simp: tune_complete_def Let_def case_prod_beta with_tune_slot_def set_error_def
        set_libusb_error_def on_usb_def tune_refill_def split: option.split)
  then show ?thesis
    using assms pending_tune_complete [of i r L st] by (simp add: c complete_one_def)
qed

lemma pending_events:
  assumes "\<not> tx_accepting_audio r"
  shows "usb_rx_tx_pending_frames (snd (handle_events L r)) \<le> usb_rx_tx_pending_frames r \<and>
    \<not> tx_accepting_audio (snd (handle_events L r))"
proof -
  have del: "usb_rx_tx_pending_frames (deliver L cs r1) \<le> usb_rx_tx_pending_frames r1 \<and>
      \<not> tx_accepting_audio (deliver L cs r1)" if "\<not> tx_accepting_audio r1" for cs r1
    using that
  proof (induction cs arbitrary: r1)
    case (Cons c cs)
    have "usb_rx_tx_pending_frames (deliver L cs (complete_one L c r1)) \<le> usb_rx_tx_pending_frames r1 \<and>
        \<not> tx_accepting_audio (deliver L cs (complete_one L c r1))"
      using pending_complete [OF Cons.prems, of L c] Cons.IH [of "complete_one L c r1"] by linarith
    then show ?case by (simp add: deliver_def)
  qed (simp add: deliver_def)
  obtain e cs w where w: "libusb_wait (usb r) = (e, cs, w)" by (metis prod_cases3)
  have "usb_rx_tx_pending_frames (r\<lparr>usb := w\<rparr>) = usb_rx_tx_pending_frames r"
    by (simp add: pending_frames)
  with del [of "r\<lparr>usb := w\<rparr>" cs] assms show ?thesis
    by (simp add: handle_events_def w)
qed

lemma pending_clock:
  "usb_rx_tx_pending_frames (snd (on_usb monotonic_ms r)) = usb_rx_tx_pending_frames r"
  "tx_accepting_audio (snd (on_usb monotonic_ms r)) = tx_accepting_audio r"
  by (simp_all add: pending_frames clock_same) (simp add: on_usb_def case_prod_beta)

lemma accepting_graceful:
  "\<not> tx_accepting_audio r \<Longrightarrow> \<not> tx_accepting_audio (graceful_loop L started maximum r)"
proof (induction L started maximum r rule: graceful_loop.induct)
  case (1 L started maximum r)
  obtain now r1 where c: "on_usb monotonic_ms r = (now, r1)" by fastforce
  obtain e r2 where h: "handle_events L r1 = (e, r2)" by fastforce
  have r1: "\<not> tx_accepting_audio r1" using pending_clock(2) [of r] c 1(2) by simp
  have r2: "\<not> tx_accepting_audio r2" using pending_events [OF r1, of L] h by simp
  then show ?case
    using 1 c h r1 by (subst graceful_loop.simps) (auto simp: set_libusb_error_def)
qed

lemma pending_graceful:
  "\<not> tx_accepting_audio r \<Longrightarrow>
     usb_rx_tx_pending_frames (graceful_loop L started maximum r) \<le> usb_rx_tx_pending_frames r"
proof (induction L started maximum r rule: graceful_loop.induct)
  case (1 L started maximum r)
  obtain now r1 where c: "on_usb monotonic_ms r = (now, r1)" by fastforce
  obtain e r2 where h: "handle_events L r1 = (e, r2)" by fastforce
  have r1: "usb_rx_tx_pending_frames r1 = usb_rx_tx_pending_frames r" "\<not> tx_accepting_audio r1"
    using pending_clock [of r] c 1(2) by simp_all
  have r2: "usb_rx_tx_pending_frames r2 \<le> usb_rx_tx_pending_frames r1" "\<not> tx_accepting_audio r2"
    using pending_events [OF r1(2), of L] h by simp_all
  have "usb_rx_tx_pending_frames (set_libusb_error L m e r2) = usb_rx_tx_pending_frames r2" for m
    by (simp add: pending_frames set_libusb_error_def)
  then show ?case
    using 1(1) [OF _ c [symmetric] _ h [symmetric]] r1 r2
    by (subst graceful_loop.simps) (auto simp: c h intro: le_trans)
qed

text \<open>The four drain statistics, which no callback touches.\<close>

definition drain_stats :: "tx_audio_stream \<Rightarrow> u64 \<times> u64 \<times> u64 \<times> u64" where
  "drain_stats s = (stop_requested_frames (audio_stats s), graceful_drained_frames (audio_stats s),
     graceful_discarded_frames (audio_stats s), graceful_drain_ms (audio_stats s))"

lemma drain_stats_stages [simp]:
  "drain_stats (snd (render_fade m s)) = drain_stats s"
  "drain_stats (snd (snd (render_limit m d fade iq s))) = drain_stats s"
  "drain_stats (map_stats (\<lambda>t. t\<lparr>clipped_frames := g t\<rparr>) s) = drain_stats s"
  "drain_stats (map_stats (\<lambda>t. t\<lparr>underrun_frames := g t\<rparr>) s) = drain_stats s"
  "drain_stats (measure_output m d i q s) = drain_stats s"
  "drain_stats (audio_count_output m n s) = drain_stats s"
  "drain_stats (measure_gain m x s) = drain_stats s"
  "drain_stats (snd (translate_iq m s iq)) = drain_stats s"
  by (simp_all add: drain_stats_def render_fade_def render_limit_def measure_output_def
      audio_count_output_def measure_gain_def translate_iq_def map_stats_def Let_def)

lemma drain_stats_updates [simp]:
  "drain_stats (s\<lparr>stream_dsp := d\<rparr>) = drain_stats s"
  "drain_stats (s\<lparr>audio_read_index := k, audio_count := n\<rparr>) = drain_stats s"
  by (simp_all add: drain_stats_def)

lemma drain_stats_source [simp]: "drain_stats (snd (render_source m s)) = drain_stats s"
  by (cases "raw_iq s") (simp_all add: render_source_def Let_def case_prod_beta)

lemma drain_stats_frame [simp]: "drain_stats (snd (render_frame m d s)) = drain_stats s"
  by (simp add: render_frame_def case_prod_beta Let_def)

lemma drain_stats_render [simp]:
  "drain_stats (snd (tx_audio_stream_render_iq16le m n s)) = drain_stats s"
proof -
  have "drain_stats (snd (render_loop m d n s)) = drain_stats s" for d
    by (induction n arbitrary: s) (simp_all add: case_prod_beta)
  then show ?thesis by (simp add: tx_audio_stream_render_iq16le_def Let_def case_prod_beta)
qed

lemma drain_stats_tune:
  "drain_stats (microphone_stream (tune_complete L i st r)) = drain_stats (microphone_stream r)"
  by (simp add: tune_complete_def Let_def case_prod_beta with_tune_slot_def tune_refill_def
      split: option.split)

lemma drain_stats_events:
  assumes "\<not> tx_accepting_audio r"
  shows "drain_stats (microphone_stream (snd (handle_events L r))) = drain_stats (microphone_stream r)"
proof -
  have one: "drain_stats (microphone_stream (complete_one L c r1)) = drain_stats (microphone_stream r1)"
    if "\<not> tx_accepting_audio r1" for c r1
    using that stream_rx_packets drain_stats_tune
    by (cases c) (simp_all add: complete_one_def rx_complete_def status_complete_def Let_def split: option.split)
  have "drain_stats (microphone_stream (deliver L cs r1)) = drain_stats (microphone_stream r1)"
    if "\<not> tx_accepting_audio r1" for cs r1
    using that
  proof (induction cs arbitrary: r1)
    case (Cons c cs)
    with one [OF Cons.prems, of c] pending_complete [OF Cons.prems, of L c] show ?case
      by (simp add: deliver_def)
  qed (simp add: deliver_def)
  then show ?thesis using assms by (simp add: handle_events_def case_prod_beta)
qed

lemma drain_stats_graceful:
  "\<not> tx_accepting_audio r \<Longrightarrow>
     drain_stats (microphone_stream (graceful_loop L started maximum r)) = drain_stats (microphone_stream r)"
proof (induction L started maximum r rule: graceful_loop.induct)
  case (1 L started maximum r)
  obtain now r1 where c: "on_usb monotonic_ms r = (now, r1)" by fastforce
  obtain e r2 where h: "handle_events L r1 = (e, r2)" by fastforce
  have r1: "microphone_stream r1 = microphone_stream r" "\<not> tx_accepting_audio r1"
    using clock_same(7) [of r] pending_clock(2) [of r] c 1(2) by simp_all
  have r2: "drain_stats (microphone_stream r2) = drain_stats (microphone_stream r)" "\<not> tx_accepting_audio r2"
    using pending_events [OF r1(2), of L] drain_stats_events [OF r1(2), of L] h r1 by simp_all
  show ?case
    using 1(1) [OF _ c [symmetric] _ h [symmetric]] r1 r2
    by (subst graceful_loop.simps) (auto simp: c h)
qed

text \<open>
  A graceful stop accounts for every frame that was pending: what was still unsent when it ended
  was pending when it began, so the drained count is the exact difference (no wrap-around), and
  the three counters grow by the frames requested, drained and discarded.
\<close>

theorem graceful_accounts:
  "let r' = graceful_drain L maximum r in
    usb_rx_tx_pending_frames r' \<le> usb_rx_tx_pending_frames r \<and>
    \<not> tx_accepting_audio r' \<and>
    stop_requested_frames (audio_stats (microphone_stream r')) =
      stop_requested_frames (audio_stats (microphone_stream r)) + of_nat (usb_rx_tx_pending_frames r) \<and>
    graceful_drained_frames (audio_stats (microphone_stream r')) =
      graceful_drained_frames (audio_stats (microphone_stream r)) +
      of_nat (usb_rx_tx_pending_frames r - usb_rx_tx_pending_frames r') \<and>
    graceful_discarded_frames (audio_stats (microphone_stream r')) =
      graceful_discarded_frames (audio_stats (microphone_stream r)) + of_nat (usb_rx_tx_pending_frames r')"
proof -
  define r' where "r' = graceful_drain L maximum r"
  define r0 where "r0 = r\<lparr>tx_accepting_audio := False,
    microphone_stream := tx_audio_stream_begin_graceful_stop (microphone_stream r)\<rparr>"
  define r1 where "r1 = with_stats (\<lambda>t. t\<lparr>stop_requested_frames :=
    stop_requested_frames t + of_nat (usb_rx_tx_pending_frames r0)\<rparr>) r0"
  obtain t0 r2 where c: "on_usb monotonic_ms r1 = (t0, r2)" by fastforce
  define r3 where "r3 = graceful_loop L t0 maximum r2"
  have r0: "usb_rx_tx_pending_frames r0 = usb_rx_tx_pending_frames r"
    "drain_stats (microphone_stream r0) = drain_stats (microphone_stream r)" "\<not> tx_accepting_audio r0"
    by (simp_all add: r0_def pending_frames tx_audio_stream_begin_graceful_stop_def drain_stats_def)
  have with_stats: "usb_rx_tx_pending_frames (with_stats f q) = usb_rx_tx_pending_frames q"
    "tx_accepting_audio (with_stats f q) = tx_accepting_audio q"
    "audio_stats (microphone_stream (with_stats f q)) = f (audio_stats (microphone_stream q))" for f q
    by (simp_all add: with_stats_def pending_frames map_stats_def)
  have r2: "usb_rx_tx_pending_frames r2 = usb_rx_tx_pending_frames r" "\<not> tx_accepting_audio r2"
    "microphone_stream r2 = microphone_stream r1"
  proof -
    have p1: "usb_rx_tx_pending_frames r1 = usb_rx_tx_pending_frames r" "\<not> tx_accepting_audio r1"
      using r0 by (simp_all add: r1_def with_stats)
    show "usb_rx_tx_pending_frames r2 = usb_rx_tx_pending_frames r" "\<not> tx_accepting_audio r2"
      "microphone_stream r2 = microphone_stream r1"
      using pending_clock [of r1] clock_same(7) [of r1] c p1 by simp_all
  qed
  have r3: "usb_rx_tx_pending_frames r3 \<le> usb_rx_tx_pending_frames r"
    "drain_stats (microphone_stream r3) = drain_stats (microphone_stream r1)"
    using pending_graceful [OF r2(2), of L t0 maximum] drain_stats_graceful [OF r2(2), of L t0 maximum] r2
    by (simp_all add: r3_def)
  define f :: "tx_audio_stats \<Rightarrow> tx_audio_stats" where "f = (\<lambda>t. t\<lparr>graceful_drained_frames := graceful_drained_frames t +
        (of_nat (usb_rx_tx_pending_frames r0) - of_nat (usb_rx_tx_pending_frames r3)),
      graceful_discarded_frames := graceful_discarded_frames t + of_nat (usb_rx_tx_pending_frames r3)\<rparr>)"
  obtain now r4 where c': "on_usb monotonic_ms (with_stats f r3) = (now, r4)" by fastforce
  define g :: "tx_audio_stats \<Rightarrow> tx_audio_stats"
    where "g = (\<lambda>t. t\<lparr>graceful_drain_ms := graceful_drain_ms t + (now - t0)\<rparr>)"
  have r': "r' = with_stats g r4"
    unfolding r'_def graceful_drain_def Let_def r0_def [symmetric] r1_def [symmetric] c prod.case
      r3_def [symmetric] f_def [symmetric] c' g_def ..
  have r4: "usb_rx_tx_pending_frames r4 = usb_rx_tx_pending_frames r3"
    "tx_accepting_audio r4 = tx_accepting_audio r3"
    "audio_stats (microphone_stream r4) = f (audio_stats (microphone_stream r3))"
    using pending_clock [of "with_stats f r3"] clock_same(7) [of "with_stats f r3"] c'
    by (simp_all add: with_stats)
  have acc: "\<not> tx_accepting_audio r3"
    using accepting_graceful [OF r2(2)] by (simp add: r3_def)
  have pend: "usb_rx_tx_pending_frames r' = usb_rx_tx_pending_frames r3"
    by (simp add: r' with_stats r4)
  have start: "drain_stats (microphone_stream r1) =
      (stop_requested_frames (audio_stats (microphone_stream r)) + of_nat (usb_rx_tx_pending_frames r),
       graceful_drained_frames (audio_stats (microphone_stream r)),
       graceful_discarded_frames (audio_stats (microphone_stream r)),
       graceful_drain_ms (audio_stats (microphone_stream r)))"
    using r0 by (simp add: r1_def with_stats drain_stats_def)
  show ?thesis
    unfolding r'_def [symmetric] Let_def pend using r3 acc start
    by (simp add: r' with_stats r4 f_def g_def drain_stats_def r0 of_nat_diff)
qed

subsection \<open>What arrives is counted\<close>

definition packet_counts :: "usb_rx \<Rightarrow> u64 \<times> u64 \<times> u64" where
  "packet_counts r = (c_usb_packets (counters r), c_usb_packet_errors (counters r), c_bytes (counters r))"

lemma packet_counts_clock [simp]:
  "packet_counts (snd (on_usb g r)) = packet_counts r"
  "packet_counts (snd (elapsed_ms r)) = packet_counts r"
  "packet_counts (mark_error_event r) = packet_counts r"
  "packet_counts (mark_sentinel f r) = packet_counts r"
  "packet_counts (set_libusb_error L m e r) = packet_counts r"
  "packet_counts (r\<lparr>running := b\<rparr>) = packet_counts r"
  "packet_counts (r\<lparr>microphone_stream := s\<rparr>) = packet_counts r"
  "packet_counts (r\<lparr>rx_stats := st, rx_dc := d, destination := q\<rparr>) = packet_counts r"
  by (simp_all add: packet_counts_def on_usb_def elapsed_ms_def mark_error_event_def
      mark_sentinel_def map_counters_def set_libusb_error_def case_prod_beta Let_def)

lemma packet_counts_same [simp]: "packet_counts (map_counters (\<lambda>c. c) r) = packet_counts r"
  by (simp add: map_counters_def)

lemma packet_counts_process [simp]: "packet_counts (process_packet L data r) = packet_counts r"
proof -
  have "packet_counts (mark_sentinels f frames r) = packet_counts r" for f frames r
    by (induction f frames r rule: mark_sentinels.induct) simp_all
  then show ?thesis by (simp add: process_packet_def case_prod_beta Let_def)
qed

lemma packet_counts_other [simp]:
  "packet_counts (map_counters (count_status st p) r) = packet_counts r"
  "packet_counts (count_packet_length n r) = packet_counts r"
  "packet_counts (map_counters (\<lambda>c. c\<lparr>c_trailing_bytes := g c\<rparr>) r) = packet_counts r"
  "packet_counts (snd (submit_slot L k b r)) = packet_counts r"
  by (simp_all add: packet_counts_def count_status_def map_counters_def split: transfer_status.split)
    (simp_all add: count_packet_length_def submit_slot_def mark_error_event_def map_counters_def
      elapsed_ms_def on_usb_def set_libusb_error_def case_prod_beta Let_def)

definition good_packets :: "(transfer_status \<times> u8 list) list \<Rightarrow> u8 list list" where
  "good_packets packets = map snd (filter (\<lambda>p. fst p = TransferCompleted) packets)"

lemma packet_counts_rx_packets:
  assumes "packet_counts r = (n, e, b)"
  shows "packet_counts (fold (rx_packet L) packets r) =
    (n + of_nat (length (good_packets packets)),
     e + of_nat (length packets - length (good_packets packets)),
     b + of_nat (sum_list (map length (good_packets packets))))"
  using assms
proof (induction packets arbitrary: r n e b)
  case Nil
  then show ?case by (simp add: good_packets_def)
next
  case (Cons p packets)
  have le: "length (good_packets packets) \<le> length packets"
    by (simp add: good_packets_def)
  obtain st data where p: "p = (st, data)" by fastforce
  show ?case
  proof (cases "st = TransferCompleted")
    case True
    have "packet_counts (rx_packet L p r) = (n + 1, e, b + of_nat (length data))"
    proof -
      have "packet_counts (rx_packet L p r) = packet_counts (map_counters (\<lambda>c.
          c\<lparr>c_usb_packets := c_usb_packets c + 1, c_bytes := c_bytes c + of_nat (length data)\<rparr>) r)"
        using True by (simp add: rx_packet_def p Let_def)
      then show ?thesis using Cons.prems by (simp add: packet_counts_def map_counters_def)
    qed
    from Cons.IH [OF this] show ?thesis
      using True by (simp add: p good_packets_def algebra_simps)
  next
    case False
    have "packet_counts (rx_packet L p r) = (n, e + 1, b)"
      using Cons.prems False by (simp add: rx_packet_def p classify_transfer_status_def)
        (simp add: packet_counts_def map_counters_def)
    from Cons.IH [OF this] show ?thesis
      using False le by (simp add: p good_packets_def Suc_diff_le)
  qed
qed

text \<open>
  A completed RX transfer counts every one of its packets exactly once: as received, with all its
  bytes, or as a packet error.
\<close>

theorem rx_complete_counts:
  "let r' = rx_complete L i TransferCompleted packets r; good = good_packets packets in
    c_usb_packets (counters r') = c_usb_packets (counters r) + of_nat (length good) \<and>
    c_usb_packet_errors (counters r') =
      c_usb_packet_errors (counters r) + of_nat (length packets - length good) \<and>
    c_bytes (counters r') = c_bytes (counters r) + of_nat (sum_list (map length good))"
proof -
  define r1 where "r1 = (r\<lparr>rx_slots := (rx_slots r)[i := (rx_slots r ! i)\<lparr>rx_submitted := False\<rparr>],
    active_transfers := active_transfers r - 1\<rparr>)\<lparr>consecutive_transfer_failures := 0\<rparr>"
  have "packet_counts r1 = packet_counts r" by (simp add: r1_def packet_counts_def)
  then have "packet_counts (fold (rx_packet L) packets r1) =
      (c_usb_packets (counters r) + of_nat (length (good_packets packets)),
       c_usb_packet_errors (counters r) + of_nat (length packets - length (good_packets packets)),
       c_bytes (counters r) + of_nat (sum_list (map length (good_packets packets))))"
    by (intro packet_counts_rx_packets) (simp add: packet_counts_def)
  moreover have "packet_counts (rx_complete L i TransferCompleted packets r) =
      packet_counts (fold (rx_packet L) packets r1)"
    by (simp add: rx_complete_def Let_def r1_def)
  ultimately show ?thesis by (simp add: packet_counts_def Let_def)
qed

subsection \<open>The Tune tone\<close>

lemma decode_sample_bytes:
  assumes "- (2 ^ 15) \<le> v" "v < 2 ^ 15" "- (2 ^ 15) \<le> w" "w < 2 ^ 15"
  shows "decode_iq_frame (sample_bytes v @ sample_bytes w) = (v, w)"
proof -
  have bytes: "(ucast (word_of_int x :: u8) :: u16) OR push_bit 8 (ucast (ucast (drop_bit 8 (word_of_int x :: u16)) :: u8))
      = word_of_int x" for x :: int
  proof (rule bit_word_eqI)
    fix k assume "k < LENGTH(16)"
    then show "bit ((ucast (word_of_int x :: u8) :: u16) OR
        push_bit 8 (ucast (ucast (drop_bit 8 (word_of_int x :: u16)) :: u8))) k = bit (word_of_int x :: u16) k"
      by (cases "k < 8") (auto simp: bit_simps)
  qed
  have "sint (word_of_int x :: u16) = x" if "- (2 ^ 15) \<le> x" "x < 2 ^ 15" for x :: int
    using that by (simp add: sint_sbintrunc' signed_take_bit_int_eq_self)
  then show ?thesis
    using assms by (simp add: decode_iq_frame_def sample_bytes_def bytes Let_def)
qed

text \<open>
  Every frame of the Tune tone decodes to the rounded cosine and negated sine of its phase, and
  both stay within the full-drive amplitude: no 16-bit overflow, whatever libm computes for a
  cosine and sine between -1 and 1.
\<close>

theorem tone_within_drive:
  assumes "\<And>x. \<bar>lib_cos L x\<bar> \<le> 1" and "\<And>x. \<bar>lib_sin L x\<bar> \<le> 1"
  shows "\<exists>phase i q. decode_iq_frame (tone_frame L frame) = (i, q) \<and>
    i = lrint (f64 (24890 * lib_cos L phase)) \<and> q = lrint (f64 (- 24890 * lib_sin L phase)) \<and>
    \<bar>i\<bar> \<le> 24890 \<and> \<bar>q\<bar> \<le> 24890"
proof -
  define phase where "phase = f64 (f64 (f64 (f64 (2 * C_PI) * 600) * of_nat frame) / 48000)"
  define i q where "i = lrint (f64 (24890 * lib_cos L phase))" and "q = lrint (f64 (- 24890 * lib_sin L phase))"
  have bound: "\<bar>lrint (f64 x)\<bar> \<le> 24890" if "\<bar>x\<bar> \<le> 24890" for x
    using lrint_between [of "- 24890" "f64 x" 24890] f64_bound [of x 24890] that by (simp add: abs_le_iff)
  have "\<bar>i\<bar> \<le> 24890"
    unfolding i_def using assms(1) [of phase] by (intro bound) (simp add: abs_mult)
  moreover have "\<bar>q\<bar> \<le> 24890"
    unfolding q_def using assms(2) [of phase] by (intro bound) (simp add: abs_mult)
  ultimately have "decode_iq_frame (tone_frame L frame) = (i, q)"
    unfolding tone_frame_def Let_def phase_def [symmetric] i_def [symmetric] q_def [symmetric]
    by (intro decode_sample_bytes) auto
  with \<open>\<bar>i\<bar> \<le> 24890\<close> \<open>\<bar>q\<bar> \<le> 24890\<close> i_def q_def show ?thesis by blast
qed

subsection \<open>Concrete receivers\<close>

text \<open>
  A freshly created receiver in a world \<open>w\<close>, and one keyed by a \<open>SET_TR(1)\<close> that arrived, with a
  device that takes the next eight commands.
\<close>

definition fresh_rx :: "usb_world \<Rightarrow> usb_rx" where
  "fresh_rx w = the (usb_rx_create
     \<lparr>samples = [\<lparr>i_part = 0, q_part = 0\<rparr>], capacity = 1, read_index = 0,
      ring_size = 0, dropped = 0\<rparr> w)"

definition world_with :: "(u8 list \<times> bool) list \<Rightarrow> usb_world" where
  "world_with sent = \<lparr>w_clock = [], w_sends = replicate 8 (0, 20, []), w_submits = [], w_allocs = [],
     w_events = [], w_setup = [], wire = sent\<rparr>"

definition keyed_rx :: usb_rx where
  "keyed_rx = (fresh_rx (world_with [(build_tr_request 9 True, True)]))
     \<lparr>has_handle := True, rx_tune_keyed := True, rx_key_attempted := True\<rparr>"

lemma keyed_rx_state:
  "rx_tracked keyed_rx" "rx_keyed keyed_rx" "has_handle keyed_rx"
  by (simp_all add: rx_tracked_def rx_keyed_def keyed_rx_def key_flag_def world_with_def fresh_rx_def
      usb_rx_create_def)

theorem stop_releases_device_witness:
  "\<forall>L. rx_keyed keyed_rx \<and>
     \<not> last_tr_on (wire (usb (usb_rx_stop (PRODUCTION_USB_IO_OPS L) L keyed_rx)))"
  using stop_releases_device [OF keyed_rx_state(1) refl] keyed_rx_state(2) by blast

theorem carrier_stop_complete_witness:
  "\<forall>L. rx_keyed keyed_rx \<and>
     \<not> key_flag (snd (usb_rx_tune_carrier_stop (PRODUCTION_USB_IO_OPS L) L keyed_rx)) \<and>
     (fst (usb_rx_tune_carrier_stop (PRODUCTION_USB_IO_OPS L) L keyed_rx) = LIBUSB_SUCCESS \<longrightarrow>
        \<not> rx_keyed (snd (usb_rx_tune_carrier_stop (PRODUCTION_USB_IO_OPS L) L keyed_rx)))"
  using carrier_stop_complete [OF keyed_rx_state(3) surjective_pairing] keyed_rx_state by blast

text \<open>Ready to transmit on 14.2 MHz, with a device that is gone: the first command fails.\<close>

definition dead_rx :: usb_rx where
  "dead_rx = (fresh_rx ((world_with [])\<lparr>w_sends := []\<rparr>))
     \<lparr>has_handle := True, running := True, transmit_prepared := True, frequency_known := True,
       rx_frequency_hz := 14200000\<rparr>"

theorem failed_start_unkeys_witness:
  "\<forall>L. usb_rx_tune_carrier_start (PRODUCTION_USB_IO_OPS L) L dead_rx \<noteq>
         (LIBUSB_ERROR_INVALID_PARAM, set_error ''Tune start policy rejected'' dead_rx) \<and>
     \<not> last_tr_on (wire (usb (snd (usb_rx_tune_carrier_start (PRODUCTION_USB_IO_OPS L) L dead_rx))))"
proof
  fix L :: usb_lib
  let ?ops = "PRODUCTION_USB_IO_OPS L"
  let ?p = "usb_rx_tune_carrier_start ?ops L dead_rx"
  have dead: "fst (send_next ?ops L build m r) \<noteq> 0" if "w_sends (usb r) = []" for build m r
    using that by (auto simp: send_next_def send_rx_command_def usb_io_send_command_def
        PRODUCTION_USB_IO_OPS_def production_send_command_def libusb_interrupt_transfer_def answer_def
        Let_def split: prod.split)
  have chain: "fst (tune_carrier_key ?ops L flt w dead_rx) \<noteq> 0" for flt w
  proof -
    have "fst (send_next ?ops L build m (dead_rx\<lparr>rx_tune_prepared := True\<rparr>)) \<noteq> 0" for build m
      by (rule dead) (simp add: dead_rx_def fresh_rx_def usb_rx_create_def world_with_def)
    then show ?thesis by (simp add: tune_carrier_key_def and_then_def case_prod_beta)
  qed
  have policy: "pa_filter_for_frequency (rx_frequency_hz dead_rx) \<noteq> None"
    "usb_tune_frequency_to_tuning_word (rx_frequency_hz dead_rx) TUNE_TONE_HZ \<noteq> None"
    by (simp_all add: dead_rx_def fresh_rx_def usb_rx_create_def pa_filter_for_frequency_def
        usb_tune_frequency_to_tuning_word_def rx_frequency_to_tuning_word_def split: option.split)
  have "fst ?p = LIBUSB_ERROR_IO"
  proof -
    obtain flt w where "pa_filter_for_frequency (rx_frequency_hz dead_rx) = Some flt"
      "usb_tune_frequency_to_tuning_word (rx_frequency_hz dead_rx) TUNE_TONE_HZ = Some w"
      using policy by auto
    moreover have "running dead_rx" "has_handle dead_rx" "transmit_prepared dead_rx"
      "frequency_known dead_rx" "\<not> rx_tune_active dead_rx"
      by (simp_all add: dead_rx_def fresh_rx_def usb_rx_create_def)
    ultimately show ?thesis
      using chain [of flt w] by (simp add: usb_rx_tune_carrier_start_def or_fail_def case_prod_beta)
  qed
  moreover have "\<not> last_tr_on (wire (usb dead_rx))"
    by (simp add: dead_rx_def fresh_rx_def usb_rx_create_def world_with_def)
  ultimately show "?p \<noteq> (LIBUSB_ERROR_INVALID_PARAM, set_error ''Tune start policy rejected'' dead_rx) \<and>
      \<not> last_tr_on (wire (usb (snd ?p)))"
    using failed_start_unkeys [of dead_rx L] by auto
qed

theorem start_all_or_nothing_witness:
  "\<forall>L. start_outcome (usb_rx_start (PRODUCTION_USB_IO_OPS L) L (fresh_rx (world_with [])))"
  by (intro allI start_all_or_nothing)
    (simp_all add: fresh_rx_def usb_rx_create_def world_with_def)

theorem tone_within_drive_witness:
  "\<exists>i q. decode_iq_frame (tone_frame \<lparr>lib_sinf = (\<lambda>_. 0), lib_cosf = (\<lambda>_. 1), lib_powf = (\<lambda>x _. x),
       lib_hypotf = (+), lib_hypot = (+), lib_sqrt = id, lib_sin = (\<lambda>_. 0), lib_cos = (\<lambda>_. 1),
       lib_error_name = (\<lambda>_. [])\<rparr> 7) = (i, q) \<and> \<bar>i\<bar> \<le> 24890 \<and> \<bar>q\<bar> \<le> 24890"
  using tone_within_drive [of "\<lparr>lib_sinf = (\<lambda>_. 0), lib_cosf = (\<lambda>_. 1), lib_powf = (\<lambda>x _. x),
       lib_hypotf = (+), lib_hypot = (+), lib_sqrt = id, lib_sin = (\<lambda>_. 0), lib_cos = (\<lambda>_. 1),
       lib_error_name = (\<lambda>_. [])\<rparr>" 7] by auto

end
