(* ===== verification/C_String.thy ===== *)
theory C_String
  imports Flex_Prelude
begin

text \<open>
  The part of C's string library that the HTTP code uses. A C string is the list of its characters
  before the terminating NUL; a pointer into it is the remaining suffix, and reading the
  terminator is reading the end of the list.
\<close>

abbreviation CR :: char where "CR \<equiv> CHR 0x0D"
abbreviation LF :: char where "LF \<equiv> CHR 0x0A"
abbreviation CRLF :: string where "CRLF \<equiv> [CR, LF]"
abbreviation DQ :: char where "DQ \<equiv> CHR 0x22"

definition code_of :: "char \<Rightarrow> nat" where "code_of c = of_char c"

definition is_digit :: "char \<Rightarrow> bool" where
  "is_digit c \<longleftrightarrow> 48 \<le> code_of c \<and> code_of c \<le> 57"

definition digit_value :: "char \<Rightarrow> nat" where "digit_value c = code_of c - 48"

text \<open>\<open>isspace\<close> in the C locale.\<close>

definition is_space :: "char \<Rightarrow> bool" where
  "is_space c \<longleftrightarrow> code_of c = 32 \<or> (9 \<le> code_of c \<and> code_of c \<le> 13)"

definition to_lower :: "char \<Rightarrow> char" where
  "to_lower c = (if 65 \<le> code_of c \<and> code_of c \<le> 90 then char_of (code_of c + 32) else c)"

definition digits_value :: "string \<Rightarrow> nat" where
  "digits_value ds = foldl (\<lambda>n c. n * 10 + digit_value c) 0 ds"

text \<open>
  \<open>strtoull\<close> and \<open>strtoul\<close> (both 64 bits wide) in base 10: the value and the end pointer, which is
  the start when there was no digit. An overflow saturates, a minus sign negates.
\<close>

definition strtoull :: "string \<Rightarrow> u64 \<times> string" where
  "strtoull s =
     (let t = dropWhile is_space s;
          negative = (t \<noteq> [] \<and> hd t = CHR ''-'');
          t = (if t \<noteq> [] \<and> (hd t = CHR ''-'' \<or> hd t = CHR ''+'') then tl t else t);
          ds = takeWhile is_digit t
      in if ds = [] then (0, s)
         else (if digits_value ds \<ge> 2 ^ 64 then - 1
               else if negative then - of_nat (digits_value ds)
               else of_nat (digits_value ds),
               drop (length ds) t))"

text \<open>\<open>strstr\<close>: the offset of the first occurrence.\<close>

fun strstr :: "string \<Rightarrow> string \<Rightarrow> nat option" where
  "strstr [] pat = (if pat = [] then Some 0 else None)"
| "strstr (c # s) pat =
     (if starts_with pat (c # s) then Some 0 else map_option Suc (strstr s pat))"

text \<open>\<open>strncasecmp (s, p, strlen p) == 0\<close>.\<close>

definition starts_with_nocase :: "string \<Rightarrow> string \<Rightarrow> bool" where
  "starts_with_nocase p s \<longleftrightarrow>
     length p \<le> length s \<and> map to_lower (take (length p) s) = map to_lower p"

text \<open>\<open>%u\<close>, \<open>%llu\<close>, \<open>%d\<close>, \<open>%04x\<close> and \<open>%.1f\<close> (nearest, ties to even).\<close>

fun show_nat :: "nat \<Rightarrow> string" where
  "show_nat n = (if n < 10 then [char_of (48 + n)] else show_nat (n div 10) @ [char_of (48 + n mod 10)])"

declare show_nat.simps [simp del]

definition show_int :: "int \<Rightarrow> string" where
  "show_int i = (if i < 0 then ''-'' @ show_nat (nat (- i)) else show_nat (nat i))"

definition hex_digit :: "nat \<Rightarrow> char" where
  "hex_digit n = (if n < 10 then char_of (48 + n) else char_of (87 + n))"

definition show_hex4 :: "u16 \<Rightarrow> string" where
  "show_hex4 w = map (\<lambda>k. hex_digit (unat w div 16 ^ k mod 16)) [3, 2, 1, 0]"

definition show_bool :: "bool \<Rightarrow> string" where
  "show_bool b = (if b then ''true'' else ''false'')"

definition quoted :: "string \<Rightarrow> string" where "quoted s = [DQ] @ s @ [DQ]"

text \<open>\<open>snprintf\<close> into a buffer, when a truncated result counts as none.\<close>

definition fit :: "nat \<Rightarrow> string \<Rightarrow> string option" where
  "fit capacity s = (if length s \<ge> capacity then None else Some s)"

subsection \<open>Printed numbers\<close>

lemma code_of_char_of [simp]: "n < 256 \<Longrightarrow> code_of (char_of n) = n"
  by (simp add: code_of_def)

lemma is_digit_char_of [simp]: "(n::nat) < 10 \<Longrightarrow> is_digit (char_of (48 + n))"
  by (simp add: is_digit_def)

lemma digit_value_char_of [simp]: "(n::nat) < 10 \<Longrightarrow> digit_value (char_of (48 + n)) = n"
  by (simp add: digit_value_def)

lemma digits_value_snoc [simp]: "digits_value (ds @ [c]) = digits_value ds * 10 + digit_value c"
  by (simp add: digits_value_def)

lemma show_nat_digits: "show_nat n \<noteq> [] \<and> list_all is_digit (show_nat n) \<and> digits_value (show_nat n) = n"
proof (induction n rule: show_nat.induct)
  case (1 n)
  show ?case
  proof (cases "n < 10")
    case True
    then show ?thesis
      by (subst (1 2 3) show_nat.simps) (simp add: digits_value_def)
  next
    case False
    with 1 have ih: "show_nat (n div 10) \<noteq> []" "list_all is_digit (show_nat (n div 10))"
      "digits_value (show_nat (n div 10)) = n div 10" by simp_all
    have "show_nat n = show_nat (n div 10) @ [char_of (48 + n mod 10)]"
      using False by (subst show_nat.simps) simp
    with ih show ?thesis by simp
  qed
qed

lemma length_show_nat: "n < 10 ^ k \<Longrightarrow> 0 < k \<Longrightarrow> length (show_nat n) \<le> k"
proof (induction n arbitrary: k rule: show_nat.induct)
  case (1 n)
  show ?case
  proof (cases "n < 10")
    case True
    then show ?thesis using 1 by (subst show_nat.simps) simp
  next
    case False
    then obtain j where k: "k = Suc j" "0 < j" using 1(2) by (cases k; cases "k - 1") auto
    have "n div 10 < 10 ^ j" using 1(2) k by (simp add: less_mult_imp_div_less)
    with 1(1) [OF False this k(2)] show ?thesis using False k by (subst show_nat.simps) simp
  qed
qed

text \<open>What is printed is read back, up to the first character that is not a digit.\<close>

lemma takeWhile_digits:
  "list_all is_digit ds \<Longrightarrow> (rest = [] \<or> \<not> is_digit (hd rest)) \<Longrightarrow>
     takeWhile is_digit (ds @ rest) = ds"
  by (cases rest) (auto simp: list_all_iff takeWhile_append2)

lemma digit_not_space: "is_digit c \<Longrightarrow> \<not> is_space c \<and> c \<noteq> CHR ''-'' \<and> c \<noteq> CHR ''+''"
  by (auto simp: is_digit_def is_space_def code_of_def)

lemma strtoull_show:
  assumes "n < 2 ^ 64" and "rest = [] \<or> \<not> is_digit (hd rest)"
  shows "strtoull (show_nat n @ rest) = (of_nat n, rest)"
proof -
  obtain c ds where cs: "show_nat n = c # ds" using show_nat_digits [of n] by (cases "show_nat n") auto
  have c: "is_digit c" using show_nat_digits [of n] cs by simp
  have drop: "dropWhile is_space (show_nat n @ rest) = show_nat n @ rest"
    using digit_not_space [OF c] by (simp add: cs)
  have tw: "takeWhile is_digit (show_nat n @ rest) = show_nat n"
    using show_nat_digits [of n] assms(2) by (intro takeWhile_digits) auto
  have hd: "hd (show_nat n @ rest) \<noteq> CHR ''-''" "hd (show_nat n @ rest) \<noteq> CHR ''+''"
    using digit_not_space [OF c] by (simp_all add: cs)
  show ?thesis
    using assms(1) show_nat_digits [of n] hd
    by (simp add: strtoull_def Let_def drop tw)
qed

lemma strstr_append: "\<exists>k. strstr (a @ pat @ b) pat = Some k \<and> k \<le> length a"
proof (induction a)
  case Nil
  then show ?case by (cases "pat @ b"; cases pat) auto
qed (auto)

lemma strstr_Some:
  "strstr s pat = Some k \<Longrightarrow> starts_with pat (drop k s)"
  by (induction s arbitrary: k) (auto split: if_splits)

end
