(* ===== verification/Status_Json.thy ===== *)
theory Status_Json
  imports C_String Soft_Float
begin

text \<open>
  Model of the JSON documents of \<open>src/network.c\<close>: the status and radio structures and the text that
  \<open>snprintf\<close> makes of them. The buffer a function fills is its result; a text that does not fit the
  buffer is \<open>None\<close>, where the C function returns the length 0.
\<close>

subsection \<open>JSON documents\<close>

text \<open>A \<open>const char *\<close> that may be null is a \<open>string option\<close>.\<close>

record service_status =
  sv_software_version :: "string option"
  sv_git_revision :: "string option"
  sv_state :: string
  sv_radio_open :: bool
  sv_network_listening :: bool
  sv_sample_rate :: u32
  sv_frames :: u64
  sv_sentinel_frames :: u64
  sv_usb_packets :: u64
  sv_usb_packet_errors :: u64
  sv_ring_dropped_frames :: u64
  sv_network_frames_sent :: u64
  sv_network_samples_sent :: u64
  sv_network_would_block_events :: u64
  sv_network_disconnects :: u64
  sv_network_write_errors :: u64
  sv_rx_tune_operations :: u64
  sv_radio_command_errors :: u64
  sv_usb_transfer_status_errors :: u64
  sv_usb_transfer_timeouts :: u64
  sv_usb_transfer_stalls :: u64
  sv_usb_transfer_no_device :: u64
  sv_usb_transfer_overflows :: u64
  sv_usb_transfer_other_errors :: u64
  sv_usb_packet_status_errors :: u64
  sv_usb_packet_timeouts :: u64
  sv_usb_packet_stalls :: u64
  sv_usb_packet_no_device :: u64
  sv_usb_packet_overflows :: u64
  sv_usb_packet_other_errors :: u64
  sv_usb_short_packets :: u64
  sv_usb_zero_length_packets :: u64
  sv_usb_oversized_packets :: u64
  sv_usb_missing_bytes :: u64
  sv_usb_trailing_bytes :: u64
  sv_usb_error_events :: u64
  sv_physical_status_packets :: u64
  sv_physical_status_changes :: u64
  sv_physical_status_errors :: u64
  sv_usb_first_error_ms :: u64
  sv_usb_last_error_ms :: u64
  sv_first_sentinel_frame :: u64
  sv_last_sentinel_frame :: u64
  sv_first_sentinel_ms :: u64
  sv_last_sentinel_ms :: u64
  sv_rx_recovery_attempts :: u64
  sv_rx_recovery_successes :: u64
  sv_tx_starts :: u64
  sv_tx_stops :: u64
  sv_tx_underruns :: u64
  sv_tx_clipped_frames :: u64
  sv_tx_limited_frames :: u64
  sv_tx_dropped_microphone_frames :: u64
  sv_tx_queued_frames :: u64
  sv_tx_queued_ms :: u64
  sv_tx_peak_queued_frames :: u64
  sv_tx_stop_requested_frames :: u64
  sv_tx_graceful_drained_frames :: u64
  sv_tx_graceful_discarded_frames :: u64
  sv_tx_graceful_drain_ms :: u64
  sv_tx_audio_meter_valid :: bool
  sv_tx_input_peak_dbfs :: rat
  sv_tx_input_rms_dbfs :: rat
  sv_tx_post_gain_peak_dbfs :: rat
  sv_tx_post_gain_rms_dbfs :: rat
  sv_tx_output_peak_dbfs :: rat
  sv_tx_output_rms_dbfs :: rat
  sv_tx_rejected_ownership_requests :: u64
  sv_tx_watchdog_stops :: u64
  sv_tx_cleanup_failures :: u64

record radio_info =
  ri_model :: string
  ri_firmware :: string
  ri_usb_vendor_id :: u16
  ri_usb_product_id :: u16
  ri_receive_only :: bool
  ri_transmit_enabled :: bool
  ri_transmit_prepared :: bool
  ri_tune_enabled :: bool
  ri_tune_active :: bool
  ri_tx_timeout_seconds :: u32
  ri_tx_drive_percent :: u32
  ri_tx_microphone_gain_db :: u32
  ri_tx_compressor_enabled :: bool
  ri_tx_owner :: "string option"
  ri_tx_state :: "string option"
  ri_network_tx_reserved :: bool
  ri_network_tx_stream_connected :: bool
  ri_pa_filter_known :: bool
  ri_pa_filter :: u32
  ri_rx_tuning_enabled :: bool
  ri_frequency_known :: bool
  ri_frequency_hz :: u32
  ri_rx_filter_known :: bool
  ri_rx_filter :: u32
  ri_rx_gain_known :: bool
  ri_rx_gain_db :: int
  ri_rx_mode :: "string option"
  ri_rx_bandwidth_hz :: u32
  ri_rx_squelch_db :: int
  ri_physical_inputs_known :: bool
  ri_mic_ptt :: bool
  ri_flexwire_ptt :: bool
  ri_dash :: bool
  ri_dot :: bool

text \<open>The conversions of \<open>snprintf\<close> the documents use, and the text each produces.\<close>

datatype conv = Str string | Raw string | U64 u64 | U32 u32 | I32 int | Hex4 u16 | F1 rat | Bool bool

definition show_f1 :: "rat \<Rightarrow> string" where
  "show_f1 x =
     (let n = nat (round_even (\<bar>x\<bar> * 10))
      in (if x < 0 then ''-'' else []) @ show_nat (n div 10) @ ''.'' @ show_nat (n mod 10))"

fun show_conv :: "conv \<Rightarrow> string" where
  "show_conv (Str s) = quoted s"
| "show_conv (Raw s) = s"
| "show_conv (U64 w) = show_nat (unat w)"
| "show_conv (U32 w) = show_nat (unat w)"
| "show_conv (I32 i) = show_int i"
| "show_conv (Hex4 w) = quoted (show_hex4 w)"
| "show_conv (F1 x) = show_f1 x"
| "show_conv (Bool b) = show_bool b"

definition json_line :: "string \<times> conv \<Rightarrow> string" where
  "json_line f = ''  '' @ quoted (fst f) @ '': '' @ show_conv (snd f)"

fun json_lines :: "(string \<times> conv) list \<Rightarrow> string" where
  "json_lines [] = []"
| "json_lines [f] = json_line f @ [LF]"
| "json_lines (f # fs) = json_line f @ '','' @ [LF] @ json_lines fs"

definition json_document :: "(string \<times> conv) list \<Rightarrow> string" where
  "json_document fs = ''{'' @ [LF] @ json_lines fs @ ''}'' @ [LF]"

definition or_default :: "string \<Rightarrow> string option \<Rightarrow> string" where
  "or_default d s = (case s of None \<Rightarrow> d | Some s \<Rightarrow> s)"

definition if_known :: "bool \<Rightarrow> conv \<Rightarrow> conv" where
  "if_known known c = (if known then c else Raw ''null'')"

definition status_fields :: "service_status \<Rightarrow> (string \<times> conv) list" where
  "status_fields st = [
    (''service'', Str ''flex1500d''),
    (''software_version'', Str (or_default ''unknown'' (sv_software_version st))),
    (''git_revision'', Str (or_default ''unknown'' (sv_git_revision st))),
    (''api_version'', U64 1),
    (''state'', Str (sv_state st)),
    (''radio_open'', Bool (sv_radio_open st)),
    (''network_listening'', Bool (sv_network_listening st)),
    (''sample_rate'', U32 (sv_sample_rate st)),
    (''sample_format'', Str ''complex_f32le''),
    (''frames'', U64 (sv_frames st)),
    (''sentinel_frames'', U64 (sv_sentinel_frames st)),
    (''usb_packets'', U64 (sv_usb_packets st)),
    (''usb_packet_errors'', U64 (sv_usb_packet_errors st)),
    (''ring_dropped_frames'', U64 (sv_ring_dropped_frames st)),
    (''network_frames_sent'', U64 (sv_network_frames_sent st)),
    (''network_samples_sent'', U64 (sv_network_samples_sent st)),
    (''network_would_block_events'', U64 (sv_network_would_block_events st)),
    (''network_disconnects'', U64 (sv_network_disconnects st)),
    (''network_write_errors'', U64 (sv_network_write_errors st)),
    (''rx_tune_operations'', U64 (sv_rx_tune_operations st)),
    (''radio_command_errors'', U64 (sv_radio_command_errors st)),
    (''usb_transfer_status_errors'', U64 (sv_usb_transfer_status_errors st)),
    (''usb_transfer_timeouts'', U64 (sv_usb_transfer_timeouts st)),
    (''usb_transfer_stalls'', U64 (sv_usb_transfer_stalls st)),
    (''usb_transfer_no_device'', U64 (sv_usb_transfer_no_device st)),
    (''usb_transfer_overflows'', U64 (sv_usb_transfer_overflows st)),
    (''usb_transfer_other_errors'', U64 (sv_usb_transfer_other_errors st)),
    (''usb_packet_status_errors'', U64 (sv_usb_packet_status_errors st)),
    (''usb_packet_timeouts'', U64 (sv_usb_packet_timeouts st)),
    (''usb_packet_stalls'', U64 (sv_usb_packet_stalls st)),
    (''usb_packet_no_device'', U64 (sv_usb_packet_no_device st)),
    (''usb_packet_overflows'', U64 (sv_usb_packet_overflows st)),
    (''usb_packet_other_errors'', U64 (sv_usb_packet_other_errors st)),
    (''usb_short_packets'', U64 (sv_usb_short_packets st)),
    (''usb_zero_length_packets'', U64 (sv_usb_zero_length_packets st)),
    (''usb_oversized_packets'', U64 (sv_usb_oversized_packets st)),
    (''usb_missing_bytes'', U64 (sv_usb_missing_bytes st)),
    (''usb_trailing_bytes'', U64 (sv_usb_trailing_bytes st)),
    (''usb_error_events'', U64 (sv_usb_error_events st)),
    (''physical_status_packets'', U64 (sv_physical_status_packets st)),
    (''physical_status_changes'', U64 (sv_physical_status_changes st)),
    (''physical_status_errors'', U64 (sv_physical_status_errors st)),
    (''usb_first_error_ms'', U64 (sv_usb_first_error_ms st)),
    (''usb_last_error_ms'', U64 (sv_usb_last_error_ms st)),
    (''first_sentinel_frame'', U64 (sv_first_sentinel_frame st)),
    (''last_sentinel_frame'', U64 (sv_last_sentinel_frame st)),
    (''first_sentinel_ms'', U64 (sv_first_sentinel_ms st)),
    (''last_sentinel_ms'', U64 (sv_last_sentinel_ms st)),
    (''rx_recovery_attempts'', U64 (sv_rx_recovery_attempts st)),
    (''rx_recovery_successes'', U64 (sv_rx_recovery_successes st)),
    (''tx_starts'', U64 (sv_tx_starts st)),
    (''tx_stops'', U64 (sv_tx_stops st)),
    (''tx_underruns'', U64 (sv_tx_underruns st)),
    (''tx_clipped_frames'', U64 (sv_tx_clipped_frames st)),
    (''tx_limited_frames'', U64 (sv_tx_limited_frames st)),
    (''tx_dropped_microphone_frames'', U64 (sv_tx_dropped_microphone_frames st)),
    (''tx_queued_frames'', U64 (sv_tx_queued_frames st)),
    (''tx_queued_ms'', U64 (sv_tx_queued_ms st)),
    (''tx_peak_queued_frames'', U64 (sv_tx_peak_queued_frames st)),
    (''tx_stop_requested_frames'', U64 (sv_tx_stop_requested_frames st)),
    (''tx_graceful_drained_frames'', U64 (sv_tx_graceful_drained_frames st)),
    (''tx_graceful_discarded_frames'', U64 (sv_tx_graceful_discarded_frames st)),
    (''tx_graceful_drain_ms'', U64 (sv_tx_graceful_drain_ms st)),
    (''tx_audio_meter_valid'', Bool (sv_tx_audio_meter_valid st)),
    (''tx_input_peak_dbfs'', F1 (sv_tx_input_peak_dbfs st)),
    (''tx_input_rms_dbfs'', F1 (sv_tx_input_rms_dbfs st)),
    (''tx_post_gain_peak_dbfs'', F1 (sv_tx_post_gain_peak_dbfs st)),
    (''tx_post_gain_rms_dbfs'', F1 (sv_tx_post_gain_rms_dbfs st)),
    (''tx_output_peak_dbfs'', F1 (sv_tx_output_peak_dbfs st)),
    (''tx_output_rms_dbfs'', F1 (sv_tx_output_rms_dbfs st)),
    (''tx_rejected_ownership_requests'', U64 (sv_tx_rejected_ownership_requests st)),
    (''tx_watchdog_stops'', U64 (sv_tx_watchdog_stops st)),
    (''tx_cleanup_failures'', U64 (sv_tx_cleanup_failures st))]"

definition radio_fields :: "radio_info \<Rightarrow> (string \<times> conv) list" where
  "radio_fields r = [
    (''model'', Str (ri_model r)),
    (''firmware'', Str (ri_firmware r)),
    (''usb_vendor_id'', Hex4 (ri_usb_vendor_id r)),
    (''usb_product_id'', Hex4 (ri_usb_product_id r)),
    (''receive_only'', Bool (ri_receive_only r)),
    (''transmit_enabled'', Bool (ri_transmit_enabled r)),
    (''transmit_prepared'', Bool (ri_transmit_prepared r)),
    (''tune_enabled'', Bool (ri_tune_enabled r)),
    (''tune_active'', Bool (ri_tune_active r)),
    (''tx_timeout_seconds'', U32 (ri_tx_timeout_seconds r)),
    (''tx_drive_percent'', U32 (ri_tx_drive_percent r)),
    (''tx_microphone_gain_db'', U32 (ri_tx_microphone_gain_db r)),
    (''tx_compressor_enabled'', Bool (ri_tx_compressor_enabled r)),
    (''tx_owner'', Str (or_default ''none'' (ri_tx_owner r))),
    (''tx_state'', Str (or_default ''rx'' (ri_tx_state r))),
    (''network_tx_reserved'', Bool (ri_network_tx_reserved r)),
    (''network_tx_stream_connected'', Bool (ri_network_tx_stream_connected r)),
    (''pa_filter'', if_known (ri_pa_filter_known r) (U32 (ri_pa_filter r))),
    (''rx_tuning_enabled'', Bool (ri_rx_tuning_enabled r)),
    (''frequency_hz'', if_known (ri_frequency_known r) (U32 (ri_frequency_hz r))),
    (''rx_filter'', if_known (ri_rx_filter_known r) (U32 (ri_rx_filter r))),
    (''rx_gain_db'', if_known (ri_rx_gain_known r) (I32 (ri_rx_gain_db r))),
    (''rx_mode'', Str (or_default ''am'' (ri_rx_mode r))),
    (''rx_bandwidth_hz'', U32 (ri_rx_bandwidth_hz r)),
    (''rx_squelch_db'', I32 (ri_rx_squelch_db r)),
    (''physical_inputs_known'', Bool (ri_physical_inputs_known r)),
    (''mic_ptt'', Bool (ri_mic_ptt r)),
    (''flexwire_ptt'', Bool (ri_flexwire_ptt r)),
    (''dash'', Bool (ri_dash r)),
    (''dot'', Bool (ri_dot r))]"

definition build_status_json :: "service_status \<Rightarrow> nat \<Rightarrow> string option" where
  "build_status_json st capacity = fit capacity (json_document (status_fields st))"

definition build_radio_json :: "radio_info \<Rightarrow> nat \<Rightarrow> string option" where
  "build_radio_json r capacity = fit capacity (json_document (radio_fields r))"

subsection \<open>Room\<close>

text \<open>An upper bound for the text of a conversion.\<close>

fun conv_width :: "conv \<Rightarrow> nat" where
  "conv_width (Str s) = length s + 2"
| "conv_width (Raw s) = length s"
| "conv_width (U64 w) = 20"
| "conv_width (U32 w) = 10"
| "conv_width (I32 i) = 11"
| "conv_width (Hex4 w) = 6"
| "conv_width (F1 x) = 6"
| "conv_width (Bool b) = 5"

fun conv_ok :: "conv \<Rightarrow> bool" where
  "conv_ok (I32 i) = (- (2 ^ 31) \<le> i \<and> i < 2 ^ 31)"
| "conv_ok (F1 x) = (\<bar>x\<bar> \<le> 999)"
| "conv_ok c = True"

lemma unat_less_exp: "unat (w :: 'a :: len word) < 2 ^ LENGTH('a)"
  by (fact unsigned_less)

lemma length_show_word: "length (show_nat (unat (w :: u64))) \<le> 20" "length (show_nat (unat (v :: u32))) \<le> 10"
  using unat_less_exp [of w] unat_less_exp [of v]
  by (simp_all add: length_show_nat)

lemma length_show_int: "- (2 ^ 31) \<le> i \<Longrightarrow> i < 2 ^ 31 \<Longrightarrow> length (show_int i) \<le> 11"
  using length_show_nat [of "nat (- i)" 10] length_show_nat [of "nat i" 10]
  by (auto simp: show_int_def nat_less_iff)

lemma length_show_f1:
  assumes "\<bar>x\<bar> \<le> 999" shows "length (show_f1 x) \<le> 6"
proof -
  let ?n = "nat (round_even (\<bar>x\<bar> * 10))"
  have "round_even (\<bar>x\<bar> * 10) \<le> 9990"
    using round_even_mono [of "\<bar>x\<bar> * 10" "of_int 9990"] round_even_int [of 9990] assms by simp
  then have n: "?n div 10 < 10 ^ 3" "?n mod 10 < 10 ^ 1" by (simp_all add: nat_less_iff)
  have "length (show_nat (?n div 10)) \<le> 3" "length (show_nat (?n mod 10)) \<le> 1"
    by (rule length_show_nat [OF n(1)], simp) (rule length_show_nat [OF n(2)], simp)
  moreover have "length (show_f1 x) \<le>
      Suc (length (show_nat (?n div 10)) + Suc (length (show_nat (?n mod 10))))"
    unfolding show_f1_def Let_def by (simp only: length_append) simp
  ultimately show ?thesis by linarith
qed

lemma length_show_conv: "conv_ok c \<Longrightarrow> length (show_conv c) \<le> conv_width c"
  by (cases c) (simp_all add: quoted_def show_hex4_def show_bool_def length_show_word length_show_int
    length_show_f1)

lemma length_json_line: "conv_ok (snd f) \<Longrightarrow> length (json_line f) \<le> length (fst f) + 6 + conv_width (snd f)"
  using length_show_conv [of "snd f"] by (simp add: json_line_def quoted_def)

lemma length_json_document:
  assumes "list_all (\<lambda>f. conv_ok (snd f)) fs"
  shows "length (json_document fs) \<le> 4 + (\<Sum>f\<leftarrow>fs. length (fst f) + 8 + conv_width (snd f))"
proof -
  have "length (json_lines fs) \<le> (\<Sum>f\<leftarrow>fs. length (fst f) + 8 + conv_width (snd f))"
    using assms
  proof (induction fs rule: json_lines.induct)
    case (2 f)
    then show ?case using length_json_line [of f] by simp
  next
    case (3 f g fs)
    then show ?case using length_json_line [of f] by simp
  qed simp
  then show ?thesis by (simp add: json_document_def)
qed

lemma if_known_width [simp]:
  "conv_ok (if_known k c) = (k \<longrightarrow> conv_ok c)"
  "conv_width (if_known k (U32 w)) = (if k then 10 else 4)"
  "conv_width (if_known k (I32 i)) = (if k then 11 else 4)"
  by (simp_all add: if_known_def)

text \<open>The levels are decibels above -999; every other number is a machine integer.\<close>

definition status_wf :: "service_status \<Rightarrow> bool" where
  "status_wf st \<longleftrightarrow> list_all (\<lambda>f. conv_ok (snd f)) (status_fields st)"

definition radio_wf :: "radio_info \<Rightarrow> bool" where
  "radio_wf r \<longleftrightarrow> list_all (\<lambda>f. conv_ok (snd f)) (radio_fields r)"

lemma status_json_length:
  assumes "status_wf st"
  shows "length (json_document (status_fields st)) \<le> 3400 +
    length (or_default ''unknown'' (sv_software_version st)) +
    length (or_default ''unknown'' (sv_git_revision st)) + length (sv_state st)"
  using length_json_document [OF assms [unfolded status_wf_def]] by (simp add: status_fields_def)

lemma radio_json_length:
  assumes "radio_wf r"
  shows "length (json_document (radio_fields r)) \<le> 900 + length (ri_model r) + length (ri_firmware r) +
    length (or_default ''none'' (ri_tx_owner r)) + length (or_default ''rx'' (ri_tx_state r)) +
    length (or_default ''am'' (ri_rx_mode r))"
  using length_json_document [OF assms [unfolded radio_wf_def]]
  by (simp add: radio_fields_def split: if_splits)

end
