(* ===== verification/Network.thy ===== *)
theory Network
  imports Status_Json Iq
begin

text \<open>
  Model of the rest of \<open>src/network.c\<close>: the HTTP response around a document, the test that a request
  has arrived completely, the parsers of the receiver requests, and the binary frame that carries
  IQ samples.
\<close>

subsection \<open>HTTP responses\<close>

definition http_text :: "string \<Rightarrow> string \<Rightarrow> string" where
  "http_text status_line body =
     ''HTTP/1.1 '' @ status_line @ CRLF @ ''Content-Type: application/json'' @ CRLF @
     ''Content-Length: '' @ show_nat (length body) @ CRLF @ ''Connection: close'' @ CRLF @
     ''Cache-Control: no-store'' @ CRLF @ CRLF @ body"

definition error_body :: "string \<Rightarrow> string" where
  "error_body e = ''{'' @ quoted ''error'' @ '':'' @ quoted e @ ''}'' @ [LF]"

definition build_http_response :: "string \<Rightarrow> string \<Rightarrow> string \<Rightarrow> nat \<Rightarrow> string option" where
  "build_http_response request status_json radio_json room =
     (let (status_line, body) =
        (if starts_with ''GET /v1/status '' request then (''200 OK'', status_json)
         else if starts_with ''GET /v1/radio '' request then (''200 OK'', radio_json)
         else if starts_with ''GET /v1/stream/iq '' request
         then (''503 Service Unavailable'', error_body ''IQ stream is not active'')
         else (''404 Not Found'', error_body ''not found''))
      in fit room (http_text status_line body))"

subsection \<open>Request framing\<close>

text \<open>
  The receive buffer holds \<open>bytes\<close> and a NUL after them; a pointer into it is an offset, and the C
  string there ends at the first NUL.
\<close>

definition c_string_at :: "string \<Rightarrow> nat \<Rightarrow> string" where
  "c_string_at bytes p = takeWhile (\<lambda>c. c \<noteq> CHR 0x00) (drop p bytes)"

text \<open>The length of the header whose last line ends at \<open>index\<close>, or 0.\<close>

definition header_length_at :: "string \<Rightarrow> nat \<Rightarrow> nat" where
  "header_length_at bytes index =
     (if index + 3 < length bytes \<and> take 4 (drop index bytes) = CRLF @ CRLF then index + 4
      else if take 2 (drop index bytes) = [LF, LF] then index + 2 else 0)"

function content_length_field :: "string \<Rightarrow> nat \<Rightarrow> nat \<Rightarrow> nat option" where
  "content_length_field bytes header_length field =
     (if \<not> field < header_length then None
      else case strstr (c_string_at bytes field) CRLF of
        None \<Rightarrow> None
      | Some k \<Rightarrow>
          if field + k \<ge> header_length then None
          else if starts_with_nocase ''Content-Length:'' (c_string_at bytes field) then Some field
          else content_length_field bytes header_length (field + k + 2))"
  by pat_completeness auto

termination by (relation "measure (\<lambda>(bytes, h, f). h - f)") auto

declare content_length_field.simps [simp del]

definition http_request_complete :: "string \<Rightarrow> bool" where
  "http_request_complete bytes =
     (case List.find (\<lambda>index. header_length_at bytes index \<noteq> 0) [0..<length bytes - 1] of
        None \<Rightarrow> False
      | Some index \<Rightarrow>
          let header_length = header_length_at bytes index
          in case content_length_field bytes header_length 0 of
            None \<Rightarrow> True
          | Some field \<Rightarrow>
              let value = dropWhile (\<lambda>c. c = CHR '' '') (c_string_at bytes (field + 15));
                  (body_length, rest) = strtoull value
              in if rest = value \<or> body_length > 65536 then True
                 else length bytes \<ge> header_length + unat body_length)"

subsection \<open>Receiver requests\<close>

text \<open>The digits of a 32-bit number, given up as soon as the value leaves the range.\<close>

fun u32_digits :: "string \<Rightarrow> u64 \<Rightarrow> (u64 \<times> string) option" where
  "u32_digits [] v = Some (v, [])"
| "u32_digits (c # cs) v =
     (if is_digit c
      then let v = v * 10 + of_nat (digit_value c) in if v > 4294967295 then None else u32_digits cs v
      else Some (v, c # cs))"

definition parse_u32_path :: "string \<Rightarrow> string \<Rightarrow> u32 option" where
  "parse_u32_path request prefix =
     (if \<not> starts_with prefix request then None
      else let cursor = drop (length prefix) request
        in if cursor = [] \<or> \<not> is_digit (hd cursor) then None
           else case u32_digits cursor 0 of None \<Rightarrow> None
             | Some (v, cursor) \<Rightarrow> if starts_with '' '' cursor then Some (ucast v) else None)"

definition parse_rx_frequency_request :: "string \<Rightarrow> u32 option" where
  "parse_rx_frequency_request request = parse_u32_path request ''PUT /v1/radio/frequency/''"

definition parse_rx_bandwidth_request :: "string \<Rightarrow> u32 option" where
  "parse_rx_bandwidth_request request =
     (case parse_u32_path request ''PUT /v1/radio/bandwidth/'' of None \<Rightarrow> None
      | Some v \<Rightarrow> if v \<ge> 100 \<and> v \<le> 20000 then Some v else None)"

text \<open>The first word of a fixed list that the path names.\<close>

definition parse_word :: "string \<Rightarrow> ('a \<times> string) list \<Rightarrow> string \<Rightarrow> 'a option" where
  "parse_word request words prefix =
     (if \<not> starts_with prefix request then None
      else map_option fst (List.find (\<lambda>w. starts_with (snd w @ '' '') (drop (length prefix) request)) words))"

definition RX_MODES :: "string list" where
  "RX_MODES = [''am'', ''fm'', ''usb'', ''lsb'', ''cw'']"

definition RX_GAINS :: "int list" where "RX_GAINS = [-10, 0, 10, 20, 30]"

definition parse_rx_mode_request :: "string \<Rightarrow> string option" where
  "parse_rx_mode_request request =
     parse_word request (map (\<lambda>m. (m, m)) RX_MODES) ''PUT /v1/radio/mode/''"

definition parse_rx_gain_request :: "string \<Rightarrow> int option" where
  "parse_rx_gain_request request =
     parse_word request (map (\<lambda>g. (g, show_int g)) RX_GAINS) ''PUT /v1/radio/gain/''"

text \<open>
  The squelch is accumulated in an \<open>int32_t\<close> without a range check: its overflow is undefined in C
  and is taken here as two's complement wrap-around.
\<close>

fun s32_digits :: "string \<Rightarrow> 32 word \<Rightarrow> 32 word \<times> string" where
  "s32_digits [] v = (v, [])"
| "s32_digits (c # cs) v =
     (if is_digit c then s32_digits cs (v * 10 + of_nat (digit_value c)) else (v, c # cs))"

definition parse_rx_squelch_request :: "string \<Rightarrow> int option" where
  "parse_rx_squelch_request request =
     (let prefix = ''PUT /v1/radio/squelch/''
      in if \<not> starts_with prefix request then None
         else let cursor = drop (length prefix) request;
                  negative = starts_with ''-'' cursor;
                  cursor = (if negative then tl cursor else cursor)
           in if cursor = [] \<or> \<not> is_digit (hd cursor) then None
              else let (v, cursor) = s32_digits cursor 0
                in if \<not> starts_with '' '' cursor then None
                   else let v = (if negative then - v else v)
                     in if sint v < -120 \<or> sint v > 0 then None else Some (sint v))"

subsection \<open>Framing of requests\<close>

text \<open>Header lines, without their line ends.\<close>

definition header_line :: "string \<Rightarrow> bool" where
  "header_line l \<longleftrightarrow> l \<noteq> [] \<and> CR \<notin> set l \<and> LF \<notin> set l \<and> CHR 0x00 \<notin> set l"

definition header_text :: "string list \<Rightarrow> string" where
  "header_text ls = concat (map (\<lambda>l. l @ CRLF) ls)"

abbreviation names_length :: "string \<Rightarrow> bool" where
  "names_length l \<equiv> starts_with_nocase ''Content-Length:'' l"

lemma header_text_simps [simp]:
  "header_text [] = []" "header_text (l # ls) = l @ CRLF @ header_text ls"
  "header_text (ks @ ls) = header_text ks @ header_text ls"
  by (simp_all add: header_text_def)

lemma header_text_break:
  "list_all header_line ls \<Longrightarrow> Suc i < length (header_text ls) \<Longrightarrow> header_text ls ! i = LF \<Longrightarrow>
     header_text ls ! Suc i \<noteq> CR \<and> header_text ls ! Suc i \<noteq> LF"
proof (induction ls arbitrary: i)
  case (Cons l ls)
  consider "i < length l" | "i = length l" | "i = Suc (length l)" | j where "i = length l + 2 + j"
    by (metis add_2_eq_Suc' less_iff_Suc_add linorder_neqE_nat not_less_eq add_Suc_right)
  then show ?case
  proof cases
    case 1
    with Cons.prems show ?thesis by (auto simp: nth_append header_line_def dest: nth_mem)
  next
    case 2
    with Cons.prems(3) show ?thesis by (simp add: nth_append)
  next
    case 3
    with Cons.prems obtain m ms where "ls = m # ms" "header_line m" by (cases ls) auto
    then show ?thesis using 3 by (cases m) (auto simp: nth_append header_line_def)
  next
    case 4
    with Cons show ?thesis by (simp add: nth_append)
  qed
qed simp

lemma header_text_ends:
  "ls \<noteq> [] \<Longrightarrow> \<exists>t. header_text ls = t @ CRLF"
  by (induction ls rule: rev_induct) auto

lemma take2_nth: "take 2 (drop i b) = [x, y] \<longleftrightarrow> Suc i < length b \<and> b ! i = x \<and> b ! Suc i = y"
proof (cases "Suc i < length b")
  case True
  then have "take 2 (drop i b) = [b ! i, b ! Suc i]"
    by (simp add: numeral_2_eq_2 take_Suc_conv_app_nth)
  with True show ?thesis by auto
next
  case False
  then have "length (take 2 (drop i b)) \<noteq> length [x, y]" by simp
  with False show ?thesis by metis
qed

lemma header_length_at_nonzero:
  "header_length_at b i \<noteq> 0 \<longleftrightarrow>
     (i + 3 < length b \<and> b ! i = CR \<and> b ! (i + 1) = LF \<and> b ! (i + 2) = CR \<and> b ! (i + 3) = LF) \<or>
     (i + 1 < length b \<and> b ! i = LF \<and> b ! (i + 1) = LF)"
proof -
  have "take 4 (drop i b) = [b ! i, b ! (i + 1), b ! (i + 2), b ! (i + 3)]" if "i + 3 < length b"
    using that by (simp add: numeral_eq_Suc Cons_nth_drop_Suc [symmetric])
  then show ?thesis by (auto simp: header_length_at_def take2_nth)
qed

text \<open>Where the first header end of a request lies.\<close>

lemma no_header_end:
  assumes "list_all header_line ls" and "ls \<noteq> []" and "k \<le> Suc (length (header_text ls))"
  shows "header_length_at (take k (header_text ls @ CRLF @ body)) i = 0"
proof (rule ccontr)
  assume nz: "header_length_at (take k (header_text ls @ CRLF @ body)) i \<noteq> 0"
  obtain t where t: "header_text ls = t @ CRLF" using header_text_ends [OF assms(2)] by blast
  define b where "b = header_text ls @ CRLF @ body"
  have lf: False if "b ! j = LF" "b ! Suc j = LF" "Suc j \<le> length (header_text ls)" for j
    using that header_text_break [OF assms(1), of j]
    by (cases "Suc j < length (header_text ls)") (auto simp: b_def nth_append)
  have cr: False if "b ! j = LF" "b ! Suc j = CR" "Suc j < length (header_text ls)" for j
    using that header_text_break [OF assms(1), of j] by (auto simp: b_def nth_append)
  note nz' = nz [folded b_def, unfolded header_length_at_nonzero]
  from nz' consider "i + 3 < k" "b ! Suc i = LF" "b ! Suc (Suc i) = CR" | "i + 1 < k" "b ! i = LF" "b ! Suc i = LF"
    by auto
  then show False
  proof cases
    case 1
    then show ?thesis using cr [of "Suc i"] assms(3) by simp
  next
    case 2
    then show ?thesis using lf [of i] assms(3) by simp
  qed
qed

lemma find_upt: "P j \<Longrightarrow> (\<And>i. i < j \<Longrightarrow> \<not> P i) \<Longrightarrow> j < n \<Longrightarrow> List.find P [0..<n] = Some j"
  unfolding find_Some_iff by (intro exI [of _ j]) simp

lemma incomplete_without_end:
  assumes "\<And>i. header_length_at b i = 0" shows "\<not> http_request_complete b"
proof -
  have "List.find (\<lambda>i. False) xs = None" for xs :: "nat list" by (induction xs) simp_all
  then show ?thesis by (simp add: http_request_complete_def assms)
qed

lemma header_end_found:
  fixes body :: string
  assumes "list_all header_line ls" and "ls \<noteq> []" and "Suc (Suc (length (header_text ls))) \<le> k"
  defines "b \<equiv> take k (header_text ls @ CRLF @ body)"
  shows "\<exists>i. List.find (\<lambda>index. header_length_at b index \<noteq> 0) [0..<length b - 1] = Some i \<and>
    header_length_at b i = length (header_text ls) + 2"
proof -
  obtain t where t: "header_text ls = t @ CRLF" using header_text_ends [OF assms(2)] by blast
  define j where "j = length t"
  obtain d where "k = j + 4 + d" using assms(3) le_Suc_ex [of "j + 4" k] by (auto simp: t j_def)
  then have b: "b = t @ CRLF @ CRLF @ take (k - (j + 4)) body"
    by (simp add: b_def t j_def numeral_eq_Suc)
  have at: "header_length_at b j = length (header_text ls) + 2"
    by (simp add: b header_length_at_def j_def t)
  have before: "header_length_at b i = 0" if "i < j" for i
  proof (rule ccontr)
    assume nz: "header_length_at b i \<noteq> 0"
    have n: "b ! m = header_text ls ! m" if "m \<le> Suc j" for m
      using that by (auto simp: b t j_def nth_append le_Suc_eq)
    show False
      using header_text_break [OF assms(1), of i] header_text_break [OF assms(1), of "Suc i"] \<open>i < j\<close> n
        nz [unfolded header_length_at_nonzero]
      by (auto simp: t j_def)
  qed
  have "List.find (\<lambda>index. header_length_at b index \<noteq> 0) [0..<length b - 1] = Some j"
    using at before by (intro find_upt) (simp_all add: b j_def)
  with at show ?thesis by blast
qed

lemma strstr_line:
  "CR \<notin> set l \<Longrightarrow> strstr (l @ CR # LF # rest) CRLF = Some (length l)"
  by (induction l) auto

lemma code_to_lower:
  "code_of (to_lower c) = (if 65 \<le> code_of c \<and> code_of c \<le> 90 then code_of c + 32 else code_of c)"
  by (simp add: to_lower_def)

lemma lower_CR: "to_lower c = CR \<longleftrightarrow> c = CR"
proof
  assume "to_lower c = CR"
  then have "code_of (to_lower c) = 13" by (simp add: code_of_def)
  then have "code_of c = 13" by (simp add: code_to_lower split: if_splits)
  then have "code_of c = code_of CR" by (simp add: code_of_def)
  then show "c = CR" by (simp only: code_of_def of_char_eq_iff)
qed (simp add: to_lower_def code_of_def)

text \<open>A name without line ends is compared within the line.\<close>

lemma names_within_line:
  assumes "CR \<notin> set p"
  shows "starts_with_nocase p (l @ CR # LF # rest) = starts_with_nocase p l"
proof (cases "length p \<le> length l")
  case True
  then show ?thesis by (simp add: starts_with_nocase_def)
next
  case False
  have "map to_lower (take (length p) (l @ CR # LF # rest)) \<noteq> map to_lower p"
  proof
    assume eq: "map to_lower (take (length p) (l @ CR # LF # rest)) = map to_lower p"
    have "to_lower CR = CR" by (simp only: lower_CR)
    then have "to_lower (p ! length l) = CR"
      using arg_cong [OF eq, of "\<lambda>xs. xs ! length l"] False
      by (simp add: nth_append take_Cons')
    then show False using assms False nth_mem [of "length l" p] by (simp add: lower_CR)
  qed
  with False show ?thesis by (auto simp: starts_with_nocase_def)
qed

lemma c_string_line:
  "CHR 0x00 \<notin> set l \<Longrightarrow>
     c_string_at (P @ l @ CR # LF # R) (length P) = l @ CR # LF # takeWhile (\<lambda>c. c \<noteq> CHR 0x00) R"
  unfolding c_string_at_def by (simp, subst takeWhile_append2) auto

lemma c_string_within_line:
  "CHR 0x00 \<notin> set l \<Longrightarrow> m \<le> length l \<Longrightarrow> c_string_at (P @ l @ CR # LF # R) (length P + m) =
     drop m l @ CR # LF # takeWhile (\<lambda>c. c \<noteq> CHR 0x00) R"
  unfolding c_string_at_def by (simp, subst takeWhile_append2) (auto dest: in_set_dropD)

lemma field_found:
  "header_line l \<Longrightarrow> names_length l \<Longrightarrow> length P + length l < h \<Longrightarrow>
     content_length_field (P @ l @ CR # LF # R) h (length P) = Some (length P)"
  by (subst content_length_field.simps)
    (simp add: c_string_line strstr_line names_within_line header_line_def)

lemma field_skipped:
  "list_all header_line ls \<Longrightarrow> list_all (\<lambda>l. \<not> names_length l) ls \<Longrightarrow>
   length P + length (header_text ls) \<le> h \<Longrightarrow>
     content_length_field (P @ header_text ls @ R) h (length P) =
     content_length_field (P @ header_text ls @ R) h (length P + length (header_text ls))"
proof (induction ls arbitrary: P)
  case (Cons l ls)
  let ?R = "takeWhile (\<lambda>c. c \<noteq> CHR 0x00) (header_text ls @ R)"
  have l: "header_line l" "CR \<notin> set l" "CHR 0x00 \<notin> set l"
    using Cons.prems by (simp_all add: header_line_def)
  have "content_length_field (P @ header_text (l # ls) @ R) h (length P) =
      content_length_field ((P @ l @ CRLF) @ header_text ls @ R) h (length (P @ l @ CRLF))"
    using Cons.prems names_within_line [of "''Content-Length:''" l] l
    by (subst content_length_field.simps) (simp add: c_string_line strstr_line)
  with Cons.IH [of "P @ l @ CRLF"] Cons.prems show ?case by (simp add: add.assoc)
qed simp

text \<open>
  The value of the first \<open>Content-Length\<close> line decides.
\<close>

lemma complete_by_length:
  assumes "list_all header_line (pre @ (''Content-Length: '' @ show_nat n) # post)"
    and "list_all (\<lambda>l. \<not> names_length l) pre" and "n < 2 ^ 64"
  defines "h \<equiv> header_text (pre @ (''Content-Length: '' @ show_nat n) # post)"
  assumes "Suc (Suc (length h)) \<le> k" and "k \<le> length (h @ CRLF @ body)"
  shows "http_request_complete (take k (h @ CRLF @ body)) \<longleftrightarrow>
    length h + 2 + (if n \<le> 65536 then n else 0) \<le> k"
proof -
  let ?l = "''Content-Length: '' @ show_nat n"
  define rest where "rest = header_text post @ CRLF @ take (k - Suc (Suc (length h))) body"
  define b where "b = take k (h @ CRLF @ body)"
  obtain d where k: "k = length h + 2 + d" using assms(5) le_Suc_ex [of "length h + 2" k] by auto
  have b: "b = header_text pre @ ?l @ CR # LF # rest"
    unfolding b_def rest_def k by (simp add: h_def numeral_eq_Suc)
  obtain i where i: "List.find (\<lambda>index. header_length_at b index \<noteq> 0) [0..<length b - 1] = Some i"
      "header_length_at b i = length h + 2"
    using header_end_found [OF assms(1) _ assms(5) [unfolded h_def], of body] by (auto simp: h_def b_def)
  have lines: "list_all header_line pre" "header_line ?l" using assms(1) by simp_all
  have "length (header_text pre) + length ?l + 2 \<le> length h" by (simp add: h_def)
  then have le: "length (header_text pre) + length ?l < length h + 2" by simp
  have "content_length_field b (length h + 2) 0 = content_length_field b (length h + 2) (length (header_text pre))"
    using field_skipped [OF lines(1) assms(2), of "[]" "length h + 2" "?l @ CR # LF # rest"] le by (simp add: b)
  also have "\<dots> = Some (length (header_text pre))"
    unfolding b using lines(2) le by (intro field_found) (simp_all add: starts_with_nocase_def)
  finally have f: "content_length_field b (length h + 2) 0 = Some (length (header_text pre))" .
  let ?r = "CR # LF # takeWhile (\<lambda>c. c \<noteq> CHR 0x00) rest"
  have "c_string_at b (length (header_text pre) + 15) = '' '' @ show_nat n @ ?r"
    unfolding b using lines(2) c_string_within_line [of ?l 15 "header_text pre" rest]
    by (simp add: header_line_def)
  moreover obtain c cs where c: "show_nat n = c # cs" "is_digit c"
    using show_nat_digits [of n] by (cases "show_nat n") auto
  ultimately have at: "dropWhile (\<lambda>c. c = CHR '' '') (c_string_at b (length (header_text pre) + 15)) =
      show_nat n @ ?r"
    by (auto simp: is_digit_def code_of_def)
  have "strtoull (show_nat n @ ?r) = (of_nat n, ?r)"
    using assms(3) by (intro strtoull_show) (simp_all add: is_digit_def code_of_def)
  moreover have "unat (of_nat n :: u64) = n" "(65536 :: u64) < of_nat n \<longleftrightarrow> 65536 < n"
    using assms(3) by (simp_all add: word_less_nat_alt unsigned_of_nat take_bit_nat_eq_self)
  moreover have "length b = k" using assms(6) by (simp add: b_def)
  ultimately have "http_request_complete b \<longleftrightarrow> length h + 2 + (if n \<le> 65536 then n else 0) \<le> k"
    using c assms(5) unfolding http_request_complete_def i(1)
    by (auto simp: i(2) at f [simplified] Let_def)
  then show ?thesis by (simp only: b_def)
qed

subsection \<open>IQ frames\<close>

text \<open>The bit pattern of a finite \<open>float\<close>, as \<open>memcpy\<close> into a \<open>uint32_t\<close> reads it.\<close>

definition float_bits :: "rat \<Rightarrow> u32" where
  "float_bits x =
     (if x = 0 then 0
      else let e = max (ilog2 \<bar>x\<bar>) (- 126);
               m = nat (round_even (\<bar>x\<bar> / pow2 (e - 23)));
               sign = (if x < 0 then 2 ^ 31 else 0)
           in of_nat (sign + nat (e + 126) * 2 ^ 23 + m))"

definition bits_float :: "u32 \<Rightarrow> rat" where
  "bits_float w =
     (let n = unat w; ex = n div 2 ^ 23 mod 256; fr = n mod 2 ^ 23;
          x = (if ex = 0 then of_nat fr * pow2 (- 149) else of_nat (2 ^ 23 + fr) * pow2 (int ex - 150))
      in if 2 ^ 31 \<le> n then - x else x)"

definition IQ_FRAME_HEADER_SIZE :: nat where "IQ_FRAME_HEADER_SIZE = 20"

definition sample_words :: "iq_sample \<Rightarrow> u8 list" where
  "sample_words s = store_f32le (float_bits (i_part s)) @ store_f32le (float_bits (q_part s))"

definition encode_iq_frame :: "u32 \<Rightarrow> iq_sample list \<Rightarrow> nat \<Rightarrow> u8 list" where
  "encode_iq_frame sequence xs room =
     (if IQ_FRAME_HEADER_SIZE + length xs * 8 > room then []
      else [0x46, 0x31, 0x35, 0x49, 1, 1] @ store_be16 (of_nat IQ_FRAME_HEADER_SIZE) @
           store_be32 sequence @ store_be32 48000 @ store_be32 (of_nat (length xs)) @
           concat (map sample_words xs))"

text \<open>The finite values of the format, and the frame read back.\<close>

definition finite_f32 :: "rat \<Rightarrow> bool" where
  "finite_f32 x \<longleftrightarrow> f32 x = x \<and> \<bar>x\<bar> < pow2 128"

fun decode_samples :: "u8 list \<Rightarrow> nat \<Rightarrow> iq_sample list" where
  "decode_samples bytes 0 = []"
| "decode_samples bytes (Suc n) =
     \<lparr>i_part = bits_float (load_f32le bytes), q_part = bits_float (load_f32le (drop 4 bytes))\<rparr> #
     decode_samples (drop 8 bytes) n"

lemma pow2_less: "pow2 a < pow2 b \<Longrightarrow> a < b"
  using pow2_mono [of b a] by linarith

lemma f32_significand:
  assumes "f32 x = x" and "x \<noteq> 0"
  defines "e \<equiv> max (ilog2 \<bar>x\<bar>) (- 126)"
  shows "\<exists>m. \<bar>x\<bar> = of_nat m * pow2 (e - 23) \<and> m < 2 ^ 24 \<and> (e = - 126 \<or> 2 ^ 23 \<le> m)"
proof -
  have pos: "0 < \<bar>x\<bar>" using assms(2) by simp
  note b = ilog2_bounds [OF pos]
  define k where "k = round_even (x / pow2 (e - 23))"
  have ex: "max (ilog2 \<bar>x\<bar> - 23) (- 149) = e - 23" by (simp add: e_def)
  have "x = of_int k * pow2 (e - 23)"
    using assms(1,2) by (simp add: f32_def round_to_def Let_def ex k_def)
  then have "\<bar>x\<bar> = of_int \<bar>k\<bar> * pow2 (e - 23)" by (simp add: abs_mult)
  then have ab: "\<bar>x\<bar> = of_nat (nat \<bar>k\<bar>) * pow2 (e - 23)" by simp
  have up: "\<bar>x\<bar> < 2 ^ 24 * pow2 (e - 23)"
  proof -
    have "\<bar>x\<bar> < pow2 (e + 1)"
      using b(2) pow2_mono [of "ilog2 \<bar>x\<bar> + 1" "e + 1"] by (simp add: e_def)
    also have "\<dots> = pow2 24 * pow2 (e - 23)" by (simp add: add.commute flip: pow2_add)
    finally show ?thesis by (simp add: pow2_def)
  qed
  have "rat_of_nat (nat \<bar>k\<bar>) < rat_of_nat (2 ^ 24)" using ab up by simp
  then have m: "nat \<bar>k\<bar> < 2 ^ 24" by (simp only: of_nat_less_iff)
  have "e = - 126 \<or> 2 ^ 23 \<le> nat \<bar>k\<bar>"
  proof (cases "e = - 126")
    case False
    then have "e = ilog2 \<bar>x\<bar>" by (simp add: e_def max_def split: if_splits)
    then have "2 ^ 23 * pow2 (e - 23) \<le> \<bar>x\<bar>"
      using b(1) pow2_add [of 23 "e - 23"] by (simp add: pow2_def [of 23])
    then have "rat_of_nat (2 ^ 23) \<le> rat_of_nat (nat \<bar>k\<bar>)" using ab by simp
    then have "2 ^ 23 \<le> nat \<bar>k\<bar>" by (simp only: of_nat_le_iff)
    then show ?thesis ..
  qed simp
  with ab m show ?thesis by blast
qed

lemma bits_float_bits:
  assumes "finite_f32 x"
  shows "bits_float (float_bits x) = x"
proof (cases "x = 0")
  case True
  then show ?thesis by (simp add: float_bits_def bits_float_def)
next
  case False
  define e where "e = max (ilog2 \<bar>x\<bar>) (- 126)"
  obtain m where m: "\<bar>x\<bar> = of_nat m * pow2 (e - 23)" "m < 2 ^ 24" "e = - 126 \<or> 2 ^ 23 \<le> m"
    using f32_significand [of x] assms False by (auto simp: finite_f32_def e_def)
  have "ilog2 \<bar>x\<bar> < 128" using assms False by (intro ilog2_less) (auto simp: finite_f32_def)
  then have e: "- 126 \<le> e" "e \<le> 127" by (simp_all add: e_def)
  define k where "k = nat (e + 126)"
  have k: "e = int k - 126" "k \<le> 253" using e by (simp_all add: k_def)
  define sgn where "sgn = (if x < 0 then 2 ^ 31 else 0 :: nat)"
  define n where "n = sgn + k * 2 ^ 23 + m"
  have "round_even (\<bar>x\<bar> / pow2 (e - 23)) = int m"
    using round_even_int [of "int m"] by (simp add: m(1))
  then have fb: "float_bits x = of_nat n"
    using False by (simp add: float_bits_def Let_def e_def [symmetric] k_def [symmetric] n_def sgn_def)
  have low: "k * 2 ^ 23 + m < 2 ^ 31" using k(2) m(2) by simp
  have n32: "n < 2 ^ 32" using low by (simp add: n_def sgn_def)
  have un: "unat (of_nat n :: u32) = n"
    using n32 by (simp add: unsigned_of_nat take_bit_nat_eq_self)
  have neg: "2 ^ 31 \<le> n \<longleftrightarrow> x < 0" using low by (simp add: n_def sgn_def)
  have split: "n = m + (256 * (if x < 0 then 1 else 0) + k) * 2 ^ 23" by (simp add: n_def sgn_def)
  have dv: "n div 2 ^ 23 mod 256 = k + m div 2 ^ 23"
  proof -
    have "n div 2 ^ 23 = k + m div 2 ^ 23 + 256 * (if x < 0 then 1 else 0)"
      unfolding split by (subst div_mult_self1) simp_all
    moreover have "k + m div 2 ^ 23 < 256" using k(2) m(2) by simp
    ultimately show ?thesis by (simp only: mod_mult_self2 mod_less)
  qed
  have md: "n mod 2 ^ 23 = m mod 2 ^ 23" unfolding split by (rule mod_mult_self1)
  have "(if n div 2 ^ 23 mod 256 = 0 then of_nat (n mod 2 ^ 23) * pow2 (- 149)
         else of_nat (2 ^ 23 + n mod 2 ^ 23) * pow2 (int (n div 2 ^ 23 mod 256) - 150)) = \<bar>x\<bar>"
  proof (cases "m < 2 ^ 23")
    case True
    then have "k = 0" using m(3) k(1) by auto
    with True dv md m(1) k(1) show ?thesis by simp
  next
    case False
    then have "m div 2 ^ 23 = 1" "m mod 2 ^ 23 = m - 2 ^ 23"
      using m(2) by (simp_all add: le_div_geq le_mod_geq)
    with dv md have d: "n div 2 ^ 23 mod 256 = k + 1" "2 ^ 23 + n mod 2 ^ 23 = m" using False by simp_all
    show ?thesis unfolding d using m(1) k(1) by simp
  qed
  then show ?thesis
    unfolding bits_float_def fb Let_def un neg by simp
qed

lemma length_sample_words [simp]: "length (sample_words s) = 8"
  by (simp add: sample_words_def)

lemma decode_sample_words:
  assumes "list_all (\<lambda>s. finite_f32 (i_part s) \<and> finite_f32 (q_part s)) xs"
  shows "decode_samples (concat (map sample_words xs) @ rest) (length xs) = xs"
  using assms
proof (induction xs)
  case (Cons s xs)
  then show ?case by (simp add: sample_words_def bits_float_bits)
qed simp

subsection \<open>Properties\<close>

text \<open>C39.
  A request whose header names the length of its body, at most 65536 bytes, is complete exactly when
  its last byte has arrived: no proper prefix, whether it ends inside the header or inside the body,
  is taken for the request, and the whole request is. A longer body (below 2 ^ 64) is not waited for:
  the request is complete as soon as its header has ended.\<close>

theorem request_framed:
  assumes "list_all header_line (pre @ (''Content-Length: '' @ show_nat (length body)) # post)"
    and "list_all (\<lambda>l. \<not> names_length l) pre" and "length body < 2 ^ 64"
    and "request = header_text (pre @ (''Content-Length: '' @ show_nat (length body)) # post) @ CRLF @ body"
    and "k \<le> length request"
  shows "http_request_complete (take k request) \<longleftrightarrow>
    (if length body \<le> 65536 then k = length request else length request - length body \<le> k)"
proof (cases "k \<le> Suc (length (header_text (pre @ (''Content-Length: '' @ show_nat (length body)) # post)))")
  case True
  then have "\<not> http_request_complete (take k request)"
    unfolding assms(4) using no_header_end [OF assms(1)] by (intro incomplete_without_end) blast
  then show ?thesis using True assms(4) by auto
next
  case False
  then have "http_request_complete (take k request) \<longleftrightarrow>
      length (header_text (pre @ (''Content-Length: '' @ show_nat (length body)) # post)) + 2 +
        (if length body \<le> 65536 then length body else 0) \<le> k"
    unfolding assms(4) using assms(5) [unfolded assms(4)] by (intro complete_by_length assms) auto
  then show ?thesis using assms(4,5) by auto
qed

text \<open>What a client's program prints for a receiver setting is read back by the parser.\<close>

lemma u32_in_range: "v < 2 ^ 32 \<Longrightarrow> \<not> (4294967295 :: u64) < of_nat v"
  by (simp add: word_less_nat_alt unsigned_of_nat take_bit_nat_eq_self)

lemma u32_digits_show:
  "list_all is_digit ds \<Longrightarrow> rest = [] \<or> \<not> is_digit (hd rest) \<Longrightarrow>
   foldl (\<lambda>n c. n * 10 + digit_value c) m ds < 2 ^ 32 \<Longrightarrow>
     u32_digits (ds @ rest) (of_nat m) = Some (of_nat (foldl (\<lambda>n c. n * 10 + digit_value c) m ds), rest)"
proof (induction ds arbitrary: m)
  case Nil
  then show ?case by (cases rest) auto
next
  case (Cons c ds)
  have mono: "m' \<le> foldl (\<lambda>n c. n * 10 + digit_value c) m' ds" for m'
  proof (induction ds arbitrary: m')
    case (Cons a ds)
    show ?case using Cons.IH [of "m' * 10 + digit_value a"] by simp
  qed simp
  have lt: "m * 10 + digit_value c < 2 ^ 32" using mono [of "m * 10 + digit_value c"] Cons.prems(3) by simp
  then have "\<not> (of_nat m * 10 + of_nat (digit_value c) > (4294967295 :: u64))"
    using u32_in_range [OF lt] by simp
  then show ?case using Cons.IH [of "m * 10 + digit_value c"] Cons.prems by (simp add: Let_def)
qed

lemma s32_digits_show:
  "list_all is_digit ds \<Longrightarrow> rest = [] \<or> \<not> is_digit (hd rest) \<Longrightarrow>
     s32_digits (ds @ rest) (of_nat m) = (of_nat (foldl (\<lambda>n c. n * 10 + digit_value c) m ds), rest)"
proof (induction ds arbitrary: m)
  case Nil
  then show ?case by (cases rest) auto
next
  case (Cons c ds)
  then show ?case using Cons.IH [of "m * 10 + digit_value c"] by (simp add: ac_simps)
qed

lemma space_no_digit [simp]: "\<not> is_digit CHR '' ''" "\<not> is_digit CHR ''-''"
  by (simp_all add: is_digit_def code_of_def)

lemma show_nat_hd: "show_nat n \<noteq> [] \<and> is_digit (hd (show_nat n))"
  using show_nat_digits [of n] by (cases "show_nat n") auto

lemma parse_u32_path_show:
  "parse_u32_path (prefix @ show_nat (unat v) @ '' '' @ rest) prefix = Some v"
proof -
  have "u32_digits (show_nat (unat v) @ CHR '' '' # rest) (of_nat 0) = Some (of_nat (unat v), CHR '' '' # rest)"
    using show_nat_digits [of "unat v"] unat_less_exp [of v]
    by (subst u32_digits_show) (simp_all add: digits_value_def [symmetric])
  moreover have "ucast (of_nat (unat v) :: u64) = v"
    using unat_less_exp [of v] by (intro word_unat_eq_iff [THEN iffD2])
      (simp add: unsigned_ucast_eq unsigned_of_nat take_bit_nat_eq_self take_bit_word_eq_self)
  ultimately show ?thesis
    using show_nat_hd [of "unat v"] by (simp add: parse_u32_path_def)
qed

lemma parse_squelch_show:
  assumes "- 120 \<le> s" and "s \<le> 0"
  shows "parse_rx_squelch_request (''PUT /v1/radio/squelch/'' @ show_int s @ '' '' @ rest) = Some s"
proof -
  define n where "n = nat (- s)"
  have n: "s = - int n" "n \<le> 120" using assms by (simp_all add: n_def)
  have d: "s32_digits (show_nat m @ CHR '' '' # rest) 0 = (of_nat m, CHR '' '' # rest)" for m
    using s32_digits_show [of "show_nat m" "CHR '' '' # rest" 0] show_nat_digits [of m]
    by (simp add: digits_value_def [symmetric])
  have "- (of_nat n :: 32 word) = word_of_int (- int n)" by simp
  then have sg: "sint (- (of_nat n :: 32 word)) = - int n"
    using n(2) by (simp only: signed_of_int) (simp add: signed_take_bit_int_eq_self_iff)
  show ?thesis
  proof (cases "n = 0")
    case True
    then show ?thesis using n d [of 0] show_nat_hd [of 0]
      by (cases "show_nat 0") (auto simp: parse_rx_squelch_request_def show_int_def Let_def is_digit_def code_of_def)
  next
    case False
    then have "show_int s = ''-'' @ show_nat n" using n by (simp add: show_int_def)
    then show ?thesis using n sg d [of n] show_nat_hd [of n]
      by (simp add: parse_rx_squelch_request_def Let_def)
  qed
qed

lemma show_gains: "show_int (- 10) = ''-10''" "show_int 0 = ''0''" "show_int 10 = ''10''"
  "show_int 20 = ''20''" "show_int 30 = ''30''"
  by code_simp+

lemma parse_word_prefix:
  "parse_word (prefix @ r) words prefix =
     map_option fst (List.find (\<lambda>w. starts_with (snd w @ '' '') r) words)"
  by (simp add: parse_word_def)

lemma mode_word:
  "m \<in> set RX_MODES \<Longrightarrow>
     List.find (\<lambda>w. starts_with (snd w @ '' '') (m @ '' '' @ rest)) (map (\<lambda>m. (m, m)) RX_MODES) = Some (m, m)"
  unfolding RX_MODES_def list.set by (elim insertE emptyE; simp)

lemma gain_word:
  "g \<in> set RX_GAINS \<Longrightarrow>
     List.find (\<lambda>w. starts_with (snd w @ '' '') (show_int g @ '' '' @ rest))
       (map (\<lambda>g. (g, show_int g)) RX_GAINS) = Some (g, show_int g)"
  unfolding RX_GAINS_def list.set by (elim insertE emptyE; simp add: show_gains)

text \<open>C40.
  Every receiver setting a client can print, frequency, bandwidth, mode, gain or squelch, is read
  back as it was meant, whatever follows the space after it; a bandwidth outside 100 to 20000 Hz
  is refused.\<close>

theorem rx_requests_roundtrip:
  assumes "m \<in> set RX_MODES" and "g \<in> set RX_GAINS" and "- 120 \<le> s" and "s \<le> 0"
  shows "parse_rx_frequency_request (''PUT /v1/radio/frequency/'' @ show_nat (unat f) @ '' '' @ rest) = Some f \<and>
    parse_rx_bandwidth_request (''PUT /v1/radio/bandwidth/'' @ show_nat (unat b) @ '' '' @ rest) =
      (if 100 \<le> b \<and> b \<le> 20000 then Some b else None) \<and>
    parse_rx_mode_request (''PUT /v1/radio/mode/'' @ m @ '' '' @ rest) = Some m \<and>
    parse_rx_gain_request (''PUT /v1/radio/gain/'' @ show_int g @ '' '' @ rest) = Some g \<and>
    parse_rx_squelch_request (''PUT /v1/radio/squelch/'' @ show_int s @ '' '' @ rest) = Some s"
proof -
  have "parse_rx_mode_request (''PUT /v1/radio/mode/'' @ m @ '' '' @ rest) = Some m"
    unfolding parse_rx_mode_request_def parse_word_prefix mode_word [OF assms(1)] by simp
  moreover have "parse_rx_gain_request (''PUT /v1/radio/gain/'' @ show_int g @ '' '' @ rest) = Some g"
    unfolding parse_rx_gain_request_def parse_word_prefix gain_word [OF assms(2)] by simp
  ultimately show ?thesis
    using parse_u32_path_show [of "''PUT /v1/radio/frequency/''" f rest] parse_squelch_show [OF assms(3,4)]
      parse_u32_path_show [of "''PUT /v1/radio/bandwidth/''" b rest]
    by (simp only: parse_rx_frequency_request_def parse_rx_bandwidth_request_def option.simps)
qed

lemma length_line: "header_line (''Content-Length: '' @ show_nat n)"
proof -
  have "\<not> is_digit CR" "\<not> is_digit LF" "\<not> is_digit CHR 0x00" by (simp_all add: is_digit_def code_of_def)
  then have "CR \<notin> set (show_nat n)" "LF \<notin> set (show_nat n)" "CHR 0x00 \<notin> set (show_nat n)"
    using show_nat_digits [of n] by (auto simp: list_all_iff)
  then show ?thesis by (simp add: header_line_def)
qed

text \<open>
  The squelch parser has no such bound on its digits: a number of the size of \<open>2 ^ 32\<close> overflows the
  accumulator, and with two's complement arithmetic it is accepted as 0 dB.
\<close>

lemma squelch_overflow_accepted:
  "parse_rx_squelch_request ''PUT /v1/radio/squelch/4294967296 HTTP/1.1'' = Some 0"
  by code_simp

lemma request_framed_witness:
  "let request = header_text ([''POST /v1/tx/audio HTTP/1.1''] @
         (''Content-Length: '' @ show_nat (length ''abcd'')) # []) @ CRLF @ ''abcd''
   in \<not> http_request_complete (take 20 request) \<and>
      \<not> http_request_complete (take (length request - 1) request) \<and>
      http_request_complete (take (length request) request)"
proof -
  define request where "request = header_text ([''POST /v1/tx/audio HTTP/1.1''] @
    (''Content-Length: '' @ show_nat (length ''abcd'')) # []) @ CRLF @ ''abcd''"
  have line: "header_line (''Content-Length: '' @ show_nat (length ''abcd''))"
    by (rule length_line)
  have "http_request_complete (take k request) \<longleftrightarrow> k = length request" if "k \<le> length request" for k
    by (subst request_framed [of "[''POST /v1/tx/audio HTTP/1.1'']" "''abcd''" "[]", OF _ _ _ request_def that])
      (use line in \<open>simp_all add: header_line_def starts_with_nocase_def to_lower_def code_of_def\<close>)
  moreover have "20 \<le> length request" "20 \<noteq> length request" "length request - 1 \<noteq> length request"
    by (simp_all add: request_def)
  ultimately have "\<not> http_request_complete (take 20 request) \<and>
      \<not> http_request_complete (take (length request - 1) request) \<and>
      http_request_complete (take (length request) request)"
    by (simp del: take_all take_all_iff)
  then show ?thesis unfolding Let_def request_def .
qed

lemma rx_requests_roundtrip_witness:
  "''usb'' \<in> set RX_MODES \<and> -10 \<in> set RX_GAINS \<and>
   parse_rx_frequency_request (''PUT /v1/radio/frequency/'' @ show_nat (unat (14200000 :: u32)) @ '' '' @ ''HTTP/1.1'') =
     Some 14200000 \<and>
   parse_rx_squelch_request (''PUT /v1/radio/squelch/'' @ show_int (- 40) @ '' '' @ ''HTTP/1.1'') = Some (- 40)"
proof -
  have m: "''usb'' \<in> set RX_MODES" "-10 \<in> set RX_GAINS" by (simp_all add: RX_MODES_def RX_GAINS_def)
  show ?thesis using rx_requests_roundtrip [OF m, of "- 40" 14200000 "''HTTP/1.1''" 3000] m by simp
qed

end
