(* ===== verification/Publisher.thy ===== *)
theory Publisher
  imports Network
begin

text \<open>
  Model of \<open>src/publisher.c\<close>: samples leave the ring in numbered frames, and a frame is offered to the
  client's socket until it has been taken completely. The writer callback is a parameter; the
  theorem on the byte stream instantiates it by a connection that answers from an arbitrary
  script. The pending buffer keeps its size; its first \<open>pending_length\<close> bytes are the frame.
\<close>

subsection \<open>State\<close>

definition PUBLISHER_MAX_SAMPLES :: nat where "PUBLISHER_MAX_SAMPLES = 256"

definition PUBLISHER_BUFFER_SIZE :: nat where
  "PUBLISHER_BUFFER_SIZE = 20 + PUBLISHER_MAX_SAMPLES * 8"

datatype publish_result = PublishOk | PublishEmpty | PublishWouldBlock | PublishDisconnected | PublishError

record publisher_stats =
  ps_frames_encoded :: u64
  ps_frames_sent :: u64
  ps_samples_sent :: u64
  ps_would_block_events :: u64
  ps_disconnects :: u64
  ps_write_errors :: u64

record iq_publisher =
  pub_source :: "iq_sample iq_ring"
  next_sequence :: u32
  samples_per_frame :: nat
  pub_pending :: "u8 list"
  pending_length :: nat
  pending_offset :: nat
  pending_samples :: nat
  pub_stats :: publisher_stats

definition map_pub_stats :: "(publisher_stats \<Rightarrow> publisher_stats) \<Rightarrow> iq_publisher \<Rightarrow> iq_publisher" where
  "map_pub_stats f p = p\<lparr>pub_stats := f (pub_stats p)\<rparr>"

subsection \<open>Operations\<close>

definition prepare_frame :: "iq_publisher \<Rightarrow> bool \<times> iq_publisher" where
  "prepare_frame p =
     (if pending_offset p < pending_length p then (True, p)
      else if ring_size (pub_source p) = 0 then (False, p)
      else
        let count = (if samples_per_frame p > ring_size (pub_source p)
                     then ring_size (pub_source p) else samples_per_frame p);
            (xs, source) = iq_ring_pop count (pub_source p);
            bytes = encode_iq_frame (next_sequence p) xs PUBLISHER_BUFFER_SIZE;
            p = p\<lparr>pub_source := source, pub_pending := bytes @ drop (length bytes) (pub_pending p),
                  pending_length := length bytes\<rparr>
        in if pending_length p = 0 then (False, p)
           else (True, map_pub_stats (\<lambda>st. st\<lparr>ps_frames_encoded := ps_frames_encoded st + 1\<rparr>)
                  (p\<lparr>pending_offset := 0, pending_samples := length xs,
                     next_sequence := next_sequence p + 1\<rparr>)))"

text \<open>A null source is \<open>None\<close>; a ring whose allocation failed has no storage.\<close>

definition iq_publisher_init :: "iq_sample iq_ring option \<Rightarrow> nat \<Rightarrow> iq_publisher option" where
  "iq_publisher_init source spf =
     (case source of None \<Rightarrow> None
      | Some ring \<Rightarrow>
          if samples ring = [] \<or> spf = 0 \<or> spf > PUBLISHER_MAX_SAMPLES then None
          else Some \<lparr>pub_source = ring, next_sequence = 0, samples_per_frame = spf,
                     pub_pending = replicate PUBLISHER_BUFFER_SIZE 0, pending_length = 0,
                     pending_offset = 0, pending_samples = 0,
                     pub_stats = \<lparr>ps_frames_encoded = 0, ps_frames_sent = 0, ps_samples_sent = 0,
                       ps_would_block_events = 0, ps_disconnects = 0, ps_write_errors = 0\<rparr>\<rparr>)"

definition iq_publisher_disconnect :: "iq_publisher \<Rightarrow> iq_publisher" where
  "iq_publisher_disconnect p = p\<lparr>pending_length := 0, pending_offset := 0, pending_samples := 0\<rparr>"

text \<open>The bytes a pump offers.\<close>

definition unsent :: "iq_publisher \<Rightarrow> u8 list" where
  "unsent p = take (pending_length p - pending_offset p) (drop (pending_offset p) (pub_pending p))"

type_synonym 'w writer = "'w \<Rightarrow> u8 list \<Rightarrow> publish_result \<times> nat \<times> 'w"

definition iq_publisher_pump ::
  "'w writer \<Rightarrow> 'w \<Rightarrow> iq_publisher \<Rightarrow> publish_result \<times> 'w \<times> iq_publisher" where
  "iq_publisher_pump writer w p =
     (case prepare_frame p of (ready, p) \<Rightarrow>
       if \<not> ready then (PublishEmpty, w, p)
       else
         let remaining = pending_length p - pending_offset p;
             (result, written, w) = writer w (unsent p)
         in if result = PublishWouldBlock
            then (result, w, map_pub_stats
                   (\<lambda>st. st\<lparr>ps_would_block_events := ps_would_block_events st + 1\<rparr>) p)
            else if result = PublishDisconnected
            then (result, w, iq_publisher_disconnect
                   (map_pub_stats (\<lambda>st. st\<lparr>ps_disconnects := ps_disconnects st + 1\<rparr>) p))
            else if result \<noteq> PublishOk \<or> written = 0 \<or> written > remaining
            then (PublishError, w, map_pub_stats
                   (\<lambda>st. st\<lparr>ps_write_errors := ps_write_errors st + 1\<rparr>) p)
            else
              let p = p\<lparr>pending_offset := pending_offset p + written\<rparr>
              in if pending_offset p = pending_length p
                 then (PublishOk, w, iq_publisher_disconnect (map_pub_stats
                        (\<lambda>st. st\<lparr>ps_frames_sent := ps_frames_sent st + 1,
                                ps_samples_sent := ps_samples_sent st + of_nat (pending_samples p)\<rparr>) p))
                 else (PublishOk, w, p))"

subsection \<open>The byte stream of a connection\<close>

text \<open>A socket whose answers are given, and the bytes it has taken.\<close>

record connection =
  answers :: "(publish_result \<times> nat) list"
  taken :: "u8 list"

fun connection_writer :: "connection writer" where
  "connection_writer w bytes =
     (case answers w of [] \<Rightarrow> (PublishWouldBlock, 0, w)
      | (result, written) # rest \<Rightarrow>
          (result, written, w\<lparr>answers := rest, taken := taken w @
             (if result = PublishOk \<and> written \<le> length bytes then take written bytes else [])\<rparr>))"

text \<open>The receiver feeds the ring and the daemon pumps, in any order.\<close>

datatype pub_op = Feed "iq_sample list" | Pump

fun pub_run :: "pub_op list \<Rightarrow> connection \<Rightarrow> iq_publisher \<Rightarrow>
    iq_sample list \<times> connection \<times> iq_publisher" where
  "pub_run [] w p = ([], w, p)"
| "pub_run (Feed xs # ops) w p =
     (case iq_ring_push xs (pub_source p) of (n, ring) \<Rightarrow>
      case pub_run ops w (p\<lparr>pub_source := ring\<rparr>) of (ins, w, p) \<Rightarrow> (take n xs @ ins, w, p))"
| "pub_run (Pump # ops) w p =
     (case iq_publisher_pump connection_writer w p of (r, w, p) \<Rightarrow> pub_run ops w p)"

fun frame_stream :: "u32 \<Rightarrow> iq_sample list list \<Rightarrow> u8 list" where
  "frame_stream n [] = []"
| "frame_stream n (xs # frames) = encode_iq_frame n xs PUBLISHER_BUFFER_SIZE @ frame_stream (n + 1) frames"

definition pub_wf :: "iq_publisher \<Rightarrow> bool" where
  "pub_wf p \<longleftrightarrow> ring_wf (pub_source p) \<and> 0 < samples_per_frame p \<and>
     samples_per_frame p \<le> PUBLISHER_MAX_SAMPLES \<and> pending_offset p \<le> pending_length p \<and>
     pending_length p \<le> length (pub_pending p) \<and> length (pub_pending p) = PUBLISHER_BUFFER_SIZE"

text \<open>
  What a sequence of operations has achieved: \<open>frames\<close> were cut from the ring, encoded with
  consecutive numbers, and their bytes are those taken and those still pending.
\<close>

definition pub_effect ::
  "iq_publisher \<Rightarrow> iq_sample list list \<Rightarrow> u8 list \<Rightarrow> iq_sample list \<Rightarrow> iq_publisher \<Rightarrow> bool" where
  "pub_effect p frames bytes ins p' \<longleftrightarrow>
     pub_wf p' \<and> samples_per_frame p' = samples_per_frame p \<and>
     unsent p @ frame_stream (next_sequence p) frames = bytes @ unsent p' \<and>
     next_sequence p' = next_sequence p + of_nat (length frames) \<and>
     ps_frames_encoded (pub_stats p') = ps_frames_encoded (pub_stats p) + of_nat (length frames) \<and>
     ring_contents (pub_source p) @ ins = concat frames @ ring_contents (pub_source p') \<and>
     list_all (\<lambda>xs. xs \<noteq> [] \<and> length xs \<le> samples_per_frame p) frames"

lemma frame_stream_append:
  "frame_stream n (fs @ gs) = frame_stream n fs @ frame_stream (n + of_nat (length fs)) gs"
  by (induction fs arbitrary: n) (simp_all add: add.assoc add.left_commute)

lemma pub_effect_trans:
  assumes "pub_effect p fs bs ins p1" and "pub_effect p1 gs cs jns p2"
  shows "pub_effect p (fs @ gs) (bs @ cs) (ins @ jns) p2"
proof -
  have 1: "unsent p @ frame_stream (next_sequence p) fs = bs @ unsent p1"
    "ring_contents (pub_source p) @ ins = concat fs @ ring_contents (pub_source p1)"
    using assms(1) by (simp_all add: pub_effect_def)
  have 2: "unsent p1 @ frame_stream (next_sequence p + of_nat (length fs)) gs = cs @ unsent p2"
    "ring_contents (pub_source p1) @ jns = concat gs @ ring_contents (pub_source p2)"
    using assms by (simp_all add: pub_effect_def)
  have "unsent p @ frame_stream (next_sequence p) (fs @ gs) = (bs @ cs) @ unsent p2"
    unfolding frame_stream_append append_assoc [symmetric] 1(1) using 2(1) by simp
  moreover have "ring_contents (pub_source p) @ (ins @ jns) = concat (fs @ gs) @ ring_contents (pub_source p2)"
    unfolding append_assoc [symmetric] 1(2) using 2(2) by simp
  ultimately show ?thesis
    using assms by (simp add: pub_effect_def)
qed

lemma pub_effect_refl: "pub_wf p \<Longrightarrow> pub_effect p [] [] [] p"
  by (simp add: pub_effect_def)

lemma length_concat_words [simp]: "length (concat (map sample_words xs)) = 8 * length xs"
  by (induction xs) simp_all

lemma length_encode:
  "length xs \<le> PUBLISHER_MAX_SAMPLES \<Longrightarrow>
     length (encode_iq_frame n xs PUBLISHER_BUFFER_SIZE) = 20 + 8 * length xs"
  by (simp add: encode_iq_frame_def IQ_FRAME_HEADER_SIZE_def PUBLISHER_BUFFER_SIZE_def)

lemma prepare_frame_effect:
  assumes "pub_wf p" and "prepare_frame p = (ready, p')"
  shows "(\<exists>fs. pub_effect p fs [] [] p') \<and> (ready \<longrightarrow> pending_offset p' < pending_length p')"
proof (cases "pending_offset p < pending_length p \<or> ring_size (pub_source p) = 0")
  case True
  then have "p' = p" "ready \<longrightarrow> pending_offset p < pending_length p"
    using assms(2) by (auto simp: prepare_frame_def split: if_splits)
  then show ?thesis using pub_effect_refl [OF assms(1)] by blast
next
  case False
  define count where "count = min (ring_size (pub_source p)) (samples_per_frame p)"
  obtain xs ring where pop: "iq_ring_pop count (pub_source p) = (xs, ring)" by fastforce
  note wf = assms(1) [unfolded pub_wf_def]
  have xs: "xs = take count (ring_contents (pub_source p))"
    and ring: "ring_contents ring = drop count (ring_contents (pub_source p))" "ring_wf ring"
    using ring.pop_result [of "pub_source p" count] ring.pop_contents [of "pub_source p" count]
      ring.pop_wf [of "pub_source p" count] wf pop by auto
  have len: "length xs = count" by (simp add: xs count_def)
  have c: "0 < count" "count \<le> samples_per_frame p" "count \<le> PUBLISHER_MAX_SAMPLES"
    using False wf by (auto simp: count_def)
  have nx: "xs \<noteq> []" using len c(1) by auto
  have cut: "ring_contents (pub_source p) = xs @ ring_contents ring" by (simp add: xs ring(1))
  let ?b = "encode_iq_frame (next_sequence p) xs PUBLISHER_BUFFER_SIZE"
  have b: "length ?b = 20 + 8 * count" using c len by (simp add: length_encode)
  then have nb: "?b \<noteq> []" by auto
  have m: "(if samples_per_frame p > ring_size (pub_source p) then ring_size (pub_source p)
      else samples_per_frame p) = count" by (simp add: count_def)
  have res: "ready" "p' = map_pub_stats (\<lambda>st. st\<lparr>ps_frames_encoded := ps_frames_encoded st + 1\<rparr>)
      (p\<lparr>pub_source := ring, pub_pending := ?b @ drop (length ?b) (pub_pending p),
         pending_length := length ?b, pending_offset := 0, pending_samples := length xs,
         next_sequence := next_sequence p + 1\<rparr>)"
    using assms(2) False nb by (auto simp: prepare_frame_def m pop Let_def)
  have "unsent p = []" using False by (simp add: unsent_def)
  moreover have "unsent p' = ?b" by (simp add: res(2) unsent_def map_pub_stats_def)
  moreover have "length ?b \<le> length (pub_pending p)"
    using wf c b by (simp add: PUBLISHER_BUFFER_SIZE_def)
  ultimately have "pub_effect p [xs] [] [] p'"
    using wf ring(2) c len nx cut by (auto simp: pub_effect_def pub_wf_def res(2) map_pub_stats_def)
  moreover have "pending_offset p' < pending_length p'" by (simp add: res(2) map_pub_stats_def b)
  ultimately show ?thesis by blast
qed

lemma frame_free [simp]:
  "pub_effect p fs bs ins (map_pub_stats (\<lambda>st. st\<lparr>ps_would_block_events := f st\<rparr>) p') =
   pub_effect p fs bs ins p'"
  "pub_effect p fs bs ins (map_pub_stats (\<lambda>st. st\<lparr>ps_write_errors := f st\<rparr>) p') =
   pub_effect p fs bs ins p'"
  by (simp_all add: pub_effect_def map_pub_stats_def pub_wf_def unsent_def)

text \<open>A pump that is not cut off moves bytes from the pending frame to the client.\<close>

lemma pump_effect:
  assumes "pub_wf p" and "PublishDisconnected \<notin> fst ` set (answers w)"
    and "iq_publisher_pump connection_writer w p = (r, w', p')"
  shows "\<exists>fs bs. pub_effect p fs bs [] p' \<and> taken w' = taken w @ bs \<and>
    set (answers w') \<subseteq> set (answers w)"
proof -
  obtain ready p1 where pr: "prepare_frame p = (ready, p1)" by fastforce
  obtain fs where fs: "pub_effect p fs [] [] p1" and rd: "ready \<longrightarrow> pending_offset p1 < pending_length p1"
    using prepare_frame_effect [OF assms(1) pr] by blast
  show ?thesis
  proof (cases "ready \<and> answers w \<noteq> []")
    case False
    then have "w' = w \<and> (p' = p1 \<or> p' = map_pub_stats
        (\<lambda>st. st\<lparr>ps_would_block_events := ps_would_block_events st + 1\<rparr>) p1)"
      using assms(3) by (cases ready) (simp_all add: iq_publisher_pump_def pr Let_def)
    then have "pub_effect p fs [] [] p'" "taken w' = taken w" "answers w' = answers w"
      using fs by auto
    then show ?thesis by (intro exI [of _ fs] exI [of _ "[]"]) simp
  next
    case True
    then obtain a n rest where an: "answers w = (a, n) # rest" by (cases "answers w") auto
    have wf1: "pub_wf p1" using fs by (simp add: pub_effect_def)
    have lu: "length (unsent p1) = pending_length p1 - pending_offset p1"
      using wf1 by (auto simp: unsent_def pub_wf_def)
    show ?thesis
    proof (cases "a = PublishOk \<and> 0 < n \<and> n \<le> length (unsent p1)")
      case False
      have "a \<noteq> PublishDisconnected" using assms(2) an by force
      then have "pub_effect p fs [] [] p'" "taken w' = taken w" "answers w' = rest"
        using assms(3) fs False True an lu
        by (auto simp: iq_publisher_pump_def pr Let_def split: if_splits)
      with an have "pub_effect p fs [] [] p' \<and> taken w' = taken w @ [] \<and>
          set (answers w') \<subseteq> set (answers w)" by auto
      then show ?thesis by blast
    next
      case take: True
      define p2 where "p2 = p1\<lparr>pending_offset := pending_offset p1 + n\<rparr>"
      have w': "taken w' = taken w @ take n (unsent p1)" "answers w' = rest"
        using assms(3) True an lu take
        by (auto simp: iq_publisher_pump_def pr Let_def split: if_splits)
      have "unsent p2 = drop n (unsent p1)"
        by (simp add: p2_def unsent_def drop_take add.commute)
      then have "unsent p1 = take n (unsent p1) @ unsent p2" by simp
      moreover have "unsent p' = unsent p2 \<and> pub_wf p' \<and> samples_per_frame p' = samples_per_frame p1 \<and>
          next_sequence p' = next_sequence p1 \<and> pub_source p' = pub_source p1 \<and>
          ps_frames_encoded (pub_stats p') = ps_frames_encoded (pub_stats p1)"
        using assms(3) True an lu take wf1
        by (auto simp: iq_publisher_pump_def pr Let_def p2_def unsent_def iq_publisher_disconnect_def
          map_pub_stats_def pub_wf_def split: if_splits)
      ultimately have "pub_effect p1 [] (take n (unsent p1)) [] p'" by (simp add: pub_effect_def)
      from pub_effect_trans [OF fs this] w' an show ?thesis by auto
    qed
  qed
qed

lemma pub_run_effect:
  "pub_wf p \<Longrightarrow> PublishDisconnected \<notin> fst ` set (answers w) \<Longrightarrow> pub_run ops w p = (ins, w', p') \<Longrightarrow>
    \<exists>fs bs. pub_effect p fs bs ins p' \<and> taken w' = taken w @ bs"
proof (induction ops arbitrary: w p ins)
  case Nil
  then show ?case using pub_effect_refl by force
next
  case (Cons op ops)
  show ?case
  proof (cases op)
    case (Feed xs)
    obtain n ring where push: "iq_ring_push xs (pub_source p) = (n, ring)" by fastforce
    let ?p = "p\<lparr>pub_source := ring\<rparr>"
    obtain jns where run: "pub_run ops w ?p = (jns, w', p')" "ins = take n xs @ jns"
      using Cons.prems(3) Feed push by (auto split: prod.splits)
    have "ring_wf ring" "ring_contents ring = ring_contents (pub_source p) @ take n xs"
      using ring.push_wf [of "pub_source p" xs] ring.push_accepted [of "pub_source p" xs] push
        Cons.prems(1) by (auto simp: pub_wf_def)
    then have 1: "pub_effect p [] [] (take n xs) ?p" and "pub_wf ?p"
      using Cons.prems(1) by (simp_all add: pub_effect_def pub_wf_def unsent_def)
    from Cons.IH [OF this(2) Cons.prems(2) run(1)] obtain fs bs
      where "pub_effect ?p fs bs jns p'" "taken w' = taken w @ bs" by blast
    with pub_effect_trans [OF 1 this(1)] run(2) show ?thesis by auto
  next
    case Pump
    obtain r w1 p1 where pump: "iq_publisher_pump connection_writer w p = (r, w1, p1)"
      by (metis prod_cases3)
    from pump_effect [OF Cons.prems(1,2) pump] obtain fs bs where
      1: "pub_effect p fs bs [] p1" "taken w1 = taken w @ bs" "set (answers w1) \<subseteq> set (answers w)" by blast
    have "pub_wf p1" "PublishDisconnected \<notin> fst ` set (answers w1)"
      using 1 Cons.prems(2) by (auto simp: pub_effect_def)
    moreover have "pub_run ops w1 p1 = (ins, w', p')" using Cons.prems(3) Pump pump by simp
    ultimately obtain gs cs where "pub_effect p1 gs cs ins p'" "taken w' = taken w1 @ cs"
      using Cons.IH by blast
    with pub_effect_trans [OF 1(1) this(1)] 1(2) show ?thesis by auto
  qed
qed

lemma iq_publisher_init_wf:
  "iq_publisher_init (Some r) spf = Some p \<Longrightarrow> ring_wf r \<Longrightarrow>
     pub_wf p \<and> unsent p = [] \<and> next_sequence p = 0 \<and> pub_source p = r \<and> samples_per_frame p = spf \<and>
     ps_frames_encoded (pub_stats p) = 0"
  by (auto simp: iq_publisher_init_def pub_wf_def unsent_def PUBLISHER_BUFFER_SIZE_def split: if_splits)

subsection \<open>Properties\<close>

text \<open>C17.
  Whatever the socket answers, in whatever pieces it takes the bytes, as long as it does not
  disconnect: the bytes the client has received are a prefix of the encodings of successive
  frames numbered from 0, the rest of which is what is pending; the frames, followed by what is
  still in the ring, are the samples the ring accepted, in order. Nothing is lost, repeated or
  reordered on the way to the client.\<close>

theorem publisher_stream:
  assumes "iq_publisher_init (Some r) spf = Some p" and "ring_wf r"
    and "PublishDisconnected \<notin> fst ` set script"
    and "pub_run ops \<lparr>answers = script, taken = []\<rparr> p = (ins, w, p')"
  shows "\<exists>frames. taken w @ unsent p' = frame_stream 0 frames \<and>
    concat frames @ ring_contents (pub_source p') = ring_contents r @ ins \<and>
    (\<forall>xs\<in>set frames. xs \<noteq> [] \<and> length xs \<le> spf) \<and>
    next_sequence p' = of_nat (length frames)"
proof -
  note i = iq_publisher_init_wf [OF assms(1,2)]
  obtain fs bs where "pub_effect p fs bs ins p'" "taken w = bs"
    using pub_run_effect [OF _ _ assms(4)] i assms(3) by auto
  then show ?thesis using i by (intro exI [of _ fs]) (simp add: pub_effect_def list_all_iff)
qed

text \<open>C38.
  A frame starts with the magic \<open>F15I\<close>, version 1, format 1 and the header's size 20, big-endian,
  and carries its number, the rate, the sample count and the samples: a client that reads the
  header and the little-endian floats back gets exactly the samples that were encoded, at most
  \<open>PUBLISHER_MAX_SAMPLES\<close>, whenever they are finite values of the format.\<close>

theorem iq_frame_roundtrip:
  assumes "length xs \<le> PUBLISHER_MAX_SAMPLES"
    and "list_all (\<lambda>s. finite_f32 (i_part s) \<and> finite_f32 (q_part s)) xs"
  shows "let bytes = encode_iq_frame sequence xs PUBLISHER_BUFFER_SIZE
    in length bytes = 20 + 8 * length xs \<and>
       take 8 bytes = [0x46, 0x31, 0x35, 0x49, 1, 1, 0, 20] \<and> load_be32 (drop 8 bytes) = sequence \<and>
       load_be32 (drop 12 bytes) = 48000 \<and> load_be32 (drop 16 bytes) = of_nat (length xs) \<and>
       decode_samples (drop 20 bytes) (length xs) = xs"
proof -
  let ?body = "concat (map sample_words xs)"
  have "encode_iq_frame sequence xs PUBLISHER_BUFFER_SIZE =
      ([0x46, 0x31, 0x35, 0x49, 1, 1] @ store_be16 20) @ store_be32 sequence @ store_be32 48000 @
      store_be32 (of_nat (length xs)) @ ?body"
    using assms(1) by (simp add: encode_iq_frame_def IQ_FRAME_HEADER_SIZE_def PUBLISHER_BUFFER_SIZE_def)
  moreover have "store_be16 20 = [0, 20]" by (simp add: store_be16_def)
  ultimately show ?thesis
    using length_encode [OF assms(1), of sequence] decode_sample_words [OF assms(2), of "[]"]
    by (simp add: Let_def)
qed

lemma publisher_stream_witness:
  "let r = snd (iq_ring_init True \<lparr>i_part = 0, q_part = 0\<rparr> 8);
       ops = [Feed [\<lparr>i_part = 1 / 2, q_part = - 3\<rparr>], Pump, Pump];
       res = pub_run ops \<lparr>answers = [(PublishOk, 5), (PublishWouldBlock, 0)], taken = []\<rparr>
               (the (iq_publisher_init (Some r) 4))
   in \<exists>frames. taken (fst (snd res)) @ unsent (snd (snd res)) = frame_stream 0 frames \<and>
      concat frames @ ring_contents (pub_source (snd (snd res))) = ring_contents r @ fst res"
proof -
  define r where "r = snd (iq_ring_init True \<lparr>i_part = 0, q_part = 0\<rparr> 8)"
  have r: "ring_wf r" "samples r \<noteq> []" by (simp_all add: r_def iq_ring_init_def ring_wf_def)
  then have i: "iq_publisher_init (Some r) 4 = Some (the (iq_publisher_init (Some r) 4))"
    by (simp add: iq_publisher_init_def PUBLISHER_MAX_SAMPLES_def)
  have d: "PublishDisconnected \<notin> fst ` set [(PublishOk, 5 :: nat), (PublishWouldBlock, 0)]" by simp
  define res where "res = pub_run [Feed [\<lparr>i_part = 1 / 2, q_part = - 3\<rparr>], Pump, Pump]
    \<lparr>answers = [(PublishOk, 5), (PublishWouldBlock, 0)], taken = []\<rparr> (the (iq_publisher_init (Some r) 4))"
  have run: "pub_run [Feed [\<lparr>i_part = 1 / 2, q_part = - 3\<rparr>], Pump, Pump]
    \<lparr>answers = [(PublishOk, 5), (PublishWouldBlock, 0)], taken = []\<rparr> (the (iq_publisher_init (Some r) 4)) =
    (fst res, fst (snd res), snd (snd res))" unfolding res_def by (simp only: prod.collapse)
  have "\<exists>frames. taken (fst (snd res)) @ unsent (snd (snd res)) = frame_stream 0 frames \<and>
      concat frames @ ring_contents (pub_source (snd (snd res))) = ring_contents r @ fst res"
    using publisher_stream [OF i r(1) d run] by blast
  then show ?thesis unfolding res_def r_def Let_def .
qed

lemma iq_frame_roundtrip_witness:
  "finite_f32 (1 / 2) \<and> finite_f32 (- 3) \<and>
   decode_samples (drop 20 (encode_iq_frame 7 [\<lparr>i_part = 1 / 2, q_part = - 3\<rparr>] PUBLISHER_BUFFER_SIZE)) 1 =
     [\<lparr>i_part = 1 / 2, q_part = - 3\<rparr>]"
proof -
  have f: "finite_f32 (1 / 2)" "finite_f32 (- 3)"
    using f32_sample [of 16384] f32_int [of "- 3"] by (simp_all add: finite_f32_def pow2_def)
  with iq_frame_roundtrip [of "[\<lparr>i_part = 1 / 2, q_part = - 3\<rparr>]" 7] show ?thesis
    by (simp add: PUBLISHER_MAX_SAMPLES_def Let_def)
qed

end
