(* ===== verification/Api.thy ===== *)
theory Api
  imports Network Sessions
begin

text \<open>
  Model of \<open>src/api.c\<close>: the HTTP API. One call of \<open>api_dispatch\<close> takes one complete request, acts on
  the arbiter, the Tune control, the network session, the station owner and the controller's own
  settings, and returns the action for the server loop with the response text, \<open>None\<close> where the C
  function leaves the response length 0.

  The null tests on the controller's pointers read \<open>has_tune\<close>, \<open>has_network_tx\<close> and \<open>has_station\<close>.
  The receiver callbacks are fields of \<open>api_callbacks\<close>; the arbiter's hardware callbacks are those
  of \<open>Tx_Control\<close>. \<open>sscanf\<close> with \<open>%u\<close> converts like \<open>strtoul\<close> and keeps the low 32 bits.
\<close>

text \<open>Paths are compared as wholes.\<close>

declare starts_with_Cons [simp del]

subsection \<open>State\<close>

record api_controller =
  rx_tuning_enabled :: bool
  iq_stream_active :: bool
  test_page_enabled :: bool
  rx_mode :: string
  rx_bandwidth_hz :: u32
  rx_squelch_db :: int
  tx_drive_percent :: u32
  tx_microphone_gain_db :: u32
  tx_compressor_enabled :: bool
  has_tune :: bool
  request_now_ms :: u64
  next_tune_lease :: u64
  next_tx_lease :: u64
  has_network_tx :: bool
  next_station_lease :: u64
  has_station :: bool

record api_sys = net_sys +
  controller :: api_controller
  station :: station_owner

record 's api_callbacks =
  tune_rx_callback :: "(u32 \<Rightarrow> 's \<Rightarrow> int \<times> u32 \<times> 's) option"
  set_rx_gain_callback :: "(int \<Rightarrow> 's \<Rightarrow> int \<times> 's) option"

datatype api_action =
    ApiResponse | ApiOpenIqStream | ApiServeTestPage | ApiOpenTxStream | ApiPushTxAudio
  | ApiTunedRx | ApiRxTuneFailed

definition map_controller ::
  "(api_controller \<Rightarrow> api_controller) \<Rightarrow> 'x api_sys_scheme \<Rightarrow> 'x api_sys_scheme" where
  "map_controller f s = s\<lparr>controller := f (controller s)\<rparr>"

definition map_station ::
  "(station_owner \<Rightarrow> station_owner) \<Rightarrow> 'x api_sys_scheme \<Rightarrow> 'x api_sys_scheme" where
  "map_station f s = s\<lparr>station := f (station s)\<rparr>"

lemma api_frame [simp, frame_simps]:
  "tx (map_controller f s) = tx s" "tune (map_controller f s) = tune s" "net (map_controller f s) = net s"
  "station (map_controller f s) = station s" "controller (map_controller f s) = f (controller s)"
  "tx (map_station g s) = tx s" "tune (map_station g s) = tune s" "net (map_station g s) = net s"
  "station (map_station g s) = g (station s)" "controller (map_station g s) = controller s"
  "controller (map_tx h s) = controller s" "station (map_tx h s) = station s"
  "controller (map_tune i s) = controller s" "station (map_tune i s) = station s"
  "controller (map_net j s) = controller s" "station (map_net j s) = station s"
  by (simp_all add: map_controller_def map_station_def map_tx_def map_tune_def map_net_def)

definition api_controller_init :: "bool \<Rightarrow> bool \<Rightarrow> bool \<Rightarrow> api_controller" where
  "api_controller_init tuning stream page =
     \<lparr>rx_tuning_enabled = tuning, iq_stream_active = stream, test_page_enabled = page,
      rx_mode = ''am'', rx_bandwidth_hz = 6000, rx_squelch_db = - 120,
      tx_drive_percent = TX_DEFAULT_DRIVE_PERCENT, tx_microphone_gain_db = 10,
      tx_compressor_enabled = False, has_tune = False, request_now_ms = 0, next_tune_lease = 1,
      next_tx_lease = 1, has_network_tx = False, next_station_lease = 1, has_station = False\<rparr>"

definition api_rx_bandwidth :: "api_controller \<Rightarrow> u32" where
  "api_rx_bandwidth c = rx_bandwidth_hz c"

definition mode_bandwidth :: "string \<Rightarrow> u32" where
  "mode_bandwidth mode =
     (if mode = ''fm'' then 12000 else if mode = ''usb'' \<or> mode = ''lsb'' then 2700
      else if mode = ''cw'' then 500 else 6000)"

subsection \<open>Responses\<close>

definition json_response :: "string \<Rightarrow> string \<Rightarrow> nat \<Rightarrow> string option" where
  "json_response status_line body room = fit room (http_text status_line body)"

text \<open>\<open>snprintf\<close> into a local buffer of \<open>n\<close> bytes, and the one-line objects it prints there.\<close>

definition printed :: "nat \<Rightarrow> string \<Rightarrow> string" where "printed n s = take (n - 1) s"

fun json_members :: "(string \<times> conv) list \<Rightarrow> string" where
  "json_members [] = []"
| "json_members [f] = quoted (fst f) @ '':'' @ show_conv (snd f)"
| "json_members (f # fs) = quoted (fst f) @ '':'' @ show_conv (snd f) @ '','' @ json_members fs"

definition json_object :: "(string \<times> conv) list \<Rightarrow> string" where
  "json_object fs = ''{'' @ json_members fs @ ''}'' @ [LF]"

definition not_found :: "nat \<Rightarrow> string option" where
  "not_found room = json_response ''404 Not Found'' (error_body ''not found'') room"

definition transmitter_busy :: "nat \<Rightarrow> string option" where
  "transmitter_busy room = json_response ''409 Conflict'' (error_body ''transmitter_active'') room"

subsection \<open>Request parsing\<close>

definition parse_lease_path :: "string \<Rightarrow> string \<Rightarrow> u64 option" where
  "parse_lease_path request prefix =
     (if \<not> starts_with prefix request then None
      else let start = drop (length prefix) request; (value, rest) = strtoull start
        in if rest = start \<or> value = 0 \<or> \<not> starts_with '' HTTP/'' rest then None else Some value)"

definition parse_uint_setting :: "string \<Rightarrow> string \<Rightarrow> u32 option" where
  "parse_uint_setting request prefix =
     (if \<not> starts_with prefix request then None
      else let start = drop (length prefix) request; (parsed, rest) = strtoull start
        in if rest = start \<or> parsed > 4294967295 \<or> \<not> starts_with '' HTTP/'' rest then None
           else Some (ucast parsed))"

definition parse_tx_timeout_request :: "string \<Rightarrow> u32 option" where
  "parse_tx_timeout_request request = parse_uint_setting request ''PUT /v1/radio/tx-timeout/''"

definition transmitter_active :: "'x api_sys_scheme \<Rightarrow> bool" where
  "transmitter_active s \<longleftrightarrow>
     has_tune (controller s) \<and> tune_bound (tune s) \<and> tx_owner_of (tx s) \<noteq> OwnerNone"

definition request_is :: "string \<Rightarrow> string \<Rightarrow> string \<Rightarrow> bool" where
  "request_is request verb path \<longleftrightarrow>
     (let prefix = verb @ '' '' @ path @ '' HTTP/''
      in length prefix < 160 \<and> starts_with prefix request)"

function request_header :: "string \<Rightarrow> string \<Rightarrow> string option" where
  "request_header line name =
     (if line = [] then None
      else case strstr line CRLF of
        None \<Rightarrow> None
      | Some k \<Rightarrow>
          if k = 0 then None
          else if starts_with_nocase name line \<and> starts_with '':'' (drop (length name) line)
          then Some (dropWhile (\<lambda>c. c = CHR '' '' \<or> c = CHR 0x09) (drop (length name + 1) line))
          else request_header (drop (k + 2) line) name)"
  by pat_completeness auto

termination by (relation "measure (\<lambda>(line, name). length line)") auto

declare request_header.simps [simp del]

definition request_lease :: "string \<Rightarrow> u64 option" where
  "request_lease request =
     (case request_header request ''X-Flex1500-TX-Lease'' of None \<Rightarrow> None
      | Some value \<Rightarrow>
          let (parsed, rest) = strtoull value
          in if rest = value \<or> parsed = 0 \<or> \<not> (starts_with [CR] rest \<or> starts_with [LF] rest)
             then None else Some parsed)"

definition station_request_authorized :: "'x api_sys_scheme \<Rightarrow> string \<Rightarrow> bool" where
  "station_request_authorized s request =
     (if \<not> has_station (controller s) then True
      else if \<not> held (station s) then False
      else case request_header request ''X-Flex1500-Control-Lease'' of None \<Rightarrow> False
        | Some value \<Rightarrow>
            let (lease, rest) = strtoull value
            in rest \<noteq> value \<and> station_owner_matches (station s) lease)"

text \<open>
  The two \<open>sscanf\<close> formats after a key: a quoted word of at most seven characters of a class, and
  an unsigned number. A blank of the format matches any white space.
\<close>

definition scan_word :: "bool \<Rightarrow> string \<Rightarrow> (char \<Rightarrow> bool) \<Rightarrow> string \<Rightarrow> string option" where
  "scan_word blank key cls s =
     (if \<not> starts_with key s then None
      else let r = drop (length key) s; r = (if blank then dropWhile is_space r else r)
        in if \<not> starts_with [DQ] r then None
           else let word = take 7 (takeWhile cls (tl r)) in if word = [] then None else Some word)"

definition scan_uint :: "string \<Rightarrow> string \<Rightarrow> u32 option" where
  "scan_uint key s =
     (if \<not> starts_with key s then None
      else let r = drop (length key) s; (value, rest) = strtoull r
        in if rest = r then None else Some (ucast value))"

definition scan_either :: "(char \<Rightarrow> bool) \<Rightarrow> string \<Rightarrow> string \<Rightarrow> string option" where
  "scan_either cls key s =
     (case scan_word True key cls s of Some w \<Rightarrow> Some w | None \<Rightarrow> scan_word False key cls s)"

definition is_lower :: "char \<Rightarrow> bool" where
  "is_lower c \<longleftrightarrow> 97 \<le> code_of c \<and> code_of c \<le> 122"

definition json_key :: "string \<Rightarrow> string" where "json_key k = quoted k @ '':''"

definition find_key :: "string \<Rightarrow> string \<Rightarrow> string option" where
  "find_key body k = map_option (\<lambda>p. drop p body) (strstr body (json_key k))"

definition parse_tx_profile :: "string \<Rightarrow> network_tx_profile option" where
  "parse_tx_profile request =
     (case strstr request (CRLF @ CRLF) of None \<Rightarrow> None
      | Some p \<Rightarrow>
        let body = drop (p + 4) request;
            text = (\<lambda>cls k. case find_key body k of None \<Rightarrow> None | Some s \<Rightarrow> scan_either cls (json_key k) s);
            number = (\<lambda>k. case find_key body k of None \<Rightarrow> None | Some s \<Rightarrow> scan_uint (json_key k) s)
        in case (text is_lower ''mode'', text is_lower ''source'', number ''drive_percent'',
                 number ''sample_rate'', text (\<lambda>c. is_lower c \<or> is_digit c) ''sample_format'',
                 number ''channels'') of
          (Some mode, Some source, Some drive, Some rate, Some format, Some channels) \<Rightarrow>
            if (mode = ''usb'' \<or> mode = ''lsb'' \<or> mode = ''am'' \<or> mode = ''iq'') \<and>
               (source = ''audio'' \<or> source = ''iq'') \<and>
               (source = ''audio'' \<and> format = ''s16le'' \<and> channels = 1 \<or>
                source = ''iq'' \<and> format = ''cs16le'' \<and> channels = 1)
            then Some \<lparr>profile_mode = (if mode = ''usb'' then NetUsb else if mode = ''lsb'' then NetLsb
                                   else if mode = ''am'' then NetAm else NetIqMode),
                       profile_source = (if source = ''audio'' then SourceAudio else SourceIq),
                       profile_drive_percent = drive, profile_sample_rate = rate\<rparr>
            else None
        | _ \<Rightarrow> None)"

definition tune_error_response :: "tune_result \<Rightarrow> nat \<Rightarrow> string option" where
  "tune_error_response result room =
     json_response
       (case result of TuneBusy \<Rightarrow> ''409 Conflict'' | TuneInvalidLease \<Rightarrow> ''403 Forbidden''
        | TuneDisabled \<Rightarrow> ''404 Not Found'' | _ \<Rightarrow> ''500 Internal Server Error'')
       (printed 128 (error_body (''tune_'' @ tune_result_name result))) room"

subsection \<open>The parts of the dispatch\<close>

text \<open>A fresh lease token: the counter, skipping 0.\<close>

definition next_lease :: "u64 \<Rightarrow> u64 \<times> u64" where
  "next_lease n = (if n = 0 then (n + 1, n + 2) else (n, n + 1))"

type_synonym 's api_result = "api_action \<times> string option \<times> (u32 \<times> u32) option \<times> 's"

definition respond :: "string option \<Rightarrow> 's \<Rightarrow> 's api_result" where
  "respond text s = (ApiResponse, text, None, s)"

definition path_owner :: "string \<Rightarrow> bool" where
  "path_owner request \<longleftrightarrow> request_is request ''POST'' ''/v1/control/owner'' \<or>
     request_is request ''PUT'' ''/v1/control/owner/keepalive'' \<or>
     request_is request ''DELETE'' ''/v1/control/owner''"

definition dispatch_owner :: "string \<Rightarrow> nat \<Rightarrow> 'x api_sys_scheme \<Rightarrow> 'x api_sys_scheme api_result" where
  "dispatch_owner request room s =
     (if \<not> has_station (controller s) then respond (not_found room) s
      else
        let acquire = request_is request ''POST'' ''/v1/control/owner'';
            keepalive = request_is request ''PUT'' ''/v1/control/owner/keepalive'';
            release = request_is request ''DELETE'' ''/v1/control/owner'';
            now = request_now_ms (controller s);
            answer = (\<lambda>result lease s. respond
              (if result = StationOk
               then json_response (if acquire then ''201 Created'' else ''200 OK'')
                 (printed 128 (json_object
                   [(''owner'', Bool (\<not> release)), (''lease'', U64 lease),
                    (''mode_aware'', Bool (release \<or> mode_aware (station s)))])) room
               else json_response (if result = StationBusy then ''409 Conflict'' else ''410 Gone'')
                 (printed 128 (error_body (''owner_'' @
                   (if result = StationBusy then ''busy'' else ''stale'')))) room) s)
        in if acquire
           then
             let aware = (case request_header request ''X-Flex1500-Mode-Aware'' of None \<Rightarrow> True
                          | Some v \<Rightarrow> \<not> starts_with_nocase ''false'' v);
                 (lease, next) = next_lease (next_station_lease (controller s));
                 s = map_controller (\<lambda>c. c\<lparr>next_station_lease := next\<rparr>) s;
                 (result, ow) = station_owner_acquire_with_mode lease now aware (station s)
             in answer result lease (map_station (\<lambda>_. ow) s)
           else
             let lease = (case request_header request ''X-Flex1500-Control-Lease'' of None \<Rightarrow> 0
                          | Some v \<Rightarrow> fst (strtoull v))
             in if release \<and> transmitter_active s then respond (transmitter_busy room) s
                else
                  let (result, ow) = (if keepalive then station_owner_keepalive lease now (station s)
                                      else station_owner_release lease (station s))
                  in answer result lease (map_station (\<lambda>_. ow) s))"

definition count_refusal :: "'x api_sys_scheme \<Rightarrow> 'x api_sys_scheme" where
  "count_refusal = map_diagnostics count_rejected"

definition tx_frequency_allowed :: "radio_info \<Rightarrow> network_tx_profile \<Rightarrow> bool" where
  "tx_frequency_allowed radio p \<longleftrightarrow> ri_frequency_known radio \<and>
     (if profile_source p = SourceIq then network_iq_frequency_allowed (ri_frequency_hz radio)
      else if profile_mode p = NetAm then am_frequency_allowed (ri_frequency_hz radio)
      else physical_mic_frequency_allowed (ri_frequency_hz radio) (profile_mode p = NetUsb))"

definition dispatch_audio ::
  "string \<Rightarrow> u64 \<Rightarrow> u64 \<Rightarrow> 'x api_sys_scheme \<Rightarrow> network_tx_result \<times> 'x api_sys_scheme" where
  "dispatch_audio request lease now s =
     (case (strstr request (CRLF @ CRLF), request_header request ''Content-Length'') of
        (Some _, Some v) \<Rightarrow>
          (case scan_uint [] v of None \<Rightarrow> (NetInvalid, s)
           | Some bytes \<Rightarrow>
               if bytes > 0 \<and> bytes \<le> 9600 \<and> bytes mod 2 = 0 \<and>
                  profile_source (profile (net s)) = SourceAudio
               then
                 let (result, s) = (if \<not> stream_connected (net s)
                                    then network_tx_attach_stream lease now s else (NetOk, s))
                 in if result = NetOk
                    then network_tx_record_data lease (unat (bytes div 2)) now s else (result, s)
               else (NetInvalid, s))
      | _ \<Rightarrow> (NetInvalid, s))"

definition path_tx :: "string \<Rightarrow> bool" where
  "path_tx request \<longleftrightarrow> starts_with ''POST /v1/tx/'' request \<or> starts_with ''PUT /v1/tx/'' request \<or>
     starts_with ''CONNECT /v1/tx/'' request \<or> starts_with ''DELETE /v1/tx/'' request"

definition tx_create :: "string \<Rightarrow> 'x api_sys_scheme \<Rightarrow> network_tx_result \<times> u64 \<times> 'x api_sys_scheme" where
  "tx_create request s =
     (case (request_header request ''Content-Type'', parse_tx_profile request) of
        (Some v, Some p) \<Rightarrow>
          if starts_with_nocase ''application/json'' v
          then
            let (lease, next) = next_lease (next_tx_lease (controller s));
                s = map_controller (\<lambda>c. c\<lparr>next_tx_lease := next\<rparr>) s;
                (result, s) = network_tx_acquire p lease (request_now_ms (controller s)) s
            in (result, lease, s)
          else (NetInvalid, 0, s)
      | _ \<Rightarrow> (NetInvalid, 0, s))"

definition tx_command ::
  "('x api_sys_scheme) tx_callbacks \<Rightarrow> string \<Rightarrow> radio_info \<Rightarrow> u64 \<Rightarrow> 'x api_sys_scheme \<Rightarrow>
   network_tx_result \<times> 'x api_sys_scheme" where
  "tx_command cb request radio lease s =
     (let now = request_now_ms (controller s)
      in if request_is request ''PUT'' ''/v1/tx/sessions/keepalive''
         then network_tx_keepalive lease now s
         else if request_is request ''CONNECT'' ''/v1/tx/stream''
         then network_tx_attach_stream lease now s
         else if request_is request ''PUT'' ''/v1/tx/ptt/start''
         then (if tx_frequency_allowed radio (profile (net s))
               then network_tx_ptt_start cb lease now s else (NetInvalid, s))
         else if request_is request ''PUT'' ''/v1/tx/ptt/stop'' then network_tx_ptt_stop cb lease s
         else if request_is request ''DELETE'' ''/v1/tx/sessions/current''
         then network_tx_release cb lease s
         else if request_is request ''POST'' ''/v1/tx/audio''
         then dispatch_audio request lease now s
         else (NetInvalid, s))"

definition tx_status_line :: "network_tx_result \<Rightarrow> string" where
  "tx_status_line result =
     (case result of NetDisabled \<Rightarrow> ''404 Not Found'' | NetBusy \<Rightarrow> ''409 Conflict''
      | NetNotReady \<Rightarrow> ''409 Conflict'' | NetStale \<Rightarrow> ''410 Gone''
      | NetHardwareError \<Rightarrow> ''500 Internal Server Error''
      | NetInvalid \<Rightarrow> ''422 Unprocessable Content'' | _ \<Rightarrow> ''400 Bad Request'')"

definition dispatch_tx ::
  "('x api_sys_scheme) tx_callbacks \<Rightarrow> string \<Rightarrow> radio_info \<Rightarrow> nat \<Rightarrow> 'x api_sys_scheme \<Rightarrow>
   'x api_sys_scheme api_result" where
  "dispatch_tx cb request radio room s =
     (if \<not> has_network_tx (controller s) \<or> \<not> net_enabled (net s) then respond (not_found room) s
      else
        let create = request_is request ''POST'' ''/v1/tx/sessions'';
            stream = request_is request ''CONNECT'' ''/v1/tx/stream'';
            audio = request_is request ''POST'' ''/v1/tx/audio'';
            (result, lease, s) =
              (if create then tx_create request s
               else case request_lease request of None \<Rightarrow> (NetInvalid, 0, s)
                 | Some lease \<Rightarrow> let (result, s) = tx_command cb request radio lease s
                     in (result, lease, s))
        in if result = NetOk \<and> stream then (ApiOpenTxStream, None, None, s)
           else if result = NetOk \<and> audio
           then (ApiPushTxAudio, json_response ''200 OK'' (json_object [(''accepted'', Bool True)]) room,
                 None, s)
           else
             let s = (if result = NetBusy \<or> result = NetStale then count_refusal s else s)
             in respond
               (if result = NetOk \<and> create
                then json_response ''201 Created'' (printed 256 (json_object
                  [(''lease'', U64 lease), (''state'', Str ''reserved''),
                   (''lease_timeout_ms'', U64 NETWORK_TX_LEASE_MS)])) room
                else if result = NetOk
                then json_response ''200 OK'' (printed 256 (json_object
                  [(''state'', Str (if net_keyed (net s) then ''transmitting'' else ''reserved''))])) room
                else json_response (tx_status_line result)
                  (printed 256 (error_body (''tx_'' @ network_tx_result_name result))) room) s)"

text \<open>The guards every transmit setting shares: a transmit-enabled daemon that is not transmitting.\<close>

definition tx_setting_guard :: "'x api_sys_scheme \<Rightarrow> nat \<Rightarrow> string option option" where
  "tx_setting_guard s room =
     (if \<not> has_tune (controller s) \<or> \<not> tune_bound (tune s) \<or> \<not> tx_enabled (tx s)
      then Some (not_found room)
      else if transmitter_active s then Some (transmitter_busy room)
      else None)"

definition dispatch_compressor :: "string \<Rightarrow> nat \<Rightarrow> 'x api_sys_scheme \<Rightarrow> 'x api_sys_scheme api_result" where
  "dispatch_compressor request room s =
     (let on = starts_with ''PUT /v1/radio/tx-compressor/on HTTP/'' request;
          off = starts_with ''PUT /v1/radio/tx-compressor/off HTTP/'' request
      in if \<not> on \<and> \<not> off
         then respond (json_response ''400 Bad Request'' (error_body ''invalid_tx_compressor'') room) s
         else case tx_setting_guard s room of Some refusal \<Rightarrow> respond refusal s
           | None \<Rightarrow> respond (json_response ''200 OK'' (json_object [(''tx_compressor_enabled'', Bool on)]) room)
               (map_controller (\<lambda>c. c\<lparr>tx_compressor_enabled := on\<rparr>) s))"

definition dispatch_tx_setting :: "string \<Rightarrow> nat \<Rightarrow> 'x api_sys_scheme \<Rightarrow> 'x api_sys_scheme api_result" where
  "dispatch_tx_setting request room s =
     (let drive = starts_with ''PUT /v1/radio/tx-drive/'' request;
          parsed = (if drive then parse_uint_setting request ''PUT /v1/radio/tx-drive/''
                    else parse_uint_setting request ''PUT /v1/radio/mic-gain/'');
          maximum = (if drive then TX_MAX_DRIVE_PERCENT else 70)
      in case parsed of
           None \<Rightarrow> respond (json_response ''400 Bad Request'' (error_body ''invalid_tx_setting'') room) s
         | Some v \<Rightarrow>
             if drive \<and> v < TX_MIN_DRIVE_PERCENT \<or> v > maximum
             then respond (json_response ''400 Bad Request'' (error_body ''invalid_tx_setting'') room) s
             else case tx_setting_guard s room of Some refusal \<Rightarrow> respond refusal s
               | None \<Rightarrow>
                   if drive
                   then respond (json_response ''200 OK'' (printed 96 (json_object [(''tx_drive_percent'', U32 v)])) room)
                     (map_controller (\<lambda>c. c\<lparr>tx_drive_percent := v\<rparr>) s)
                   else respond (json_response ''200 OK'' (printed 96 (json_object [(''tx_microphone_gain_db'', U32 v)])) room)
                     (map_controller (\<lambda>c. c\<lparr>tx_microphone_gain_db := v\<rparr>) s))"

definition dispatch_timeout :: "string \<Rightarrow> nat \<Rightarrow> 'x api_sys_scheme \<Rightarrow> 'x api_sys_scheme api_result" where
  "dispatch_timeout request room s =
     (let invalid = respond (json_response ''400 Bad Request'' (error_body ''invalid_tx_timeout'') room) s
      in case parse_tx_timeout_request request of None \<Rightarrow> invalid
         | Some seconds \<Rightarrow>
             if seconds < TX_TIMEOUT_MIN_SECONDS \<or> seconds > TX_TIMEOUT_MAX_SECONDS then invalid
             else if \<not> has_tune (controller s) \<or> \<not> tune_bound (tune s) \<or> \<not> tx_enabled (tx s)
             then respond (not_found room) s
             else if tx_owner_of (tx s) \<noteq> OwnerNone then respond (transmitter_busy room) s
             else if \<not> fst (tx_control_set_timeout_seconds seconds (tx s))
             then respond (json_response ''500 Internal Server Error''
               (error_body ''tx_timeout_change_failed'') room) s
             else respond (json_response ''200 OK'' (printed 96 (json_object [(''tx_timeout_seconds'', U32 seconds)])) room)
               (map_tx (\<lambda>c. snd (tx_control_set_timeout_seconds seconds c)) s))"

definition dispatch_tune ::
  "('x api_sys_scheme) tx_callbacks \<Rightarrow> string \<Rightarrow> radio_info \<Rightarrow> nat \<Rightarrow> 'x api_sys_scheme \<Rightarrow>
   'x api_sys_scheme api_result" where
  "dispatch_tune cb request radio room s =
     (if \<not> has_tune (controller s) then respond (not_found room) s
      else
        let now = request_now_ms (controller s);
            answer = (\<lambda>ok result s. respond
              (if result = TuneOk then json_response ''200 OK'' ok room
               else tune_error_response result room) s)
        in if starts_with ''PUT /v1/radio/tune/start HTTP/'' request
           then
             if \<not> ri_frequency_known radio \<or> \<not> tune_frequency_allowed (ri_frequency_hz radio)
             then respond (json_response ''422 Unprocessable Content''
               (error_body ''tx_frequency_not_allowed'') room) (count_refusal s)
             else
               let (lease, next) = next_lease (next_tune_lease (controller s));
                   s = map_controller (\<lambda>c. c\<lparr>next_tune_lease := next\<rparr>) s;
                   (result, s) = tune_control_start cb now lease s
               in answer (printed 192 (json_object [(''tune_active'', Bool True), (''lease'', U64 lease),
                    (''lease_timeout_ms'', U64 TUNE_LEASE_MS), (''hard_limit_ms'', U64 TUNE_HARD_LIMIT_MS)]))
                    result s
           else case parse_lease_path request ''PUT /v1/radio/tune/keepalive/'' of
             Some lease \<Rightarrow> (case tune_control_keepalive cb now lease s of (result, s) \<Rightarrow>
               answer (json_object [(''tune_active'', Bool True)]) result s)
           | None \<Rightarrow>
             case parse_lease_path request ''PUT /v1/radio/tune/stop/'' of
               Some lease \<Rightarrow> (case tune_control_stop cb lease s of (result, s) \<Rightarrow>
                 answer (json_object [(''tune_active'', Bool False)]) result s)
             | None \<Rightarrow> respond (tune_error_response TuneInvalidLease room) s)"

definition presented_radio :: "'x api_sys_scheme \<Rightarrow> radio_info \<Rightarrow> radio_info" where
  "presented_radio s radio =
     (let c = controller s;
          r = radio\<lparr>ri_rx_tuning_enabled := rx_tuning_enabled c, ri_rx_mode := Some (rx_mode c),
                    ri_rx_bandwidth_hz := api_rx_bandwidth c, ri_rx_squelch_db := rx_squelch_db c\<rparr>;
          r = (if has_tune c \<and> tune_bound (tune s)
               then r\<lparr>ri_tx_timeout_seconds := tx_control_timeout_seconds (tx s),
                      ri_tx_owner := Some (tx_owner_name (tx_owner_of (tx s))),
                      ri_tx_state := Some (tx_state_name (tx_state_of (tx s)))\<rparr>
               else r);
          r = (if has_network_tx c
               then r\<lparr>ri_network_tx_reserved := reserved (net s),
                      ri_network_tx_stream_connected := stream_connected (net s)\<rparr>
               else r)
      in r\<lparr>ri_tx_drive_percent := tx_drive_percent c, ri_tx_microphone_gain_db := tx_microphone_gain_db c,
           ri_tx_compressor_enabled := tx_compressor_enabled c\<rparr>)"

definition dispatch_page ::
  "string \<Rightarrow> service_status \<Rightarrow> radio_info \<Rightarrow> nat \<Rightarrow> 'x api_sys_scheme \<Rightarrow> 'x api_sys_scheme api_result" where
  "dispatch_page request status radio room s =
     (case (build_status_json status 4096, build_radio_json (presented_radio s radio) 1024) of
        (Some status_json, Some radio_json) \<Rightarrow>
          respond (build_http_response request status_json radio_json room) s
      | _ \<Rightarrow> respond None s)"

definition dispatch_frequency ::
  "'x api_sys_scheme api_callbacks \<Rightarrow> u32 \<Rightarrow> nat \<Rightarrow> 'x api_sys_scheme \<Rightarrow> 'x api_sys_scheme api_result" where
  "dispatch_frequency acb frequency room s =
     (let failed = printed 256 (error_body ''RX tune failed'')
      in case (rx_filter_for_frequency frequency, tune_rx_callback acb) of
        (Some _, Some tune_rx) \<Rightarrow>
          (case tune_rx frequency s of (result, flt, s) \<Rightarrow>
             if result = 0
             then (ApiTunedRx, json_response ''200 OK'' (printed 256 (json_object
                    [(''frequency_hz'', U32 frequency), (''rx_filter'', U32 flt)])) room,
                   Some (frequency, flt), s)
             else (ApiRxTuneFailed, json_response ''500 Internal Server Error'' failed room, None, s))
      | _ \<Rightarrow> respond (json_response ''400 Bad Request'' failed room) s)"

definition dispatch_rx ::
  "'x api_sys_scheme api_callbacks \<Rightarrow> string \<Rightarrow> service_status \<Rightarrow> radio_info \<Rightarrow> nat \<Rightarrow>
   'x api_sys_scheme \<Rightarrow> 'x api_sys_scheme api_result" where
  "dispatch_rx acb request status radio room s =
     (let c = controller s;
          frequency = parse_rx_frequency_request request;
          mode = parse_rx_mode_request request;
          bandwidth = parse_rx_bandwidth_request request;
          squelch = parse_rx_squelch_request request;
          gain = parse_rx_gain_request request
      in if (frequency \<noteq> None \<or> mode \<noteq> None \<or> bandwidth \<noteq> None) \<and> transmitter_active s
         then respond (transmitter_busy room) s
         else if frequency \<noteq> None \<and> rx_tuning_enabled c \<and> tune_rx_callback acb \<noteq> None
         then dispatch_frequency acb (the frequency) room s
         else if mode \<noteq> None \<and> iq_stream_active c
         then
           let s = map_controller (\<lambda>c. c\<lparr>rx_mode := the mode, rx_bandwidth_hz := mode_bandwidth (the mode)\<rparr>) s
           in respond (json_response ''200 OK'' (printed 128 (json_object
                [(''rx_mode'', Str (the mode)), (''rx_bandwidth_hz'', U32 (api_rx_bandwidth (controller s)))])) room) s
         else if bandwidth \<noteq> None \<and> iq_stream_active c
         then respond (json_response ''200 OK'' (printed 96 (json_object
                [(''rx_bandwidth_hz'', U32 (the bandwidth))])) room)
                (map_controller (\<lambda>c. c\<lparr>rx_bandwidth_hz := the bandwidth\<rparr>) s)
         else if squelch \<noteq> None \<and> iq_stream_active c
         then respond (json_response ''200 OK'' (printed 96 (json_object
                [(''rx_squelch_db'', I32 (the squelch))])) room)
                (map_controller (\<lambda>c. c\<lparr>rx_squelch_db := the squelch\<rparr>) s)
         else if gain \<noteq> None \<and> rx_tuning_enabled c \<and> set_rx_gain_callback acb \<noteq> None
         then (case the (set_rx_gain_callback acb) (the gain) s of (result, s) \<Rightarrow>
           respond (if result = 0
             then json_response ''200 OK'' (printed 128 (json_object [(''rx_gain_db'', I32 (the gain))])) room
             else json_response ''500 Internal Server Error'' (error_body ''RX gain change failed'') room) s)
         else if starts_with ''PUT /v1/radio/frequency/'' request \<or>
                 starts_with ''PUT /v1/radio/mode/'' request \<or>
                 starts_with ''PUT /v1/radio/gain/'' request \<or>
                 starts_with ''PUT /v1/radio/bandwidth/'' request \<or>
                 starts_with ''PUT /v1/radio/squelch/'' request
         then respond (not_found room) s
         else if starts_with ''GET /v1/stream/iq '' request \<and> iq_stream_active c
         then (ApiOpenIqStream, None, None, s)
         else if starts_with ''GET /test HTTP/'' request \<and> test_page_enabled c
         then (ApiServeTestPage, None, None, s)
         else dispatch_page request status radio room s)"

subsection \<open>The dispatch\<close>

definition path_tune :: "string \<Rightarrow> bool" where
  "path_tune request \<longleftrightarrow> starts_with ''PUT /v1/radio/tune/'' request"

definition path_tx_setting :: "string \<Rightarrow> bool" where
  "path_tx_setting request \<longleftrightarrow> starts_with ''PUT /v1/radio/tx-drive/'' request \<or>
     starts_with ''PUT /v1/radio/mic-gain/'' request"

definition path_timeout :: "string \<Rightarrow> bool" where
  "path_timeout request \<longleftrightarrow> starts_with ''PUT /v1/radio/tx-timeout/'' request"

definition path_compressor :: "string \<Rightarrow> bool" where
  "path_compressor request \<longleftrightarrow> starts_with ''PUT /v1/radio/tx-compressor/'' request"

definition station_controlled :: "string \<Rightarrow> bool" where
  "station_controlled request \<longleftrightarrow> path_tx request \<or> path_tune request \<or>
     starts_with ''PUT /v1/radio/frequency/'' request \<or> starts_with ''PUT /v1/radio/mode/'' request \<or>
     starts_with ''PUT /v1/radio/gain/'' request \<or> starts_with ''PUT /v1/radio/bandwidth/'' request \<or>
     path_tx_setting request \<or> path_timeout request \<or> path_compressor request"

definition api_dispatch ::
  "('x api_sys_scheme) tx_callbacks \<Rightarrow> 'x api_sys_scheme api_callbacks \<Rightarrow> string \<Rightarrow> service_status \<Rightarrow>
   radio_info \<Rightarrow> nat \<Rightarrow> 'x api_sys_scheme \<Rightarrow> 'x api_sys_scheme api_result" where
  "api_dispatch cb acb request status radio room s =
     (if path_owner request then dispatch_owner request room s
      else if station_controlled request \<and> \<not> station_request_authorized s request
      then respond (json_response ''409 Conflict'' (error_body ''station_owned'') room) s
      else if path_tx request then dispatch_tx cb request radio room s
      else if path_compressor request then dispatch_compressor request room s
      else if path_tx_setting request then dispatch_tx_setting request room s
      else if path_timeout request then dispatch_timeout request room s
      else if path_tune request then dispatch_tune cb request radio room s
      else dispatch_rx acb request status radio room s)"

subsection \<open>What a request can reach\<close>

abbreviation result_state :: "'s api_result \<Rightarrow> 's" where "result_state r \<equiv> snd (snd (snd r))"

lemma respond_state [simp]: "result_state (respond text s) = s"
  by (simp add: respond_def)

lemma strtoull_unconverted: "snd (strtoull s) = s \<Longrightarrow> fst (strtoull s) = 0"
proof (rule ccontr)
  assume eq: "snd (strtoull s) = s" and nz: "fst (strtoull s) \<noteq> 0"
  define t where "t = dropWhile is_space s"
  define u where "u = (if t \<noteq> [] \<and> (hd t = CHR ''-'' \<or> hd t = CHR ''+'') then tl t else t)"
  have ds: "takeWhile is_digit u \<noteq> []"
    using nz unfolding strtoull_def Let_def t_def [symmetric] u_def [symmetric] by (auto split: if_splits)
  then have "length (snd (strtoull s)) = length u - length (takeWhile is_digit u)"
    unfolding strtoull_def Let_def t_def [symmetric] u_def [symmetric] by simp
  moreover have "length u \<le> length s"
    using length_dropWhile_le [of is_space s] by (auto simp: u_def t_def)
  moreover have "0 < length u" "0 < length (takeWhile is_digit u)" using ds by auto
  ultimately have "length (snd (strtoull s)) < length s" by linarith
  with eq show False by simp
qed

text \<open>The token a request carries in its control header.\<close>

definition control_lease :: "string \<Rightarrow> u64" where
  "control_lease request =
     (case request_header request ''X-Flex1500-Control-Lease'' of None \<Rightarrow> 0 | Some v \<Rightarrow> fst (strtoull v))"

lemma authorized_iff:
  "has_station (controller s) \<Longrightarrow>
     station_request_authorized s request \<longleftrightarrow> station_owner_matches (station s) (control_lease request)"
  using strtoull_unconverted
  by (auto simp: station_request_authorized_def control_lease_def station_owner_matches_def
    case_prod_beta split: option.splits)

lemma parse_needs_path:
  "parse_rx_frequency_request request \<noteq> None \<Longrightarrow> starts_with ''PUT /v1/radio/frequency/'' request"
  "parse_rx_bandwidth_request request \<noteq> None \<Longrightarrow> starts_with ''PUT /v1/radio/bandwidth/'' request"
  "parse_rx_mode_request request \<noteq> None \<Longrightarrow> starts_with ''PUT /v1/radio/mode/'' request"
  "parse_rx_gain_request request \<noteq> None \<Longrightarrow> starts_with ''PUT /v1/radio/gain/'' request"
  by (auto simp: parse_rx_frequency_request_def parse_rx_bandwidth_request_def parse_rx_mode_request_def
    parse_rx_gain_request_def parse_u32_path_def parse_word_def
    split: if_splits option.splits)

lemma dispatch_page_state [simp]: "result_state (dispatch_page request status radio room s) = s"
  by (simp add: dispatch_page_def split: option.split)

text \<open>The counter of station tokens and the squelch, which need no lease.\<close>

definition open_settings :: "api_controller \<Rightarrow> api_controller \<Rightarrow> api_controller" where
  "open_settings c' c = c\<lparr>next_station_lease := next_station_lease c', rx_squelch_db := rx_squelch_db c'\<rparr>"

lemma map_controller_id: "f (controller s) = controller s \<Longrightarrow> map_controller f s = s"
  by (simp add: map_controller_def)

lemma map_station_id: "g (station s) = station s \<Longrightarrow> map_station g s = s"
  by (simp add: map_station_def)

lemma dispatch_owner_foreign:
  assumes "has_station (controller s)" and "held (station s)"
    and "\<not> station_owner_matches (station s) (control_lease request)"
  shows "\<exists>n. result_state (dispatch_owner request room s) =
    map_controller (\<lambda>c. c\<lparr>next_station_lease := n\<rparr>) s"
proof -
  have idle: "s = map_controller (\<lambda>c. c\<lparr>next_station_lease := next_station_lease (controller s)\<rparr>) s"
    by (simp add: map_controller_id)
  have busy: "snd (station_owner_acquire_with_mode l now aware (station s)) = station s" for l now aware
    using assms(2) by (simp add: station_owner_acquire_with_mode_def)
  have stale: "snd (station_owner_keepalive (control_lease request) now (station s)) = station s"
    "snd (station_owner_release (control_lease request) (station s)) = station s" for now
    using assms(3) by (simp_all add: station_owner_keepalive_def station_owner_release_def)
  have keep: "map_station (\<lambda>_. station s) (map_controller f s) = map_controller f s"
    "map_station (\<lambda>_. station s) s = s" for f by (simp_all add: map_station_id)
  show ?thesis
    using assms(1) idle
    by (auto simp: dispatch_owner_def Let_def case_prod_beta control_lease_def [symmetric] busy stale keep
      intro: exI)
qed

subsection \<open>The contract with the daemon\<close>

text \<open>What is settled before a transmission and must not change during it.\<close>

definition same_settings :: "api_controller \<Rightarrow> api_controller \<Rightarrow> bool" where
  "same_settings c c' \<longleftrightarrow> rx_mode c' = rx_mode c \<and> rx_bandwidth_hz c' = rx_bandwidth_hz c \<and>
     tx_drive_percent c' = tx_drive_percent c \<and> tx_microphone_gain_db c' = tx_microphone_gain_db c \<and>
     tx_compressor_enabled c' = tx_compressor_enabled c"

definition kept :: "'x api_sys_scheme \<Rightarrow> 'x api_sys_scheme \<Rightarrow> bool" where
  "kept s t \<longleftrightarrow> same_settings (controller s) (controller t) \<and>
     maximum_key_ms (tx t) = maximum_key_ms (tx s)"

lemma kept_refl [simp]: "kept s s"
  by (simp add: kept_def same_settings_def)

lemma kept_trans: "kept s t \<Longrightarrow> kept t u \<Longrightarrow> kept s u"
  by (simp add: kept_def same_settings_def)

lemma kept_map [simp]:
  "kept s (map_tune f t) = kept s t" "kept s (map_net g t) = kept s t"
  "kept s (map_diagnostics h t) = kept s t" "kept s (map_station i t) = kept s t"
  "kept s (count_refusal t) = kept s t"
  by (simp_all add: kept_def count_refusal_def map_diagnostics_def)

lemma kept_leases [simp]:
  "kept s (map_controller (\<lambda>c. c\<lparr>next_tune_lease := n\<rparr>) t) = kept s t"
  "kept s (map_controller (\<lambda>c. c\<lparr>next_tx_lease := n\<rparr>) t) = kept s t"
  "kept s (map_controller (\<lambda>c. c\<lparr>next_station_lease := n\<rparr>) t) = kept s t"
  "kept s (map_controller (\<lambda>c. c\<lparr>rx_squelch_db := i\<rparr>) t) = kept s t"
  by (simp_all add: kept_def same_settings_def)

text \<open>
  The daemon's callbacks act on the radio and the counters only, and everything else the API does
  to the system is a call of the arbiter, the Tune control or the network session.
\<close>

locale api_backend =
  session_backend cb env keyed tracked
  for cb :: "('x api_sys_scheme) tx_callbacks" and env keyed tracked +
  fixes acb :: "'x api_sys_scheme api_callbacks"
  assumes env_controller: "env s (map_controller f s)"
    and env_station: "env s (map_station g s)"
    and env_diagnostics: "env s (map_diagnostics h s)"
    and env_tune_rx: "tune_rx_callback acb = Some t \<Longrightarrow> env s (snd (snd (t fr s)))"
    and env_gain: "set_rx_gain_callback acb = Some u \<Longrightarrow> env s (snd (u gain s))"
    and start_controller: "controller (snd (call_start cb ow s)) = controller s"
    and stop_controller: "controller (snd (call_stop cb ow graceful s)) = controller s"
    and gain_controller: "set_rx_gain_callback acb = Some u \<Longrightarrow> controller (snd (u gain s)) = controller s"
begin

abbreviation reach where "reach s0 s \<equiv> session_reachable cb env s0 s"

lemma reach_env: "reach s0 s \<Longrightarrow> env s s' \<Longrightarrow> reach s0 s'"
  by (blast intro: session_reachable.Step session_step.Env)

lemma reach_map:
  "reach s0 s \<Longrightarrow> reach s0 (map_controller f s)"
  "reach s0 s \<Longrightarrow> reach s0 (map_station g s)"
  "reach s0 s \<Longrightarrow> reach s0 (count_refusal s)"
  by (auto intro: reach_env env_controller env_station env_diagnostics simp: count_refusal_def)

text \<open>The calls of the sessions, one step each.\<close>

lemma reach_steps:
  assumes "reach s0 s"
  shows "reach s0 (snd (tune_control_start cb now l s))"
    "reach s0 (snd (tune_control_keepalive cb now l s))"
    "reach s0 (snd (tune_control_stop cb l s))"
    "reach s0 (map_tx (\<lambda>c. snd (tx_control_set_timeout_seconds seconds c)) s)"
    "reach s0 (snd (network_tx_acquire p l now s))"
    "reach s0 (snd (network_tx_keepalive l now s))"
    "reach s0 (snd (network_tx_attach_stream l now s))"
    "reach s0 (snd (network_tx_record_data l frames now s))"
    "reach s0 (snd (network_tx_ptt_start cb l now s))"
    "reach s0 (snd (network_tx_ptt_stop cb l s))"
    "reach s0 (snd (network_tx_release cb l s))"
  using assms by (blast intro: session_reachable.Step session_step.intros)+

lemma reach_owner:
  "reach s0 s \<Longrightarrow> reach s0 (result_state (dispatch_owner request room s))"
  by (simp add: dispatch_owner_def Let_def case_prod_beta reach_map)

lemma reach_audio:
  "reach s0 s \<Longrightarrow> reach s0 (snd (dispatch_audio request l now s))"
  by (simp add: dispatch_audio_def Let_def case_prod_beta reach_steps split: option.split)

lemma reach_create:
  "reach s0 s \<Longrightarrow> reach s0 (snd (snd (tx_create request s)))"
  by (simp add: tx_create_def Let_def case_prod_beta reach_map reach_steps split: option.split)

lemma reach_command:
  "reach s0 s \<Longrightarrow> reach s0 (snd (tx_command cb request radio l s))"
  by (simp add: tx_command_def Let_def case_prod_beta reach_steps reach_audio)

lemma reach_tx:
  "reach s0 s \<Longrightarrow> reach s0 (result_state (dispatch_tx cb request radio room s))"
  using reach_create [of s0 s request] reach_command [of s0 s request radio]
  by (simp add: dispatch_tx_def Let_def case_prod_beta reach_map split: option.split)

lemma reach_tune:
  "reach s0 s \<Longrightarrow> reach s0 (result_state (dispatch_tune cb request radio room s))"
  by (simp add: dispatch_tune_def Let_def case_prod_beta reach_map reach_steps split: option.split)

lemma reach_settings:
  assumes "reach s0 s"
  shows "reach s0 (result_state (dispatch_compressor request room s))"
    "reach s0 (result_state (dispatch_tx_setting request room s))"
    "reach s0 (result_state (dispatch_timeout request room s))"
  using assms
  by (simp_all add: dispatch_compressor_def dispatch_tx_setting_def dispatch_timeout_def Let_def
    reach_map reach_steps split: option.split)

lemma reach_callbacks:
  "reach s0 s \<Longrightarrow> tune_rx_callback acb = Some t \<Longrightarrow> reach s0 (snd (snd (t fr s)))"
  "reach s0 s \<Longrightarrow> set_rx_gain_callback acb = Some u \<Longrightarrow> reach s0 (snd (u gain s))"
  using env_tune_rx env_gain reach_env by blast+

lemma reach_frequency:
  "reach s0 s \<Longrightarrow> reach s0 (result_state (dispatch_frequency acb f room s))"
  by (simp add: dispatch_frequency_def Let_def case_prod_beta reach_callbacks split: option.split)

lemma reach_rx:
  "reach s0 s \<Longrightarrow> reach s0 (result_state (dispatch_rx acb request status radio room s))"
  by (cases "set_rx_gain_callback acb")
    (simp_all add: dispatch_rx_def Let_def case_prod_beta reach_frequency reach_map reach_callbacks)

text \<open>So a request takes the system through states the loop's calls can reach.\<close>

lemma reach_dispatch:
  "reach s0 s \<Longrightarrow> reach s0 (result_state (api_dispatch cb acb request status radio room s))"
  by (simp add: api_dispatch_def reach_owner reach_tx reach_settings reach_tune reach_rx)

text \<open>A transmission in progress is not retuned, reconfigured or given another limit.\<close>

lemma kept_stop_owner: "kept s (snd (tx_stop_owner cb g s))"
  using stop_controller [of "tx_owner_of (tx s)" g "map_tx (\<lambda>c. c\<lparr>tx_state_of := StateUnkeying\<rparr>) s"]
    stop_frame [of "tx_owner_of (tx s)" g "map_tx (\<lambda>c. c\<lparr>tx_state_of := StateUnkeying\<rparr>) s"]
  by (simp add: tx_stop_owner_def Let_def case_prod_beta kept_def same_settings_def)

lemma kept_request: "kept s (snd (tx_control_request cb ow now s))"
proof (cases rule: request_cases [of cb ow now s])
  case (refused r)
  then show ?thesis by simp
next
  case (started s2)
  then show ?thesis
    using start_controller [of ow "preparing s"] start_frame [of ow "preparing s"]
    by (simp add: kept_def same_settings_def preparing_def)
next
  case (failed s2 r s3)
  then show ?thesis
    using start_controller [of ow "preparing s"] start_frame [of ow "preparing s"]
      stop_controller [of ow False s2] stop_frame [of ow False s2]
    by (simp add: kept_def same_settings_def preparing_def)
qed

lemma kept_release:
  "kept s (snd (tx_control_release cb ow s))" "kept s (snd (tx_control_release_graceful cb ow s))"
  "kept s (snd (net_release g cb s))"
  by (simp_all add: tx_control_release_def tx_control_release_graceful_def net_release_def kept_stop_owner)

lemma kept_tune_stop: "kept s (snd (tune_stop_active cb reason s))"
  by (simp add: tune_stop_active_def Let_def case_prod_beta kept_release)

lemma kept_tune:
  "kept s (snd (tune_control_start cb now l s))" "kept s (snd (tune_control_keepalive cb now l s))"
  "kept s (snd (tune_control_stop cb l s))"
  by (simp_all add: tune_control_start_def tune_control_keepalive_def tune_control_stop_def
    case_prod_beta kept_request kept_tune_stop)

lemma kept_net:
  "kept s (snd (network_tx_acquire p l now s))" "kept s (snd (network_tx_keepalive l now s))"
  "kept s (snd (network_tx_attach_stream l now s))" "kept s (snd (network_tx_record_data l frames now s))"
  "kept s (snd (network_tx_ptt_start cb l now s))" "kept s (snd (network_tx_ptt_stop cb l s))"
  "kept s (snd (network_tx_release cb l s))"
  by (simp_all add: network_tx_acquire_def network_tx_keepalive_def network_tx_attach_stream_def
    network_tx_record_data_def network_tx_ptt_start_def network_tx_ptt_stop_def network_tx_release_def
    stop_if_keyed_def Let_def case_prod_beta kept_request kept_release)

lemma kept_audio:
  fixes s :: "'x api_sys_scheme"
  shows "kept s (snd (dispatch_audio request l now s))"
  using kept_net(3) [of s l now] kept_trans [OF kept_net(3) kept_net(4)]
  by (simp add: dispatch_audio_def Let_def case_prod_beta kept_net split: option.split)

lemma kept_tx: "kept s (result_state (dispatch_tx cb request radio room s))"
proof -
  have "kept s (snd (snd (tx_create request s)))"
    using kept_trans [OF _ kept_net(1)]
    by (simp add: tx_create_def Let_def case_prod_beta split: option.split)
  moreover have "kept s (snd (tx_command cb request radio l s))" for l
    by (simp add: tx_command_def Let_def kept_net kept_audio)
  ultimately show ?thesis
    by (simp add: dispatch_tx_def Let_def case_prod_beta split: option.split)
qed

lemma kept_tune_dispatch: "kept s (result_state (dispatch_tune cb request radio room s))"
  using kept_trans [OF _ kept_tune(1)]
  by (simp add: dispatch_tune_def Let_def case_prod_beta kept_tune split: option.split)

lemma kept_owner: "kept s (result_state (dispatch_owner request room s))"
  by (simp add: dispatch_owner_def Let_def case_prod_beta)

lemma kept_rx:
  assumes "transmitter_active s"
  shows "kept s (result_state (dispatch_rx acb request status radio room s))"
proof -
  have "kept s (snd (u g s))" if "set_rx_gain_callback acb = Some u" for u g
    using gain_controller [OF that, of g s] env_frame [OF env_gain [OF that, of s g]]
    by (simp add: kept_def same_settings_def)
  then show ?thesis using assms
    by (cases "set_rx_gain_callback acb")
      (simp_all add: dispatch_rx_def Let_def case_prod_beta)
qed

lemma active_refuses:
  assumes "transmitter_active s"
  shows "result_state (dispatch_compressor request room s) = s"
    "result_state (dispatch_tx_setting request room s) = s"
    "result_state (dispatch_timeout request room s) = s"
proof -
  have "tx_setting_guard s room \<noteq> None" using assms by (simp add: tx_setting_guard_def)
  then obtain refusal where g: "tx_setting_guard s room = Some refusal" by blast
  show "result_state (dispatch_compressor request room s) = s"
    "result_state (dispatch_tx_setting request room s) = s"
    by (simp_all add: dispatch_compressor_def dispatch_tx_setting_def g Let_def split: option.split)
  show "result_state (dispatch_timeout request room s) = s"
    using assms by (simp add: dispatch_timeout_def transmitter_active_def Let_def split: option.split)
qed

lemma kept_dispatch:
  "transmitter_active s \<Longrightarrow> kept s (result_state (api_dispatch cb acb request status radio room s))"
  by (simp add: api_dispatch_def kept_owner kept_tx kept_tune_dispatch kept_rx active_refuses)

end

text \<open>C33.
  While a client holds the station, no request without its token, whatever the request is,
  reaches the transmitter, a session, the radio or a setting: the state after it differs at most
  in the counter of fresh station tokens and in the receiver's squelch.\<close>

theorem station_protects:
  assumes "has_station (controller s)" and "held (station s)"
    and "\<not> station_request_authorized s request"
  shows "let s' = result_state (api_dispatch cb acb request status radio room s)
    in s' = map_controller (open_settings (controller s')) s"
proof -
  have foreign: "\<not> station_owner_matches (station s) (control_lease request)"
    using assms authorized_iff by blast
  have idle: "s = map_controller (open_settings (controller s)) s"
    by (simp add: map_controller_id open_settings_def)
  consider (owner) "path_owner request" | (refused) "\<not> path_owner request" "station_controlled request"
    | (free) "\<not> path_owner request" "\<not> station_controlled request" by blast
  then show ?thesis
  proof cases
    case owner
    then show ?thesis using dispatch_owner_foreign [OF assms(1,2) foreign, of room]
      by (auto simp: api_dispatch_def Let_def map_controller_def open_settings_def)
  next
    case refused
    then show ?thesis using assms(3) idle by (simp add: api_dispatch_def)
  next
    case free
    then have none: "parse_rx_frequency_request request = None" "parse_rx_bandwidth_request request = None"
      "parse_rx_mode_request request = None" "parse_rx_gain_request request = None"
      using parse_needs_path [of request] unfolding station_controlled_def by blast+
    from free idle show ?thesis
      by (auto simp: api_dispatch_def station_controlled_def dispatch_rx_def none Let_def
        map_controller_def open_settings_def)
  qed
qed

text \<open>A daemon whose station is held with token 7.\<close>

definition held_example :: api_sys where
  "held_example = \<lparr>tx = tx_control_init True 180000, tune = tune_control_init True True,
     net = network_tx_init True True,
     controller = (api_controller_init True True False)\<lparr>has_station := True, has_tune := True\<rparr>,
     station = station_owner_init\<lparr>held := True, station_lease := 7\<rparr>\<rparr>"

theorem station_protects_witness:
  "\<forall>status radio. let s' = result_state (api_dispatch \<lparr>start_callback = None, stop_callback = None\<rparr>
        \<lparr>tune_rx_callback = None, set_rx_gain_callback = None\<rparr> ''PUT /v1/radio/tune/start HTTP/1.1''
        status radio 4096 held_example)
    in s' = map_controller (open_settings (controller s')) held_example"
proof -
  have "has_station (controller held_example)" "held (station held_example)"
    "\<not> station_request_authorized held_example ''PUT /v1/radio/tune/start HTTP/1.1''"
    by (simp_all add: held_example_def station_request_authorized_def request_header.simps starts_with_def
      api_controller_init_def station_owner_init_def)
  from station_protects [OF this] show ?thesis by blast
qed

end
