(* ===== verification/Daemon.thy ===== *)
theory Daemon
  imports Api Usb_Safety
begin

text \<open>
  Model of the transmit side of \<open>src/flex1500d.c\<close>: the callbacks that join the arbiter, the network
  session and the API to the USB receiver, and the passes of the server loop that act on them,
  from the watchdogs to the shutdown. The state is that of the API with the receiver and the
  fields of \<open>daemon_tx_context\<close> and the locals of the loop; the buffers hold their used part, the
  microphone button is \<open>None\<close> until it has been observed. The times the loop reads are
  arguments, and console output is left out.

  The interpretation \<open>daemon\<close> discharges the contracts of the arbiter, of the sessions and of the
  API on these callbacks with the operations of \<open>Usb_Rx\<close> and \<open>Usb_Stream\<close>.
\<close>

subsection \<open>State\<close>

record daemon_sys = api_sys +
  rx :: usb_rx
  dm_frequency_hz :: u32
  dm_mode :: "string option"
  dm_drive_percent :: u32
  dm_microphone_gain_db :: u32
  dm_compressor_enabled :: bool
  network_prebuffer :: "u8 list"
  network_tail :: "u8 list"
  tx_client :: bool
  recovery_attempts :: u64
  recovery_successes :: u64
  logged_inputs :: "physical_inputs option"
  observed_ptt :: "bool option"

abbreviation OPS :: "usb_lib \<Rightarrow> usb_rx usb_io_ops" where "OPS L \<equiv> PRODUCTION_USB_IO_OPS L"

definition NETWORK_PREBUFFER_BYTES :: nat where "NETWORK_PREBUFFER_BYTES = 131072"

definition TX_GRACEFUL_DRAIN_MS :: u64 where "TX_GRACEFUL_DRAIN_MS = 1000"

definition on_rx :: "(usb_rx \<Rightarrow> 'a \<times> usb_rx) \<Rightarrow> daemon_sys \<Rightarrow> 'a \<times> daemon_sys" where
  "on_rx f s = (case f (rx s) of (a, r) \<Rightarrow> (a, s\<lparr>rx := r\<rparr>))"

subsection \<open>Callbacks of the arbiter\<close>

definition resolve_physical_tx_mode :: "u32 \<Rightarrow> daemon_sys \<Rightarrow> (tx_mode \<times> string) option" where
  "resolve_physical_tx_mode frequency_hz s =
     (if has_station (controller s) \<and> held (station s) \<and> \<not> mode_aware (station s)
      then (case default_ssb_upper_sideband frequency_hz of None \<Rightarrow> None
            | Some upper \<Rightarrow> Some (if upper then (TxUsb, ''usb'') else (TxLsb, ''lsb'')))
      else
        let name = rx_mode (controller s)
        in case (if name = ''usb'' then Some TxUsb else if name = ''lsb'' then Some TxLsb
                 else if name = ''am'' then Some TxAm else None) of
          None \<Rightarrow> None
        | Some mode \<Rightarrow>
            if (if mode = TxAm then am_frequency_allowed frequency_hz
                else physical_mic_frequency_allowed frequency_hz (mode = TxUsb))
            then Some (mode, name) else None)"

text \<open>The start of a network transmission: mode and policy from the reserved profile.\<close>

definition http_tx_mode :: "network_tx_profile \<Rightarrow> tx_mode" where
  "http_tx_mode p =
     (case profile_mode p of NetLsb \<Rightarrow> TxLsb | NetAm \<Rightarrow> TxAm | _ \<Rightarrow> TxUsb)"

definition http_frequency_allowed :: "network_tx_profile \<Rightarrow> u32 \<Rightarrow> bool" where
  "http_frequency_allowed p f =
     (if profile_source p = SourceIq then network_iq_frequency_allowed f
      else if http_tx_mode p = TxAm then am_frequency_allowed f
      else physical_mic_frequency_allowed f (http_tx_mode p = TxUsb))"

definition http_owner_start :: "usb_lib \<Rightarrow> u32 \<Rightarrow> daemon_sys \<Rightarrow> int \<times> daemon_sys" where
  "http_owner_start L f s =
     (let p = profile (net s); raw = (profile_source p = SourceIq);
          translate = raw \<and> tx_raw_iq_should_translate (libm.truncate L) (network_prebuffer s)
      in if \<not> http_frequency_allowed p f then (-1, s)
         else case on_rx (usb_rx_network_tx_start (OPS L) L (http_tx_mode p) (profile_drive_percent p)
                raw translate (network_prebuffer s)) s of (result, s) \<Rightarrow>
           (result, if result = 0 then map_diagnostics count_start (s\<lparr>network_prebuffer := []\<rparr>) else s))"

definition mic_owner_start :: "usb_lib \<Rightarrow> u32 \<Rightarrow> daemon_sys \<Rightarrow> int \<times> daemon_sys" where
  "mic_owner_start L f s =
     (case resolve_physical_tx_mode f s of None \<Rightarrow> (-1, s)
      | Some (mode, name) \<Rightarrow>
          let c = controller s;
              s = s\<lparr>dm_mode := Some name, dm_drive_percent := tx_drive_percent c,
                    dm_microphone_gain_db := tx_microphone_gain_db c,
                    dm_compressor_enabled := tx_compressor_enabled c\<rparr>;
              gain = lib_powf L 10 (f32 (f32 (of_nat (unat (dm_microphone_gain_db s))) / 20))
          in case on_rx (usb_rx_microphone_tx_start (OPS L) L mode (dm_drive_percent s) (Some gain)
                (dm_compressor_enabled s)) s of (result, s) \<Rightarrow>
            (result, if result = 0 then map_diagnostics count_start s else s))"

definition daemon_tx_owner_start :: "usb_lib \<Rightarrow> tx_owner \<Rightarrow> daemon_sys \<Rightarrow> int \<times> daemon_sys" where
  "daemon_tx_owner_start L ow s =
     (case usb_rx_frequency (rx s) of None \<Rightarrow> (-1, s)
      | Some f \<Rightarrow>
          if ow = OwnerTune
          then
            let s = s\<lparr>dm_frequency_hz := f\<rparr>
            in if \<not> tune_frequency_allowed f then (-1, s)
               else on_rx (usb_rx_tune_carrier_start (OPS L) L) s
          else if ow = OwnerHttp \<and> reserved (net s)
          then http_owner_start L f (s\<lparr>dm_frequency_hz := f\<rparr>)
          else if ow = OwnerPhysicalMic then mic_owner_start L f (s\<lparr>dm_frequency_hz := f\<rparr>)
          else (-1, s))"

text \<open>What a stop adds to the diagnostics, from the counters of the stream.\<close>

definition count_audio_stop :: "tx_audio_stats \<Rightarrow> tx_diagnostics \<Rightarrow> tx_diagnostics" where
  "count_audio_stop st d =
     (let peak = (if stop_requested_frames st > peak_queued_frames st
                  then stop_requested_frames st else peak_queued_frames st)
      in record_graceful_drain peak (stop_requested_frames st) (graceful_drained_frames st)
           (graceful_discarded_frames st) (graceful_drain_ms st)
           (record_audio_quality (clipped_frames st) (limited_frames st) (dropped_microphone_frames st)
             (record_underrun (underrun_frames st) (count_stop d))))"

definition daemon_tx_owner_stop :: "usb_lib \<Rightarrow> tx_owner \<Rightarrow> bool \<Rightarrow> daemon_sys \<Rightarrow> int \<times> daemon_sys" where
  "daemon_tx_owner_stop L ow graceful s =
     (if ow = OwnerTune then on_rx (usb_rx_tune_carrier_stop (OPS L) L) s
      else if ow \<noteq> OwnerPhysicalMic \<and> ow \<noteq> OwnerHttp then (-1, s)
      else case on_rx (if graceful
                       then usb_rx_microphone_tx_stop_graceful (OPS L) L TX_GRACEFUL_DRAIN_MS
                       else usb_rx_microphone_tx_stop (OPS L) L) s of (result, s) \<Rightarrow>
        (result, map_diagnostics (count_audio_stop (usb_rx_microphone_tx_stats (rx s))) s))"

definition daemon_callbacks :: "usb_lib \<Rightarrow> daemon_sys tx_callbacks" where
  "daemon_callbacks L =
     \<lparr>start_callback = Some (daemon_tx_owner_start L), stop_callback = Some (daemon_tx_owner_stop L)\<rparr>"

subsection \<open>Callbacks of the API\<close>

definition api_tune_rx :: "usb_lib \<Rightarrow> u32 \<Rightarrow> daemon_sys \<Rightarrow> int \<times> u32 \<times> daemon_sys" where
  "api_tune_rx L frequency_hz s =
     (case on_rx (usb_rx_tune (OPS L) L frequency_hz) s of (result, s) \<Rightarrow>
        if result \<noteq> 0 then (-1, 0, s)
        else case usb_rx_filter (rx s) of None \<Rightarrow> (-1, 0, s) | Some flt \<Rightarrow> (0, flt, s))"

definition api_set_rx_gain :: "usb_lib \<Rightarrow> int \<Rightarrow> daemon_sys \<Rightarrow> int \<times> daemon_sys" where
  "api_set_rx_gain L gain_db s =
     (case on_rx (usb_rx_set_gain (OPS L) L gain_db) s of (result, s) \<Rightarrow>
        (if result = 0 then 0 else -1, s))"

definition daemon_api_callbacks :: "usb_lib \<Rightarrow> daemon_sys api_callbacks" where
  "daemon_api_callbacks L =
     \<lparr>tune_rx_callback = Some (api_tune_rx L), set_rx_gain_callback = Some (api_set_rx_gain L)\<rparr>"

subsection \<open>The contracts\<close>

definition keyed :: "daemon_sys \<Rightarrow> bool" where "keyed s = rx_keyed (rx s)"
definition tracked :: "daemon_sys \<Rightarrow> bool" where "tracked s = rx_tracked (rx s)"

text \<open>A step of the rest of the program: it neither touches the sessions nor keys the radio.\<close>

definition daemon_env :: "daemon_sys \<Rightarrow> daemon_sys \<Rightarrow> bool" where
  "daemon_env s s' \<longleftrightarrow> tx s' = tx s \<and> same_sessions s s' \<and> (keyed s' \<longrightarrow> keyed s) \<and>
     (tracked s \<longrightarrow> tracked s')"

lemma rx_maps [simp]:
  "rx (map_tx f s) = rx s" "rx (map_tune g s) = rx s" "rx (map_net h s) = rx s"
  "rx (map_diagnostics d s) = rx s" "rx (map_controller c s) = rx s" "rx (map_station j s) = rx s"
  by (simp_all add: map_tx_def map_tune_def map_net_def map_diagnostics_def map_controller_def map_station_def)

lemma on_rx_fields [simp]:
  "fst (on_rx f s) = fst (f (rx s))" "rx (snd (on_rx f s)) = snd (f (rx s))"
  "tx (snd (on_rx f s)) = tx s" "tune (snd (on_rx f s)) = tune s" "net (snd (on_rx f s)) = net s"
  "controller (snd (on_rx f s)) = controller s" "station (snd (on_rx f s)) = station s"
  by (simp_all add: on_rx_def case_prod_beta)

lemma same_key_kept: "same_key r r' \<Longrightarrow> (rx_keyed r' \<longrightarrow> rx_keyed r) \<and> (rx_tracked r \<longrightarrow> rx_tracked r')"
  by (auto simp: same_key_def rx_tracked_def)

lemma graceful_loop_same:
  "usb_ctl.truncate (graceful_loop L t0 m r) = usb_ctl.truncate r \<and> wire (usb (graceful_loop L t0 m r)) = wire (usb r)"
proof (induction L t0 m r rule: graceful_loop.induct)
  case (1 L t0 m r)
  obtain now r1 where c: "on_usb monotonic_ms r = (now, r1)" by fastforce
  obtain e r2 where h: "handle_events L r1 = (e, r2)" by fastforce
  have "usb_ctl.truncate r2 = usb_ctl.truncate r \<and> wire (usb r2) = wire (usb r)"
    "usb_ctl.truncate r1 = usb_ctl.truncate r \<and> wire (usb r1) = wire (usb r)"
    using handle_events_same [of L r1] clock_same [of r] by (simp_all add: h c)
  then show ?case
    using 1 [OF _ c [symmetric] _ h [symmetric]]
    by (subst (1 2) graceful_loop.simps) (auto simp: h c set_libusb_error_def usb_ctl.truncate_def)
qed

lemma graceful_drain_same:
  "usb_ctl.truncate (graceful_drain L m r) = usb_ctl.truncate r"
  "wire (usb (graceful_drain L m r)) = wire (usb r)"
proof -
  have ws: "usb_ctl.truncate (with_stats f q) = usb_ctl.truncate q" "usb (with_stats f q) = usb q" for f q
    by (simp_all add: with_stats_def)
  show "usb_ctl.truncate (graceful_drain L m r) = usb_ctl.truncate r"
    "wire (usb (graceful_drain L m r)) = wire (usb r)"
    by (simp_all add: graceful_drain_def Let_def case_prod_beta ws clock_same graceful_loop_same)
qed

lemma ctl_wire_key:
  assumes "usb_ctl.truncate r' = usb_ctl.truncate r" and "wire (usb r') = wire (usb r)"
  shows "rx_keyed r' = rx_keyed r" "rx_tracked r' = rx_tracked r" "has_handle r' = has_handle r"
  using ctl_eqD [OF assms(1)] assms(2) by (simp_all add: rx_tracked_def rx_keyed_def key_flag_def)

lemma stop_key:
  assumes "rx_tracked r" and "fst (usb_rx_tune_carrier_stop (OPS L) L r) = 0"
  shows "\<not> rx_keyed (snd (usb_rx_tune_carrier_stop (OPS L) L r))"
proof (cases "has_handle r")
  case True
  then show ?thesis
    using production.carrier_stop_effect [OF True prod.collapse [symmetric]] assms by blast
next
  case False
  then show ?thesis using assms by (simp add: usb_rx_tune_carrier_stop_def)
qed

lemma stop_graceful_key:
  assumes "rx_tracked r" and "fst (usb_rx_microphone_tx_stop_graceful (OPS L) L m r) = 0"
  shows "\<not> rx_keyed (snd (usb_rx_microphone_tx_stop_graceful (OPS L) L m r))"
  using assms stop_key [of "graceful_drain L m r" L] ctl_wire_key(2) [OF graceful_drain_same, of L m r]
  by (auto simp: usb_rx_microphone_tx_stop_graceful_def split: if_splits)

lemma start_stop_frame [simp]:
  "tx (snd (daemon_tx_owner_start L ow s)) = tx s"
  "net (snd (daemon_tx_owner_start L ow s)) = net s"
  "tune_core (tune (snd (daemon_tx_owner_start L ow s))) = tune_core (tune s)"
  "controller (snd (daemon_tx_owner_start L ow s)) = controller s"
  "station (snd (daemon_tx_owner_start L ow s)) = station s"
  "tx (snd (daemon_tx_owner_stop L ow g s)) = tx s"
  "net (snd (daemon_tx_owner_stop L ow g s)) = net s"
  "tune_core (tune (snd (daemon_tx_owner_stop L ow g s))) = tune_core (tune s)"
  "controller (snd (daemon_tx_owner_stop L ow g s)) = controller s"
  "station (snd (daemon_tx_owner_stop L ow g s)) = station s"
  by (simp_all add: daemon_tx_owner_start_def http_owner_start_def mic_owner_start_def
    daemon_tx_owner_stop_def Let_def case_prod_beta map_diagnostics_def map_tune_def tune_core_def
    split: option.split)

lemma started_tracked: "has_handle r \<and> key_flag r \<Longrightarrow> rx_tracked r"
  by (simp add: rx_tracked_def)

lemma audio_start_tracked:
  "rx_tracked r \<Longrightarrow> fst (audio_tx_start (OPS L) L mode drive gain cmpr cap raw tr pre r) = 0 \<Longrightarrow>
     rx_tracked (snd (audio_tx_start (OPS L) L mode drive gain cmpr cap raw tr pre r))"
  by (rule started_tracked, rule production.audio_start_effect)

lemma http_start_tracked:
  assumes "rx_tracked (rx s)" and "fst (http_owner_start L f s) = 0"
  shows "rx_tracked (rx (snd (http_owner_start L f s)))"
  using assms audio_start_tracked [OF assms(1)]
  by (simp add: http_owner_start_def usb_rx_network_tx_start_def Let_def case_prod_beta split: if_splits)

lemma mic_start_tracked:
  assumes "rx_tracked (rx s)" and "fst (mic_owner_start L f s) = 0"
  shows "rx_tracked (rx (snd (mic_owner_start L f s)))"
proof (cases "resolve_physical_tx_mode f s")
  case None
  then show ?thesis using assms by (simp add: mic_owner_start_def)
next
  case (Some m)
  then show ?thesis using assms audio_start_tracked [OF assms(1)]
    by (cases m) (simp add: mic_owner_start_def usb_rx_microphone_tx_start_def Let_def case_prod_beta)
qed

lemma owner_start_tracked:
  assumes "tracked s" and "fst (daemon_tx_owner_start L ow s) = 0"
  shows "tracked (snd (daemon_tx_owner_start L ow s))"
proof -
  have t: "rx_tracked (rx s)" using assms(1) by (simp add: tracked_def)
  have u: "rx_tracked (snd (usb_rx_tune_carrier_start (OPS L) L (rx s)))"
    if "fst (usb_rx_tune_carrier_start (OPS L) L (rx s)) = 0"
    by (rule started_tracked, rule production.tune_start_effect(1) [OF t that])
  show ?thesis
    unfolding tracked_def using assms(2) u t
      http_start_tracked [of "s\<lparr>dm_frequency_hz := f\<rparr>" L f for f]
      mic_start_tracked [of "s\<lparr>dm_frequency_hz := f\<rparr>" L f for f]
    by (auto simp: daemon_tx_owner_start_def Let_def split: option.splits if_splits)
qed

lemma owner_stop_unkeys:
  assumes "tracked s" and "fst (daemon_tx_owner_stop L ow g s) = 0"
  shows "\<not> keyed (snd (daemon_tx_owner_stop L ow g s))"
proof -
  have t: "rx_tracked (rx s)" using assms(1) by (simp add: tracked_def)
  have mic: ?thesis if ow: "ow = OwnerPhysicalMic \<or> ow = OwnerHttp"
    using ow assms(2) stop_key [OF t] stop_graceful_key [OF t, of L TX_GRACEFUL_DRAIN_MS]
    by (elim disjE; cases g) (simp_all add: daemon_tx_owner_stop_def keyed_def
      usb_rx_microphone_tx_stop_def case_prod_beta)
  consider "ow = OwnerTune" | "ow = OwnerPhysicalMic \<or> ow = OwnerHttp"
    using assms(2) by (auto simp: daemon_tx_owner_stop_def split: if_splits)
  then show ?thesis
  proof cases
    case 1
    then show ?thesis using assms(2) stop_key [OF t]
      by (simp add: daemon_tx_owner_stop_def keyed_def)
  next
    case 2
    then show ?thesis by (rule mic)
  qed
qed

lemma tune_rx_env: "daemon_env s (snd (snd (api_tune_rx L f s)))"
proof -
  have "same_key (rx s) (snd (usb_rx_tune (OPS L) L f (rx s)))" by (rule production.tune_same_key)
  from same_key_kept [OF this] show ?thesis
    by (simp add: daemon_env_def keyed_def tracked_def same_sessions_def api_tune_rx_def case_prod_beta
        split: option.split)
qed

lemma set_gain_env: "daemon_env s (snd (api_set_rx_gain L g s))"
proof -
  have "same_key (rx s) (snd (usb_rx_set_gain (OPS L) L g (rx s)))" by (rule production.gain_same_key)
  from same_key_kept [OF this] show ?thesis
    by (simp add: daemon_env_def keyed_def tracked_def same_sessions_def api_set_rx_gain_def case_prod_beta)
qed

lemma set_gain_controller: "controller (snd (api_set_rx_gain L g s)) = controller s"
  by (simp add: api_set_rx_gain_def case_prod_beta)

lemma call_daemon:
  "call_start (daemon_callbacks L) ow s =
     (fst (daemon_tx_owner_start L ow s) = 0, snd (daemon_tx_owner_start L ow s))"
  "call_stop (daemon_callbacks L) ow g s = daemon_tx_owner_stop L ow g s"
  by (simp_all add: daemon_callbacks_def call_start_def call_stop_def case_prod_beta)

lemma key_maps [simp]:
  "keyed (map_tx f s) = keyed s" "keyed (map_tune g s) = keyed s" "keyed (map_net h s) = keyed s"
  "keyed (map_diagnostics d s) = keyed s" "keyed (map_controller c s) = keyed s" "keyed (map_station j s) = keyed s"
  "tracked (map_tx f s) = tracked s" "tracked (map_tune g s) = tracked s" "tracked (map_net h s) = tracked s"
  "tracked (map_diagnostics d s) = tracked s" "tracked (map_controller c s) = tracked s"
  "tracked (map_station j s) = tracked s"
  by (simp_all add: keyed_def tracked_def)

lemma map_env:
  "daemon_env s (map_controller c s)" "daemon_env s (map_station j s)" "daemon_env s (map_diagnostics d s)"
  by (simp_all add: daemon_env_def same_sessions_def)
    (simp_all add: map_controller_def map_station_def map_diagnostics_def map_tune_def tune_core_def)

interpretation daemon: api_backend "daemon_callbacks L" daemon_env keyed tracked "daemon_api_callbacks L" for L
  by unfold_locales
    (auto simp: call_daemon owner_start_tracked owner_stop_unkeys tune_rx_env set_gain_env map_env
      set_gain_controller daemon_api_callbacks_def same_sessions_def, auto simp: daemon_env_def
      same_sessions_def keyed_def tracked_def rx_tracked_def)

end
