(* ===== verification/Daemon_Loop.thy ===== *)
theory Daemon_Loop
  imports Daemon
begin

text \<open>
  Model of the server loop of \<open>src/flex1500d.c\<close> (\<open>serve_live_rx_at\<close>): the watchdogs at its top,
  the USB pump and the recovery after it fails, the microphone button, a complete HTTP request, the
  bytes of a transmit stream, and the shutdown. Clock readings, what a socket delivers and whether a
  response could be sent are arguments; the transmit client's socket is the flag \<open>tx_client\<close>, true
  when the variable holds a descriptor.

  \<open>Daemon_Safety\<close> closes these passes into a step relation and says what holds in every state it
  reaches.
\<close>

subsection \<open>Watchdogs\<close>

definition station_pass :: "usb_lib \<Rightarrow> u64 \<Rightarrow> daemon_sys \<Rightarrow> daemon_sys" where
  "station_pass L now s =
     (case station_owner_tick now (station s) of (result, j) \<Rightarrow>
        let s = map_station (\<lambda>_. j) s
        in if result \<noteq> StationExpired then s
           else
             let s = tune_control_shutdown (daemon_callbacks L) s
             in if reserved (net s)
                then snd (network_tx_release (daemon_callbacks L) (net_lease (net s)) s) else s)"

definition tune_pass :: "usb_lib \<Rightarrow> u64 \<Rightarrow> daemon_sys \<Rightarrow> daemon_sys" where
  "tune_pass L now s = snd (tune_control_tick (daemon_callbacks L) now s)"

definition tx_pass :: "usb_lib \<Rightarrow> u64 \<Rightarrow> daemon_sys \<Rightarrow> daemon_sys" where
  "tx_pass L now s =
     (case tx_control_tick (daemon_callbacks L) now s of (result, s) \<Rightarrow>
        let s = tune_control_reconcile (result = TxMaxKey) s
        in if result = TxHardwareError then map_diagnostics count_cleanup_failure s else s)"

definition drop_tx_client :: "daemon_sys \<Rightarrow> daemon_sys" where
  "drop_tx_client s = s\<lparr>tx_client := False, network_prebuffer := []\<rparr>"

definition session_pass :: "daemon_sys \<Rightarrow> daemon_sys" where
  "session_pass s =
     (let was_reserved = reserved (net s); s = network_tx_reconcile s
      in if was_reserved \<and> \<not> reserved (net s) \<and> tx_client s then drop_tx_client s else s)"

definition network_pass :: "usb_lib \<Rightarrow> u64 \<Rightarrow> daemon_sys \<Rightarrow> daemon_sys" where
  "network_pass L now s =
     (case network_tx_tick (daemon_callbacks L) now s of (result, s) \<Rightarrow>
        if result = NetExpired then drop_tx_client (map_diagnostics count_watchdog s)
        else if result = NetHardwareError then map_diagnostics count_cleanup_failure s
        else s)"

definition watchdog_pass :: "usb_lib \<Rightarrow> u64 \<Rightarrow> u64 \<Rightarrow> u64 \<Rightarrow> u64 \<Rightarrow> daemon_sys \<Rightarrow> daemon_sys" where
  "watchdog_pass L t1 t2 t3 t4 s =
     network_pass L t4 (session_pass (tx_pass L t3 (tune_pass L t2 (station_pass L t1 s))))"

subsection \<open>Shutting the transmitter down\<close>

definition daemon_tx_shutdown :: "usb_lib \<Rightarrow> daemon_sys \<Rightarrow> daemon_sys" where
  "daemon_tx_shutdown L s =
     (let tune_was_active = tune_active (tune s);
          s = tx_control_shutdown (daemon_callbacks L) s;
          s = tune_control_reconcile False s
      in if tune_was_active \<and> cleanup_failed (tx s)
         then map_diagnostics count_cleanup_failure s else s)"

definition final_shutdown :: "usb_lib \<Rightarrow> bool \<Rightarrow> daemon_sys \<Rightarrow> daemon_sys" where
  "final_shutdown L transmit_enabled s =
     (let s = daemon_tx_shutdown L (s\<lparr>tx_client := False\<rparr>)
      in if \<not> transmit_enabled then s
         else case on_rx (usb_rx_disable_transmit_preparation (OPS L) L) s of (result, s) \<Rightarrow>
           if result = 0 then s else map_diagnostics count_cleanup_failure s)"

subsection \<open>The USB pump and recovery\<close>

text \<open>What the loop gives up when the stream stops, before it tries to reopen the radio.\<close>

definition connection_lost :: "usb_lib \<Rightarrow> daemon_sys \<Rightarrow> daemon_sys" where
  "connection_lost L s =
     (let s = s\<lparr>tx_client := False\<rparr>;
          s = snd (network_tx_disconnect_stream (daemon_callbacks L) s);
          s = snd (network_tx_release (daemon_callbacks L) (net_lease (net s)) s);
          s = daemon_tx_shutdown L (s\<lparr>network_prebuffer := []\<rparr>)
      in s\<lparr>rx := usb_rx_stop (OPS L) L (rx s)\<rparr>)"

text \<open>The controls of a radio that has been reopened: counters and the key timeout survive.\<close>

definition fresh_controls :: "bool \<Rightarrow> daemon_sys \<Rightarrow> daemon_sys" where
  "fresh_controls transmit_enabled s =
     (let saved = diagnostics (tune s);
          timeout = tx_control_timeout_seconds (tx s);
          s = map_tx (\<lambda>_. tx_control_init transmit_enabled (ucast timeout * 1000)) s;
          s = (if transmit_enabled then tx_control_arm_physical_ptt s else s);
          s = map_tune (\<lambda>_. tune_control_init transmit_enabled True) s;
          s = map_net (\<lambda>_. network_tx_init transmit_enabled True) s
      in (map_diagnostics (\<lambda>_. saved) s)\<lparr>observed_ptt := None\<rparr>)"

definition reopen :: "usb_lib \<Rightarrow> bool \<Rightarrow> u32 option \<Rightarrow> int \<Rightarrow> daemon_sys \<Rightarrow> bool \<times> daemon_sys" where
  "reopen L transmit_enabled frequency gain s =
     (let give_up = (\<lambda>s. (False, s\<lparr>rx := usb_rx_stop (OPS L) L (rx s)\<rparr>))
      in case on_rx (usb_rx_start (OPS L) L) (s\<lparr>recovery_attempts := recovery_attempts s + 1\<rparr>) of (result, s) \<Rightarrow>
      if result \<noteq> 0 then (False, s)
      else case on_rx (usb_rx_set_gain (OPS L) L gain) s of (result, s) \<Rightarrow>
      if result \<noteq> 0 then give_up s
      else case (case frequency of None \<Rightarrow> (0, s) | Some f \<Rightarrow> on_rx (usb_rx_tune (OPS L) L f) s) of (result, s) \<Rightarrow>
      if result \<noteq> 0 then give_up s
      else
        let s = s\<lparr>rx := (rx s)\<lparr>destination := iq_ring_clear (destination (rx s))\<rparr>,
                  recovery_successes := recovery_successes s + 1\<rparr>
        in case (if transmit_enabled then on_rx (usb_rx_enable_transmit_preparation (OPS L) L) s else (0, s)) of
             (result, s) \<Rightarrow> if result \<noteq> 0 then give_up s else (True, s))"

text \<open>At most 60 attempts, a second apart; \<open>stop_requested\<close> is the signal flag before each.\<close>

fun recover ::
  "usb_lib \<Rightarrow> bool \<Rightarrow> u32 option \<Rightarrow> int \<Rightarrow> (nat \<Rightarrow> bool) \<Rightarrow> nat \<Rightarrow> daemon_sys \<Rightarrow> bool \<times> daemon_sys" where
  "recover L transmit_enabled frequency gain stop_requested 0 s = (False, s)"
| "recover L transmit_enabled frequency gain stop_requested (Suc n) s =
     (if stop_requested n then (False, s)
      else case reopen L transmit_enabled frequency gain s of (recovered, s) \<Rightarrow>
        if recovered then (True, fresh_controls transmit_enabled s)
        else recover L transmit_enabled frequency gain stop_requested n s)"

definition RECOVERY_ATTEMPTS :: nat where "RECOVERY_ATTEMPTS = 60"

text \<open>Whether the loop goes on: the pump, and the recovery when it failed.\<close>

definition pump_pass :: "usb_lib \<Rightarrow> bool \<Rightarrow> (nat \<Rightarrow> bool) \<Rightarrow> daemon_sys \<Rightarrow> bool \<times> daemon_sys" where
  "pump_pass L transmit_enabled stop_requested s =
     (case on_rx (usb_rx_pump L) s of (result, s) \<Rightarrow>
        if result = 0 \<and> usb_rx_is_running (rx s) then (True, s)
        else
          let frequency = usb_rx_frequency (rx s);
              gain = (case usb_rx_gain (rx s) of None \<Rightarrow> 20 | Some g \<Rightarrow> g)
          in recover L transmit_enabled frequency gain stop_requested RECOVERY_ATTEMPTS (connection_lost L s))"

subsection \<open>The microphone button\<close>

definition ptt_edge :: "usb_lib \<Rightarrow> bool \<Rightarrow> u64 \<Rightarrow> daemon_sys \<Rightarrow> daemon_sys" where
  "ptt_edge L pressed now s =
     (let allowed = (case usb_rx_frequency (rx s) of None \<Rightarrow> False
            | Some f \<Rightarrow> resolve_physical_tx_mode f s \<noteq> None)
      in if pressed \<and> physical_ptt_armed (tx s) \<and> \<not> allowed then map_diagnostics count_rejected s
         else case tx_control_physical_ptt (daemon_callbacks L) pressed now s of (result, s) \<Rightarrow>
           let s = tune_control_reconcile False s
           in if result = TxBusy \<or> result = TxInhibited then map_diagnostics count_rejected s
              else if result = TxHardwareError then map_diagnostics count_cleanup_failure s
              else s)"

definition inputs_pass :: "usb_lib \<Rightarrow> bool \<Rightarrow> u64 \<Rightarrow> daemon_sys \<Rightarrow> daemon_sys" where
  "inputs_pass L transmit_enabled now s =
     (case usb_rx_physical_inputs (rx s) of None \<Rightarrow> s
      | Some inputs \<Rightarrow>
          if (case logged_inputs s of None \<Rightarrow> False | Some old \<Rightarrow> physical_inputs_equal inputs old) then s
          else
            let edge = (observed_ptt s \<noteq> Some (mic_ptt inputs));
                s = s\<lparr>logged_inputs := Some inputs\<rparr>;
                s = (if transmit_enabled \<and> edge then ptt_edge L (mic_ptt inputs) now s else s)
            in if edge then s\<lparr>observed_ptt := Some (mic_ptt inputs)\<rparr> else s)"

subsection \<open>Requests\<close>

text \<open>
  A complete request: the API answers it, and the loop opens or feeds the transmit stream. \<open>sent\<close>
  says whether the stream's response header went out.
\<close>

definition append_prebuffer :: "u8 list \<Rightarrow> daemon_sys \<Rightarrow> daemon_sys" where
  "append_prebuffer data s =
     (let room = NETWORK_PREBUFFER_BYTES - length (network_prebuffer s)
      in s\<lparr>network_prebuffer := network_prebuffer s @ take room data\<rparr>)"

text \<open>The request is the buffer, its \<open>strstr\<close> stops at a NUL.\<close>

definition push_tx_audio :: "usb_lib \<Rightarrow> string \<Rightarrow> daemon_sys \<Rightarrow> daemon_sys" where
  "push_tx_audio L request s =
     (case strstr (c_string_at request 0) (CRLF @ CRLF) of None \<Rightarrow> s
      | Some i \<Rightarrow>
          let body = map of_char (drop (i + 4) request)
          in if body = [] then s
             else if \<not> net_keyed (net s) then append_prebuffer body s
             else snd (on_rx (usb_rx_network_tx_push L body False) s))"

abbreviation RESPONSE_BYTES :: nat where "RESPONSE_BYTES \<equiv> 4096"

definition http_pass ::
  "usb_lib \<Rightarrow> string \<Rightarrow> service_status \<Rightarrow> radio_info \<Rightarrow> u64 \<Rightarrow> bool \<Rightarrow> daemon_sys \<Rightarrow>
   api_action \<times> string option \<times> daemon_sys" where
  "http_pass L request status radio now sent s =
     (let s = map_controller (\<lambda>c. c\<lparr>request_now_ms := now\<rparr>) s
      in case api_dispatch (daemon_callbacks L) (daemon_api_callbacks L) (c_string_at request 0)
             status radio RESPONSE_BYTES s of
        (action, response, tuned, s) \<Rightarrow>
          let s = (if \<not> reserved (net s) \<and> tx_client s
                   then (drop_tx_client s)\<lparr>network_tail := []\<rparr> else s);
              s = (if action = ApiOpenTxStream
                   then s\<lparr>tx_client := sent \<or> tx_client s, network_prebuffer := []\<rparr>
                   else if action = ApiPushTxAudio then push_tx_audio L request s
                   else s)
          in (action, response, s))"

text \<open>What \<open>recv\<close> does on a nonblocking socket, asked for at most \<open>n\<close> elements.\<close>

datatype 'a recv_result = Received "'a list" | Closed | Again | Broken

definition recv :: "nat \<Rightarrow> 'a recv_result \<Rightarrow> 'a recv_result" where
  "recv n r = (case r of Received data \<Rightarrow> (if take n data = [] then Closed else Received (take n data)) | _ \<Rightarrow> r)"

abbreviation REQUEST_BYTES :: nat where "REQUEST_BYTES \<equiv> 16384"

text \<open>
  One pass over the request socket: the buffer grows, a complete request is answered, and the
  connection is given up when it is complete, closed or full. The result is the buffer the
  connection goes on with and the outcome of a complete request.
\<close>

definition http_client_pass ::
  "usb_lib \<Rightarrow> char recv_result \<Rightarrow> service_status \<Rightarrow> radio_info \<Rightarrow> u64 \<Rightarrow> bool \<Rightarrow> string \<Rightarrow> daemon_sys \<Rightarrow>
   string option \<times> (api_action \<times> string option) option \<times> daemon_sys" where
  "http_client_pass L arrival status radio now sent request s =
     (let got = recv (REQUEST_BYTES - 1 - length request) arrival;
          request = (case got of Received data \<Rightarrow> request @ data | _ \<Rightarrow> request);
          disconnected = (got = Closed \<or> got = Broken);
          complete = http_request_complete request;
          overflow = (length request = REQUEST_BYTES - 1 \<and> \<not> complete);
          rest = (if complete \<or> disconnected \<or> overflow then None else Some request)
      in if complete
         then (case http_pass L request status radio now sent s of
           (action, response, s) \<Rightarrow> (rest, Some (action, response), s))
         else (rest, None, s))"

subsection \<open>The transmit stream\<close>

definition TX_RECEIVE_BYTES :: nat where "TX_RECEIVE_BYTES = 8192 + 4"

text \<open>How much of the stream is asked for: what the transmitter has room for, in whole frames.\<close>

definition stream_raw :: "daemon_sys \<Rightarrow> bool" where
  "stream_raw s \<longleftrightarrow> profile_source (profile (net s)) = SourceIq"

definition frame_bytes :: "daemon_sys \<Rightarrow> nat" where
  "frame_bytes s = (if stream_raw s then 4 else 2)"

definition receive_limit :: "daemon_sys \<Rightarrow> nat" where
  "receive_limit s =
     (let available = (if net_keyed (net s) then usb_rx_network_tx_available (stream_raw s) (rx s)
                       else NETWORK_TX_MIN_PREBUFFER_FRAMES - buffered_frames (net s))
      in min (available * frame_bytes s - length (network_tail s))
             (TX_RECEIVE_BYTES - length (network_tail s)))"

definition push_tx_stream :: "usb_lib \<Rightarrow> u8 list \<Rightarrow> daemon_sys \<Rightarrow> daemon_sys" where
  "push_tx_stream L data s =
     (if \<not> net_keyed (net s) then append_prebuffer data s
      else snd (on_rx (usb_rx_network_tx_push L data (stream_raw s)) s))"

text \<open>The bytes that made it into the prebuffer, which the frame count is taken from.\<close>

definition pushed_bytes :: "u8 list \<Rightarrow> daemon_sys \<Rightarrow> nat" where
  "pushed_bytes data s =
     (if \<not> net_keyed (net s) then min (length data) (NETWORK_PREBUFFER_BYTES - length (network_prebuffer s))
      else length data)"

definition tx_stream_pass :: "usb_lib \<Rightarrow> u8 recv_result \<Rightarrow> u64 \<Rightarrow> daemon_sys \<Rightarrow> daemon_sys" where
  "tx_stream_pass L arrival now s =
     (if \<not> tx_client s \<or> receive_limit s = 0 then s
      else case recv (receive_limit s) arrival of
        Received received \<Rightarrow>
          let all = network_tail s @ received;
              whole = length all - length all mod frame_bytes s;
              data = take whole all;
              frames = pushed_bytes data s div frame_bytes s;
              s = push_tx_stream L data (s\<lparr>network_tail := drop whole all\<rparr>)
          in snd (network_tx_record_data (net_lease (net s)) frames now s)
      | Again \<Rightarrow> s
      | _ \<Rightarrow>
          (drop_tx_client (snd (network_tx_disconnect_stream (daemon_callbacks L)
             (s\<lparr>tx_client := False\<rparr>))))\<lparr>network_tail := []\<rparr>)"

subsection \<open>Starting\<close>

definition RING_CAPACITY :: nat where "RING_CAPACITY = 48000"

text \<open>
  The radio as \<open>serve_live_rx_at\<close> opens it, or nothing when a step fails; the caller then destroys
  the receiver and returns.
\<close>

definition open_radio :: "usb_lib \<Rightarrow> bool \<Rightarrow> usb_world \<Rightarrow> usb_rx option" where
  "open_radio L transmit_enabled w =
     (case usb_rx_create (snd (iq_ring_init True \<lparr>i_part = 0, q_part = 0\<rparr> RING_CAPACITY)) w of
        None \<Rightarrow> None
      | Some r \<Rightarrow>
          (case usb_rx_start (OPS L) L r of (result, r) \<Rightarrow>
           if result \<noteq> 0 then None
           else case usb_rx_set_gain (OPS L) L 20 r of (result, r) \<Rightarrow>
           if result \<noteq> 0 then None
           else case (if transmit_enabled then usb_rx_enable_transmit_preparation (OPS L) L r else (0, r)) of
             (result, r) \<Rightarrow> if result \<noteq> 0 then None else Some r))"

text \<open>The controls around it; \<open>lease\<close> is the random first token of each kind.\<close>

definition live_start :: "bool \<Rightarrow> bool \<Rightarrow> bool \<Rightarrow> (nat \<Rightarrow> u64) \<Rightarrow> usb_rx \<Rightarrow> daemon_sys" where
  "live_start transmit_enabled tuning page lease r =
     (let c = api_controller_init tuning True page;
          c = (if tuning then c\<lparr>has_station := True, next_station_lease := lease 0\<rparr> else c);
          c = (if transmit_enabled
               then c\<lparr>has_tune := True, next_tune_lease := lease 1, next_tx_lease := lease 2,
                      has_network_tx := True\<rparr> else c);
          s = \<lparr>tx = tx_control_init transmit_enabled (ucast TX_TIMEOUT_DEFAULT_SECONDS * 1000),
               tune = tune_control_init transmit_enabled True,
               net = network_tx_init transmit_enabled True,
               controller = c, station = station_owner_init, rx = r, dm_frequency_hz = 0,
               dm_mode = None, dm_drive_percent = 0, dm_microphone_gain_db = 0,
               dm_compressor_enabled = False, network_prebuffer = [], network_tail = [],
               tx_client = False, recovery_attempts = 0, recovery_successes = 0,
               logged_inputs = None, observed_ptt = None\<rparr>
      in if transmit_enabled then tx_control_arm_physical_ptt s else s)"

subsection \<open>A radio that opens\<close>

text \<open>
  A device for the witnesses: it opens \<open>k\<close> more times, takes \<open>n\<close> more commands and never delivers a
  transfer; the receiver has no transmission going on.
\<close>

definition calm :: "nat \<Rightarrow> nat \<Rightarrow> usb_rx \<Rightarrow> bool" where
  "calm k n r \<longleftrightarrow> \<not> tx_stream_present r \<and> \<not> rx_tune_prepared r \<and> \<not> rx_tune_active r \<and> \<not> rx_tune_keyed r \<and>
     \<not> rx_key_attempted r \<and> \<not> rx_transition_attempted r \<and> \<not> rx_frequency_attempted r \<and>
     \<not> pa_filter_known r \<and> \<not> frequency_known r \<and>
     w_allocs (usb r) = [] \<and> w_events (usb r) = [] \<and> w_setup (usb r) = concat (replicate k [0, 0, 0, 0]) \<and>
     w_submits (usb r) = concat (replicate k (0 # replicate 8 0)) \<and> w_sends (usb r) = replicate n (0, 20, [])"

definition open_world :: usb_world where
  "open_world = \<lparr>w_clock = [], w_sends = replicate 9 (0, 20, []),
     w_submits = concat (replicate 2 (0 # replicate 8 0)), w_allocs = [], w_events = [],
     w_setup = concat (replicate 2 [0, 0, 0, 0]), wire = []\<rparr>"

lemma no_slot_present [simp]: "\<not> list_ex slot_present (replicate n free_tune_slot)"
  by (simp add: list_ex_iff slot_present_def free_tune_slot_def)

lemma slots_ok:
  assumes "w_allocs (usb r) = []" and "w_submits (usb r) = replicate n 0 @ rest"
  shows "\<exists>r'. start_rx_slots ops L i n r = (0, r') \<and> running r' = running r \<and> has_context r' = has_context r \<and>
    usb_ctl.truncate r' = usb_ctl.truncate r \<and> tx_stream_present r' = tx_stream_present r \<and>
    w_allocs (usb r') = [] \<and> w_submits (usb r') = rest \<and> w_sends (usb r') = w_sends (usb r) \<and>
    w_setup (usb r') = w_setup (usb r) \<and> w_events (usb r') = w_events (usb r)"
  using assms
proof (induction n arbitrary: i r)
  case 0
  then show ?case by simp
next
  case (Suc n)
  define q where "q = snd (submit_slot L i False (r\<lparr>usb := (usb r)\<lparr>w_allocs := []\<rparr>, rx_slots := (rx_slots r)[i := (rx_slots r ! i)
      \<lparr>rx_transfer := True, rx_buffer := True\<rparr>]\<rparr>))"
  have q: "start_rx_slots ops L i (Suc n) r = start_rx_slots ops L (i + 1) n q"
    "running q = running r" "has_context q = has_context r" "usb_ctl.truncate q = usb_ctl.truncate r"
    "tx_stream_present q = tx_stream_present r" "w_sends (usb q) = w_sends (usb r)"
    "w_setup (usb q) = w_setup (usb r)" "w_events (usb q) = w_events (usb r)"
    "w_allocs (usb q) = []" "w_submits (usb q) = replicate n 0 @ rest"
    using Suc.prems
    by (simp_all add: q_def on_usb_def case_prod_beta try_alloc_def answer_def submit_slot_def
        libusb_submit_transfer_def Let_def usb_ctl.truncate_def map_counters_def tx_stream_present_def)
  from Suc.IH [OF q(9,10), of "i + 1"] show ?case using q(1-8) by simp
qed

text \<open>A command that such a device takes.\<close>

lemma command_taken:
  assumes "calm k (Suc n) r" and "length packet = 20"
  shows "\<exists>t. send_rx_command (OPS L) L packet operation r = (0, t) \<and> calm k n t \<and>
    usb_ctl.truncate t = usb_ctl.truncate r \<and> running t = running r \<and> has_context t = has_context r"
proof -
  have "packet \<noteq> []" using assms(2) by auto
  then show ?thesis
    using assms
    by (simp add: calm_def send_rx_command_def usb_io_send_command_def PRODUCTION_USB_IO_OPS_def
      production_send_command_def libusb_interrupt_transfer_def answer_def deliver_def usb_ctl.truncate_def
      tx_stream_present_def)
qed

lemma start_taken:
  assumes "\<not> running r" "\<not> has_context r" "calm (Suc k) (Suc n) r" "\<not> transmit_prepared r" "\<not> amp_enable_attempted r"
  shows "\<exists>t. usb_rx_start (OPS L) L r = (0, t) \<and> running t \<and> has_handle t \<and> has_context t \<and>
    \<not> transmit_prepared t \<and> \<not> amp_enable_attempted t \<and> calm k n t"
proof -
  have nonempty: "p \<noteq> []" if "length p = 20" for p :: "u8 list" using that by auto
  have len: "length (build_initialize_request i) = 20" for i
    by (simp add: build_initialize_request_def blank_packet_def)
  note len = len nonempty [OF len]
  have "\<exists>q. usb_rx_start (OPS L) L r = start_rx_slots (OPS L) L 0 8 q \<and> w_allocs (usb q) = [] \<and>
     w_submits (usb q) = replicate 8 0 @ concat (replicate k (0 # replicate 8 0)) \<and> running q \<and> has_handle q \<and>
     has_context q \<and> \<not> transmit_prepared q \<and> \<not> amp_enable_attempted q \<and>
     calm k n (q\<lparr>usb := (usb q)\<lparr>w_submits := concat (replicate k (0 # replicate 8 0))\<rparr>\<rparr>)"
    using assms
    by (simp add: calm_def usb_rx_start_def start_device_def start_streams_def on_usb_def case_prod_beta Let_def
      len libusb_setup_call_def answer_def monotonic_ms_def try_alloc_def submit_status_def
      libusb_submit_transfer_def usb_io_send_command_def PRODUCTION_USB_IO_OPS_def production_send_command_def
      libusb_interrupt_transfer_def deliver_def tx_stream_present_def del: start_rx_slots.simps)
      (rule exI, rule conjI, rule refl, simp)
  then obtain q where q: "usb_rx_start (OPS L) L r = start_rx_slots (OPS L) L 0 8 q" "w_allocs (usb q) = []"
    "w_submits (usb q) = replicate 8 0 @ concat (replicate k (0 # replicate 8 0))" "running q" "has_handle q"
    "has_context q" "\<not> transmit_prepared q" "\<not> amp_enable_attempted q"
    "calm k n (q\<lparr>usb := (usb q)\<lparr>w_submits := concat (replicate k (0 # replicate 8 0))\<rparr>\<rparr>)" by blast
  from slots_ok [OF q(2,3), of "OPS L" L 0] show ?thesis
    using q by (auto simp: usb_ctl.truncate_def calm_def tx_stream_present_def)
qed

lemma gain_taken:
  assumes "running r" "has_handle r" "calm k (Suc n) r"
  shows "\<exists>t. usb_rx_set_gain (OPS L) L 20 r = (0, t) \<and> running t \<and> has_handle t \<and> has_context t = has_context r \<and>
    transmit_prepared t = transmit_prepared r \<and> calm k n t \<and> usb_rx_gain t = Some 20"
proof -
  obtain p where p: "build_rx_gain_request (next_command_index r) 3 = Some p" "length p = 20"
    by (simp add: build_rx_gain_request_def blank_packet_def)
  define r1 where "r1 = r\<lparr>next_command_index := next_command_index r + 1\<rparr>"
  have "calm k (Suc n) r1" using assms(3) by (simp add: r1_def calm_def tx_stream_present_def)
  from command_taken [OF this p(2), of L "''send SET_TRX_PREAMP''"] obtain t where
    t: "send_rx_command (OPS L) L p ''send SET_TRX_PREAMP'' r1 = (0, t)" "calm k n t"
      "usb_ctl.truncate t = usb_ctl.truncate r1" "running t = running r1" "has_context t = has_context r1" by auto
  have "usb_rx_set_gain (OPS L) L 20 r = (0, t\<lparr>rx_gain_db := 20, gain_known := True\<rparr>)"
    using assms p t(1) by (simp add: usb_rx_set_gain_def r1_def [symmetric] calm_def)
  then show ?thesis
    using t assms by (simp add: r1_def calm_def tx_stream_present_def usb_ctl.truncate_def usb_rx_gain_def)
qed

lemma preparation_taken:
  assumes "running r" "has_handle r" "calm k (Suc (Suc n)) r" "\<not> transmit_prepared r"
  shows "\<exists>t. usb_rx_enable_transmit_preparation (OPS L) L r = (0, t) \<and> running t \<and> has_handle t \<and>
    has_context t = has_context r \<and> transmit_prepared t \<and> calm k n t \<and> usb_rx_gain t = usb_rx_gain r"
proof -
  have a: "length (build_main_tx_antenna_request i) = 20" "length (build_amp_tx1_request i True) = 20" for i
    by (simp_all add: build_main_tx_antenna_request_def build_amp_tx1_request_def blank_packet_def)
  define r1 where "r1 = r\<lparr>next_command_index := next_command_index r + 1\<rparr>"
  have "calm k (Suc (Suc n)) r1" using assms(3) by (simp add: r1_def calm_def tx_stream_present_def)
  from command_taken [OF this a(1), of L "next_command_index r" "''prepare TX SET_TX_ANT(0)''"] obtain v where
    v: "send_rx_command (OPS L) L (build_main_tx_antenna_request (next_command_index r)) ''prepare TX SET_TX_ANT(0)'' r1 = (0, v)"
      "calm k (Suc n) v" "usb_ctl.truncate v = usb_ctl.truncate r1" "running v = running r1"
      "has_context v = has_context r1" by blast
  define v1 where "v1 = v\<lparr>amp_enable_attempted := True, next_command_index := next_command_index v + 1\<rparr>"
  have "calm k (Suc n) v1" using v(2) by (simp add: v1_def calm_def tx_stream_present_def)
  from command_taken [OF this a(2), of L "next_command_index v" "''prepare TX SET_AMP_TX1(1)''"] obtain z where
    z: "send_rx_command (OPS L) L (build_amp_tx1_request (next_command_index v) True) ''prepare TX SET_AMP_TX1(1)'' v1 = (0, z)"
      "calm k n z" "usb_ctl.truncate z = usb_ctl.truncate v1" "running z = running v1"
      "has_context z = has_context v1" by blast
  have "usb_rx_enable_transmit_preparation (OPS L) L r = (0, z\<lparr>transmit_prepared := True\<rparr>)"
    using assms v(1,2) z(1) by (simp add: usb_rx_enable_transmit_preparation_def and_then_def send_next_def
      r1_def v1_def calm_def)
  then show ?thesis
    using v z assms by (simp add: r1_def v1_def calm_def tx_stream_present_def usb_ctl.truncate_def usb_rx_gain_def)
qed

text \<open>Such a device delivers nothing, so the pump fails; the stop takes the amplifier off and closes.\<close>

lemma pump_fails:
  assumes "calm k n r"
  shows "fst (usb_rx_pump L r) \<noteq> 0" "calm k n (snd (usb_rx_pump L r))"
    "usb_ctl.truncate (snd (usb_rx_pump L r)) = usb_ctl.truncate r"
  using assms by (simp_all add: usb_rx_pump_def handle_events_def libusb_wait_def answer_def deliver_def
    calm_def set_libusb_error_def tx_stream_present_def usb_ctl.truncate_def)

lemma stop_taken:
  assumes "calm k (Suc n) r" "has_handle r" "transmit_prepared r"
  shows "\<not> running (usb_rx_stop (OPS L) L r) \<and> calm k n (usb_rx_stop (OPS L) L r)"
proof -
  have plan: "tx_cleanup_plan (tx_partial_state r) = 64" "\<not> tx_underway 64"
    using assms by (simp_all add: calm_def tx_partial_state_def tx_cleanup_plan_def tx_underway_def)
  have "length (build_amp_tx1_request i False) = 20" for i
    by (simp add: build_amp_tx1_request_def blank_packet_def)
  note len = this
  define r1 where "r1 = r\<lparr>next_command_index := next_command_index r + 1\<rparr>"
  have "calm k (Suc n) r1" using assms(1) by (simp add: r1_def calm_def tx_stream_present_def)
  from command_taken [OF this len, of L "next_command_index r" "''TX cleanup SET_AMP_TX1(0)''"] obtain v where
    v: "send_rx_command (OPS L) L (build_amp_tx1_request (next_command_index r) False) ''TX cleanup SET_AMP_TX1(0)'' r1 = (0, v)"
      "calm k n v" by blast
  define u where "u = stop_transmit (OPS L) L r"
  have "u = v\<lparr>transmit_prepared := False, amp_enable_attempted := False, pa_filter_known := False\<rparr>"
    using assms v(1) by (simp add: u_def stop_transmit_def plan usb_rx_disable_transmit_preparation_def
      tx_execute_cleanup_def cleanup_order_def execute_usb_cleanup_action_def send_next_def r1_def calm_def)
  then have u: "calm k n u" using v(2) by (simp add: calm_def tx_stream_present_def)
  then have "drain_events L w u' = u'\<lparr>usb := (usb u')\<lparr>w_events := []\<rparr>\<rparr> \<or> drain_events L w u' = u'"
    if "usb u' = usb u" for w u'
    using that by (cases "w u'") (simp_all add: drain_events.simps [of L w u'] handle_events_def libusb_wait_def
      answer_def deliver_def calm_def)
  from this [of "u\<lparr>stopping := True, running := False\<rparr>" "\<lambda>r. has_context r \<and> active_transfers r > 0"]
  show ?thesis
    using u unfolding usb_rx_stop_def u_def [symmetric] Let_def
    by (auto simp: calm_def free_slots_def tx_stream_present_def)
qed

lemma create_calm:
  "\<exists>r. usb_rx_create (snd (iq_ring_init True \<lparr>i_part = 0, q_part = 0\<rparr> RING_CAPACITY)) open_world = Some r \<and>
     \<not> running r \<and> \<not> has_context r \<and> \<not> transmit_prepared r \<and> \<not> amp_enable_attempted r \<and> calm 2 9 r"
  by (simp add: usb_rx_create_def iq_ring_init_def RING_CAPACITY_def calm_def open_world_def tx_stream_present_def)

lemma open_calm:
  "\<exists>r. open_radio L True open_world = Some r \<and> running r \<and> has_handle r \<and> has_context r \<and>
     transmit_prepared r \<and> calm 1 5 r \<and> usb_rx_gain r = Some 20"
  "\<exists>r. open_radio L False open_world = Some r"
proof -
  obtain r where r: "usb_rx_create (snd (iq_ring_init True \<lparr>i_part = 0, q_part = 0\<rparr> RING_CAPACITY)) open_world = Some r"
    "\<not> running r" "\<not> has_context r" "\<not> transmit_prepared r" "\<not> amp_enable_attempted r" "calm (Suc 1) (Suc 8) r"
    using create_calm by (auto simp: numeral_eq_Suc)
  obtain t where t: "usb_rx_start (OPS L) L r = (0, t)" "running t" "has_handle t" "has_context t"
    "\<not> transmit_prepared t" "calm 1 (Suc 7) t"
    using start_taken [OF r(2,3,6,4,5), of L] by auto
  obtain u where u: "usb_rx_set_gain (OPS L) L 20 t = (0, u)" "running u" "has_handle u" "has_context u"
    "\<not> transmit_prepared u" "calm 1 (Suc (Suc 5)) u" "usb_rx_gain u = Some 20"
    using gain_taken [OF t(2,3,6), of L] t(4,5) by auto
  obtain v where "usb_rx_enable_transmit_preparation (OPS L) L u = (0, v)" "running v" "has_handle v"
    "has_context v" "transmit_prepared v" "calm 1 5 v" "usb_rx_gain v = Some 20"
    using preparation_taken [OF u(2,3,6,5), of L] u(4,7) by auto
  then show "\<exists>r. open_radio L True open_world = Some r \<and> running r \<and> has_handle r \<and> has_context r \<and>
      transmit_prepared r \<and> calm 1 5 r \<and> usb_rx_gain r = Some 20" "\<exists>r. open_radio L False open_world = Some r"
    using r(1) t(1) u(1) by (simp_all add: open_radio_def)
qed

lemma open_example: "\<exists>r. open_radio L te open_world = Some r"
  using open_calm [of L] by (cases te) auto

end
