(* ===== verification/Daemon_Safety.thy ===== *)
theory Daemon_Safety
  imports Daemon_Loop
begin

text \<open>
  What the server loop guarantees. Every pass is a composition of calls of the sessions and of
  receiver operations that keep the key record, so the invariant of the sessions carries over to
  every state the loop reaches, from the start of the radio to its shutdown. Only a USB loss that
  leaves the control faulted may break the part about the key, when the recovery forgets the fault.
\<close>

subsection \<open>The step relation\<close>

text \<open>
  A pump that does not lose the radio, or loses it without leaving the transmitter control faulted:
  the unkeying before the recovery, if there was something to unkey, was confirmed.
\<close>

definition clean_pump :: "usb_lib \<Rightarrow> daemon_sys \<Rightarrow> bool" where
  "clean_pump L s \<longleftrightarrow>
     (case on_rx (usb_rx_pump L) s of (result, s) \<Rightarrow>
        result = 0 \<and> usb_rx_is_running (rx s) \<or>
        tx_state_of (tx (connection_lost L s)) \<noteq> StateFaulted)"

inductive daemon_step :: "usb_lib \<Rightarrow> bool \<Rightarrow> daemon_sys \<Rightarrow> daemon_sys \<Rightarrow> bool" for L transmit_enabled where
  Watchdogs: "daemon_step L transmit_enabled s (watchdog_pass L t1 t2 t3 t4 s)"
| Pump: "clean_pump L s \<Longrightarrow> daemon_step L transmit_enabled s (snd (pump_pass L transmit_enabled stop s))"
| Inputs: "daemon_step L transmit_enabled s (inputs_pass L transmit_enabled now s)"
| Http: "daemon_step L transmit_enabled s
    (snd (snd (http_client_pass L chars status radio now sent request s)))"
| Stream: "daemon_step L transmit_enabled s (tx_stream_pass L bytes now s)"
| Retune: "daemon_step L transmit_enabled s (snd (snd (api_tune_rx L frequency s)))"
| Publish: "daemon_step L transmit_enabled s (s\<lparr>rx := (rx s)\<lparr>destination := ring\<rparr>\<rparr>)"
| Shutdown: "daemon_step L transmit_enabled s (final_shutdown L transmit_enabled s)"

inductive daemon_run :: "usb_lib \<Rightarrow> bool \<Rightarrow> daemon_sys \<Rightarrow> daemon_sys \<Rightarrow> bool" for L transmit_enabled s0 where
  Start: "daemon_run L transmit_enabled s0 s0"
| Pass: "daemon_run L transmit_enabled s0 s \<Longrightarrow> daemon_step L transmit_enabled s s' \<Longrightarrow>
    daemon_run L transmit_enabled s0 s'"

text \<open>
  The whole loop: also a loss that leaves the control faulted, after which a recovery that succeeds
  forgets the fault. \<open>lost\<close> says whether one has happened.
\<close>

inductive loop_run :: "usb_lib \<Rightarrow> bool \<Rightarrow> daemon_sys \<Rightarrow> bool \<Rightarrow> daemon_sys \<Rightarrow> bool" for L transmit_enabled s0 where
  Begin: "loop_run L transmit_enabled s0 False s0"
| Step: "loop_run L transmit_enabled s0 lost s \<Longrightarrow> daemon_step L transmit_enabled s s' \<Longrightarrow>
    loop_run L transmit_enabled s0 lost s'"
| Unclean: "loop_run L transmit_enabled s0 lost s \<Longrightarrow> \<not> clean_pump L s \<Longrightarrow>
    loop_run L transmit_enabled s0 True (snd (pump_pass L transmit_enabled stop s))"

subsection \<open>The invariant\<close>

definition daemon_good :: "daemon_sys \<Rightarrow> bool" where
  "daemon_good s \<longleftrightarrow> tx_safe keyed tracked s \<and> session_inv s"

lemma good_step:
  assumes "session_step (daemon_callbacks L) daemon_env s s'" and "daemon_good s"
  shows "daemon_good s'"
  using daemon.session_step_good [OF assms(1)] assms(2) by (simp add: daemon.good_def daemon_good_def)

lemma good_reach:
  assumes "session_reachable (daemon_callbacks L) daemon_env s s'" and "daemon_good s"
  shows "daemon_good s'"
  using daemon.session_reachable_good [OF assms(1)] assms(2) by (simp add: daemon.good_def daemon_good_def)

lemma good_ops:
  assumes "daemon_good s"
  shows "daemon_good (tune_control_shutdown (daemon_callbacks L) s)"
    "daemon_good (snd (tune_control_tick (daemon_callbacks L) now s))"
    "daemon_good (tune_control_reconcile w s)"
    "daemon_good (snd (tx_control_tick (daemon_callbacks L) now s))"
    "daemon_good (snd (tx_control_physical_ptt (daemon_callbacks L) pressed now s))"
    "daemon_good (tx_control_shutdown (daemon_callbacks L) s)"
    "daemon_good (snd (network_tx_release (daemon_callbacks L) lease s))"
    "daemon_good (snd (network_tx_disconnect_stream (daemon_callbacks L) s))"
    "daemon_good (snd (network_tx_tick (daemon_callbacks L) now s))"
    "daemon_good (network_tx_reconcile s)"
    "daemon_good (snd (network_tx_record_data lease frames now s))"
    "daemon_good (tx_control_arm_physical_ptt s)"
  by (rule good_step [where L = L, OF _ assms], rule session_step.intros)+

lemma good_maps [simp]:
  "daemon_good (map_diagnostics d s) = daemon_good s"
  "daemon_good (map_controller c s) = daemon_good s"
  "daemon_good (map_station j s) = daemon_good s"
  "daemon_good (s\<lparr>tx_client := a\<rparr>) = daemon_good s"
  "daemon_good (s\<lparr>network_prebuffer := p\<rparr>) = daemon_good s"
  "daemon_good (s\<lparr>network_tail := p\<rparr>) = daemon_good s"
  "daemon_good (s\<lparr>recovery_attempts := n\<rparr>) = daemon_good s"
  "daemon_good (s\<lparr>recovery_successes := n\<rparr>) = daemon_good s"
  "daemon_good (s\<lparr>logged_inputs := i\<rparr>) = daemon_good s"
  "daemon_good (s\<lparr>observed_ptt := b\<rparr>) = daemon_good s"
  by (simp_all add: daemon_good_def tx_safe_def session_inv_def map_diagnostics_def key_maps)
    (simp_all add: keyed_def tracked_def)

lemma good_rx:
  assumes "daemon_good s" and "rx_keyed r \<longrightarrow> keyed s" and "tracked s \<longrightarrow> rx_tracked r"
  shows "daemon_good (s\<lparr>rx := r\<rparr>)"
  using assms by (auto simp: daemon_good_def tx_safe_def session_inv_def keyed_def tracked_def)

text \<open>Between transmissions the invariant asks for an unkeyed radio or the fault that was recorded.\<close>

lemma good_idle:
  "tx_owner_of (tx s) = OwnerNone \<Longrightarrow>
     daemon_good s \<longleftrightarrow> tx_inv (tx s) \<and> session_inv s \<and> (tx_state_of (tx s) = StateFaulted \<or> \<not> keyed s)"
  by (auto simp: daemon_good_def tx_safe_def keyed_def tracked_def rx_tracked_def)

lemma good_idle_rx:
  assumes "daemon_good s" and "tx_owner_of (tx s) = OwnerNone" and "\<not> keyed s \<Longrightarrow> \<not> rx_keyed r"
  shows "daemon_good (s\<lparr>rx := r\<rparr>)"
  using assms by (auto simp: good_idle keyed_def session_inv_def)

subsection \<open>The receiver between transmissions\<close>

lemma stop_unkeyed: "\<not> rx_keyed r \<Longrightarrow> \<not> rx_keyed (usb_rx_stop (OPS L) L r)"
  using stop_transmit_effect [of r L] by (auto simp: rx_tracked_def rx_keyed_def usb_rx_stop_wire)

lemma submit_wire [simp]:
  "wire (usb (snd (submit_slot L i b r))) = wire (usb r)"
  "wire (usb (snd (submit_status L r))) = wire (usb r)"
  "wire (usb (snd (on_usb try_alloc r))) = wire (usb r)"
  "wire (usb (snd (on_usb libusb_setup_call r))) = wire (usb r)"
  by (simp_all add: submit_slot_def submit_status_def on_usb_def Let_def case_prod_beta map_counters_def
      set_libusb_error_def)

lemma fail_unkeyed: "\<not> rx_keyed r \<Longrightarrow> \<not> rx_keyed (snd (fail_start (OPS L) L e r))"
  by (simp add: fail_start_def stop_unkeyed)

lemma slots_unkeyed: "\<not> rx_keyed r \<Longrightarrow> \<not> rx_keyed (snd (start_rx_slots (OPS L) L i n r))"
proof (induction n arbitrary: i r)
  case 0
  then show ?case by simp
next
  case (Suc n)
  then show ?case
    by (auto simp: case_prod_beta Let_def intro!: fail_unkeyed Suc.IH)
      (auto simp: rx_keyed_def set_error_def)
qed

lemma streams_unkeyed: "\<not> rx_keyed r \<Longrightarrow> \<not> rx_keyed (snd (start_streams (OPS L) L r))"
  by (auto simp: start_streams_def case_prod_beta Let_def intro!: fail_unkeyed slots_unkeyed)
    (auto simp: rx_keyed_def set_error_def)

lemma start_unkeyed:
  assumes "\<not> rx_keyed r"
  shows "\<not> rx_keyed (snd (usb_rx_start (OPS L) L r))"
proof -
  have send: "rx_keyed (snd (snd (usb_io_send_command (OPS L) (build_initialize_request i) q))) = rx_keyed q" for i q
    using production.send_wire [of L "build_initialize_request i" q]
    by (simp add: usb_io_send_command_def rx_keyed_def)
  have dev: "\<not> rx_keyed (snd (start_device (OPS L) L q))" if "\<not> rx_keyed q" for q
    using that unfolding start_device_def
    by (auto simp: case_prod_beta Let_def intro!: fail_unkeyed streams_unkeyed)
      (auto simp: rx_keyed_def set_error_def set_libusb_error_def send [unfolded rx_keyed_def])
  show ?thesis
    using assms by (auto simp: usb_rx_start_def case_prod_beta intro!: dev)
      (simp add: rx_keyed_def clock_same)
qed

lemma settings_key:
  "rx_keyed (snd (usb_rx_tune (OPS L) L f r)) = rx_keyed r"
  "rx_keyed (snd (usb_rx_set_gain (OPS L) L g r)) = rx_keyed r"
  "rx_keyed (snd (usb_rx_enable_transmit_preparation (OPS L) L r)) = rx_keyed r"
  "rx_keyed (r\<lparr>destination := ring\<rparr>) = rx_keyed r"
proof -
  have "same_key r (snd (usb_rx_tune (OPS L) L f r))" "same_key r (snd (usb_rx_set_gain (OPS L) L g r))"
    "same_key r (snd (usb_rx_enable_transmit_preparation (OPS L) L r))"
    by (rule production.tune_same_key production.gain_same_key production.enable_same_key)+
  then show "rx_keyed (snd (usb_rx_tune (OPS L) L f r)) = rx_keyed r"
    "rx_keyed (snd (usb_rx_set_gain (OPS L) L g r)) = rx_keyed r"
    "rx_keyed (snd (usb_rx_enable_transmit_preparation (OPS L) L r)) = rx_keyed r"
    by (simp_all add: same_key_def)
qed (simp add: rx_keyed_def)

subsection \<open>Recovery\<close>

lemma shutdown_idle: "tx_owner_of (tx (daemon_tx_shutdown L s)) = OwnerNone"
  using daemon.stop_owner_none [of L False s]
  by (simp add: daemon_tx_shutdown_def Let_def tx_control_shutdown_def tune_reconcile_effect)

lemma shutdown_good: "daemon_good s \<Longrightarrow> daemon_good (daemon_tx_shutdown L s)"
  by (simp add: daemon_tx_shutdown_def Let_def good_ops)

lemma connection_lost_good:
  assumes "daemon_good s"
  shows "daemon_good (connection_lost L s)" "tx_owner_of (tx (connection_lost L s)) = OwnerNone"
proof -
  define t where "t = daemon_tx_shutdown L ((snd (network_tx_release (daemon_callbacks L)
      (net_lease (net (snd (network_tx_disconnect_stream (daemon_callbacks L) (s\<lparr>tx_client := False\<rparr>)))))
      (snd (network_tx_disconnect_stream (daemon_callbacks L) (s\<lparr>tx_client := False\<rparr>)))))\<lparr>network_prebuffer := []\<rparr>)"
  have t: "daemon_good t" "tx_owner_of (tx t) = OwnerNone"
    using assms by (simp_all add: t_def shutdown_good shutdown_idle good_ops)
  have "connection_lost L s = t\<lparr>rx := usb_rx_stop (OPS L) L (rx t)\<rparr>"
    by (simp add: connection_lost_def Let_def t_def)
  then show "daemon_good (connection_lost L s)" "tx_owner_of (tx (connection_lost L s)) = OwnerNone"
    using good_idle_rx [OF t] t stop_unkeyed [of "rx t" L] by (auto simp: keyed_def)
qed

lemma reopen_frame:
  "tx (snd (reopen L te f g s)) = tx s" "tune (snd (reopen L te f g s)) = tune s"
  "net (snd (reopen L te f g s)) = net s"
  by (auto simp: reopen_def Let_def case_prod_beta split: option.split)

lemma reopen_unkeyed: "\<not> keyed s \<Longrightarrow> \<not> keyed (snd (reopen L te f g s))"
  by (auto simp: keyed_def reopen_def Let_def case_prod_beta settings_key split: option.splits
      intro!: stop_unkeyed start_unkeyed dest: start_unkeyed)

lemma fresh_controls_fields:
  "tx_owner_of (tx (fresh_controls te s)) = OwnerNone" "tx_inv (tx (fresh_controls te s))"
  "tx_state_of (tx (fresh_controls te s)) = StateRx" "tx_enabled (tx (fresh_controls te s)) = te"
  "rx (fresh_controls te s) = rx s" "session_inv (fresh_controls te s)"
  by (auto simp: fresh_controls_def Let_def tx_control_arm_physical_ptt_def tx_control_init_def tx_inv_def
      session_inv_def net_inv_def tune_control_init_def network_tx_init_def blank_session_def
      map_diagnostics_def)

lemma fresh_controls_good: "\<not> keyed s \<Longrightarrow> daemon_good (fresh_controls te s)"
  by (simp add: good_idle fresh_controls_fields keyed_def)

lemma recover_good:
  assumes "daemon_good s" and "tx_owner_of (tx s) = OwnerNone" and "\<not> keyed s"
  shows "daemon_good (snd (recover L te f g stop n s))"
  using assms
proof (induction n arbitrary: s)
  case 0
  then show ?case by simp
next
  case (Suc n)
  have u: "\<not> keyed (snd (reopen L te f g s))" using reopen_unkeyed [OF Suc.prems(3)] .
  have "session_inv (snd (reopen L te f g s))"
    using Suc.prems by (simp add: daemon_good_def session_inv_def reopen_frame)
  then have "daemon_good (snd (reopen L te f g s))"
    using Suc.prems u by (simp add: good_idle reopen_frame)
  with u Suc.prems show ?case
    by (auto simp: case_prod_beta reopen_frame fresh_controls_good intro!: Suc.IH)
qed

lemma pump_key: "same_key r (snd (usb_rx_pump L r))"
  using handle_events_same [of L r] ctl_eqD [OF handle_events_same(1), of L r]
  by (auto simp: usb_rx_pump_def same_key_def case_prod_beta rx_keyed_def key_flag_def set_libusb_error_def)

lemma pump_good:
  assumes "daemon_good s" and "clean_pump L s"
  shows "daemon_good (snd (pump_pass L te stop s))"
proof -
  define t where "t = s\<lparr>rx := snd (usb_rx_pump L (rx s))\<rparr>"
  have o: "on_rx (usb_rx_pump L) s = (fst (usb_rx_pump L (rx s)), t)"
    by (simp add: on_rx_def t_def case_prod_beta)
  have g: "daemon_good t"
    unfolding t_def using same_key_kept [OF pump_key [of "rx s" L]]
    by (intro good_rx [OF assms(1)]) (auto simp: keyed_def tracked_def)
  show ?thesis
  proof (cases "fst (usb_rx_pump L (rx s)) = 0 \<and> usb_rx_is_running (rx t)")
    case True
    with g show ?thesis by (simp add: pump_pass_def o)
  next
    case False
    note lost = connection_lost_good [OF g, of L]
    have "\<not> keyed (connection_lost L t)"
      using False assms(2) lost by (auto simp: clean_pump_def o good_idle)
    with False lost show ?thesis by (auto simp: pump_pass_def o Let_def recover_good)
  qed
qed

subsection \<open>The passes\<close>

lemma drop_good [simp]: "daemon_good (drop_tx_client s) = daemon_good s"
  by (simp add: drop_tx_client_def)

lemma watchdog_good: "daemon_good s \<Longrightarrow> daemon_good (watchdog_pass L t1 t2 t3 t4 s)"
  by (simp add: watchdog_pass_def station_pass_def tune_pass_def tx_pass_def session_pass_def
      network_pass_def Let_def case_prod_beta good_ops)

lemma inputs_good: "daemon_good s \<Longrightarrow> daemon_good (inputs_pass L te now s)"
  by (simp add: inputs_pass_def ptt_edge_def Let_def case_prod_beta good_ops split: option.split)

lemma push_good: "daemon_good s \<Longrightarrow> daemon_good (snd (on_rx (usb_rx_network_tx_push L data raw) s))"
  by (simp add: on_rx_def case_prod_beta usb_rx_network_tx_push_def)
    (auto intro!: good_rx simp: keyed_def tracked_def rx_tracked_def rx_keyed_def key_flag_def)

lemma append_good [simp]: "daemon_good (append_prebuffer data s) = daemon_good s"
  by (simp add: append_prebuffer_def Let_def)

lemma dispatch_good:
  "daemon_good s \<Longrightarrow> daemon_good (result_state
     (api_dispatch (daemon_callbacks L) (daemon_api_callbacks L) request status radio room s))"
  by (rule good_reach [OF daemon.reach_dispatch]) (rule session_reachable.Init)

lemma http_good: "daemon_good s \<Longrightarrow> daemon_good (snd (snd (http_pass L request status radio now sent s)))"
  by (simp add: http_pass_def Let_def case_prod_beta dispatch_good push_tx_audio_def push_good
      split: option.split)

lemma http_client_good:
  "daemon_good s \<Longrightarrow> daemon_good (snd (snd (http_client_pass L chars status radio now sent request s)))"
  by (simp add: http_client_pass_def Let_def case_prod_beta http_good)

lemma stream_good: "daemon_good s \<Longrightarrow> daemon_good (tx_stream_pass L bytes now s)"
  by (simp add: tx_stream_pass_def push_tx_stream_def Let_def push_good good_ops split: recv_result.split)

lemma disable_key: "daemon_good s \<Longrightarrow> tx_owner_of (tx s) = OwnerNone \<Longrightarrow>
    daemon_good (snd (on_rx (usb_rx_disable_transmit_preparation (OPS L) L) s))"
proof -
  assume g: "daemon_good s" and o: "tx_owner_of (tx s) = OwnerNone"
  have "\<not> rx_keyed (snd (usb_rx_disable_transmit_preparation (OPS L) L (rx s)))" if "\<not> keyed s"
  proof (cases "has_handle (rx s)")
    case False
    then show ?thesis using that by (simp add: usb_rx_disable_transmit_preparation_def keyed_def)
  next
    case True
    then show ?thesis
      using production.disable_effect [OF True prod.collapse [symmetric], of L L] that
      by (auto simp: keyed_def)
  qed
  then show ?thesis
    using good_idle_rx [OF g o] by (simp add: on_rx_def case_prod_beta)
qed

lemma final_shutdown_good: "daemon_good s \<Longrightarrow> daemon_good (final_shutdown L te s)"
  by (simp add: final_shutdown_def Let_def case_prod_beta shutdown_good shutdown_idle disable_key)

lemma retune_good: "daemon_good s \<Longrightarrow> daemon_good (snd (snd (api_tune_rx L f s)))"
  by (erule good_step [rotated]) (rule session_step.Env, rule tune_rx_env)

lemma publish_good: "daemon_good s \<Longrightarrow> daemon_good (s\<lparr>rx := (rx s)\<lparr>destination := ring\<rparr>\<rparr>)"
  by (rule good_rx) (simp_all add: keyed_def tracked_def rx_keyed_def rx_tracked_def key_flag_def)

lemma daemon_step_good: "daemon_step L te s s' \<Longrightarrow> daemon_good s \<Longrightarrow> daemon_good s'"
  by (induction rule: daemon_step.induct)
    (simp_all add: watchdog_good pump_good inputs_good http_client_good stream_good retune_good
      publish_good final_shutdown_good)

lemma daemon_run_good: "daemon_run L te s0 s \<Longrightarrow> daemon_good s0 \<Longrightarrow> daemon_good s"
  by (induction rule: daemon_run.induct) (auto intro: daemon_step_good)

subsection \<open>The sessions, whatever was lost\<close>

text \<open>
  The part of the invariant that does not speak of the radio holds in every state: the contract of the
  sessions again, for a hardware of which nothing is asked.
\<close>

definition daemon_shape :: "daemon_sys \<Rightarrow> bool" where
  "daemon_shape s \<longleftrightarrow> tx_inv (tx s) \<and> session_inv s"

interpretation shape: api_backend "daemon_callbacks L" daemon_env "\<lambda>_. False" "\<lambda>_. True" "daemon_api_callbacks L" for L
  by unfold_locales
    (auto simp: call_daemon tune_rx_env set_gain_env map_env set_gain_controller daemon_api_callbacks_def
      same_sessions_def, auto simp: daemon_env_def same_sessions_def)

lemma shape_good: "shape.good s = daemon_shape s"
  by (simp add: shape.good_def daemon_shape_def tx_safe_def)

lemma good_shape: "daemon_good s \<Longrightarrow> daemon_shape s"
  by (simp add: daemon_good_def daemon_shape_def tx_safe_def)

lemma shape_step: "session_step (daemon_callbacks L) daemon_env s s' \<Longrightarrow> daemon_shape s \<Longrightarrow> daemon_shape s'"
  using shape.session_step_good [of L s s'] by (simp add: shape_good)

lemma shape_ops:
  assumes "daemon_shape s"
  shows "daemon_shape (tune_control_shutdown (daemon_callbacks L) s)"
    "daemon_shape (snd (tune_control_tick (daemon_callbacks L) now s))"
    "daemon_shape (tune_control_reconcile w s)"
    "daemon_shape (snd (tx_control_tick (daemon_callbacks L) now s))"
    "daemon_shape (snd (tx_control_physical_ptt (daemon_callbacks L) pressed now s))"
    "daemon_shape (tx_control_shutdown (daemon_callbacks L) s)"
    "daemon_shape (snd (network_tx_release (daemon_callbacks L) lease s))"
    "daemon_shape (snd (network_tx_disconnect_stream (daemon_callbacks L) s))"
    "daemon_shape (snd (network_tx_tick (daemon_callbacks L) now s))"
    "daemon_shape (network_tx_reconcile s)"
    "daemon_shape (snd (network_tx_record_data lease frames now s))"
  by (rule shape_step [where L = L, OF _ assms], rule session_step.intros)+

lemma shape_maps [simp]:
  "daemon_shape (map_diagnostics d s) = daemon_shape s"
  "daemon_shape (map_controller c s) = daemon_shape s"
  "daemon_shape (map_station j s) = daemon_shape s"
  "daemon_shape (s\<lparr>rx := r\<rparr>) = daemon_shape s"
  "daemon_shape (s\<lparr>tx_client := a\<rparr>) = daemon_shape s"
  "daemon_shape (s\<lparr>network_prebuffer := p\<rparr>) = daemon_shape s"
  "daemon_shape (s\<lparr>network_tail := p\<rparr>) = daemon_shape s"
  "daemon_shape (s\<lparr>logged_inputs := i\<rparr>) = daemon_shape s"
  "daemon_shape (s\<lparr>observed_ptt := b\<rparr>) = daemon_shape s"
  "daemon_shape (drop_tx_client s) = daemon_shape s"
  "daemon_shape (append_prebuffer data s) = daemon_shape s"
  "daemon_shape (snd (on_rx f s)) = daemon_shape s"
  by (simp_all add: daemon_shape_def session_inv_def map_diagnostics_def drop_tx_client_def
      append_prebuffer_def Let_def)

lemma dispatch_shape:
  "daemon_shape s \<Longrightarrow> daemon_shape (result_state
     (api_dispatch (daemon_callbacks L) (daemon_api_callbacks L) request status radio room s))"
  using shape.session_reachable_good [OF shape.reach_dispatch [OF session_reachable.Init], of s L request status radio room]
  by (simp add: shape_good)

lemma shutdown_shape: "daemon_shape s \<Longrightarrow> daemon_shape (daemon_tx_shutdown L s)"
  by (simp add: daemon_tx_shutdown_def Let_def shape_ops)

lemma recover_shape: "daemon_shape s \<Longrightarrow> daemon_shape (snd (recover L te f g stop n s))"
proof (induction n arbitrary: s)
  case (Suc n)
  have "daemon_shape (snd (reopen L te f g s))"
    using Suc.prems by (simp add: daemon_shape_def session_inv_def reopen_frame)
  moreover have "daemon_shape (fresh_controls te t)" for t
    by (simp add: daemon_shape_def fresh_controls_fields)
  ultimately show ?case using Suc by (simp add: case_prod_beta)
qed simp

lemma pump_shape: "daemon_shape s \<Longrightarrow> daemon_shape (snd (pump_pass L te stop s))"
  by (simp add: pump_pass_def Let_def case_prod_beta recover_shape connection_lost_def shutdown_shape shape_ops)

lemma retune_shape: "daemon_shape s \<Longrightarrow> daemon_shape (snd (snd (api_tune_rx L f s)))"
  by (erule shape_step [rotated]) (rule session_step.Env, rule tune_rx_env)

lemma daemon_step_shape: "daemon_step L te s s' \<Longrightarrow> daemon_shape s \<Longrightarrow> daemon_shape s'"
proof (induction rule: daemon_step.induct)
  case (Watchdogs s t1 t2 t3 t4)
  then show ?case
    by (simp add: watchdog_pass_def station_pass_def tune_pass_def tx_pass_def session_pass_def
      network_pass_def Let_def case_prod_beta shape_ops)
next
  case (Inputs s now)
  then show ?case by (simp add: inputs_pass_def ptt_edge_def Let_def case_prod_beta shape_ops split: option.split)
next
  case (Http s chars status radio now sent request)
  then show ?case
    by (simp add: http_client_pass_def http_pass_def Let_def case_prod_beta dispatch_shape push_tx_audio_def
      split: option.split)
next
  case (Stream s bytes now)
  then show ?case by (simp add: tx_stream_pass_def push_tx_stream_def Let_def shape_ops split: recv_result.split)
next
  case (Retune s frequency)
  show ?case by (rule retune_shape [OF Retune])
next
  case (Shutdown s)
  then show ?case by (simp add: final_shutdown_def Let_def case_prod_beta shutdown_shape)
qed (simp_all add: pump_shape)

lemma loop_run_good:
  "loop_run L te s0 lost s \<Longrightarrow> daemon_good s0 \<Longrightarrow> daemon_shape s \<and> (lost \<or> daemon_good s)"
proof (induction rule: loop_run.induct)
  case Begin
  then show ?case by (simp add: good_shape)
next
  case (Step lost s s')
  then show ?case using daemon_step_shape [OF Step.hyps(2)] daemon_step_good [OF Step.hyps(2)] by blast
next
  case (Unclean lost s stop)
  then show ?case using pump_shape by blast
qed

subsection \<open>Transmitting enabled\<close>

lemma enabled_ops [simp]:
  "tx_enabled (tx (tune_control_shutdown (daemon_callbacks L) s)) = tx_enabled (tx s)"
  "tx_enabled (tx (snd (tune_control_tick (daemon_callbacks L) now s))) = tx_enabled (tx s)"
  "tx_enabled (tx (tune_control_reconcile w s)) = tx_enabled (tx s)"
  "tx_enabled (tx (snd (tx_control_tick (daemon_callbacks L) now s))) = tx_enabled (tx s)"
  "tx_enabled (tx (snd (tx_control_physical_ptt (daemon_callbacks L) pressed now s))) = tx_enabled (tx s)"
  "tx_enabled (tx (tx_control_shutdown (daemon_callbacks L) s)) = tx_enabled (tx s)"
  "tx_enabled (tx (snd (network_tx_release (daemon_callbacks L) lease s))) = tx_enabled (tx s)"
  "tx_enabled (tx (snd (network_tx_disconnect_stream (daemon_callbacks L) s))) = tx_enabled (tx s)"
  "tx_enabled (tx (snd (network_tx_tick (daemon_callbacks L) now s))) = tx_enabled (tx s)"
  "tx_enabled (tx (network_tx_reconcile s)) = tx_enabled (tx s)"
  "tx_enabled (tx (snd (network_tx_record_data lease frames now s))) = tx_enabled (tx s)"
  by (rule daemon.session_step_enabled [where L = L], rule session_step.intros)+

lemma dispatch_enabled [simp]:
  "tx_enabled (tx (result_state (api_dispatch (daemon_callbacks L) (daemon_api_callbacks L) request
     status radio room s))) = tx_enabled (tx s)"
proof -
  have "tx_enabled (tx s') = tx_enabled (tx s)"
    if "session_reachable (daemon_callbacks L) daemon_env s s'" for s'
    using that by (induction rule: session_reachable.induct) (simp_all add: daemon.session_step_enabled)
  from this [OF daemon.reach_dispatch [OF session_reachable.Init]] show ?thesis .
qed

lemma map_enabled [simp]:
  "tx (drop_tx_client s) = tx s" "tx (map_diagnostics d s) = tx s" "tx (append_prebuffer data s) = tx s"
  by (simp_all add: drop_tx_client_def map_diagnostics_def append_prebuffer_def Let_def)

lemma shutdown_enabled [simp]: "tx_enabled (tx (daemon_tx_shutdown L s)) = tx_enabled (tx s)"
  by (simp add: daemon_tx_shutdown_def Let_def)

lemma recover_enabled:
  "tx_enabled (tx s) = te \<Longrightarrow> tx_enabled (tx (snd (recover L te f g stop n s))) = te"
  by (induction n arbitrary: s) (auto simp: case_prod_beta reopen_frame fresh_controls_fields)

lemma pump_enabled:
  assumes "tx_enabled (tx s) = te" shows "tx_enabled (tx (snd (pump_pass L te stop s))) = te"
proof -
  have "tx_enabled (tx (connection_lost L t)) = tx_enabled (tx t)" for t
    by (simp add: connection_lost_def Let_def)
  then show ?thesis using assms by (simp add: pump_pass_def Let_def case_prod_beta recover_enabled)
qed

lemma daemon_step_enabled:
  "daemon_step L te s s' \<Longrightarrow> tx_enabled (tx s) = te \<Longrightarrow> tx_enabled (tx s') = te"
proof (induction rule: daemon_step.induct)
  case (Pump s stop)
  then show ?case by (simp add: pump_enabled)
qed (simp_all add: watchdog_pass_def station_pass_def tune_pass_def tx_pass_def session_pass_def
    network_pass_def inputs_pass_def ptt_edge_def http_client_pass_def http_pass_def push_tx_audio_def
    tx_stream_pass_def push_tx_stream_def final_shutdown_def api_tune_rx_def Let_def case_prod_beta
    split: option.split recv_result.split)

lemma loop_run_enabled: "loop_run L te s0 lost s \<Longrightarrow> tx_enabled (tx s0) = te \<Longrightarrow> tx_enabled (tx s) = te"
proof (induction rule: loop_run.induct)
  case (Step lost s s')
  then show ?case using daemon_step_enabled [OF Step.hyps(2)] by simp
qed (simp_all add: pump_enabled)

subsection \<open>From the start\<close>

lemma open_radio_unkeyed:
  assumes "open_radio L te w = Some r" and "\<not> maybe_keyed (wire w)"
  shows "\<not> rx_keyed r"
proof -
  obtain r0 where r0: "usb_rx_create (snd (iq_ring_init True \<lparr>i_part = 0, q_part = 0\<rparr> RING_CAPACITY)) w = Some r0"
    using assms(1) by (auto simp: open_radio_def split: option.splits)
  then have "\<not> rx_keyed r0" using assms(2) by (auto simp: usb_rx_create_def rx_keyed_def split: if_splits)
  then have "\<not> rx_keyed (snd (usb_rx_start (OPS L) L r0))" by (rule start_unkeyed)
  then show ?thesis
    using assms(1) by (auto simp: open_radio_def r0 case_prod_beta settings_key split: if_splits)
qed

lemma live_start_good:
  assumes "\<not> rx_keyed r"
  shows "daemon_good (live_start te tuning page lease r)" "tx_enabled (tx (live_start te tuning page lease r)) = te"
  using assms by (auto simp: good_idle live_start_def Let_def tx_control_arm_physical_ptt_def
      tx_control_init_def tx_inv_def session_inv_def net_inv_def tune_control_init_def
      network_tx_init_def blank_session_def keyed_def map_tx_def)

text \<open>The states the server is in from the opened radio on, and whether a loss left a fault on the way.\<close>

definition serving :: "usb_lib \<Rightarrow> bool \<Rightarrow> bool \<Rightarrow> daemon_sys \<Rightarrow> bool" where
  "serving L transmit_enabled lost s \<longleftrightarrow>
     (\<exists>w r tuning page lease. open_radio L transmit_enabled w = Some r \<and> \<not> maybe_keyed (wire w) \<and>
        loop_run L transmit_enabled (live_start transmit_enabled tuning page lease r) lost s)"

lemma servingI:
  "open_radio L te w = Some r \<Longrightarrow> \<not> maybe_keyed (wire w) \<Longrightarrow>
     loop_run L te (live_start te tuning page lease r) lost s \<Longrightarrow> serving L te lost s"
  unfolding serving_def by blast

lemma serving_good:
  assumes "serving L te lost s"
  shows "daemon_shape s \<and> (lost \<or> daemon_good s) \<and> tx_enabled (tx s) = te"
proof -
  obtain w r tuning page lease where r: "open_radio L te w = Some r" "\<not> maybe_keyed (wire w)"
    and run: "loop_run L te (live_start te tuning page lease r) lost s"
    using assms unfolding serving_def by blast
  note start = live_start_good [OF open_radio_unkeyed [OF r]]
  show ?thesis
    using loop_run_good [OF run start(1)] loop_run_enabled [OF run start(2)] by blast
qed

text \<open>C1.
  From the start on, through every sequence of passes of the server loop with whatever clients, the
  radio, libusb and the clock do, an owner of the transmitter is always the session that claims it,
  it transmits, and only when transmitting was enabled. The radio is keyed only then, or when a fault
  is recorded, or else on the way the USB stream was lost with the control left faulted (\<open>lost\<close>):
  a recovery that succeeds after that forgets the fault.
\<close>

theorem daemon_keys_under_owner:
  assumes "open_radio L transmit_enabled w = Some r" and "\<not> maybe_keyed (wire w)"
    and "loop_run L transmit_enabled (live_start transmit_enabled tuning page lease r) lost s"
  shows "(keyed s \<longrightarrow> transmit_enabled \<and>
      (tx_state_of (tx s) = StateTransmitting \<and> tx_owner_of (tx s) \<noteq> OwnerNone \<or>
       tx_state_of (tx s) = StateFaulted) \<or> lost) \<and>
    (tx_owner_of (tx s) \<noteq> OwnerNone \<longrightarrow> transmit_enabled \<and> tx_state_of (tx s) = StateTransmitting) \<and>
    (tx_owner_of (tx s) = OwnerTune \<longrightarrow> tune_active (tune s)) \<and>
    (tx_owner_of (tx s) = OwnerHttp \<longrightarrow> net_keyed (net s) \<and> reserved (net s)) \<and>
    (tx_owner_of (tx s) = OwnerPhysicalMic \<longrightarrow> physical_ptt_armed (tx s))"
proof -
  have "serving L transmit_enabled lost s" using assms by (rule servingI)
  note good = serving_good [OF this]
  then have shape: "tx_inv (tx s)" and sessions: "tx_owner_of (tx s) = OwnerTune \<longrightarrow> tune_active (tune s)"
      "tx_owner_of (tx s) = OwnerHttp \<longrightarrow> net_keyed (net s)" "net_inv (net s)"
    and enabled: "tx_enabled (tx s) = transmit_enabled"
    unfolding daemon_shape_def session_inv_def by blast+
  have safe: "keyed s \<longrightarrow> tx_owner_of (tx s) \<noteq> OwnerNone \<or> tx_state_of (tx s) = StateFaulted \<or> lost"
    using good unfolding daemon_good_def tx_safe_def by blast
  have "net_keyed (net s) \<longrightarrow> reserved (net s)"
    using sessions(3) unfolding net_inv_def by blast
  with shape safe sessions(1,2) enabled show ?thesis
    unfolding tx_inv_def by (cases "tx_owner_of (tx s)"; cases "tx_state_of (tx s)") simp_all
qed

theorem daemon_keys_under_owner_witness:
  "\<forall>L. \<exists>r. open_radio L True open_world = Some r \<and>
     \<not> keyed (watchdog_pass L 1 2 3 4 (live_start True True True (\<lambda>_. 1) r))"
proof
  fix L
  obtain r where r: "open_radio L True open_world = Some r" using open_example by blast
  define s where "s = watchdog_pass L 1 2 3 4 (live_start True True True (\<lambda>_. 1) r)"
  have "loop_run L True (live_start True True True (\<lambda>_. 1) r) False s"
    unfolding s_def by (rule loop_run.Step [OF loop_run.Begin daemon_step.Watchdogs])
  note owner = daemon_keys_under_owner [OF r _ this]
  have "tx_owner_of (tx s) = OwnerNone \<and> tx_state_of (tx s) \<noteq> StateFaulted"
    by (simp add: s_def live_start_def Let_def watchdog_pass_def station_pass_def tune_pass_def tx_pass_def
      session_pass_def network_pass_def station_owner_tick_def station_owner_init_def tune_control_tick_def
      tune_control_init_def tx_control_tick_def tune_control_reconcile_def network_tx_reconcile_def
      network_tx_tick_def network_tx_init_def blank_session_def tx_control_arm_physical_ptt_def
      tx_control_init_def map_station_def map_tx_def)
  with owner r show "\<exists>r. open_radio L True open_world = Some r \<and>
     \<not> keyed (watchdog_pass L 1 2 3 4 (live_start True True True (\<lambda>_. 1) r))"
    by (auto simp: open_world_def s_def)
qed

end
