(* ===== verification/Daemon_Limits.thy ===== *)
theory Daemon_Limits
  imports Daemon_Safety
begin

text \<open>
  The limits the server loop enforces: what one round of its watchdogs leaves running, what a
  request can change while the radio transmits, what recovery and shutdown leave behind, and how
  the bytes of a transmit stream reach the transmitter.
\<close>

subsection \<open>One round of the watchdogs\<close>

lemma pass_shape:
  "daemon_shape s \<Longrightarrow> daemon_shape (station_pass L now s)"
  "daemon_shape s \<Longrightarrow> daemon_shape (tune_pass L now s)"
  "daemon_shape s \<Longrightarrow> daemon_shape (tx_pass L now s)"
  "daemon_shape s \<Longrightarrow> daemon_shape (session_pass s)"
  "daemon_shape s \<Longrightarrow> daemon_shape (network_pass L now s)"
  by (simp_all add: station_pass_def tune_pass_def tx_pass_def session_pass_def network_pass_def Let_def
      case_prod_beta shape_ops)

lemma stop_frames:
  "station (snd (tx_stop_owner (daemon_callbacks L) g s)) = station s"
  "net (snd (tx_stop_owner (daemon_callbacks L) g s)) = net s"
  "tune_core (tune (snd (tx_stop_owner (daemon_callbacks L) g s))) = tune_core (tune s)"
  by (simp_all add: tx_stop_owner_def Let_def case_prod_beta call_daemon)

lemma stop_owner_tx:
  "tx_owner_of (tx (snd (tx_stop_owner (daemon_callbacks L) g s))) = OwnerNone"
  by (rule daemon.stop_owner_none)

lemma release_frames:
  "station (snd (tx_control_release (daemon_callbacks L) ow s)) = station s"
  "net (snd (tx_control_release (daemon_callbacks L) ow s)) = net s"
  "tune_core (tune (snd (tx_control_release (daemon_callbacks L) ow s))) = tune_core (tune s)"
  by (simp_all add: tx_control_release_def stop_frames)

lemma tune_stop_frames: "station (snd (tune_stop_active (daemon_callbacks L) reason s)) = station s"
  by (simp add: tune_stop_active_def Let_def case_prod_beta release_frames map_tune_def map_diagnostics_def)

lemma stop_if_keyed_frames:
  "station (snd (stop_if_keyed (daemon_callbacks L) s)) = station s"
  "tune_core (tune (snd (stop_if_keyed (daemon_callbacks L) s))) = tune_core (tune s)"
  by (simp_all add: stop_if_keyed_def net_release_def case_prod_beta release_frames)

lemma diagnostics_core [simp]: "tune_core (tune (map_diagnostics d s)) = tune_core (tune s)"
  by (simp add: tune_core_def map_diagnostics_def map_tune_def)

lemma reconcile_station [simp]: "station (tune_control_reconcile w s) = station s"
  by (simp add: tune_control_reconcile_def Let_def map_diagnostics_def)

lemma pass_station:
  "station (tune_pass L now s) = station s" "station (tx_pass L now s) = station s"
  "station (session_pass s) = station s" "station (network_pass L now s) = station s"
  by (simp_all add: tune_pass_def tune_control_tick_def tune_stop_frames tx_pass_def tx_control_tick_def
      case_prod_beta Let_def stop_frames session_pass_def network_tx_reconcile_def drop_tx_client_def
      network_pass_def network_tx_tick_def stop_if_keyed_frames map_diagnostics_def)

lemma station_pass_enforces:
  "held (station (station_pass L now s)) \<longrightarrow>
     now - station_renewed_ms (station (station_pass L now s)) < STATION_OWNER_LEASE_MS"
proof -
  have "station (station_pass L now s) = snd (station_owner_tick now (station s))"
    by (simp add: station_pass_def Let_def case_prod_beta tune_control_shutdown_def tune_stop_frames
        network_tx_release_def stop_if_keyed_frames)
  then show ?thesis by (simp add: station_owner_tick_def station_owner_init_def not_less)
qed

lemma tune_pass_enforces:
  "tune_enabled (tune (tune_pass L now s)) \<and> tune_active (tune (tune_pass L now s)) \<longrightarrow>
     now - tune_started_ms (tune (tune_pass L now s)) < TUNE_HARD_LIMIT_MS \<and>
     now - tune_renewed_ms (tune (tune_pass L now s)) < TUNE_LEASE_MS"
  by (simp add: tune_pass_def tune_control_tick_def stop_active_inactive not_le)

lemma reconcile_active:
  "tune_active (tune (tune_control_reconcile w s)) \<Longrightarrow> tune_control_reconcile w s = s"
  by (auto simp: tune_control_reconcile_def Let_def end_tune_def split: if_splits)

lemma tick_core: "tune_core (tune (snd (tx_control_tick (daemon_callbacks L) now s))) = tune_core (tune s)"
  by (simp add: tx_control_tick_def case_prod_beta stop_frames)

lemma tx_pass_fields:
  "tx (tx_pass L now s) = tx (snd (tx_control_tick (daemon_callbacks L) now s))"
  "tune_active (tune (tx_pass L now s)) =
     tune_active (tune (tune_control_reconcile (fst (tx_control_tick (daemon_callbacks L) now s) = TxMaxKey)
       (snd (tx_control_tick (daemon_callbacks L) now s))))"
  by (simp_all add: tx_pass_def case_prod_beta Let_def tune_reconcile_effect)

lemma tx_pass_core:
  assumes "tune_active (tune (tx_pass L now s))"
  shows "tune_core (tune (tx_pass L now s)) = tune_core (tune s)"
  unfolding tx_pass_def case_prod_beta Let_def reconcile_active [OF assms [unfolded tx_pass_fields]]
  by (simp add: tick_core)

lemma tx_pass_enforces:
  assumes "daemon_shape s"
  shows "tx_owner_of (tx (tx_pass L now s)) \<noteq> OwnerNone \<longrightarrow>
      maximum_key_ms (tx (tx_pass L now s)) = 0 \<or>
      now - tx_started_ms (tx (tx_pass L now s)) < maximum_key_ms (tx (tx_pass L now s))"
    "tune_active (tune (tx_pass L now s)) \<longleftrightarrow> tx_owner_of (tx (tx_pass L now s)) = OwnerTune"
proof -
  have "tx_inv (tx s)" using assms by (simp add: daemon_shape_def)
  then show "tx_owner_of (tx (tx_pass L now s)) \<noteq> OwnerNone \<longrightarrow>
      maximum_key_ms (tx (tx_pass L now s)) = 0 \<or>
      now - tx_started_ms (tx (tx_pass L now s)) < maximum_key_ms (tx (tx_pass L now s))"
    by (auto simp: tx_pass_fields tx_control_tick_def case_prod_beta stop_owner_tx tx_inv_def not_le)
  have "session_inv (snd (tx_control_tick (daemon_callbacks L) now s))"
    using shape_ops(4) [OF assms] by (simp add: daemon_shape_def)
  then show "tune_active (tune (tx_pass L now s)) \<longleftrightarrow> tx_owner_of (tx (tx_pass L now s)) = OwnerTune"
    by (auto simp: tx_pass_fields tune_reconcile_effect session_inv_def)
qed

lemma session_pass_fields:
  "tx (session_pass s) = tx s" "tune (session_pass s) = tune s"
  "daemon_shape s \<Longrightarrow> net_keyed (net (session_pass s)) \<longleftrightarrow> tx_owner_of (tx s) = OwnerHttp"
proof -
  show "tx (session_pass s) = tx s" "tune (session_pass s) = tune s"
    by (simp_all add: session_pass_def Let_def net_reconcile_effect drop_tx_client_def)
  assume "daemon_shape s"
  moreover have "net (session_pass s) = net (network_tx_reconcile s)"
    by (simp add: session_pass_def Let_def drop_tx_client_def)
  ultimately show "net_keyed (net (session_pass s)) \<longleftrightarrow> tx_owner_of (tx s) = OwnerHttp"
    by (auto simp: net_reconcile_effect daemon_shape_def session_inv_def net_inv_def)
qed

lemma network_pass_cases:
  assumes "daemon_shape s" and "net_keyed (net s) \<longleftrightarrow> tx_owner_of (tx s) = OwnerHttp"
  obtains (kept) "network_pass L now s = s" "reserved (net s) \<longrightarrow> now - net_renewed_ms (net s) < NETWORK_TX_LEASE_MS"
  | (ended) "\<not> reserved (net (network_pass L now s))" "\<not> net_keyed (net (network_pass L now s))"
      "tune_core (tune (network_pass L now s)) = tune_core (tune s)"
      "if net_keyed (net s) then tx_owner_of (tx (network_pass L now s)) = OwnerNone
       else tx (network_pass L now s) = tx s"
proof (cases "reserved (net s) \<and> now - net_renewed_ms (net s) \<ge> NETWORK_TX_LEASE_MS")
  case False
  then show ?thesis by (intro kept) (auto simp: network_pass_def network_tx_tick_def not_le)
next
  case True
  have "net_keyed (net s) \<longrightarrow> net_bound (net s)" "tx_inv (tx s)"
    using assms(1) by (auto simp: daemon_shape_def session_inv_def net_inv_def)
  then have "net_keyed (net s) \<longrightarrow> tx_owner_of (tx (snd (stop_if_keyed (daemon_callbacks L) s))) = OwnerNone"
    using assms(2) by (auto simp: stop_if_keyed_def net_release_def case_prod_beta tx_control_release_def
        stop_owner_tx tx_inv_def valid_owner_def)
  moreover have "\<not> net_keyed (net s) \<longrightarrow> snd (stop_if_keyed (daemon_callbacks L) s) = s"
    by (simp add: stop_if_keyed_def)
  ultimately show ?thesis using True
    by (intro ended) (simp_all add: network_pass_def network_tx_tick_def case_prod_beta clear_session_def
      blank_session_def stop_if_keyed_frames drop_tx_client_def)
qed

lemma watchdogs_limits:
  assumes "daemon_shape s" and "s' = watchdog_pass L t1 t2 t3 t4 s"
  shows "(held (station s') \<longrightarrow> t1 - station_renewed_ms (station s') < STATION_OWNER_LEASE_MS) \<and>
    (tune_enabled (tune s') \<and> tune_active (tune s') \<longrightarrow>
       t2 - tune_started_ms (tune s') < TUNE_HARD_LIMIT_MS \<and>
       t2 - tune_renewed_ms (tune s') < TUNE_LEASE_MS) \<and>
    (tx_owner_of (tx s') \<noteq> OwnerNone \<longrightarrow>
       maximum_key_ms (tx s') = 0 \<or> t3 - tx_started_ms (tx s') < maximum_key_ms (tx s')) \<and>
    (reserved (net s') \<longrightarrow> t4 - net_renewed_ms (net s') < NETWORK_TX_LEASE_MS) \<and>
    (tune_active (tune s') \<longleftrightarrow> tx_owner_of (tx s') = OwnerTune) \<and>
    (net_keyed (net s') \<longleftrightarrow> tx_owner_of (tx s') = OwnerHttp)"
proof -
  define s1 where "s1 = station_pass L t1 s"
  define s2 where "s2 = tune_pass L t2 s1"
  define s3 where "s3 = tx_pass L t3 s2"
  define s4 where "s4 = session_pass s3"
  have s': "s' = network_pass L t4 s4"
    by (simp add: assms(2) watchdog_pass_def s1_def s2_def s3_def s4_def)
  have g: "daemon_shape s1" "daemon_shape s2" "daemon_shape s3" "daemon_shape s4"
    using assms(1) by (simp_all add: s1_def s2_def s3_def s4_def pass_shape)
  note tx3 = tx_pass_enforces [OF g(2), of L t3, folded s3_def]
  have k4: "net_keyed (net s4) \<longleftrightarrow> tx_owner_of (tx s4) = OwnerHttp"
    using session_pass_fields [of s3] g(3) by (simp add: s4_def)
  have t4: "tx s4 = tx s3" "tune s4 = tune s3" by (simp_all add: s4_def session_pass_fields)
  have st: "station s' = station s1" by (simp add: s' s4_def s3_def s2_def pass_station)
  have core: "tune_core (tune s') = tune_core (tune s3)"
    by (cases rule: network_pass_cases [OF g(4) k4, of L t4]) (simp_all add: s' t4)
  have lim: "t2 - tune_started_ms (tune s') < TUNE_HARD_LIMIT_MS \<and> t2 - tune_renewed_ms (tune s') < TUNE_LEASE_MS"
    if "tune_enabled (tune s')" "tune_active (tune s')"
  proof -
    have "tune_active (tune s3)" using that(2) tune_core_eqD(2) [OF core] by simp
    then have "tune_core (tune s') = tune_core (tune s2)" using core tx_pass_core [of L t3 s2] by (simp add: s3_def)
    note eq = tune_core_eqD(1,2,4,5) [OF this]
    show ?thesis
      using that tune_pass_enforces [of L t2 s1, folded s2_def] unfolding eq by blast
  qed
  have rest: "(tx_owner_of (tx s') \<noteq> OwnerNone \<longrightarrow>
       maximum_key_ms (tx s') = 0 \<or> t3 - tx_started_ms (tx s') < maximum_key_ms (tx s')) \<and>
    (reserved (net s') \<longrightarrow> t4 - net_renewed_ms (net s') < NETWORK_TX_LEASE_MS) \<and>
    (tune_active (tune s') \<longleftrightarrow> tx_owner_of (tx s') = OwnerTune) \<and>
    (net_keyed (net s') \<longleftrightarrow> tx_owner_of (tx s') = OwnerHttp)"
  proof (cases rule: network_pass_cases [OF g(4) k4, of L t4])
    case 1
    then show ?thesis using tx3 k4 by (simp add: s' t4)
  next
    case 2
    then show ?thesis
      using tx3 k4 tune_core_eqD(2) [OF core] by (cases "net_keyed (net s4)") (simp_all add: s' t4)
  qed
  show ?thesis using station_pass_enforces [of L t1 s, folded s1_def] lim rest by (simp add: st)
qed

text \<open>
  A pass only winds down: whoever still owns the transmitter, an active Tune and a reserved session
  after it were there before, unchanged.
\<close>

definition winds_down :: "daemon_sys \<Rightarrow> daemon_sys \<Rightarrow> bool" where
  "winds_down s s' \<longleftrightarrow> (tx_owner_of (tx s') \<noteq> OwnerNone \<longrightarrow> tx s' = tx s) \<and>
     (tune_active (tune s') \<longrightarrow> tune_core (tune s') = tune_core (tune s)) \<and>
     (reserved (net s') \<longrightarrow> net s' = net s)"

lemma winds_refl [simp]: "winds_down s s"
  by (simp add: winds_down_def)

lemma winds_trans: "winds_down s s1 \<Longrightarrow> winds_down s1 s2 \<Longrightarrow> winds_down s s2"
  unfolding winds_down_def by (metis tune_core_eqD(2))

lemma winds_to: "winds_down s t \<Longrightarrow> tx t' = tx t \<Longrightarrow> tune_core (tune t') = tune_core (tune t) \<Longrightarrow>
    (reserved (net t') \<Longrightarrow> net t' = net t) \<Longrightarrow> winds_down s t'"
  unfolding winds_down_def by (metis tune_core_eqD(2))

lemma stop_winds: "winds_down s (snd (tx_stop_owner (daemon_callbacks L) g s))"
  by (simp add: winds_down_def stop_owner_tx stop_frames)

lemma release_winds: "winds_down s (snd (tx_control_release (daemon_callbacks L) ow s))"
  by (simp add: tx_control_release_def stop_winds)

lemma tune_stop_winds: "winds_down s (snd (tune_stop_active (daemon_callbacks L) reason s))"
proof (cases "tune_active (tune s) \<and> tune_bound (tune s)")
  case True
  note r = release_winds [of s L OwnerTune]
  have "tx (snd (tune_stop_active (daemon_callbacks L) reason s)) = tx (snd (tx_control_release (daemon_callbacks L) OwnerTune s))"
    "net (snd (tune_stop_active (daemon_callbacks L) reason s)) = net s"
    using True by (simp_all add: tune_stop_active_def Let_def case_prod_beta release_frames map_tune_def map_diagnostics_def)
  with r show ?thesis by (simp add: winds_down_def)
next
  case False
  then have "tx (snd (tune_stop_active (daemon_callbacks L) reason s)) = tx s"
    "net (snd (tune_stop_active (daemon_callbacks L) reason s)) = net s"
    by (auto simp: tune_stop_active_def Let_def case_prod_beta map_tune_def map_diagnostics_def)
  then show ?thesis by (simp add: winds_down_def)
qed

lemma stop_if_keyed_winds: "winds_down s (map_net clear_session (snd (stop_if_keyed (daemon_callbacks L) s)))"
proof -
  have "tx_owner_of (tx (snd (tx_control_release (daemon_callbacks L) OwnerHttp s))) \<noteq> OwnerNone \<Longrightarrow>
      tx (snd (tx_control_release (daemon_callbacks L) OwnerHttp s)) = tx s"
    using release_winds [of s L OwnerHttp] by (simp add: winds_down_def)
  then show ?thesis
    by (auto simp: winds_down_def stop_if_keyed_def net_release_def case_prod_beta clear_session_def
      blank_session_def stop_if_keyed_frames release_frames)
qed

lemma network_release_winds: "winds_down s (snd (network_tx_release (daemon_callbacks L) lease s))"
  using stop_if_keyed_winds [of s L] by (simp add: network_tx_release_def case_prod_beta)

lemma station_set [simp]: "winds_down s (map_station f s)"
  by (simp add: winds_down_def map_station_def)

lemma station_pass_winds: "winds_down s (station_pass L now s)"
proof -
  define t where "t = map_station (\<lambda>_. snd (station_owner_tick now (station s))) s"
  define u where "u = tune_control_shutdown (daemon_callbacks L) t"
  have "winds_down t u" by (simp add: u_def tune_control_shutdown_def tune_stop_winds)
  then have "winds_down s u" using winds_trans [of s t u] by (simp add: t_def)
  then have "winds_down s (snd (network_tx_release (daemon_callbacks L) (net_lease (net u)) u))"
    by (rule winds_trans [OF _ network_release_winds])
  with \<open>winds_down s u\<close> show ?thesis
    by (simp add: station_pass_def case_prod_beta Let_def u_def t_def)
qed

lemma tune_pass_winds: "winds_down s (tune_pass L now s)"
  by (simp add: tune_pass_def tune_control_tick_def tune_stop_winds)

lemma reconcile_winds: "winds_down s (tune_control_reconcile w s)"
  by (simp add: winds_down_def tune_control_reconcile_def Let_def end_tune_def map_tune_def map_diagnostics_def)

lemma tx_pass_winds: "winds_down s (tx_pass L now s)"
proof -
  define t where "t = snd (tx_control_tick (daemon_callbacks L) now s)"
  define u where "u = tune_control_reconcile (fst (tx_control_tick (daemon_callbacks L) now s) = TxMaxKey) t"
  have "winds_down s t" by (simp add: t_def tx_control_tick_def case_prod_beta stop_winds)
  then have "winds_down s u" unfolding u_def by (rule winds_trans [OF _ reconcile_winds])
  moreover have "tx_pass L now s = u \<or> tx_pass L now s = map_diagnostics count_cleanup_failure u"
    by (simp add: tx_pass_def case_prod_beta Let_def u_def t_def)
  moreover have "winds_down s (map_diagnostics count_cleanup_failure u)"
    by (rule winds_to [OF \<open>winds_down s u\<close>]) (simp_all add: tune_core_def map_diagnostics_def map_tune_def)
  ultimately show ?thesis by auto
qed

lemma session_pass_winds: "winds_down s (session_pass s)"
  by (simp add: winds_down_def session_pass_def Let_def network_tx_reconcile_def drop_tx_client_def
      clear_session_def blank_session_def)

lemma network_pass_winds: "winds_down s (network_pass L now s)"
proof -
  define t where "t = snd (network_tx_tick (daemon_callbacks L) now s)"
  have t: "winds_down s t"
    using stop_if_keyed_winds [of s L] by (simp add: t_def network_tx_tick_def case_prod_beta)
  have "winds_down s (drop_tx_client (map_diagnostics count_watchdog t))"
    "winds_down s (map_diagnostics count_cleanup_failure t)"
    by (auto intro!: winds_to [OF t] simp: tune_core_def drop_tx_client_def map_diagnostics_def map_tune_def)
  with t show ?thesis by (simp add: network_pass_def case_prod_beta t_def)
qed

lemma watchdog_pass_winds:
  "winds_down s (watchdog_pass L t1 t2 t3 t4 s)"
  "winds_down (station_pass L t1 s) (watchdog_pass L t1 t2 t3 t4 s)"
  "station (watchdog_pass L t1 t2 t3 t4 s) = station (station_pass L t1 s)"
proof -
  show rest: "winds_down (station_pass L t1 s) (watchdog_pass L t1 t2 t3 t4 s)"
    unfolding watchdog_pass_def
    by (intro winds_trans [OF _ network_pass_winds] winds_trans [OF _ session_pass_winds]
        winds_trans [OF _ tx_pass_winds] tune_pass_winds)
  show "winds_down s (watchdog_pass L t1 t2 t3 t4 s)" by (rule winds_trans [OF station_pass_winds rest])
  show "station (watchdog_pass L t1 t2 t3 t4 s) = station (station_pass L t1 s)"
    by (simp add: watchdog_pass_def pass_station)
qed

text \<open>An expired station takes the Tune and the network session with it.\<close>

lemma station_expired:
  assumes "daemon_shape s" and "held (station s)" and "STATION_OWNER_LEASE_MS \<le> now - station_renewed_ms (station s)"
  shows "\<not> held (station (station_pass L now s)) \<and> \<not> tune_active (tune (station_pass L now s)) \<and>
    \<not> reserved (net (station_pass L now s))"
proof -
  define t where "t = tune_control_shutdown (daemon_callbacks L) (map_station (\<lambda>_. station_owner_init) s)"
  have tick: "station_owner_tick now (station s) = (StationExpired, station_owner_init)"
    using assms(2,3) by (simp add: station_owner_tick_def not_less)
  have p: "station_pass L now s =
      (if reserved (net t) then snd (network_tx_release (daemon_callbacks L) (net_lease (net t)) t) else t)"
    by (simp add: station_pass_def tick Let_def t_def)
  have t: "\<not> tune_active (tune t)" "station t = station_owner_init"
    by (simp_all add: t_def tune_control_shutdown_def tune_stop_frames map_station_def)
  have "daemon_shape t" using assms(1) by (simp add: t_def shape_ops)
  then have own: "net_owns (net t) (net_lease (net t))" if "reserved (net t)"
    using that by (simp add: daemon_shape_def session_inv_def net_inv_def net_owns_def)
  have "\<not> tune_active (tune (snd (network_tx_release (daemon_callbacks L) (net_lease (net t)) t)))"
    using network_release_winds [of t L "net_lease (net t)"] t(1) unfolding winds_down_def by (metis tune_core_eqD(2))
  moreover have "station (snd (network_tx_release (daemon_callbacks L) (net_lease (net t)) t)) = station t"
    by (simp add: network_tx_release_def case_prod_beta stop_if_keyed_frames)
  ultimately show ?thesis
    using t own by (auto simp: p network_tx_release_def case_prod_beta clear_session_def blank_session_def
      station_owner_init_def)
qed

text \<open>C2.
  One round of the watchdogs, from any state of the server and whatever the clock says at each, ends
  what is overdue. An expired station is free, with no Tune and no network session left; an active
  Tune past its hard limit or its lease is over; a transmission past its maximum, if it has one, has
  no owner; a network session past its lease is released. What is over does not own the transmitter
  any more, and a radio nobody owns the transmitter of is unkeyed or the fault is recorded (unless a
  USB loss had left the control faulted before, \<open>lost\<close>). No watchdog looks at the arrival of data.
\<close>

theorem watchdogs_enforce:
  assumes "serving L transmit_enabled lost s" and "s' = watchdog_pass L t1 t2 t3 t4 s"
  shows "(held (station s) \<and> STATION_OWNER_LEASE_MS \<le> t1 - station_renewed_ms (station s) \<longrightarrow>
       \<not> held (station s') \<and> \<not> tune_active (tune s') \<and> \<not> reserved (net s')) \<and>
    (tune_enabled (tune s) \<and> (TUNE_HARD_LIMIT_MS \<le> t2 - tune_started_ms (tune s) \<or>
         TUNE_LEASE_MS \<le> t2 - tune_renewed_ms (tune s)) \<longrightarrow> \<not> tune_active (tune s')) \<and>
    (maximum_key_ms (tx s) \<noteq> 0 \<and> maximum_key_ms (tx s) \<le> t3 - tx_started_ms (tx s) \<longrightarrow>
       tx_owner_of (tx s') = OwnerNone) \<and>
    (NETWORK_TX_LEASE_MS \<le> t4 - net_renewed_ms (net s) \<longrightarrow> \<not> reserved (net s')) \<and>
    (\<not> tune_active (tune s') \<longrightarrow> tx_owner_of (tx s') \<noteq> OwnerTune) \<and>
    (\<not> reserved (net s') \<longrightarrow> tx_owner_of (tx s') \<noteq> OwnerHttp) \<and>
    (tx_owner_of (tx s') = OwnerNone \<longrightarrow> \<not> keyed s' \<or> tx_state_of (tx s') = StateFaulted \<or> lost)"
proof -
  note good = serving_good [OF assms(1)]
  have winds: "winds_down s s'" "winds_down (station_pass L t1 s) s'" "station s' = station (station_pass L t1 s)"
    unfolding assms(2) by (rule watchdog_pass_winds)+
  have shape': "daemon_shape s'"
    using good by (simp add: assms(2) watchdog_pass_def pass_shape)
  note limits = watchdogs_limits [OF conjunct1 [OF good] assms(2)]
  have station: "\<not> held (station s') \<and> \<not> tune_active (tune s') \<and> \<not> reserved (net s')"
    if "held (station s)" "STATION_OWNER_LEASE_MS \<le> t1 - station_renewed_ms (station s)"
    using station_expired [OF conjunct1 [OF good] that, of L] winds(2,3) unfolding winds_down_def
    by (metis tune_core_eqD(2))
  have tune: "\<not> tune_active (tune s')"
    if "tune_enabled (tune s)" "TUNE_HARD_LIMIT_MS \<le> t2 - tune_started_ms (tune s) \<or> TUNE_LEASE_MS \<le> t2 - tune_renewed_ms (tune s)"
  proof
    assume a: "tune_active (tune s')"
    then have "tune_core (tune s') = tune_core (tune s)" using winds(1) by (simp add: winds_down_def)
    note eq = tune_core_eqD(1,2,4,5) [OF this]
    show False using limits that a unfolding eq by (auto simp: not_le)
  qed
  have key: "tx_owner_of (tx s') = OwnerNone"
    if "maximum_key_ms (tx s) \<noteq> 0" "maximum_key_ms (tx s) \<le> t3 - tx_started_ms (tx s)"
  proof (rule ccontr)
    assume o: "tx_owner_of (tx s') \<noteq> OwnerNone"
    then have "tx s' = tx s" using winds(1) by (simp add: winds_down_def)
    with limits o that show False by (auto simp: not_le)
  qed
  have net: "\<not> reserved (net s')" if "NETWORK_TX_LEASE_MS \<le> t4 - net_renewed_ms (net s)"
  proof
    assume r: "reserved (net s')"
    then have "net s' = net s" using winds(1) by (simp add: winds_down_def)
    with limits r that show False by (auto simp: not_le)
  qed
  have "net_keyed (net s') \<longrightarrow> reserved (net s')"
    using shape' by (simp add: daemon_shape_def session_inv_def net_inv_def)
  then have agree: "(\<not> tune_active (tune s') \<longrightarrow> tx_owner_of (tx s') \<noteq> OwnerTune) \<and>
      (\<not> reserved (net s') \<longrightarrow> tx_owner_of (tx s') \<noteq> OwnerHttp)" using limits by blast
  have radio: "tx_owner_of (tx s') = OwnerNone \<longrightarrow> \<not> keyed s' \<or> tx_state_of (tx s') = StateFaulted \<or> lost"
    using good watchdog_good [of s L t1 t2 t3 t4] unfolding assms(2) daemon_good_def tx_safe_def by blast
  show ?thesis using station tune key net agree radio by blast
qed

text \<open>The daemon in the middle of a Tune, with the station held by another token.\<close>

definition tuning_example :: daemon_sys where
  "tuning_example = (let s = live_start True True False (\<lambda>_. 5) (fresh_rx (world_with []))
     in s\<lparr>tx := (tx s)\<lparr>tx_owner_of := OwnerTune, tx_state_of := StateTransmitting\<rparr>,
          tune := (tune s)\<lparr>tune_active := True, tune_lease := 5\<rparr>,
          station := (station s)\<lparr>held := True, station_lease := 7\<rparr>\<rparr>)"

lemma tuning_example_good: "daemon_good tuning_example"
  by (simp add: daemon_good_def tx_safe_def tuning_example_def live_start_def Let_def
      tx_control_arm_physical_ptt_def tx_control_init_def tx_inv_def session_inv_def net_inv_def
      tune_control_init_def network_tx_init_def blank_session_def map_tx_def keyed_def tracked_def
      rx_tracked_def rx_keyed_def fresh_rx_def usb_rx_create_def world_with_def)

text \<open>A client takes the station at 100 ms and is not heard of again.\<close>

definition acquire_example :: string where
  "acquire_example = ''POST /v1/control/owner HTTP/1.1'' @ CRLF @ CRLF"

lemma acquire_example_request:
  "http_request_complete acquire_example" "c_string_at acquire_example 0 = acquire_example"
  "path_owner acquire_example" "request_is acquire_example ''POST'' ''/v1/control/owner''"
  "request_header acquire_example ''X-Flex1500-Mode-Aware'' = None"
  "take 16383 acquire_example = acquire_example" "acquire_example \<noteq> []"
  unfolding acquire_example_def by (code_simp, code_simp, code_simp, code_simp, code_simp, simp, simp)

lemma acquire_example_state:
  assumes "s = snd (snd (http_client_pass L (Received acquire_example) status radio 100 True []
      (live_start True True False (\<lambda>_. 7) r)))"
  shows "held (station s)" "station_renewed_ms (station s) = 100"
    "tx s = tx (live_start True True False (\<lambda>_. 7) r)"
  unfolding assms
  by (simp_all add: http_client_pass_def recv_def acquire_example_request http_pass_def Let_def case_prod_beta
    api_dispatch_def dispatch_owner_def respond_def live_start_def tx_control_arm_physical_ptt_def
    station_owner_acquire_with_mode_def next_lease_def station_owner_init_def network_tx_init_def
    blank_session_def map_controller_def map_station_def map_tx_def api_controller_init_def tx_control_init_def)

theorem watchdogs_enforce_witness:
  "\<forall>L status radio. \<exists>r. open_radio L True open_world = Some r \<and>
     (let s = snd (snd (http_client_pass L (Received acquire_example) status radio 100 True []
            (live_start True True False (\<lambda>_. 7) r)));
          s' = watchdog_pass L 15100 15100 180000 180000 s
      in held (station s) \<and> \<not> held (station s') \<and> tx_owner_of (tx s') = OwnerNone)"
proof (intro allI)
  fix L status radio
  obtain r where r: "open_radio L True open_world = Some r" using open_example by blast
  define s where "s = snd (snd (http_client_pass L (Received acquire_example) status radio 100 True []
      (live_start True True False (\<lambda>_. 7) r)))"
  note st = acquire_example_state [OF s_def]
  have "loop_run L True (live_start True True False (\<lambda>_. 7) r) False s"
    unfolding s_def by (rule loop_run.Step [OF loop_run.Begin daemon_step.Http])
  then have "serving L True False s" by (intro servingI [OF r]) (simp_all add: open_world_def)
  note w = watchdogs_enforce [OF this refl, of 15100 15100 180000 180000]
  have "maximum_key_ms (tx s) = 180000" "tx_started_ms (tx s) = 0"
    by (simp_all add: st(3) live_start_def Let_def tx_control_arm_physical_ptt_def map_tx_def tx_control_init_def)
  with w st(1,2) have "\<not> held (station (watchdog_pass L 15100 15100 180000 180000 s)) \<and>
      tx_owner_of (tx (watchdog_pass L 15100 15100 180000 180000 s)) = OwnerNone" by simp
  with r st(1) show "\<exists>r. open_radio L True open_world = Some r \<and>
     (let s = snd (snd (http_client_pass L (Received acquire_example) status radio 100 True []
            (live_start True True False (\<lambda>_. 7) r)));
          s' = watchdog_pass L 15100 15100 180000 180000 s
      in held (station s) \<and> \<not> held (station s') \<and> tx_owner_of (tx s') = OwnerNone)"
    unfolding Let_def s_def by blast
qed

subsection \<open>Requests while transmitting\<close>

lemma kept_loop [simp]:
  "kept s (drop_tx_client t) = kept s t" "kept s (append_prebuffer data t) = kept s t"
  "kept s (t\<lparr>network_tail := w\<rparr>) = kept s t" "kept s (t\<lparr>network_prebuffer := w\<rparr>) = kept s t"
  "kept s (t\<lparr>tx_client := c\<rparr>) = kept s t"
  "kept s (snd (on_rx f t)) = kept s t"
  "kept s (map_controller (\<lambda>c. c\<lparr>request_now_ms := n\<rparr>) t) = kept s t"
  by (simp_all add: kept_def drop_tx_client_def append_prebuffer_def Let_def same_settings_def)

text \<open>C3.
  While the radio transmits no request, complete or not, with any data, changes the mode, the
  bandwidth, the drive, the microphone gain, the compressor or the maximum key time.
\<close>

theorem settings_frozen:
  assumes "transmitter_active s"
  shows "kept s (snd (snd (http_client_pass L chars status radio now sent request s)))"
proof -
  have "transmitter_active (map_controller (\<lambda>c. c\<lparr>request_now_ms := now\<rparr>) s)"
    using assms by (simp add: transmitter_active_def)
  from daemon.kept_dispatch [OF this]
  have k: "kept s (result_state (api_dispatch (daemon_callbacks L) (daemon_api_callbacks L) q status radio room
      (map_controller (\<lambda>c. c\<lparr>request_now_ms := now\<rparr>) s)))" for q room
    by (simp add: kept_def same_settings_def)
  show ?thesis
    by (simp add: http_client_pass_def http_pass_def push_tx_audio_def Let_def case_prod_beta k split: option.split)
qed

theorem settings_frozen_witness:
  "\<forall>L status radio. kept tuning_example (snd (snd (http_client_pass L
     (Received (''PUT /v1/radio/tx-drive/50 HTTP/1.1'' @ CRLF @ CRLF)) status radio 5 True [] tuning_example)))"
  by (intro allI settings_frozen) (simp add: transmitter_active_def tuning_example_def live_start_def
    Let_def tx_control_arm_physical_ptt_def tune_control_init_def tx_control_init_def map_tx_def)

subsection \<open>Shutdown\<close>

lemma shutdown_tune_over:
  assumes "daemon_shape s"
  shows "\<not> tune_active (tune (daemon_tx_shutdown L s))"
proof -
  have "daemon_shape (tx_control_shutdown (daemon_callbacks L) s)" using assms by (simp add: shape_ops)
  moreover have "tx_owner_of (tx (tx_control_shutdown (daemon_callbacks L) s)) = OwnerNone"
    by (simp add: tx_control_shutdown_def stop_owner_tx)
  ultimately show ?thesis
    by (auto simp: daemon_tx_shutdown_def Let_def map_diagnostics_def tune_reconcile_effect daemon_shape_def session_inv_def)
qed

text \<open>C7.
  The shutdown, from any state of the server loop, leaves no owner and no active Tune, and transmit
  preparation is undone whenever the device is still open. The radio is keyed after it only if an
  unkeying failed, which is recorded as a fault, or if on the way the USB stream was lost with the
  control left faulted (\<open>lost\<close>), after which nothing knows of the key any more.
\<close>

theorem final_shutdown_releases:
  assumes "serving L transmit_enabled lost s" and "s' = final_shutdown L transmit_enabled s"
  shows "tx_owner_of (tx s') = OwnerNone \<and> \<not> tune_active (tune s') \<and>
    (keyed s' \<longrightarrow> tx_state_of (tx s') = StateFaulted \<or> lost) \<and>
    (transmit_enabled \<and> has_handle (rx s') \<longrightarrow>
       \<not> transmit_prepared (rx s') \<and> \<not> amp_enable_attempted (rx s') \<and> \<not> pa_filter_known (rx s'))"
proof -
  note good = serving_good [OF assms(1)]
  define t where "t = daemon_tx_shutdown L (s\<lparr>tx_client := False\<rparr>)"
  define u where "u = (if transmit_enabled then snd (on_rx (usb_rx_disable_transmit_preparation (OPS L) L) t) else t)"
  have s': "tx s' = tx u" "tune_core (tune s') = tune_core (tune u)" "rx s' = rx u"
    by (simp_all add: assms(2) final_shutdown_def Let_def t_def u_def case_prod_beta)
  have t: "\<not> tune_active (tune t)" "tx_owner_of (tx t) = OwnerNone"
    using good by (simp_all add: t_def shutdown_tune_over shutdown_idle)
  have u: "tx u = tx t" "tune u = tune t" by (simp_all add: u_def)
  have "keyed s' \<longrightarrow> tx_state_of (tx s') = StateFaulted" if "\<not> lost"
  proof -
    have "daemon_good s'" using good that by (simp add: assms(2) final_shutdown_good)
    then show ?thesis using t u s' by (auto simp: good_idle)
  qed
  moreover have "\<not> transmit_prepared (rx u) \<and> \<not> amp_enable_attempted (rx u) \<and> \<not> pa_filter_known (rx u)"
    if "transmit_enabled" "has_handle (rx u)"
  proof (cases "has_handle (rx t)")
    case False
    then show ?thesis using that by (simp add: u_def usb_rx_disable_transmit_preparation_def)
  next
    case True
    then show ?thesis
      using that production.disable_effect [OF True prod.collapse [symmetric], of L L] by (simp add: u_def)
  qed
  ultimately show ?thesis
    using tune_core_eqD(2) [OF s'(2)] t u by (auto simp: s')
qed

theorem final_shutdown_releases_witness:
  "\<forall>L. \<exists>r. open_radio L True open_world = Some r \<and>
     (let s' = final_shutdown L True (live_start True True True (\<lambda>_. 1) r)
      in tx_owner_of (tx s') = OwnerNone \<and> \<not> tune_active (tune s'))"
proof
  fix L
  obtain r where r: "open_radio L True open_world = Some r" using open_example by blast
  have "serving L True False (live_start True True True (\<lambda>_. 1) r)"
    by (rule servingI [OF r _ loop_run.Begin]) (simp add: open_world_def)
  from final_shutdown_releases [OF this refl] r
  show "\<exists>r. open_radio L True open_world = Some r \<and>
     (let s' = final_shutdown L True (live_start True True True (\<lambda>_. 1) r)
      in tx_owner_of (tx s') = OwnerNone \<and> \<not> tune_active (tune s'))" by (auto simp: Let_def)
qed

subsection \<open>Recovery\<close>

lemma slots_key:
  "fst (start_rx_slots (OPS L) L i n r) = 0 \<Longrightarrow> rx_keyed (snd (start_rx_slots (OPS L) L i n r)) = rx_keyed r"
proof (induction n arbitrary: i r)
  case 0
  then show ?case by simp
next
  case (Suc n)
  then show ?case
    by (auto simp: case_prod_beta Let_def fail_start_def split: if_splits) (auto simp: rx_keyed_def)
qed

lemma start_key:
  assumes "fst (usb_rx_start (OPS L) L r) = 0"
  shows "rx_keyed (snd (usb_rx_start (OPS L) L r)) = rx_keyed r"
proof -
  have send: "rx_keyed (snd (snd (usb_io_send_command (OPS L) (build_initialize_request i) q))) = rx_keyed q" for i q
    using production.send_wire [of L "build_initialize_request i" q]
    by (simp add: usb_io_send_command_def rx_keyed_def)
  have streams: "rx_keyed (snd (start_streams (OPS L) L q)) = rx_keyed q"
    if "fst (start_streams (OPS L) L q) = 0" for q
    using that by (auto simp: start_streams_def case_prod_beta Let_def fail_start_def slots_key split: if_splits)
      (auto simp: rx_keyed_def)
  have dev: "rx_keyed (snd (start_device (OPS L) L q)) = rx_keyed q"
    if "fst (start_device (OPS L) L q) = 0" for q
    using that by (auto simp: start_device_def case_prod_beta Let_def fail_start_def streams split: if_splits)
      (auto simp: send [unfolded rx_keyed_def] rx_keyed_def)
  show ?thesis
    using assms by (auto simp: usb_rx_start_def case_prod_beta dev split: if_splits)
      (simp_all add: rx_keyed_def clock_same)
qed

lemma reopen_success:
  assumes "fst (reopen L te f g s)"
  shows "keyed (snd (reopen L te f g s)) = keyed s" 
  using assms by (auto simp: keyed_def reopen_def Let_def case_prod_beta settings_key start_key
      split: option.splits if_splits)

lemma fresh_controls_outcome:
  "physical_ptt_armed (tx (fresh_controls te s)) = te" "\<not> cleanup_failed (tx (fresh_controls te s))"
  "\<not> tune_active (tune (fresh_controls te s))" "\<not> reserved (net (fresh_controls te s))"
  "maximum_key_ms (tx (fresh_controls te s)) = ucast (tx_control_timeout_seconds (tx s)) * 1000"
  "diagnostics (tune (fresh_controls te s)) = diagnostics (tune s)"
  "observed_ptt (fresh_controls te s) = None" "keyed (fresh_controls te s) = keyed s"
  by (auto simp: fresh_controls_def Let_def tx_control_arm_physical_ptt_def tx_control_init_def
      tune_control_init_def network_tx_init_def blank_session_def map_diagnostics_def keyed_def)

text \<open>
  A recovery sends no \<open>SET_TR(0)\<close> of its own: when the unkeying before it failed and the radio did not
  lose power, the controls come back ready to transmit over a radio that is still keyed.
\<close>

lemma recovery_forgets_key:
  assumes "fst (reopen L te f g s)" and "keyed s"
  shows "keyed (fresh_controls te (snd (reopen L te f g s)))"
    "tx_state_of (tx (fresh_controls te (snd (reopen L te f g s)))) = StateRx"
  using assms by (simp_all add: fresh_controls_outcome reopen_success fresh_controls_fields)






text \<open>The example radio goes quiet right after the start, with transmitting enabled, and comes back.\<close>

lemma calm_destination [simp]: "calm k n (r\<lparr>destination := ring\<rparr>) = calm k n r"
  by (simp add: calm_def tx_stream_present_def)




subsection \<open>The transmit stream\<close>

lemma whole_frames [simp]: "(n - n mod k) div k = n div (k::nat)"
  by (cases "k = 0") (simp_all add: minus_mod_eq_div_mult)

text \<open>C8.
  Before the transmitter is keyed, the bytes a client has sent are in the prebuffer and the tail in
  the order they were sent, with less than a frame in the tail, however the socket cuts the stream;
  no more is read than the missing frames; and for a live session the whole frames are counted.
\<close>

theorem stream_bytes_in_order:
  assumes "tx_client s" and "\<not> net_keyed (net s)" and "data \<noteq> []"
    and "length (network_tail s) < frame_bytes s"
    and "length (network_prebuffer s) + TX_RECEIVE_BYTES \<le> NETWORK_PREBUFFER_BYTES"
    and "s' = tx_stream_pass L (Received data) now s"
  shows "network_prebuffer s' @ network_tail s' =
      network_prebuffer s @ network_tail s @ take (receive_limit s) data \<and>
    length (network_tail s') < frame_bytes s \<and>
    (net_owns (net s) (net_lease (net s)) \<and> stream_connected (net s) \<and>
       buffered_frames (net s) \<le> NETWORK_TX_MIN_PREBUFFER_FRAMES \<longrightarrow>
     buffered_frames (net s') = buffered_frames (net s) +
       (length (network_prebuffer s') - length (network_prebuffer s)) div frame_bytes s)"
proof (cases "receive_limit s = 0")
  case True
  then show ?thesis using assms(4,6) by (simp add: tx_stream_pass_def)
next
  case False
  define got where "got = take (receive_limit s) data"
  define all where "all = network_tail s @ got"
  define whole where "whole = length all - length all mod frame_bytes s"
  define u where "u = push_tx_stream L (take whole all) (s\<lparr>network_tail := drop whole all\<rparr>)"
  have fb: "frame_bytes s = 2 \<or> frame_bytes s = 4" by (simp add: frame_bytes_def)
  have g: "recv (receive_limit s) (Received data) = Received got"
    using False assms(3) by (simp add: recv_def got_def)
  have "length got \<le> receive_limit s" by (simp add: got_def)
  then have len: "length all \<le> TX_RECEIVE_BYTES"
    "length all \<le> (NETWORK_TX_MIN_PREBUFFER_FRAMES - buffered_frames (net s)) * frame_bytes s"
    using False assms(2) by (auto simp: all_def receive_limit_def Let_def)
  moreover have w: "whole \<le> length all" "length (drop whole all) < frame_bytes s"
    using fb by (auto simp: whole_def)
  ultimately have room: "whole \<le> NETWORK_PREBUFFER_BYTES - length (network_prebuffer s)"
    using assms(5) by linarith
  have u: "network_prebuffer u = network_prebuffer s @ take whole all" "network_tail u = drop whole all"
    "net u = net s"
    using assms(2) room by (simp_all add: min_absorb2 u_def push_tx_stream_def append_prebuffer_def Let_def)
  have frames: "pushed_bytes (take whole all) s div frame_bytes s = length all div frame_bytes s"
    using assms(2) room w(1) fb by (auto simp: pushed_bytes_def min_absorb1 min_absorb2 whole_def)
  have s': "s' = snd (network_tx_record_data (net_lease (net s)) (length all div frame_bytes s) now u)"
    using assms(1,6) False by (simp add: tx_stream_pass_def g Let_def all_def [symmetric] whole_def [symmetric]
      u_def [symmetric] frames u(3))
  have same: "network_prebuffer s' = network_prebuffer u" "network_tail s' = network_tail u"
    by (simp_all add: s' network_tx_record_data_def Let_def map_net_def)
  have "length all div frame_bytes s \<le> NETWORK_TX_MIN_PREBUFFER_FRAMES - buffered_frames (net s)"
    using div_le_mono [OF len(2), of "frame_bytes s"] fb by auto
  then have "buffered_frames (net s') = buffered_frames (net s) + length all div frame_bytes s"
    if "net_owns (net s) (net_lease (net s))" "stream_connected (net s)"
      "buffered_frames (net s) \<le> NETWORK_TX_MIN_PREBUFFER_FRAMES"
    using that by (auto simp: s' network_tx_record_data_def Let_def u(3))
  moreover have "(length (network_prebuffer s') - length (network_prebuffer s)) div frame_bytes s =
      length all div frame_bytes s"
    using fb w(1) by (auto simp: same u whole_def)
  moreover have "network_prebuffer s' @ network_tail s' = network_prebuffer s @ all"
    by (simp add: same u)
  ultimately show ?thesis using w(2) by (simp add: same(2) u(2) got_def [symmetric] all_def [symmetric])
qed

theorem stream_bytes_in_order_witness:
  "\<forall>L r. let s = (live_start False True True (\<lambda>_. 1) r)\<lparr>tx_client := True\<rparr>;
       s' = tx_stream_pass L (Received [1, 2, 3]) 9 s
     in network_prebuffer s' @ network_tail s' = [1, 2, 3] \<and> length (network_tail s') < 2"
proof (intro allI)
  fix L r
  define s where "s = (live_start False True True (\<lambda>_. 1) r)\<lparr>tx_client := True\<rparr>"
  have s: "tx_client s" "\<not> net_keyed (net s)" "network_tail s = []" "network_prebuffer s = []"
    "frame_bytes s = 2 \<or> frame_bytes s = 4" "buffered_frames (net s) = 0"
    by (simp_all add: s_def live_start_def Let_def network_tx_init_def blank_session_def frame_bytes_def)
  have room: "length (network_prebuffer s) + TX_RECEIVE_BYTES \<le> NETWORK_PREBUFFER_BYTES"
    by (simp add: s(4) TX_RECEIVE_BYTES_def NETWORK_PREBUFFER_BYTES_def)
  have two: "frame_bytes s = 2" by (simp add: s_def live_start_def Let_def network_tx_init_def
    blank_session_def frame_bytes_def stream_raw_def)
  then have "8192 \<le> receive_limit s"
    using s(2,3,6) by (simp add: receive_limit_def TX_RECEIVE_BYTES_def)
  then have all: "take (receive_limit s) [1, 2, 3] = ([1, 2, 3] :: u8 list)" by simp
  show "let s = (live_start False True True (\<lambda>_. 1) r)\<lparr>tx_client := True\<rparr>;
       s' = tx_stream_pass L (Received [1, 2, 3]) 9 s
     in network_prebuffer s' @ network_tail s' = [1, 2, 3] \<and> length (network_tail s') < 2"
    unfolding s_def [symmetric] Let_def
    using stream_bytes_in_order [OF s(1,2) _ _ room refl, of "[1, 2, 3]" L 9] s(3,4)
    by (simp add: two all)
qed

end
