(* ===== verification/Rtl_Tcp.thy ===== *)
theory Rtl_Tcp
  imports Publisher
begin

text \<open>
  Model of \<open>src/rtl_tcp.c\<close>: the greeting and the five-byte commands of the rtl_tcp protocol, the
  conversion of an IQ frame to unsigned bytes, and the band-limited resampler from 48 kHz to the
  rate the client asked for. The resampler's table is a function of the parameter \<open>m\<close> (\<open>sin\<close>,
  \<open>cos\<close>); every operation is rounded as in \<open>Soft_Float\<close>. Here samples come from bytes, so a value
  is a \<open>c_float\<close>: \<open>None\<close> stands for an infinity or a NaN, which the code treats alike. A sum with such
  a term is one of them again, whatever the weights.
\<close>

type_synonym c_float = "rat option"

definition c_float_of_bits :: "u32 \<Rightarrow> c_float" where
  "c_float_of_bits w = (if unat w div 2 ^ 23 mod 256 = 255 then None else Some (bits_float w))"

text \<open>A finite result cast to \<open>float\<close>, which may overflow.\<close>

definition to_c_float :: "rat \<Rightarrow> c_float" where
  "to_c_float x = (if \<bar>f32 x\<bar> < pow2 128 then Some (f32 x) else None)"

subsection \<open>Greeting and commands\<close>

abbreviation RTL_TCP_HEADER_SIZE :: nat where "RTL_TCP_HEADER_SIZE \<equiv> 12"
abbreviation RTL_TCP_COMMAND_SIZE :: nat where "RTL_TCP_COMMAND_SIZE \<equiv> 5"
abbreviation RTL_TCP_SET_FREQUENCY :: u8 where "RTL_TCP_SET_FREQUENCY \<equiv> 1"
abbreviation RTL_TCP_SET_SAMPLE_RATE :: u8 where "RTL_TCP_SET_SAMPLE_RATE \<equiv> 2"

definition rtl_tcp_header :: "u8 list" where
  "rtl_tcp_header = put_bytes 0 [0x52, 0x54, 0x4C, 0x30] (replicate RTL_TCP_HEADER_SIZE 0)"

record rtl_tcp_command =
  command_id :: u8
  command_parameter :: u32

record rtl_tcp_parser =
  parser_pending :: "u8 list"
  parser_length :: nat

definition rtl_tcp_parser_zero :: rtl_tcp_parser where
  "rtl_tcp_parser_zero = \<lparr>parser_pending = replicate RTL_TCP_COMMAND_SIZE 0, parser_length = 0\<rparr>"

definition rtl_tcp_parse_byte :: "rtl_tcp_parser \<Rightarrow> u8 \<Rightarrow> rtl_tcp_command option \<times> rtl_tcp_parser" where
  "rtl_tcp_parse_byte p byte =
     (let p = p\<lparr>parser_pending := (parser_pending p)[parser_length p := byte],
                parser_length := parser_length p + 1\<rparr>
      in if parser_length p \<noteq> RTL_TCP_COMMAND_SIZE then (None, p)
         else (Some \<lparr>command_id = parser_pending p ! 0,
                     command_parameter = load_be32 (drop 1 (parser_pending p))\<rparr>,
               p\<lparr>parser_length := 0\<rparr>))"

subsection \<open>Samples as bytes\<close>

definition encode_sample :: "c_float \<Rightarrow> u8" where
  "encode_sample value =
     (let value = (case value of None \<Rightarrow> 0 | Some x \<Rightarrow> x);
          value = f32 (value / 32768);
          value = (if value < - 1 then - 1 else value);
          value = (if value > 1 then 1 else value)
      in of_int (lrint (f32 (f32 (value * (255 / 2)) + 255 / 2))))"

definition encode_sample_with_error_feedback :: "c_float \<Rightarrow> rat \<Rightarrow> u8 \<times> rat" where
  "encode_sample_with_error_feedback value error =
     (let value = (case value of None \<Rightarrow> 0 | Some x \<Rightarrow> x);
          value = f32 (value / 32768);
          value = (if value < - 1 then - 1 else value);
          value = (if value > 1 then 1 else value);
          target = f32 (f32 (f32 (value * (255 / 2)) + 255 / 2) + error);
          encoded = lrint target;
          encoded = (if encoded < 0 then 0 else encoded);
          encoded = (if encoded > 255 then 255 else encoded)
      in (of_int encoded, f32 (target - f32 (of_int encoded))))"

text \<open>The frame header both conversions check, and the samples behind it.\<close>

definition framed_iq_ok :: "u8 list \<Rightarrow> bool" where
  "framed_iq_ok framed \<longleftrightarrow> IQ_FRAME_HEADER_SIZE \<le> length framed \<and>
     take 4 framed = [0x46, 0x31, 0x35, 0x49] \<and> framed ! 4 = 1 \<and> framed ! 5 = 1"

definition frame_count :: "u8 list \<Rightarrow> nat" where
  "frame_count framed = unat (load_be32 (drop 16 framed))"

definition frame_i :: "u8 list \<Rightarrow> nat \<Rightarrow> c_float" where
  "frame_i framed index = c_float_of_bits (load_f32le (drop (IQ_FRAME_HEADER_SIZE + index * 8) framed))"

definition frame_q :: "u8 list \<Rightarrow> nat \<Rightarrow> c_float" where
  "frame_q framed index =
     map_option uminus (c_float_of_bits (load_f32le (drop (IQ_FRAME_HEADER_SIZE + index * 8 + 4) framed)))"

text \<open>The empty list is the return value 0.\<close>

definition rtl_tcp_encode_iq_repeated :: "u8 list \<Rightarrow> u32 \<Rightarrow> nat \<Rightarrow> u8 list" where
  "rtl_tcp_encode_iq_repeated framed repeat room =
     (if \<not> framed_iq_ok framed \<or> repeat = 0 then []
      else
        let count = frame_count framed
        in if count > (2 ^ 64 - 1) div 2 div unat repeat then []
           else if IQ_FRAME_HEADER_SIZE + count * 8 \<noteq> length framed \<or>
                   count * 2 * unat repeat > room then []
           else concat (map (\<lambda>index. concat (replicate (unat repeat)
                  [encode_sample (frame_i framed index), encode_sample (frame_q framed index)]))
                [0..<count]))"

definition rtl_tcp_encode_iq :: "u8 list \<Rightarrow> nat \<Rightarrow> u8 list" where
  "rtl_tcp_encode_iq framed room = rtl_tcp_encode_iq_repeated framed 1 room"

subsection \<open>The resampler\<close>

abbreviation RTL_TCP_INPUT_RATE :: nat where "RTL_TCP_INPUT_RATE \<equiv> 48000"
abbreviation RTL_TCP_RESAMPLER_HISTORY :: nat where "RTL_TCP_RESAMPLER_HISTORY \<equiv> 64"
abbreviation RESAMPLER_RADIUS :: int where "RESAMPLER_RADIUS \<equiv> 8"
abbreviation RESAMPLER_PHASES :: int where "RESAMPLER_PHASES \<equiv> 1024"

definition RTL_PI :: rat where "RTL_PI = f64 (314159265358979323846 / 10 ^ 20)"

record rtl_tcp_resampler =
  output_rate :: u32
  phase_numerator :: u64
  input_samples :: u64
  history_i :: "c_float list"
  history_q :: "c_float list"
  history_length :: nat
  quantization_error_i :: rat
  quantization_error_q :: rat

definition tap_weight :: "libm \<Rightarrow> int \<Rightarrow> int \<Rightarrow> rat" where
  "tap_weight m phase tap =
     (let cutoff = f64 (45 / 100);
          fraction = f64 (of_int phase / of_int RESAMPLER_PHASES);
          distance = f64 (fraction - of_int tap);
          scaled = f64 (f64 (2 * cutoff) * distance);
          sinc = (if \<bar>scaled\<bar> < f64 (1 / 10 ^ 12) then 1
                  else f64 (lib_sin m (f64 (RTL_PI * scaled)) / f64 (RTL_PI * scaled)));
          window_position = f64 (distance / (of_int RESAMPLER_RADIUS + 1));
          window = f64 (f64 (f64 (42 / 100) +
                          f64 (1 / 2 * lib_cos m (f64 (RTL_PI * window_position)))) +
                        f64 (f64 (8 / 100) * lib_cos m (f64 (f64 (2 * RTL_PI) * window_position))))
      in f64 (f64 (f64 (2 * cutoff) * sinc) * window))"

definition resampler_taps :: "int list" where
  "resampler_taps = [- RESAMPLER_RADIUS..RESAMPLER_RADIUS]"

definition resampler_weights :: "libm \<Rightarrow> int \<Rightarrow> rat list" where
  "resampler_weights m phase =
     (let weights = map (tap_weight m phase) resampler_taps;
          total = foldl (\<lambda>total weight. f64 (total + weight)) 0 weights
      in map (\<lambda>weight. f32 (f32 weight / f32 total)) weights)"

definition rtl_tcp_resampler_reset :: "u32 \<Rightarrow> rtl_tcp_resampler" where
  "rtl_tcp_resampler_reset rate =
     \<lparr>output_rate = rate, phase_numerator = 0, input_samples = 0,
      history_i = replicate RTL_TCP_RESAMPLER_HISTORY (Some 0),
      history_q = replicate RTL_TCP_RESAMPLER_HISTORY (Some 0), history_length = 0,
      quantization_error_i = 0, quantization_error_q = 0\<rparr>"

definition source_sample :: "c_float list \<Rightarrow> c_float list \<Rightarrow> nat \<Rightarrow> u64 \<Rightarrow> int \<Rightarrow> c_float" where
  "source_sample current history hlength block_start index =
     (if index \<ge> 0 \<and> of_int index \<ge> block_start
      then let offset = unat (of_int index - block_start)
           in if offset < length current then current ! offset else Some 0
      else if index < 0 \<or> unat (block_start - of_int index) > hlength then Some 0
      else history ! (hlength - unat (block_start - of_int index)))"

definition weighted_sum :: "rat list \<Rightarrow> c_float list \<Rightarrow> c_float" where
  "weighted_sum weights xs =
     (if None \<in> set xs then None
      else to_c_float (foldl (\<lambda>total (weight, x). f64 (total + f64 (weight * the x))) 0 (zip weights xs)))"

definition interpolate ::
  "libm \<Rightarrow> c_float list \<Rightarrow> c_float list \<Rightarrow> nat \<Rightarrow> u64 \<Rightarrow> rat \<Rightarrow> c_float" where
  "interpolate m current history hlength block_start position =
     (let center = \<lfloor>position\<rfloor>;
          fraction = f64 (position - of_int center);
          phase = lrint (f64 (fraction * of_int RESAMPLER_PHASES));
          (center, phase) = (if phase = RESAMPLER_PHASES then (center + 1, 0) else (center, phase))
      in weighted_sum (resampler_weights m phase)
           (map (\<lambda>tap. source_sample current history hlength block_start (center + tap)) resampler_taps))"

text \<open>One output sample.\<close>

definition resample_one ::
  "libm \<Rightarrow> c_float list \<Rightarrow> c_float list \<Rightarrow> rtl_tcp_resampler \<Rightarrow> u8 list \<times> rtl_tcp_resampler" where
  "resample_one m current_i current_q r =
     (let nominal = f64 (f64 (of_nat (unat (input_samples r))) +
                         f64 (f64 (of_nat (unat (phase_numerator r))) / of_nat (unat (output_rate r))));
          delayed = f64 (nominal - (of_int RESAMPLER_RADIUS + 1));
          i_sample = interpolate m current_i (history_i r) (history_length r) (input_samples r) delayed;
          q_sample = interpolate m current_q (history_q r) (history_length r) (input_samples r) delayed;
          (i_byte, i_error) = encode_sample_with_error_feedback i_sample (quantization_error_i r);
          (q_byte, q_error) = encode_sample_with_error_feedback q_sample (quantization_error_q r)
      in ([i_byte, q_byte],
          r\<lparr>quantization_error_i := i_error, quantization_error_q := q_error,
            phase_numerator := phase_numerator r + of_nat RTL_TCP_INPUT_RATE\<rparr>))"

text \<open>The loop; it gives up when the output is full, leaving the state as far as it came.\<close>

function resample_loop ::
  "libm \<Rightarrow> c_float list \<Rightarrow> c_float list \<Rightarrow> nat \<Rightarrow> u64 \<Rightarrow> u8 list \<Rightarrow> rtl_tcp_resampler \<Rightarrow>
   bool \<times> u8 list \<times> rtl_tcp_resampler" where
  "resample_loop m current_i current_q room block_span out r =
     (if phase_numerator r < block_span
      then if length out + 2 > room then (False, out, r)
           else resample_loop m current_i current_q room block_span
                  (out @ fst (resample_one m current_i current_q r))
                  (snd (resample_one m current_i current_q r))
      else (True, out, r))"
  by pat_completeness auto

termination
  by (relation "measure (\<lambda>(m, current_i, current_q, room, block_span, out, r). room - length out)")
    (auto simp: resample_one_def Let_def case_prod_beta)

declare resample_loop.simps [simp del]

text \<open>The history after a block: what is kept of the old one, then the end of the block.\<close>

definition keep_history :: "c_float list \<Rightarrow> nat \<Rightarrow> c_float list \<Rightarrow> c_float list" where
  "keep_history history hlength current =
     (let count = length current; keep = min count RTL_TCP_RESAMPLER_HISTORY;
          old_keep = min (RTL_TCP_RESAMPLER_HISTORY - keep) hlength
      in put_bytes 0 (take old_keep (drop (hlength - old_keep) history) @ drop (count - keep) current) history)"

definition rtl_tcp_resample_iq ::
  "libm \<Rightarrow> u8 list \<Rightarrow> nat \<Rightarrow> rtl_tcp_resampler \<Rightarrow> u8 list \<times> rtl_tcp_resampler" where
  "rtl_tcp_resample_iq m framed room r =
     (if unat (output_rate r) < RTL_TCP_INPUT_RATE \<or> \<not> framed_iq_ok framed then ([], r)
      else
        let count = frame_count framed
        in if IQ_FRAME_HEADER_SIZE + count * 8 \<noteq> length framed \<or> count > PUBLISHER_MAX_SAMPLES
           then ([], r)
           else
             let current_i = map (frame_i framed) [0..<count];
                 current_q = map (frame_q framed) [0..<count];
                 block_end = input_samples r + of_nat count;
                 block_span = of_nat count * ucast (output_rate r)
             in case resample_loop m current_i current_q room block_span [] r of
                  (finished, out, r) \<Rightarrow>
                    if \<not> finished then ([], r)
                    else
                      let keep = min count RTL_TCP_RESAMPLER_HISTORY;
                          old_keep = min (RTL_TCP_RESAMPLER_HISTORY - keep) (history_length r)
                      in (out, r\<lparr>phase_numerator := phase_numerator r - block_span,
                                history_i := keep_history (history_i r) (history_length r) current_i,
                                history_q := keep_history (history_q r) (history_length r) current_q,
                                history_length := old_keep + keep,
                                input_samples := block_end\<rparr>))"

subsection \<open>The command stream\<close>

text \<open>The parser fed with what the socket delivers, and the commands it yields.\<close>

fun rtl_tcp_parse :: "rtl_tcp_parser \<Rightarrow> u8 list \<Rightarrow> rtl_tcp_command list \<times> rtl_tcp_parser" where
  "rtl_tcp_parse p [] = ([], p)"
| "rtl_tcp_parse p (byte # bytes) =
     (case rtl_tcp_parse_byte p byte of (command, p) \<Rightarrow>
      case rtl_tcp_parse p bytes of (commands, p) \<Rightarrow>
        ((case command of None \<Rightarrow> commands | Some c \<Rightarrow> c # commands), p))"

text \<open>The reference: the stream is cut into groups of five.\<close>

definition rtl_tcp_command_of :: "u8 list \<Rightarrow> rtl_tcp_command" where
  "rtl_tcp_command_of five = \<lparr>command_id = five ! 0, command_parameter = load_be32 (drop 1 five)\<rparr>"

function fives :: "u8 list \<Rightarrow> u8 list list" where
  "fives bytes = (if length bytes < RTL_TCP_COMMAND_SIZE then []
     else take RTL_TCP_COMMAND_SIZE bytes # fives (drop RTL_TCP_COMMAND_SIZE bytes))"
  by pat_completeness auto

termination
  by (relation "measure length") auto

declare fives.simps [simp del]

definition parser_prefix :: "rtl_tcp_parser \<Rightarrow> u8 list" where
  "parser_prefix p = take (parser_length p) (parser_pending p)"

definition parser_wf :: "rtl_tcp_parser \<Rightarrow> bool" where
  "parser_wf p \<longleftrightarrow> length (parser_pending p) = RTL_TCP_COMMAND_SIZE \<and> parser_length p < RTL_TCP_COMMAND_SIZE"

lemma parse_byte_prefix:
  assumes "parser_wf p" and "rtl_tcp_parse_byte p byte = (command, p')"
  shows "parser_wf p'"
    and "parser_length p < 4 \<Longrightarrow> command = None \<and> parser_prefix p' = parser_prefix p @ [byte]"
    and "parser_length p = 4 \<Longrightarrow>
      command = Some (rtl_tcp_command_of (parser_prefix p @ [byte])) \<and> parser_prefix p' = []"
proof -
  have len: "length (parser_pending p) = 5" "parser_length p < 5" using assms(1) by (simp_all add: parser_wf_def)
  then have put: "take (Suc (parser_length p)) ((parser_pending p)[parser_length p := byte]) =
      parser_prefix p @ [byte]"
    by (simp add: parser_prefix_def take_Suc_conv_app_nth)
  then have full: "parser_length p = 4 \<Longrightarrow> (parser_pending p)[4 := byte] = parser_prefix p @ [byte]"
    using len by simp
  show "parser_wf p'"
    using assms by (auto simp: parser_wf_def rtl_tcp_parse_byte_def Let_def split: if_splits)
  show "parser_length p < 4 \<Longrightarrow> command = None \<and> parser_prefix p' = parser_prefix p @ [byte]"
    using assms(2) put by (auto simp: rtl_tcp_parse_byte_def Let_def parser_prefix_def split: if_splits)
  show "parser_length p = 4 \<Longrightarrow>
      command = Some (rtl_tcp_command_of (parser_prefix p @ [byte])) \<and> parser_prefix p' = []"
    using assms(2) full by (auto simp: rtl_tcp_parse_byte_def Let_def rtl_tcp_command_of_def parser_prefix_def)
qed

lemma fives_short: "length bytes < 5 \<Longrightarrow> fives bytes = []"
  by (simp add: fives.simps)

lemma fives_full: "length five = 5 \<Longrightarrow> fives (five @ bytes) = five # fives bytes"
  by (subst fives.simps) simp

text \<open>C23.
  However the socket cuts the stream, the parser yields the commands of its groups of five bytes, in
  order, and keeps the incomplete rest.
\<close>

theorem rtl_tcp_parse_reference:
  assumes "rtl_tcp_parse rtl_tcp_parser_zero bytes = (commands, p)"
  shows "commands = map rtl_tcp_command_of (fives bytes) \<and>
     parser_prefix p = drop (RTL_TCP_COMMAND_SIZE * length (fives bytes)) bytes"
proof -
  have gen: "rtl_tcp_parse p bytes = (commands, p') \<Longrightarrow> parser_wf p \<Longrightarrow>
     commands = map rtl_tcp_command_of (fives (parser_prefix p @ bytes)) \<and>
     parser_prefix p' = drop (5 * length (fives (parser_prefix p @ bytes))) (parser_prefix p @ bytes)"
    for p p' commands
  proof (induction bytes arbitrary: p commands)
    case Nil
    then have "length (parser_prefix p) < 5" by (simp add: parser_prefix_def parser_wf_def)
    with Nil show ?case by (simp add: fives_short)
  next
    case (Cons b bytes)
    obtain c q where q: "rtl_tcp_parse_byte p b = (c, q)" by fastforce
    obtain cs where cs: "rtl_tcp_parse q bytes = (cs, p')" "commands = (case c of None \<Rightarrow> cs | Some c \<Rightarrow> c # cs)"
      using Cons.prems(1) q by (auto split: prod.splits)
    note step = parse_byte_prefix [OF Cons.prems(2) q]
    note IH = Cons.IH [OF cs(1) step(1)]
    consider "parser_length p < 4" | "parser_length p = 4"
      using Cons.prems(2) by (fastforce simp: parser_wf_def)
    then show ?case
    proof cases
      case 1
      with step(2) IH cs(2) show ?thesis by simp
    next
      case 2
      then have "length (parser_prefix p @ [b]) = 5"
        using Cons.prems(2) by (simp add: parser_prefix_def parser_wf_def)
      then have "fives (parser_prefix p @ b # bytes) = (parser_prefix p @ [b]) # fives bytes"
        "drop (5 + n) (parser_prefix p @ b # bytes) = drop n bytes" for n
        using fives_full [of "parser_prefix p @ [b]" bytes] by simp_all
      with step(3) [OF 2] IH cs(2) show ?thesis by simp
    qed
  qed
  have "parser_wf rtl_tcp_parser_zero" "parser_prefix rtl_tcp_parser_zero = []"
    by (simp_all add: parser_wf_def parser_prefix_def rtl_tcp_parser_zero_def)
  with gen [OF assms] show ?thesis by simp
qed

theorem rtl_tcp_parse_reference_witness:
  "\<exists>p. rtl_tcp_parse rtl_tcp_parser_zero [1, 0, 0xD8, 0xAC, 0xC0, 2] =
     ([\<lparr>command_id = 1, command_parameter = 14200000\<rparr>], p) \<and> parser_prefix p = [2]"
proof -
  obtain cs p where run: "rtl_tcp_parse rtl_tcp_parser_zero [1, 0, 0xD8, 0xAC, 0xC0, 2] = (cs, p)" by fastforce
  have f: "fives [1, 0, 0xD8, 0xAC, 0xC0, 2] = [[1, 0, 0xD8, 0xAC, 0xC0]]"
    using fives_full [of "[1, 0, 0xD8, 0xAC, 0xC0]" "[2]"] by (simp add: fives_short)
  have c: "rtl_tcp_command_of [1, 0, 0xD8, 0xAC, 0xC0] = \<lparr>command_id = 1, command_parameter = 14200000\<rparr>"
    by (simp add: rtl_tcp_command_of_def load_be32_def)
  from rtl_tcp_parse_reference [OF run]
  have "cs = [\<lparr>command_id = 1, command_parameter = 14200000\<rparr>]" "parser_prefix p = [2]"
    by (simp_all add: f c)
  with run show ?thesis by blast
qed

subsection \<open>The output rate\<close>

lemma resample_one_fields:
  "length (fst (resample_one m ci cq r)) = 2"
  "phase_numerator (snd (resample_one m ci cq r)) = phase_numerator r + 48000"
  "output_rate (snd (resample_one m ci cq r)) = output_rate r"
  "input_samples (snd (resample_one m ci cq r)) = input_samples r"
  "history_length (snd (resample_one m ci cq r)) = history_length r"
  by (simp_all add: resample_one_def Let_def case_prod_beta)

lemma resample_loop_counts:
  assumes "n = (unat block - unat (phase_numerator r) + 47999) div 48000"
    and "length out + 2 * n \<le> room" and "unat block < 2 ^ 63"
  shows "\<exists>out' r'. resample_loop m ci cq room block out r = (True, out', r') \<and>
    length out' = length out + 2 * n \<and> output_rate r' = output_rate r \<and>
    input_samples r' = input_samples r \<and> history_length r' = history_length r \<and>
    unat (phase_numerator r') = unat (phase_numerator r) + 48000 * n"
  using assms
proof (induction n arbitrary: out r)
  case 0
  then have "unat block \<le> unat (phase_numerator r)" by simp
  then show ?case by (simp add: resample_loop.simps word_less_nat_alt)
next
  case (Suc n)
  define q where "q = snd (resample_one m ci cq r)"
  have lt: "unat (phase_numerator r) < unat block" using Suc.prems(1) by (cases "unat (phase_numerator r) < unat block") auto
  then have ph: "unat (phase_numerator q) = unat (phase_numerator r) + 48000"
    using Suc.prems(3) by (simp add: q_def resample_one_fields unat_word_ariths)
  have "n = (unat block - unat (phase_numerator q) + 47999) div 48000"
    using Suc.prems(1) lt ph by linarith
  from Suc.IH [OF this, of "out @ fst (resample_one m ci cq r)"] Suc.prems(2,3) lt ph
  show ?case
    by (subst resample_loop.simps)
      (auto simp: word_less_nat_alt resample_one_fields q_def [symmetric], simp_all add: q_def resample_one_fields)
qed

text \<open>The bytes of one frame at any rate the server accepts.\<close>

abbreviation RTL_PENDING_BYTES :: nat where "RTL_PENDING_BYTES \<equiv> 256 * 2 * 64"

definition rate_ok :: "u32 \<Rightarrow> bool" where
  "rate_ok rate \<longleftrightarrow> 48000 \<le> rate \<and> rate \<le> 3072000"

lemma frame_accepted:
  assumes "length xs \<le> PUBLISHER_MAX_SAMPLES" and "framed = encode_iq_frame n xs PUBLISHER_BUFFER_SIZE"
  shows "framed_iq_ok framed" "frame_count framed = length xs" "length framed = 20 + 8 * length xs"
proof -
  have fr: "framed = ([0x46, 0x31, 0x35, 0x49, 1, 1] @ store_be16 20) @ store_be32 n @ store_be32 48000 @
      store_be32 (of_nat (length xs)) @ concat (map sample_words xs)"
    using assms by (simp add: encode_iq_frame_def IQ_FRAME_HEADER_SIZE_def PUBLISHER_BUFFER_SIZE_def)
  show "length framed = 20 + 8 * length xs" by (simp add: fr)
  then show "framed_iq_ok framed" by (simp add: framed_iq_ok_def IQ_FRAME_HEADER_SIZE_def) (simp add: fr)
  have "length xs < 2 ^ 32" using assms(1) by (simp add: PUBLISHER_MAX_SAMPLES_def)
  then show "frame_count framed = length xs"
    by (simp add: fr frame_count_def unsigned_of_nat take_bit_nat_eq_self)
qed

lemma resample_frame:
  assumes "length xs \<le> PUBLISHER_MAX_SAMPLES" and "rate_ok (output_rate r)"
    and "unat (phase_numerator r) < 48000"
    and p_def: "p = rtl_tcp_resample_iq m (encode_iq_frame n xs PUBLISHER_BUFFER_SIZE) RTL_PENDING_BYTES r"
  shows "output_rate (snd p) = output_rate r" "unat (phase_numerator (snd p)) < 48000"
    "even (length (fst p))"
    "48000 * (length (fst p) div 2) + unat (phase_numerator r) =
       length xs * unat (output_rate r) + unat (phase_numerator (snd p))"
proof -
  define rate where "rate = unat (output_rate r)"
  define ph where "ph = unat (phase_numerator r)"
  define block :: u64 where "block = of_nat (length xs) * ucast (output_rate r)"
  define steps where "steps = (length xs * rate - ph + 47999) div 48000"
  have rate: "48000 \<le> rate" "rate \<le> 3072000"
    using assms(2) by (simp_all add: rate_ok_def rate_def word_le_nat_alt)
  have len: "length xs \<le> 256" using assms(1) by (simp add: PUBLISHER_MAX_SAMPLES_def)
  then have prod: "length xs * rate \<le> 256 * 3072000" using rate(2) by (intro mult_le_mono) auto
  then have block: "unat block = length xs * rate"
  proof -
    have "unat (ucast (output_rate r) :: u64) = rate"
      using rate(2) by (simp add: rate_def unsigned_ucast_eq take_bit_nat_eq_self)
    moreover have "unat (of_nat (length xs) :: u64) = length xs"
      using len by (simp add: unsigned_of_nat take_bit_nat_eq_self)
    ultimately show ?thesis using prod by (simp add: block_def unat_word_ariths)
  qed
  have room: "2 * steps \<le> RTL_PENDING_BYTES" using prod by (simp add: steps_def)
  define ci where "ci = map (frame_i (encode_iq_frame n xs PUBLISHER_BUFFER_SIZE)) [0..<length xs]"
  define cq where "cq = map (frame_q (encode_iq_frame n xs PUBLISHER_BUFFER_SIZE)) [0..<length xs]"
  from resample_loop_counts [of steps block r "[]" RTL_PENDING_BYTES m ci cq] prod room
  obtain out r' where loop: "resample_loop m ci cq RTL_PENDING_BYTES block [] r = (True, out, r')"
    "length out = 2 * steps" "output_rate r' = output_rate r"
    "unat (phase_numerator r') = ph + 48000 * steps"
    by (auto simp: block steps_def ph_def)
  have "\<not> unat (output_rate r) < 48000" using rate by (simp add: rate_def)
  then have fst: "fst p = out" and snd: "phase_numerator (snd p) = phase_numerator r' - block"
    "output_rate (snd p) = output_rate r"
    using frame_accepted [OF assms(1) refl, of n] assms(1) loop(1,3)
    by (simp_all add: p_def rtl_tcp_resample_iq_def Let_def ci_def cq_def block_def IQ_FRAME_HEADER_SIZE_def)
  have steps: "length xs * rate \<le> ph + 48000 * steps" "ph + 48000 * steps < length xs * rate + 48000"
  proof -
    show "length xs * rate \<le> ph + 48000 * steps" unfolding steps_def by linarith
    show "ph + 48000 * steps < length xs * rate + 48000"
    proof (cases xs)
      case Nil
      then show ?thesis using assms(3) by (simp add: steps_def ph_def)
    next
      case (Cons a list)
      then have "ph \<le> length xs * rate" using rate(1) assms(3) by (simp add: ph_def)
      then show ?thesis unfolding steps_def by linarith
    qed
  qed
  then have "block \<le> phase_numerator r'" by (simp add: word_le_nat_alt block loop(4))
  then have end_phase: "unat (phase_numerator (snd p)) = ph + 48000 * steps - length xs * rate"
    by (simp add: snd unat_sub block loop(4))
  show "output_rate (snd p) = output_rate r" by (rule snd)
  show "unat (phase_numerator (snd p)) < 48000" using steps by (simp add: end_phase)
  show "even (length (fst p))" by (simp add: fst loop(2))
  show "48000 * (length (fst p) div 2) + unat (phase_numerator r) =
       length xs * unat (output_rate r) + unat (phase_numerator (snd p))"
    using steps(1) by (simp add: fst loop(2) end_phase ph_def [symmetric] rate_def [symmetric])
qed

text \<open>Frame after frame, as the publisher numbers them: the output blocks and the state after.\<close>

fun resample_frames ::
  "libm \<Rightarrow> u32 \<Rightarrow> iq_sample list list \<Rightarrow> rtl_tcp_resampler \<Rightarrow> u8 list list \<times> rtl_tcp_resampler" where
  "resample_frames m n [] r = ([], r)"
| "resample_frames m n (xs # frames) r =
     (case rtl_tcp_resample_iq m (encode_iq_frame n xs PUBLISHER_BUFFER_SIZE) RTL_PENDING_BYTES r of
        (out, r) \<Rightarrow> case resample_frames m (n + 1) frames r of (outs, r) \<Rightarrow> (out # outs, r))"

lemma resample_frames_rate:
  assumes "rate_ok (output_rate r)" and "unat (phase_numerator r) < 48000"
    and "\<forall>xs\<in>set frames. xs \<noteq> [] \<and> length xs \<le> PUBLISHER_MAX_SAMPLES"
    and "resample_frames m n frames r = (outs, r')"
  shows "unat (phase_numerator r') < 48000 \<and> (\<forall>out\<in>set outs. out \<noteq> [] \<and> even (length out)) \<and>
    48000 * (length (concat outs) div 2) + unat (phase_numerator r) =
      length (concat frames) * unat (output_rate r) + unat (phase_numerator r')"
  using assms
proof (induction frames arbitrary: n r outs)
  case Nil
  then show ?case by simp
next
  case (Cons xs frames)
  define p where "p = rtl_tcp_resample_iq m (encode_iq_frame n xs PUBLISHER_BUFFER_SIZE) RTL_PENDING_BYTES r"
  have xs: "xs \<noteq> []" "length xs \<le> PUBLISHER_MAX_SAMPLES" using Cons.prems(3) by auto
  note frame = resample_frame [OF xs(2) Cons.prems(1,2) p_def]
  define os where "os = fst (resample_frames m (n + 1) frames (snd p))"
  have os: "resample_frames m (n + 1) frames (snd p) = (os, r')" "outs = fst p # os"
    using Cons.prems(4) unfolding resample_frames.simps p_def [symmetric] case_prod_beta os_def by auto
  have IH: "unat (phase_numerator r') < 48000 \<and> (\<forall>out\<in>set os. out \<noteq> [] \<and> even (length out)) \<and>
    48000 * (length (concat os) div 2) + unat (phase_numerator (snd p)) =
      length (concat frames) * unat (output_rate r) + unat (phase_numerator r')"
    using Cons.IH [OF _ _ _ os(1)] Cons.prems(1,3) frame by simp
  have "48000 \<le> length xs * unat (output_rate r)"
    using xs(1) Cons.prems(1) by (cases xs) (simp_all add: rate_ok_def word_le_nat_alt)
  then have "fst p \<noteq> []" using frame(4) Cons.prems(2) by auto
  moreover have "length (concat outs) div 2 = length (fst p) div 2 + length (concat os) div 2"
    using frame(3) by (simp add: os(2)) presburger
  ultimately show ?case
    using IH frame(3,4) by (simp add: os(2) distrib_right)
qed

text \<open>C22.
  At every rate the server accepts, from the moment it is set and over any number of frames of any
  lengths, no frame is lost for want of room, every frame gives output, and the number of samples
  sent is exactly the number received times the rate over 48000, rounded up: the stream never
  drifts.
\<close>

theorem rtl_tcp_rate_exact:
  assumes "rate_ok rate" and "\<forall>xs\<in>set frames. xs \<noteq> [] \<and> length xs \<le> PUBLISHER_MAX_SAMPLES"
  shows "let outs = fst (resample_frames m n frames (rtl_tcp_resampler_reset rate))
    in (\<forall>out\<in>set outs. out \<noteq> [] \<and> even (length out)) \<and>
       length (concat outs) div 2 = (length (concat frames) * unat rate + 47999) div 48000"
proof -
  define r where "r = rtl_tcp_resampler_reset rate"
  obtain outs r' where run: "resample_frames m n frames r = (outs, r')" by fastforce
  have r: "rate_ok (output_rate r)" "unat (phase_numerator r) = 0" "output_rate r = rate"
    using assms(1) by (simp_all add: r_def rtl_tcp_resampler_reset_def)
  have "unat (phase_numerator r) < 48000" using r by simp
  note res = resample_frames_rate [OF r(1) this assms(2) run]
  then have "length (concat outs) div 2 = (length (concat frames) * unat rate + 47999) div 48000"
    unfolding r by linarith
  with res show ?thesis by (simp add: r_def [symmetric] run)
qed

theorem rtl_tcp_rate_exact_witness:
  "\<forall>m. length (concat (fst (resample_frames m 0 (replicate 3 [\<lparr>i_part = 1, q_part = 0\<rparr>])
      (rtl_tcp_resampler_reset 250000)))) div 2 = 16"
proof
  fix m
  have "rate_ok 250000" by (simp add: rate_ok_def)
  moreover have "\<forall>xs\<in>set (replicate 3 [\<lparr>i_part = 1, q_part = 0 :: rat\<rparr>]). xs \<noteq> [] \<and> length xs \<le> PUBLISHER_MAX_SAMPLES"
    by (simp add: PUBLISHER_MAX_SAMPLES_def)
  ultimately show "length (concat (fst (resample_frames m 0 (replicate 3 [\<lparr>i_part = 1, q_part = 0\<rparr>])
      (rtl_tcp_resampler_reset 250000)))) div 2 = 16"
    using rtl_tcp_rate_exact [of 250000 "replicate 3 [\<lparr>i_part = 1, q_part = 0\<rparr>]" m 0]
    by (simp add: Let_def length_concat sum_list_replicate del: resample_frames.simps)
qed

end
