(* ===== verification/Iq_Clients.thy ===== *)
theory Iq_Clients
  imports Rtl_Tcp
begin

text \<open>
  Model of the receive clients of \<open>src/flex1500d.c\<close>: up to four HTTP clients and one rtl_tcp client
  share the frames of one publisher (\<open>write_iq_clients\<close>, its writer), and the loop pumps until a
  client blocks or the ring is empty. A socket is the list of its answers to nonblocking sends and
  the bytes it has taken; a descriptor of -1 is \<open>None\<close>. The pending rtl_tcp block is the first
  \<open>rtl_pending_length\<close> bytes of the buffer.
\<close>

subsection \<open>Sockets\<close>

datatype send_result = Sent nat | SendAgain | SendFailed

record iq_socket =
  socket_answers :: "send_result list"
  socket_taken :: "u8 list"

text \<open>\<open>send\<close> takes at most what it is given; a socket without answers blocks.\<close>

definition send_dontwait :: "u8 list \<Rightarrow> iq_socket \<Rightarrow> send_result \<times> iq_socket" where
  "send_dontwait bytes k =
     (case socket_answers k of [] \<Rightarrow> (SendAgain, k)
      | Sent n # rest \<Rightarrow>
          (Sent (min n (length bytes)), k\<lparr>socket_answers := rest, socket_taken := socket_taken k @ take n bytes\<rparr>)
      | answer # rest \<Rightarrow> (answer, k\<lparr>socket_answers := rest\<rparr>))"

subsection \<open>The clients\<close>

definition MAX_IQ_CLIENTS :: nat where "MAX_IQ_CLIENTS = 4"

record iq_slot =
  slot_socket :: "iq_socket option"
  slot_offset :: nat

record iq_clients =
  iq_slots :: "iq_slot list"
  rtl_socket :: "iq_socket option"
  rtl_resampler :: rtl_tcp_resampler
  rtl_pending :: "u8 list"
  rtl_offset :: nat
  rtl_source_complete :: bool

definition iq_clients_none :: iq_clients where
  "iq_clients_none =
     \<lparr>iq_slots = replicate MAX_IQ_CLIENTS \<lparr>slot_socket = None, slot_offset = 0\<rparr>, rtl_socket = None,
      rtl_resampler = rtl_tcp_resampler_reset 0, rtl_pending = [], rtl_offset = 0,
      rtl_source_complete = False\<rparr>"

definition iq_clients_connected :: "iq_clients \<Rightarrow> bool" where
  "iq_clients_connected c \<longleftrightarrow> rtl_socket c \<noteq> None \<or> list_ex (\<lambda>s. slot_socket s \<noteq> None) (iq_slots c)"

definition begin_fresh_receive_stream :: "iq_publisher \<Rightarrow> iq_publisher" where
  "begin_fresh_receive_stream p =
     iq_publisher_disconnect (p\<lparr>pub_source := iq_ring_clear (pub_source p)\<rparr>)"

text \<open>One client each: whether it counts as connected, whether it is behind, and the client after.\<close>

definition rtl_close :: "iq_clients \<Rightarrow> iq_clients" where
  "rtl_close c = c\<lparr>rtl_socket := None, rtl_pending := [], rtl_offset := 0, rtl_source_complete := False\<rparr>"

definition write_rtl :: "libm \<Rightarrow> u8 list \<Rightarrow> iq_clients \<Rightarrow> bool \<times> bool \<times> iq_clients" where
  "write_rtl m bytes c =
     (if rtl_socket c = None then (False, False, c)
      else
        let c = (if \<not> rtl_source_complete c \<and> rtl_pending c = []
                 then case rtl_tcp_resample_iq m bytes RTL_PENDING_BYTES (rtl_resampler c) of (out, r) \<Rightarrow>
                   c\<lparr>rtl_resampler := r, rtl_pending := out, rtl_offset := 0,
                     rtl_socket := (if out = [] then None else rtl_socket c)\<rparr>
                 else c)
        in case rtl_socket c of
             None \<Rightarrow> (rtl_source_complete c, False, c)
           | Some k \<Rightarrow>
               (case send_dontwait (drop (rtl_offset c) (rtl_pending c)) k of (result, k) \<Rightarrow>
                  let c = c\<lparr>rtl_socket := Some k\<rparr>
                  in case result of
                       Sent n \<Rightarrow>
                         if n = 0 then (False, False, rtl_close c)
                         else if rtl_offset c + n < length (rtl_pending c)
                         then (True, True, c\<lparr>rtl_offset := rtl_offset c + n\<rparr>)
                         else (True, False, c\<lparr>rtl_pending := [], rtl_offset := 0, rtl_source_complete := True\<rparr>)
                     | SendAgain \<Rightarrow> (True, True, c)
                     | SendFailed \<Rightarrow> (False, False, rtl_close c)))"

definition write_slot :: "u8 list \<Rightarrow> iq_slot \<Rightarrow> bool \<times> bool \<times> iq_slot" where
  "write_slot bytes s =
     (case slot_socket s of None \<Rightarrow> (False, False, s)
      | Some k \<Rightarrow>
          if slot_offset s = length bytes then (True, False, s)
          else case send_dontwait (drop (slot_offset s) bytes) k of (result, k) \<Rightarrow>
            let s = s\<lparr>slot_socket := Some k\<rparr>; closed = \<lparr>slot_socket = None, slot_offset = 0\<rparr>
            in case result of
                 Sent n \<Rightarrow>
                   if n = 0 then (False, False, closed)
                   else (True, slot_offset s + n < length bytes, s\<lparr>slot_offset := slot_offset s + n\<rparr>)
               | SendAgain \<Rightarrow> (True, True, s)
               | SendFailed \<Rightarrow> (False, False, closed))"

definition write_iq_clients :: "libm \<Rightarrow> iq_clients writer" where
  "write_iq_clients m c bytes =
     (case write_rtl m bytes c of (rtl_any, rtl_incomplete, c) \<Rightarrow>
        let results = map (write_slot bytes) (iq_slots c);
            any = (rtl_any \<or> list_ex (\<lambda>(any, incomplete, s). any) results);
            incomplete = (rtl_incomplete \<or> list_ex (\<lambda>(any, incomplete, s). incomplete) results);
            c = c\<lparr>iq_slots := map (\<lambda>(any, incomplete, s). s) results\<rparr>
        in if \<not> any then (PublishDisconnected, 0, c)
           else if incomplete then (PublishWouldBlock, 0, c)
           else (PublishOk, length bytes,
                 c\<lparr>iq_slots := map (\<lambda>s. s\<lparr>slot_offset := 0\<rparr>) (iq_slots c), rtl_source_complete := False\<rparr>))"

subsection \<open>Connecting and pumping\<close>

text \<open>An accepted HTTP stream takes the first free slot; the first client starts a fresh stream.\<close>

definition iq_open :: "iq_socket \<Rightarrow> iq_clients \<Rightarrow> iq_publisher \<Rightarrow> (nat \<times> iq_clients \<times> iq_publisher) option" where
  "iq_open k c p =
     (case find (\<lambda>i. slot_socket (iq_slots c ! i) = None) [0..<MAX_IQ_CLIENTS] of
        None \<Rightarrow> None
      | Some slot \<Rightarrow>
          Some (slot, c\<lparr>iq_slots := (iq_slots c)[slot := \<lparr>slot_socket = Some k, slot_offset = 0\<rparr>]\<rparr>,
                if iq_clients_connected c then p else begin_fresh_receive_stream p))"

definition rtl_accept :: "iq_socket \<Rightarrow> iq_clients \<Rightarrow> iq_publisher \<Rightarrow> iq_clients \<times> iq_publisher" where
  "rtl_accept k c p =
     (c\<lparr>rtl_socket := Some k, rtl_resampler := rtl_tcp_resampler_reset (of_nat RTL_TCP_INPUT_RATE),
        rtl_pending := [], rtl_offset := 0\<rparr>,
      if iq_clients_connected c then p else begin_fresh_receive_stream p)"

text \<open>\<open>SET_SAMPLE_RATE\<close>; other rates are refused.\<close>

definition rtl_set_rate :: "u32 \<Rightarrow> iq_clients \<Rightarrow> iq_clients" where
  "rtl_set_rate rate c =
     (if rate_ok rate
      then c\<lparr>rtl_resampler := rtl_tcp_resampler_reset rate, rtl_pending := [], rtl_offset := 0,
             rtl_source_complete := False\<rparr>
      else c)"

text \<open>The loop at the end of a pass; a loop that never ends is the value \<open>None\<close>.\<close>

partial_function (option) publish_loop ::
  "libm \<Rightarrow> iq_clients \<Rightarrow> iq_publisher \<Rightarrow> (iq_clients \<times> iq_publisher) option" where
  "publish_loop m c p =
     (case iq_publisher_pump (write_iq_clients m) c p of (result, c, p) \<Rightarrow>
        if result = PublishEmpty \<or> result = PublishWouldBlock then Some (c, p)
        else if result = PublishDisconnected \<or> result = PublishError
        then Some (c, iq_publisher_disconnect p)
        else publish_loop m c p)"

definition publish_pass :: "libm \<Rightarrow> iq_clients \<Rightarrow> iq_publisher \<Rightarrow> (iq_clients \<times> iq_publisher) option" where
  "publish_pass m c p = (if iq_clients_connected c then publish_loop m c p else Some (c, p))"

subsection \<open>The loop ends\<close>

definition to_publish :: "iq_publisher \<Rightarrow> nat" where
  "to_publish p = ring_size (pub_source p) + (if pending_offset p < pending_length p then 1 else 0)"

lemma write_iq_clients_results:
  "write_iq_clients m c bytes = (result, written, c') \<Longrightarrow>
     result = PublishDisconnected \<and> written = 0 \<or> result = PublishWouldBlock \<and> written = 0 \<or>
     result = PublishOk \<and> written = length bytes"
  by (auto simp: write_iq_clients_def Let_def split: prod.splits if_splits)

lemma prepare_frame_to_publish:
  assumes "pub_wf p" and "prepare_frame p = (True, p')"
  shows "ring_size (pub_source p') < to_publish p"
proof (cases "pending_offset p < pending_length p")
  case True
  then show ?thesis using assms(2) by (simp add: prepare_frame_def to_publish_def)
next
  case False
  have nonempty: "ring_size (pub_source p) \<noteq> 0" using False assms(2) by (auto simp: prepare_frame_def split: if_splits)
  define n where "n = min (ring_size (pub_source p)) (samples_per_frame p)"
  have n: "0 < n" using nonempty assms(1) by (simp add: n_def pub_wf_def)
  have m: "(if samples_per_frame p > ring_size (pub_source p) then ring_size (pub_source p)
      else samples_per_frame p) = n" by (simp add: n_def)
  obtain xs ring where pop: "iq_ring_pop n (pub_source p) = (xs, ring)" by fastforce
  have "ring_contents ring = drop n (ring_contents (pub_source p))"
    using ring.pop_contents [of "pub_source p" n] assms(1) pop by (simp add: pub_wf_def)
  then have "length (ring_contents ring) = ring_size (pub_source p) - n"
    using assms(1) by (simp add: pub_wf_def)
  then have "ring_size ring = ring_size (pub_source p) - n" by simp
  moreover have "pub_source p' = ring"
    using assms(2) False nonempty by (auto simp: prepare_frame_def m pop Let_def map_pub_stats_def split: if_splits)
  ultimately show ?thesis using n nonempty by (simp add: to_publish_def)
qed

text \<open>A pump that succeeds has finished a frame.\<close>

lemma pump_ok:
  assumes "pub_wf p" and "iq_publisher_pump (write_iq_clients m) c p = (PublishOk, c', p')"
  shows "pub_wf p'" "to_publish p' < to_publish p"
proof -
  obtain ready p1 where p1: "prepare_frame p = (ready, p1)" by fastforce
  have ready: "ready" using assms(2) p1 by (cases ready) (simp_all add: iq_publisher_pump_def)
  have wf: "pub_wf p1" using prepare_frame_effect [OF assms(1) p1] by (auto simp: pub_effect_def)
  then have len: "length (unsent p1) = pending_length p1 - pending_offset p1"
    by (auto simp: unsent_def pub_wf_def)
  have p': "p' = iq_publisher_disconnect (map_pub_stats
      (\<lambda>st. st\<lparr>ps_frames_sent := ps_frames_sent st + 1,
              ps_samples_sent := ps_samples_sent st + of_nat (pending_samples p1)\<rparr>)
      (p1\<lparr>pending_offset := pending_length p1\<rparr>))"
    using assms(2) p1 ready len write_iq_clients_results [of m c "unsent p1"] wf
    by (cases "write_iq_clients m c (unsent p1)")
      (auto simp: iq_publisher_pump_def Let_def pub_wf_def map_pub_stats_def split: if_splits)
  show "pub_wf p'" using wf by (simp add: p' pub_wf_def iq_publisher_disconnect_def map_pub_stats_def)
  show "to_publish p' < to_publish p"
    using prepare_frame_to_publish [OF assms(1)] p1 ready
    by (simp add: p' to_publish_def iq_publisher_disconnect_def map_pub_stats_def)
qed

text \<open>C20.
  The loop that serves the receive clients ends in every pass, whatever the sockets answer: a frame
  goes out of the ring each time round, so it stops when the ring is empty, a client blocks, or
  nobody is left.
\<close>

theorem publish_pass_ends:
  assumes "pub_wf p"
  shows "\<exists>c' p'. publish_pass m c p = Some (c', p')"
proof -
  have "\<exists>c' p'. publish_loop m c p = Some (c', p')" if "pub_wf p" for c p
    using that
  proof (induction "to_publish p" arbitrary: c p rule: less_induct)
    case less
    obtain result c1 p1 where pump: "iq_publisher_pump (write_iq_clients m) c p = (result, c1, p1)"
      by (metis prod_cases3)
    show ?case
    proof (cases "result = PublishOk")
      case True
      from pump_ok [OF less.prems] pump True
      have "pub_wf p1" "to_publish p1 < to_publish p" by blast+
      from less.hyps [OF this(2,1)] show ?thesis using True by (subst publish_loop.simps) (simp add: pump)
    next
      case False
      then show ?thesis by (cases result) (subst publish_loop.simps, simp add: pump)+
    qed
  qed
  with assms show ?thesis by (simp add: publish_pass_def)
qed

subsection \<open>The stream of an HTTP client\<close>

text \<open>The life of the clients between two pumps.\<close>

datatype fan_op = FanFeed "iq_sample list" | FanPump | FanJoin iq_socket | FanRtl iq_socket |
  FanRate u32 | FanRtlGone

fun fan_run ::
  "libm \<Rightarrow> fan_op list \<Rightarrow> iq_clients \<Rightarrow> iq_publisher \<Rightarrow> iq_sample list \<times> iq_clients \<times> iq_publisher" where
  "fan_run m [] c p = ([], c, p)"
| "fan_run m (FanFeed xs # ops) c p =
     (case iq_ring_push xs (pub_source p) of (n, ring) \<Rightarrow>
      case fan_run m ops c (p\<lparr>pub_source := ring\<rparr>) of (ins, c, p) \<Rightarrow> (take n xs @ ins, c, p))"
| "fan_run m (FanPump # ops) c p =
     (case iq_publisher_pump (write_iq_clients m) c p of (r, c, p) \<Rightarrow> fan_run m ops c p)"
| "fan_run m (FanJoin k # ops) c p =
     (case iq_open k c p of None \<Rightarrow> fan_run m ops c p | Some (slot, c, p) \<Rightarrow> fan_run m ops c p)"
| "fan_run m (FanRtl k # ops) c p =
     (if rtl_socket c = None then (case rtl_accept k c p of (c, p) \<Rightarrow> fan_run m ops c p)
      else fan_run m ops c p)"
| "fan_run m (FanRate rate # ops) c p = fan_run m ops (rtl_set_rate rate c) p"
| "fan_run m (FanRtlGone # ops) c p =
     fan_run m ops (c\<lparr>rtl_socket := None, rtl_pending := [], rtl_offset := 0\<rparr>) p"

text \<open>A connection that stays up: every send takes something or is told to wait.\<close>

definition stays_up :: "iq_socket \<Rightarrow> bool" where
  "stays_up k \<longleftrightarrow> SendFailed \<notin> set (socket_answers k) \<and> Sent 0 \<notin> set (socket_answers k)"

text \<open>Slot \<open>j\<close> is served: what it has taken and what of the pending frame is still to come.\<close>

definition served :: "nat \<Rightarrow> iq_clients \<Rightarrow> iq_publisher \<Rightarrow> u8 list \<Rightarrow> bool" where
  "served j c p bytes \<longleftrightarrow> j < length (iq_slots c) \<and> slot_offset (iq_slots c ! j) \<le> length (unsent p) \<and>
     (\<exists>k. slot_socket (iq_slots c ! j) = Some k \<and> stays_up k \<and>
        bytes = socket_taken k @ drop (slot_offset (iq_slots c ! j)) (unsent p))"

lemma served_connected: "served j c p bytes \<Longrightarrow> iq_clients_connected c"
  using nth_mem [of j "iq_slots c"]
  unfolding served_def iq_clients_connected_def list_ex_iff by (metis option.distinct(1))

lemma send_dontwait_up:
  assumes "stays_up k" and "bytes \<noteq> []" and "send_dontwait bytes k = (result, k')"
  shows "stays_up k'" and "result \<noteq> SendFailed" and "result \<noteq> Sent 0"
    and "result = SendAgain \<Longrightarrow> socket_taken k' = socket_taken k"
    and "result = Sent n \<Longrightarrow> n \<le> length bytes \<and> socket_taken k' = socket_taken k @ take n bytes"
  using assms
  by (auto simp: stays_up_def send_dontwait_def min_def split: list.splits send_result.splits if_splits)

lemma write_slot_up:
  assumes "slot_socket s = Some k" and "stays_up k" and "slot_offset s \<le> length bytes"
    and "write_slot bytes s = (any, incomplete, s')"
  shows "any \<and> slot_offset s' \<le> length bytes \<and> (\<not> incomplete \<longrightarrow> slot_offset s' = length bytes) \<and>
    (\<exists>k'. slot_socket s' = Some k' \<and> stays_up k' \<and>
       socket_taken k' @ drop (slot_offset s') bytes = socket_taken k @ drop (slot_offset s) bytes)"
proof (cases "slot_offset s = length bytes")
  case True
  then show ?thesis using assms by (simp add: write_slot_def)
next
  case False
  obtain result k' where send: "send_dontwait (drop (slot_offset s) bytes) k = (result, k')" by fastforce
  have "drop (slot_offset s) bytes \<noteq> []" using False assms(3) by simp
  note up = send_dontwait_up [OF assms(2) this send]
  show ?thesis
  proof (cases result)
    case (Sent n)
    with up(3) have "n \<noteq> 0" by auto
    moreover have "n \<le> length bytes - slot_offset s"
      "socket_taken k' = socket_taken k @ take n (drop (slot_offset s) bytes)" using up(5) [OF Sent] by auto
    moreover have "take n (drop (slot_offset s) bytes) @ drop (slot_offset s + n) bytes = drop (slot_offset s) bytes"
      by (metis add.commute append_take_drop_id drop_drop)
    ultimately show ?thesis
      using assms(1,3,4) False send up(1) Sent by (auto simp: write_slot_def Let_def)
  qed (use assms(1,3,4) False send up in \<open>auto simp: write_slot_def Let_def\<close>)
qed

text \<open>The writer serves an open slot, and reports success only when the frame is out.\<close>

lemma write_clients_up:
  assumes "j < length (iq_slots c)" and "slot_socket (iq_slots c ! j) = Some k" and "stays_up k"
    and "slot_offset (iq_slots c ! j) \<le> length bytes"
    and "write_iq_clients m c bytes = (result, written, c')"
  shows "j < length (iq_slots c') \<and> (result = PublishWouldBlock \<or> result = PublishOk) \<and>
    slot_offset (iq_slots c' ! j) \<le> length bytes \<and>
    (\<exists>k'. slot_socket (iq_slots c' ! j) = Some k' \<and> stays_up k' \<and>
       socket_taken k' @ (if result = PublishOk then [] else drop (slot_offset (iq_slots c' ! j)) bytes) =
         socket_taken k @ drop (slot_offset (iq_slots c ! j)) bytes) \<and>
    (result = PublishOk \<longrightarrow> slot_offset (iq_slots c' ! j) = 0)"
proof -
  obtain any inc s' where slot: "write_slot bytes (iq_slots c ! j) = (any, inc, s')" by (metis prod_cases3)
  note up = write_slot_up [OF assms(2,3,4) slot]
  obtain ra ri c1 where rtl: "write_rtl m bytes c = (ra, ri, c1)" by (metis prod_cases3)
  have slots: "iq_slots c1 = iq_slots c"
    using rtl by (auto simp: write_rtl_def rtl_close_def Let_def split: if_splits prod.splits option.splits send_result.splits)
  define results where "results = map (write_slot bytes) (iq_slots c)"
  have nth: "results ! j = (any, inc, s')" "length results = length (iq_slots c)"
    using assms(1) slot by (simp_all add: results_def)
  then have mem: "(any, inc, s') \<in> set results" using assms(1) by (metis nth_mem)
  have "list_ex (\<lambda>(any, incomplete, s). any) results" using mem up by (auto simp: list_ex_iff)
  moreover have "\<not> list_ex (\<lambda>(any, incomplete, s). incomplete) results \<Longrightarrow> \<not> inc"
    using mem by (auto simp: list_ex_iff)
  ultimately have "result = PublishWouldBlock \<and> iq_slots c' ! j = s' \<or>
      result = PublishOk \<and> iq_slots c' ! j = s'\<lparr>slot_offset := 0\<rparr> \<and> \<not> inc" "length (iq_slots c') = length (iq_slots c)"
    using assms(1,5) nth by (auto simp: write_iq_clients_def rtl slots results_def [symmetric] Let_def split: if_splits)
  with up assms(1) show ?thesis by auto
qed

text \<open>What a step or a run does for a served slot: frames are cut, and all of their bytes are for it.\<close>

definition serves ::
  "nat \<Rightarrow> u8 list \<Rightarrow> iq_publisher \<Rightarrow> iq_sample list list \<Rightarrow> iq_sample list \<Rightarrow> iq_clients \<Rightarrow> iq_publisher \<Rightarrow> bool" where
  "serves j bytes p frames ins c' p' \<longleftrightarrow> pub_wf p' \<and>
     served j c' p' (bytes @ frame_stream (next_sequence p) frames) \<and>
     next_sequence p' = next_sequence p + of_nat (length frames) \<and>
     concat frames @ ring_contents (pub_source p') = ring_contents (pub_source p) @ ins"

lemma serves_trans:
  assumes "serves j bytes p fs ins c1 p1"
    and "serves j (bytes @ frame_stream (next_sequence p) fs) p1 gs jns c2 p2"
  shows "serves j bytes p (fs @ gs) (ins @ jns) c2 p2"
proof -
  have "concat fs @ concat gs @ ring_contents (pub_source p2) = concat fs @ ring_contents (pub_source p1) @ jns"
    using assms(2) by (simp add: serves_def)
  also have "\<dots> = ring_contents (pub_source p) @ ins @ jns"
    using assms(1) by (simp add: serves_def flip: append_assoc)
  finally show ?thesis using assms by (simp add: serves_def frame_stream_append)
qed

lemma served_frame:
  assumes "served j c p bytes" and "iq_slots c' ! j = iq_slots c ! j" and "length (iq_slots c') = length (iq_slots c)"
    and "unsent p' = unsent p"
  shows "served j c' p' bytes"
  using assms by (simp add: served_def)

lemma pump_serves:
  assumes "pub_wf p" and "served j c p bytes"
    and "iq_publisher_pump (write_iq_clients m) c p = (r, c', p')"
  shows "\<exists>fs. serves j bytes p fs [] c' p'"
proof -
  obtain ready p1 where p1: "prepare_frame p = (ready, p1)" by fastforce
  obtain fs where fs: "pub_effect p fs [] [] p1" and rd: "ready \<longrightarrow> pending_offset p1 < pending_length p1"
    using prepare_frame_effect [OF assms(1) p1] by blast
  have wf: "pub_wf p1" and cut: "unsent p1 = unsent p @ frame_stream (next_sequence p) fs"
    using fs by (simp_all add: pub_effect_def)
  obtain k where k: "j < length (iq_slots c)" "slot_socket (iq_slots c ! j) = Some k" "stays_up k"
    "slot_offset (iq_slots c ! j) \<le> length (unsent p)"
    "bytes = socket_taken k @ drop (slot_offset (iq_slots c ! j)) (unsent p)"
    using assms(2) by (auto simp: served_def)
  define all where "all = bytes @ frame_stream (next_sequence p) fs"
  have all: "all = socket_taken k @ drop (slot_offset (iq_slots c ! j)) (unsent p1)"
    "slot_offset (iq_slots c ! j) \<le> length (unsent p1)"
    using k(4) by (simp_all add: all_def k(5) cut)
  have rest: "serves j bytes p fs [] c'' p''"
    if "pub_wf p''" "served j c'' p'' all" "next_sequence p'' = next_sequence p1" "pub_source p'' = pub_source p1"
    for c'' p'' using that fs by (simp add: serves_def all_def pub_effect_def)
  show ?thesis
  proof (cases ready)
    case False
    then have "c' = c" "p' = p1" using assms(3) p1 by (simp_all add: iq_publisher_pump_def)
    moreover have "served j c p1 all" using k all by (auto simp: served_def)
    ultimately show ?thesis using rest wf by blast
  next
    case True
    obtain result written c1 where w: "write_iq_clients m c (unsent p1) = (result, written, c1)"
      by (metis prod_cases3)
    note up = write_clients_up [OF k(1-3) all(2) w]
    have len: "length (unsent p1) = pending_length p1 - pending_offset p1"
      using wf by (auto simp: unsent_def pub_wf_def)
    consider "result = PublishWouldBlock" | "result = PublishOk" "written = length (unsent p1)"
      using up write_iq_clients_results [OF w] by auto
    then show ?thesis
    proof cases
      case 1
      then have "c' = c1" "p' = map_pub_stats
          (\<lambda>st. st\<lparr>ps_would_block_events := ps_would_block_events st + 1\<rparr>) p1"
        using assms(3) p1 True w by (simp_all add: iq_publisher_pump_def Let_def)
      moreover from this have "served j c' p' all"
        using up 1 all(1) by (auto simp: served_def unsent_def map_pub_stats_def)
      moreover have "pub_wf (map_pub_stats f p1)" "next_sequence (map_pub_stats f p1) = next_sequence p1"
        "pub_source (map_pub_stats f p1) = pub_source p1" for f
        using wf by (simp_all add: map_pub_stats_def pub_wf_def)
      ultimately have "serves j bytes p fs [] c' p'" by (intro rest) simp_all
      then show ?thesis by blast
    next
      case 2
      define p2 where "p2 = iq_publisher_disconnect (map_pub_stats
          (\<lambda>st. st\<lparr>ps_frames_sent := ps_frames_sent st + 1,
                  ps_samples_sent := ps_samples_sent st + of_nat (pending_samples p1)\<rparr>)
          (p1\<lparr>pending_offset := pending_length p1\<rparr>))"
      have "c' = c1" "p' = p2"
        using assms(3) p1 True w 2 rd len wf
        by (simp_all add: iq_publisher_pump_def Let_def p2_def pub_wf_def map_pub_stats_def)
      moreover have "unsent p2 = []" "pub_wf p2" "next_sequence p2 = next_sequence p1"
        "pub_source p2 = pub_source p1"
        using wf by (simp_all add: p2_def iq_publisher_disconnect_def map_pub_stats_def unsent_def pub_wf_def)
      moreover have "served j c1 p2 all"
        using up 2 all(1) \<open>unsent p2 = []\<close> by (auto simp: served_def)
      ultimately have "serves j bytes p fs [] c' p'" by (intro rest) simp_all
      then show ?thesis by blast
    qed
  qed
qed

lemma fan_run_serves:
  "pub_wf p \<Longrightarrow> served j c p bytes \<Longrightarrow> fan_run m ops c p = (ins, c', p') \<Longrightarrow>
     \<exists>fs. serves j bytes p fs ins c' p'"
proof (induction ops arbitrary: c p ins bytes)
  case Nil
  then show ?case by (intro exI [of _ "[]"]) (simp add: serves_def)
next
  case (Cons op ops)
  have pass: ?case if run: "fan_run m ops c1 p = (ins, c', p')" and "iq_slots c1 ! j = iq_slots c ! j"
    "length (iq_slots c1) = length (iq_slots c)" for c1
    using Cons.IH [OF Cons.prems(1) served_frame [OF Cons.prems(2) that(2,3) refl] run] .
  have conn: "iq_clients_connected c" using Cons.prems(2) by (rule served_connected)
  show ?case
  proof (cases op)
    case (FanFeed xs)
    obtain n ring where push: "iq_ring_push xs (pub_source p) = (n, ring)" by fastforce
    let ?p = "p\<lparr>pub_source := ring\<rparr>"
    define jns where "jns = fst (fan_run m ops c ?p)"
    have run: "fan_run m ops c ?p = (jns, c', p')" "ins = take n xs @ jns"
      using Cons.prems(3) FanFeed push by (cases "fan_run m ops c ?p", simp add: jns_def)+
    have "ring_wf ring" "ring_contents ring = ring_contents (pub_source p) @ take n xs"
      using ring.push_wf [of "pub_source p" xs] ring.push_accepted [of "pub_source p" xs] push
        Cons.prems(1) by (auto simp: pub_wf_def)
    moreover have "unsent ?p = unsent p" by (simp add: unsent_def)
    ultimately have 1: "serves j bytes p [] (take n xs) c ?p"
      using Cons.prems(1,2) by (simp add: serves_def pub_wf_def served_def)
    then have "pub_wf ?p" "served j c ?p bytes" by (simp_all add: serves_def)
    from Cons.IH [OF this run(1)] obtain fs where "serves j bytes ?p fs jns c' p'" by blast
    with serves_trans [OF 1, of fs jns c' p'] run(2) show ?thesis by auto
  next
    case FanPump
    obtain r c1 p1 where pump: "iq_publisher_pump (write_iq_clients m) c p = (r, c1, p1)"
      by (metis prod_cases3)
    from pump_serves [OF Cons.prems(1,2) pump] obtain fs where 1: "serves j bytes p fs [] c1 p1" by blast
    have "fan_run m ops c1 p1 = (ins, c', p')" using Cons.prems(3) FanPump pump by simp
    with Cons.IH [of p1 c1 "bytes @ frame_stream (next_sequence p) fs"] 1
    obtain gs where "serves j (bytes @ frame_stream (next_sequence p) fs) p1 gs ins c' p'"
      by (auto simp: serves_def)
    from serves_trans [OF 1 this] show ?thesis by auto
  next
    case (FanJoin k)
    show ?thesis
    proof (cases "find (\<lambda>i. slot_socket (iq_slots c ! i) = None) [0..<MAX_IQ_CLIENTS]")
      case None
      then show ?thesis using pass [of c] Cons.prems(3) FanJoin by (simp add: iq_open_def)
    next
      case (Some slot)
      then have "slot_socket (iq_slots c ! slot) = None" by (auto simp: find_Some_iff)
      then have "slot \<noteq> j" using Cons.prems(2) by (auto simp: served_def)
      then show ?thesis
        using pass [of "c\<lparr>iq_slots := (iq_slots c)[slot := \<lparr>slot_socket = Some k, slot_offset = 0\<rparr>]\<rparr>"]
          Cons.prems(3) FanJoin Some conn by (simp add: iq_open_def)
    qed
  next
    case (FanRtl k)
    then show ?thesis
      using pass [of c] pass [of "fst (rtl_accept k c p)"] Cons.prems(3) conn
      by (simp add: rtl_accept_def split: if_splits)
  next
    case (FanRate rate)
    then show ?thesis using pass [of "rtl_set_rate rate c"] Cons.prems(3) by (simp add: rtl_set_rate_def)
  next
    case FanRtlGone
    then show ?thesis
      using pass [of "c\<lparr>rtl_socket := None, rtl_pending := [], rtl_offset := 0\<rparr>"] Cons.prems(3) by simp
  qed
qed

text \<open>C5.
  A client that joins the stream and whose connection stays up gets exactly the stream, whatever
  the other clients do meanwhile - join, block, vanish, change the rtl_tcp rate: the bytes it has
  taken, with the rest of the pending frame, are the frame pending when it joined and the
  encodings of the frames cut since, consecutively numbered, and these hold every sample the ring
  had or accepted, in order.
\<close>

theorem iq_client_stream:
  assumes "length (iq_slots c0) = MAX_IQ_CLIENTS" and "pub_wf p0"
    and "iq_open k c0 p0 = Some (j, c, p)" and "stays_up k"
    and "fan_run m ops c p = (ins, c', p')"
  shows "\<exists>frames k'. slot_socket (iq_slots c' ! j) = Some k' \<and>
    socket_taken k' @ drop (slot_offset (iq_slots c' ! j)) (unsent p') =
      socket_taken k @ unsent p @ frame_stream (next_sequence p) frames \<and>
    concat frames @ ring_contents (pub_source p') = ring_contents (pub_source p) @ ins"
proof -
  have j: "j < MAX_IQ_CLIENTS"
    and c: "c = c0\<lparr>iq_slots := (iq_slots c0)[j := \<lparr>slot_socket = Some k, slot_offset = 0\<rparr>]\<rparr>"
    and p: "p = (if iq_clients_connected c0 then p0 else begin_fresh_receive_stream p0)"
    using assms(3) by (auto simp: iq_open_def find_Some_iff split: option.splits)
  have "pub_wf p"
    using assms(2) by (auto simp: p begin_fresh_receive_stream_def iq_publisher_disconnect_def
      iq_ring_clear_def pub_wf_def ring_wf_def)
  moreover have "served j c p (socket_taken k @ unsent p)"
    using assms(1,4) j by (simp add: c served_def)
  ultimately obtain fs where fs: "serves j (socket_taken k @ unsent p) p fs ins c' p'"
    using fan_run_serves [OF _ _ assms(5)] by blast
  then obtain k' where "slot_socket (iq_slots c' ! j) = Some k'"
    "(socket_taken k @ unsent p) @ frame_stream (next_sequence p) fs =
       socket_taken k' @ drop (slot_offset (iq_slots c' ! j)) (unsent p')"
    unfolding serves_def served_def by blast
  with fs show ?thesis by (intro exI [of _ fs] exI [of _ k']) (simp add: serves_def)
qed

text \<open>A client that takes five bytes and then waits, while an rtl_tcp client joins and a sample arrives.\<close>

theorem iq_client_stream_witness:
  "\<forall>m. let r = snd (iq_ring_init True \<lparr>i_part = 0, q_part = 0\<rparr> 8);
       p = the (iq_publisher_init (Some r) 4);
       k = \<lparr>socket_answers = [Sent 5, SendAgain], socket_taken = []\<rparr>;
       (j, c, p) = the (iq_open k iq_clients_none p);
       (ins, c', p') = fan_run m [FanFeed [\<lparr>i_part = 1, q_part = 0\<rparr>], FanPump, FanRtl k, FanPump] c p
     in \<exists>frames. concat frames @ ring_contents (pub_source p') = ring_contents (pub_source p) @ ins"
proof
  fix m
  define r where "r = snd (iq_ring_init True \<lparr>i_part = 0, q_part = 0 :: rat\<rparr> 8)"
  define p0 where "p0 = the (iq_publisher_init (Some r) 4)"
  define k where "k = \<lparr>socket_answers = [Sent 5, SendAgain], socket_taken = []\<rparr>"
  have r: "ring_wf r" "samples r \<noteq> []" by (simp_all add: r_def iq_ring_init_def ring_wf_def)
  then have i: "iq_publisher_init (Some r) 4 = Some p0"
    by (simp add: p0_def iq_publisher_init_def PUBLISHER_MAX_SAMPLES_def)
  have k: "stays_up k" by (simp add: k_def stays_up_def)
  obtain j c p where open_: "iq_open k iq_clients_none p0 = Some (j, c, p)"
    by (simp add: iq_open_def iq_clients_none_def MAX_IQ_CLIENTS_def numeral_eq_Suc upt_rec)
  obtain ins c' p' where run: "fan_run m [FanFeed [\<lparr>i_part = 1, q_part = 0\<rparr>], FanPump, FanRtl k, FanPump] c p =
      (ins, c', p')"
    by (metis prod_cases3)
  have "length (iq_slots iq_clients_none) = MAX_IQ_CLIENTS" by (simp add: iq_clients_none_def)
  from iq_client_stream [OF this _ open_ k run] iq_publisher_init_wf [OF i r(1)]
  have "\<exists>frames. concat frames @ ring_contents (pub_source p') = ring_contents (pub_source p) @ ins" by blast
  then show "let r = snd (iq_ring_init True \<lparr>i_part = 0, q_part = 0\<rparr> 8);
       p = the (iq_publisher_init (Some r) 4);
       k = \<lparr>socket_answers = [Sent 5, SendAgain], socket_taken = []\<rparr>;
       (j, c, p) = the (iq_open k iq_clients_none p);
       (ins, c', p') = fan_run m [FanFeed [\<lparr>i_part = 1, q_part = 0\<rparr>], FanPump, FanRtl k, FanPump] c p
     in \<exists>frames. concat frames @ ring_contents (pub_source p') = ring_contents (pub_source p) @ ins"
    unfolding Let_def r_def [symmetric] p0_def [symmetric] k_def [symmetric] by (simp add: open_ run del: fan_run.simps)
qed

text \<open>The loop over a small ring.\<close>

theorem publish_pass_ends_witness:
  "\<forall>m c. \<exists>res. publish_pass m c
     (the (iq_publisher_init (Some (snd (iq_ring_init True \<lparr>i_part = 0, q_part = 0\<rparr> 8))) 4)) = Some res"
proof (intro allI)
  fix m c
  define r where "r = snd (iq_ring_init True \<lparr>i_part = 0, q_part = 0 :: rat\<rparr> 8)"
  have r: "ring_wf r" "samples r \<noteq> []" by (simp_all add: r_def iq_ring_init_def ring_wf_def)
  then obtain p where p: "iq_publisher_init (Some r) 4 = Some p"
    by (simp add: iq_publisher_init_def PUBLISHER_MAX_SAMPLES_def)
  then have "pub_wf p" using iq_publisher_init_wf r(1) by blast
  from publish_pass_ends [OF this, of m c]
  show "\<exists>res. publish_pass m c
     (the (iq_publisher_init (Some (snd (iq_ring_init True \<lparr>i_part = 0, q_part = 0\<rparr> 8))) 4)) = Some res"
    unfolding r_def [symmetric] p by auto
qed

text \<open>A slow HTTP client: the rtl_tcp client that has taken the whole frame is dropped at the next attempt.\<close>

lemma rtl_dropped_behind_slow_client:
  assumes "rtl_source_complete c" and "rtl_pending c = []" and "rtl_socket c = Some k"
    and "socket_answers k = Sent n # rest"
  shows "rtl_socket (snd (snd (write_iq_clients m c bytes))) = None"
  using assms
  by (simp add: write_iq_clients_def write_rtl_def send_dontwait_def rtl_close_def Let_def case_prod_beta)

end
