(* ===== verification/Live_Streams.thy ===== *)
theory Live_Streams
  imports Daemon_Safety Iq_Clients
begin

text \<open>
  The receive side of the server loop of \<open>src/flex1500d.c\<close>: the rtl_tcp client and its commands, the
  HTTP receive streams and the publishing of a pass, joined to the daemon of \<open>Daemon_Loop\<close>; and the
  status and radio documents of a live radio (\<open>live_service_status\<close>, \<open>live_radio_info\<close>). The
  publisher's source and the receiver's destination are one ring: \<open>with_ring\<close> hands it over.
\<close>

subsection \<open>State\<close>

record live_sys =
  daemon :: daemon_sys
  clients :: iq_clients
  publisher :: iq_publisher
  rtl_parser :: rtl_tcp_parser

definition with_ring ::
  "(iq_clients \<Rightarrow> iq_publisher \<Rightarrow> iq_clients \<times> iq_publisher) \<Rightarrow> live_sys \<Rightarrow> live_sys" where
  "with_ring f s =
     (case f (clients s) ((publisher s)\<lparr>pub_source := destination (rx (daemon s))\<rparr>) of (c, p) \<Rightarrow>
        s\<lparr>clients := c, publisher := p,
          daemon := (daemon s)\<lparr>rx := (rx (daemon s))\<lparr>destination := pub_source p\<rparr>\<rparr>\<rparr>)"

subsection \<open>The rtl_tcp client\<close>

text \<open>A new client is taken when there is none and its greeting went out.\<close>

definition rtl_accept_pass :: "iq_socket option \<Rightarrow> live_sys \<Rightarrow> live_sys" where
  "rtl_accept_pass arrival s =
     (case arrival of None \<Rightarrow> s
      | Some k \<Rightarrow>
          if rtl_socket (clients s) \<noteq> None then s
          else (with_ring (rtl_accept k) s)\<lparr>rtl_parser := rtl_tcp_parser_zero\<rparr>)"

definition rtl_command :: "usb_lib \<Rightarrow> bool \<Rightarrow> live_sys \<Rightarrow> rtl_tcp_command \<Rightarrow> live_sys" where
  "rtl_command L tuning s command =
     (if command_id command = RTL_TCP_SET_FREQUENCY
      then
        if \<not> tuning then s
        else if tx_owner_of (tx (daemon s)) \<noteq> OwnerNone then s
        else if held (station (daemon s)) then s
        else s\<lparr>daemon := snd (snd (api_tune_rx L (command_parameter command) (daemon s)))\<rparr>
      else if command_id command = RTL_TCP_SET_SAMPLE_RATE
      then s\<lparr>clients := rtl_set_rate (command_parameter command) (clients s)\<rparr>
      else s)"

fun rtl_bytes :: "usb_lib \<Rightarrow> bool \<Rightarrow> u8 list \<Rightarrow> live_sys \<Rightarrow> live_sys" where
  "rtl_bytes L tuning [] s = s"
| "rtl_bytes L tuning (byte # bytes) s =
     (case rtl_tcp_parse_byte (rtl_parser s) byte of (command, p) \<Rightarrow>
        let s = s\<lparr>rtl_parser := p\<rparr>
        in rtl_bytes L tuning bytes (case command of None \<Rightarrow> s | Some c \<Rightarrow> rtl_command L tuning s c))"

definition rtl_gone :: "iq_clients \<Rightarrow> iq_clients" where
  "rtl_gone c = c\<lparr>rtl_socket := None, rtl_pending := [], rtl_offset := 0\<rparr>"

definition rtl_receive_pass :: "usb_lib \<Rightarrow> bool \<Rightarrow> u8 recv_result \<Rightarrow> live_sys \<Rightarrow> live_sys" where
  "rtl_receive_pass L tuning arrival s =
     (if rtl_socket (clients s) = None then s
      else case recv 256 arrival of
        Received bytes \<Rightarrow> rtl_bytes L tuning bytes s
      | Again \<Rightarrow> s
      | _ \<Rightarrow> s\<lparr>clients := rtl_gone (clients s)\<rparr>)"

subsection \<open>The HTTP receive streams\<close>

text \<open>The action \<open>ApiOpenIqStream\<close>: full, the header did not go out, or the slot the client got.\<close>

definition iq_open_pass :: "bool \<Rightarrow> iq_socket \<Rightarrow> live_sys \<Rightarrow> nat option \<times> live_sys" where
  "iq_open_pass sent k s =
     (case iq_open k (clients s) ((publisher s)\<lparr>pub_source := destination (rx (daemon s))\<rparr>) of
        None \<Rightarrow> (None, s)
      | Some (slot, c, p) \<Rightarrow>
          if \<not> sent then (None, s)
          else (Some slot, with_ring (\<lambda>_ _. (c, p)) s))"

text \<open>What a pass publishes; \<open>None\<close> would be a pass that never ends.\<close>

definition live_publish_pass :: "libm \<Rightarrow> live_sys \<Rightarrow> live_sys option" where
  "live_publish_pass m s =
     map_option (\<lambda>(c, p). with_ring (\<lambda>_ _. (c, p)) s)
       (publish_pass m (clients s) ((publisher s)\<lparr>pub_source := destination (rx (daemon s))\<rparr>))"

text \<open>What the receive clients lose when the USB stream stops; an rtl_tcp client is kept.\<close>

definition streams_lost :: "live_sys \<Rightarrow> live_sys" where
  "streams_lost s =
     s\<lparr>clients := (clients s)\<lparr>iq_slots := map (\<lambda>slot. slot\<lparr>slot_socket := None\<rparr>) (iq_slots (clients s))\<rparr>,
       publisher := iq_publisher_disconnect (publisher s)\<rparr>"

subsection \<open>The documents of a live radio\<close>

definition meter_dbfs :: "(rat \<Rightarrow> rat) \<Rightarrow> rat \<Rightarrow> rat" where
  "meter_dbfs log10f level = (if level > f32 (1 / 10 ^ 6) then f32 (20 * log10f level) else - 120)"

text \<open>\<open>version\<close> and \<open>revision\<close> are the build's \<open>FLEX1500_SOFTWARE_VERSION\<close> and \<open>FLEX1500_GIT_REVISION\<close>.\<close>

definition live_service_status ::
  "(rat \<Rightarrow> rat) \<Rightarrow> string \<Rightarrow> string \<Rightarrow> live_sys \<Rightarrow> service_status" where
  "live_service_status log10f version revision s =
     (let r = rx (daemon s);
          usb = usb_rx_get_counters r;
          iq = usb_rx_get_iq_stats r;
          d = diagnostics (tune (daemon s));
          audio = usb_rx_microphone_tx_stats r;
          audio_tx_active = (tune_bound (tune (daemon s)) \<and>
            (tx_owner_of (tx (daemon s)) = OwnerHttp \<or> tx_owner_of (tx (daemon s)) = OwnerPhysicalMic));
          meter_valid = (microphone_frames audio \<noteq> 0);
          queued = (of_nat (usb_rx_tx_pending_frames r) :: u64);
          peak_queued = d_peak_queued_frames d;
          peak_queued = (if peak_queued_frames audio > peak_queued then peak_queued_frames audio else peak_queued);
          peak_queued = (if queued > peak_queued then queued else peak_queued);
          meter = (\<lambda>x. if meter_valid then meter_dbfs log10f x else - 120);
          pub = pub_stats (publisher s)
      in \<lparr>sv_software_version = Some version, sv_git_revision = Some revision,
          sv_state = ''receiving'', sv_radio_open = True, sv_network_listening = True,
          sv_sample_rate = 48000, sv_frames = st_frames iq, sv_sentinel_frames = st_sentinel_frames iq,
          sv_usb_packets = c_usb_packets usb, sv_usb_packet_errors = c_usb_packet_errors usb,
          sv_ring_dropped_frames = dropped (destination r),
          sv_network_frames_sent = ps_frames_sent pub, sv_network_samples_sent = ps_samples_sent pub,
          sv_network_would_block_events = ps_would_block_events pub,
          sv_network_disconnects = ps_disconnects pub, sv_network_write_errors = ps_write_errors pub,
          sv_rx_tune_operations = c_rx_tune_operations usb, sv_radio_command_errors = c_command_errors usb,
          sv_usb_transfer_status_errors = c_transfer_status_errors usb,
          sv_usb_transfer_timeouts = c_transfer_timeouts usb, sv_usb_transfer_stalls = c_transfer_stalls usb,
          sv_usb_transfer_no_device = c_transfer_no_device usb,
          sv_usb_transfer_overflows = c_transfer_overflows usb,
          sv_usb_transfer_other_errors = c_transfer_other_errors usb,
          sv_usb_packet_status_errors = c_packet_status_errors usb,
          sv_usb_packet_timeouts = c_packet_timeouts usb, sv_usb_packet_stalls = c_packet_stalls usb,
          sv_usb_packet_no_device = c_packet_no_device usb, sv_usb_packet_overflows = c_packet_overflows usb,
          sv_usb_packet_other_errors = c_packet_other_errors usb, sv_usb_short_packets = c_short_packets usb,
          sv_usb_zero_length_packets = c_zero_length_packets usb,
          sv_usb_oversized_packets = c_oversized_packets usb, sv_usb_missing_bytes = c_missing_bytes usb,
          sv_usb_trailing_bytes = c_trailing_bytes usb, sv_usb_error_events = c_error_events usb,
          sv_physical_status_packets = c_status_packets usb, sv_physical_status_changes = c_status_changes usb,
          sv_physical_status_errors = c_status_errors usb, sv_usb_first_error_ms = c_first_error_ms usb,
          sv_usb_last_error_ms = c_last_error_ms usb, sv_first_sentinel_frame = c_first_sentinel_frame usb,
          sv_last_sentinel_frame = c_last_sentinel_frame usb, sv_first_sentinel_ms = c_first_sentinel_ms usb,
          sv_last_sentinel_ms = c_last_sentinel_ms usb,
          sv_rx_recovery_attempts = recovery_attempts (daemon s),
          sv_rx_recovery_successes = recovery_successes (daemon s),
          sv_tx_starts = d_starts d, sv_tx_stops = d_stops d, sv_tx_underruns = d_underruns d,
          sv_tx_clipped_frames = d_clipped_frames d,
          sv_tx_limited_frames = d_limited_frames d + (if audio_tx_active then limited_frames audio else 0),
          sv_tx_dropped_microphone_frames = d_dropped_microphone_frames d,
          sv_tx_queued_frames = queued, sv_tx_queued_ms = (queued + 47) div 48,
          sv_tx_peak_queued_frames = peak_queued, sv_tx_stop_requested_frames = d_stop_requested_frames d,
          sv_tx_graceful_drained_frames = d_graceful_drained_frames d,
          sv_tx_graceful_discarded_frames = d_graceful_discarded_frames d,
          sv_tx_graceful_drain_ms = d_graceful_drain_ms d, sv_tx_audio_meter_valid = meter_valid,
          sv_tx_input_peak_dbfs = meter (input_peak audio), sv_tx_input_rms_dbfs = meter (input_rms audio),
          sv_tx_post_gain_peak_dbfs = meter (post_gain_peak audio),
          sv_tx_post_gain_rms_dbfs = meter (post_gain_rms audio),
          sv_tx_output_peak_dbfs = meter (output_peak audio), sv_tx_output_rms_dbfs = meter (output_rms audio),
          sv_tx_rejected_ownership_requests = d_rejected_ownership_requests d,
          sv_tx_watchdog_stops = d_watchdog_stops d, sv_tx_cleanup_failures = d_cleanup_failures d\<rparr>)"

definition RADIO_INFO :: radio_info where
  "RADIO_INFO =
     \<lparr>ri_model = ''FLEX-1500'', ri_firmware = ''0.5.3.24'', ri_usb_vendor_id = 0x2192,
      ri_usb_product_id = 0x1502, ri_receive_only = True, ri_transmit_enabled = False,
      ri_transmit_prepared = False, ri_tune_enabled = False, ri_tune_active = False,
      ri_tx_timeout_seconds = 0, ri_tx_drive_percent = 0, ri_tx_microphone_gain_db = 0,
      ri_tx_compressor_enabled = False, ri_tx_owner = None, ri_tx_state = None,
      ri_network_tx_reserved = False, ri_network_tx_stream_connected = False, ri_pa_filter_known = False,
      ri_pa_filter = 0, ri_rx_tuning_enabled = False, ri_frequency_known = False, ri_frequency_hz = 0,
      ri_rx_filter_known = False, ri_rx_filter = 0, ri_rx_gain_known = False, ri_rx_gain_db = 0,
      ri_rx_mode = Some ''am'', ri_rx_bandwidth_hz = 6000, ri_rx_squelch_db = 0,
      ri_physical_inputs_known = False, ri_mic_ptt = False, ri_flexwire_ptt = False, ri_dash = False,
      ri_dot = False\<rparr>"

definition live_radio_info :: "bool \<Rightarrow> usb_rx \<Rightarrow> radio_info" where
  "live_radio_info transmit_enabled r =
     (let known = (\<lambda>(x :: u32 option). case x of None \<Rightarrow> 0 | Some w \<Rightarrow> w);
          radio = RADIO_INFO\<lparr>ri_receive_only := \<not> transmit_enabled, ri_transmit_enabled := transmit_enabled,
            ri_transmit_prepared := usb_rx_transmit_prepared r, ri_tune_enabled := transmit_enabled,
            ri_tune_active := usb_rx_tune_carrier_active r,
            ri_pa_filter_known := (usb_rx_pa_filter r \<noteq> None), ri_pa_filter := known (usb_rx_pa_filter r),
            ri_frequency_known := (usb_rx_frequency r \<noteq> None), ri_frequency_hz := known (usb_rx_frequency r),
            ri_rx_filter_known := (usb_rx_filter r \<noteq> None), ri_rx_filter := known (usb_rx_filter r),
            ri_rx_gain_known := (usb_rx_gain r \<noteq> None),
            ri_rx_gain_db := (case usb_rx_gain r of None \<Rightarrow> 0 | Some g \<Rightarrow> g),
            ri_physical_inputs_known := (usb_rx_physical_inputs r \<noteq> None)\<rparr>
      in case usb_rx_physical_inputs r of None \<Rightarrow> radio
         | Some inputs \<Rightarrow> radio\<lparr>ri_mic_ptt := mic_ptt inputs, ri_flexwire_ptt := flexwire_ptt inputs,
             ri_dash := dash inputs, ri_dot := dot inputs\<rparr>)"

subsection \<open>What the receive side can do to the transmitter\<close>

inductive live_step :: "usb_lib \<Rightarrow> libm \<Rightarrow> bool \<Rightarrow> live_sys \<Rightarrow> live_sys \<Rightarrow> bool" for L m tuning where
  Accept: "live_step L m tuning s (rtl_accept_pass arrival s)"
| Receive: "live_step L m tuning s (rtl_receive_pass L tuning bytes s)"
| Open: "live_step L m tuning s (snd (iq_open_pass sent k s))"
| Pump: "live_publish_pass m s = Some s' \<Longrightarrow> live_step L m tuning s s'"
| Lost: "live_step L m tuning s (streams_lost s)"

lemma run_one: "daemon_step L te s s' \<Longrightarrow> daemon_run L te s s'"
  by (rule daemon_run.Pass [OF daemon_run.Start])

lemma run_trans: "daemon_run L te s1 s2 \<Longrightarrow> daemon_run L te s0 s1 \<Longrightarrow> daemon_run L te s0 s2"
  by (induction rule: daemon_run.induct) (auto intro: daemon_run.Pass)

lemma with_ring_run: "daemon_run L te (daemon s) (daemon (with_ring f s))"
  by (simp add: with_ring_def case_prod_beta run_one daemon_step.Publish)

lemma rtl_command_run: "daemon_run L te (daemon s) (daemon (rtl_command L tuning s command))"
  by (auto simp: rtl_command_def intro: daemon_run.Start run_one daemon_step.Retune)

lemma rtl_bytes_run: "daemon_run L te (daemon s) (daemon (rtl_bytes L tuning bytes s))"
proof (induction bytes arbitrary: s)
  case Nil
  then show ?case by (simp add: daemon_run.Start)
next
  case (Cons byte bytes)
  obtain c p where parse: "rtl_tcp_parse_byte (rtl_parser s) byte = (c, p)" by fastforce
  define t where "t = (case c of None \<Rightarrow> s\<lparr>rtl_parser := p\<rparr> | Some c \<Rightarrow> rtl_command L tuning (s\<lparr>rtl_parser := p\<rparr>) c)"
  have "daemon_run L te (daemon s) (daemon t)"
    using rtl_command_run [of L te "s\<lparr>rtl_parser := p\<rparr>" tuning]
    by (auto simp: t_def daemon_run.Start split: option.split)
  from run_trans [OF Cons this] show ?case by (simp add: parse t_def Let_def)
qed

text \<open>Every pass of the receive side is a run of the daemon's own steps.\<close>

lemma live_step_run: "live_step L m tuning s s' \<Longrightarrow> daemon_run L te (daemon s) (daemon s')"
proof (induction rule: live_step.induct)
  case (Accept s arrival)
  then show ?case
    using with_ring_run [of L te s] by (auto simp: rtl_accept_pass_def daemon_run.Start split: option.split)
next
  case (Receive s bytes)
  then show ?case
    by (auto simp: rtl_receive_pass_def rtl_bytes_run daemon_run.Start split: recv_result.split)
next
  case (Open s sent k)
  then show ?case
    using with_ring_run [of L te s] by (auto simp: iq_open_pass_def daemon_run.Start split: option.split)
next
  case (Pump s s')
  then show ?case
    using with_ring_run [of L te s] by (auto simp: live_publish_pass_def)
next
  case (Lost s)
  then show ?case by (simp add: streams_lost_def daemon_run.Start)
qed

subsection \<open>The rtl_tcp commands\<close>

lemma fold_step: "fold f xs (f x s) = fold f (x # xs) s" by simp

text \<open>The parser is the only part of the state the bytes of an incomplete command touch.\<close>

lemma rtl_command_parser: "rtl_command L tuning (s\<lparr>rtl_parser := p\<rparr>) c = (rtl_command L tuning s c)\<lparr>rtl_parser := p\<rparr>"
  by (simp add: rtl_command_def)

lemma rtl_commands_parser:
  "foldl (rtl_command L tuning) (s\<lparr>rtl_parser := p\<rparr>) cs = (foldl (rtl_command L tuning) s cs)\<lparr>rtl_parser := p\<rparr>"
  by (induction cs arbitrary: s) (simp_all add: rtl_command_parser)

lemma rtl_bytes_commands:
  assumes "rtl_tcp_parse (rtl_parser s) bytes = (commands, p)"
  shows "rtl_bytes L tuning bytes s = (foldl (rtl_command L tuning) s commands)\<lparr>rtl_parser := p\<rparr>"
  using assms
proof (induction bytes arbitrary: s commands)
  case Nil
  then show ?case by simp
next
  case (Cons byte bytes)
  obtain c q where parse: "rtl_tcp_parse_byte (rtl_parser s) byte = (c, q)" by fastforce
  obtain cs where cs: "rtl_tcp_parse q bytes = (cs, p)" "commands = (case c of None \<Rightarrow> cs | Some c \<Rightarrow> c # cs)"
    using Cons.prems parse by (auto split: prod.splits)
  show ?case
  proof (cases c)
    case None
    with Cons.IH [of "s\<lparr>rtl_parser := q\<rparr>" cs] cs show ?thesis
      by (simp add: parse rtl_commands_parser)
  next
    case (Some cmd)
    have "rtl_parser (rtl_command L tuning (s\<lparr>rtl_parser := q\<rparr>) cmd) = q"
      by (simp add: rtl_command_parser)
    with Cons.IH [of "rtl_command L tuning (s\<lparr>rtl_parser := q\<rparr>) cmd" cs] cs Some show ?thesis
      by (simp add: parse rtl_commands_parser rtl_command_parser)
  qed
qed

text \<open>A daemon that is transmitting, or whose station is taken, does not listen to frequencies.\<close>

definition listens :: "bool \<Rightarrow> daemon_sys \<Rightarrow> bool" where
  "listens tuning s \<longleftrightarrow> tuning \<and> tx_owner_of (tx s) = OwnerNone \<and> \<not> held (station s)"

lemma rtl_command_daemon: "\<not> listens tuning (daemon s) \<Longrightarrow> daemon (rtl_command L tuning s c) = daemon s"
  by (auto simp: rtl_command_def listens_def)

lemma rtl_commands_daemon:
  "\<not> listens tuning (daemon s) \<Longrightarrow> daemon (foldl (rtl_command L tuning) s cs) = daemon s"
  by (induction cs arbitrary: s) (simp_all add: rtl_command_daemon)

text \<open>The daemon after a pass that leaves everything but the receiver, and in it the key, alone.\<close>

definition same_controls :: "daemon_sys \<Rightarrow> daemon_sys \<Rightarrow> bool" where
  "same_controls s s' \<longleftrightarrow> s' = s\<lparr>rx := rx s'\<rparr> \<and> (keyed s' \<longleftrightarrow> keyed s)"

lemma same_controls_refl: "same_controls s s"
  by (simp add: same_controls_def)

lemma same_controls_trans: "same_controls s1 s2 \<Longrightarrow> same_controls s2 s3 \<Longrightarrow> same_controls s1 s3"
proof -
  assume a: "same_controls s1 s2" "same_controls s2 s3"
  then have "s3 = s2\<lparr>rx := rx s3\<rparr>" "s2 = s1\<lparr>rx := rx s2\<rparr>" by (simp_all add: same_controls_def)
  then have "s3 = s1\<lparr>rx := rx s3\<rparr>" by (metis (no_types, lifting) daemon_sys.surjective daemon_sys.update_convs(1))
  with a show ?thesis by (simp add: same_controls_def)
qed

lemma with_ring_controls: "same_controls (daemon s) (daemon (with_ring f s))"
  by (simp add: with_ring_def same_controls_def keyed_def rx_keyed_def case_prod_beta)

lemma with_ring_frequency:
  "usb_rx_frequency (rx (daemon (with_ring f s))) = usb_rx_frequency (rx (daemon s))"
  by (simp add: with_ring_def usb_rx_frequency_def case_prod_beta)

lemma tune_controls: "same_controls s (snd (snd (api_tune_rx L f s)))"
  by (simp add: api_tune_rx_def same_controls_def keyed_def on_rx_def settings_key case_prod_beta
    split: option.split)

lemma rtl_command_controls: "same_controls (daemon s) (daemon (rtl_command L tuning s c))"
  by (simp add: rtl_command_def same_controls_refl tune_controls)

lemma rtl_commands_controls: "same_controls (daemon s) (daemon (foldl (rtl_command L tuning) s cs))"
  by (induction cs rule: rev_induct)
    (auto simp: same_controls_refl intro: same_controls_trans rtl_command_controls)

lemma rtl_bytes_controls:
  "same_controls (daemon s) (daemon (rtl_bytes L tuning bytes s))"
  "\<not> listens tuning (daemon s) \<Longrightarrow> daemon (rtl_bytes L tuning bytes s) = daemon s"
  using rtl_bytes_commands [of s bytes "fst (rtl_tcp_parse (rtl_parser s) bytes)"
      "snd (rtl_tcp_parse (rtl_parser s) bytes)" L tuning]
  by (simp_all add: rtl_commands_controls rtl_commands_daemon)

text \<open>C4.
  The receive side - rtl_tcp and HTTP receive clients, whatever they connect to, send or fail to read
  - neither keys nor unkeys the radio and leaves the arbiter, the sessions, the leases and the
  settings alone; and while somebody transmits, the station is held or tuning is off, it does not
  move the receiver either.
\<close>

theorem receive_side_harmless:
  assumes "live_step L m tuning s s'"
  shows "daemon s' = (daemon s)\<lparr>rx := rx (daemon s')\<rparr> \<and> (keyed (daemon s') \<longleftrightarrow> keyed (daemon s)) \<and>
    (\<not> listens tuning (daemon s) \<longrightarrow>
       usb_rx_frequency (rx (daemon s')) = usb_rx_frequency (rx (daemon s)))"
proof -
  have "same_controls (daemon s) (daemon s') \<and> (\<not> listens tuning (daemon s) \<longrightarrow>
      usb_rx_frequency (rx (daemon s')) = usb_rx_frequency (rx (daemon s)))"
    using assms
  proof (induction rule: live_step.induct)
    case (Accept s arrival)
    then show ?case
      by (simp add: rtl_accept_pass_def with_ring_controls with_ring_frequency same_controls_refl split: option.split)
  next
    case (Receive s bytes)
    then show ?case
      by (simp add: rtl_receive_pass_def rtl_bytes_controls same_controls_refl split: recv_result.split)
  next
    case (Open s sent k)
    then show ?case
      by (simp add: iq_open_pass_def with_ring_controls with_ring_frequency same_controls_refl
        split: option.split prod.split)
  next
    case (Pump s s')
    then show ?case
      by (auto simp: live_publish_pass_def with_ring_controls with_ring_frequency)
  next
    case (Lost s)
    then show ?case by (simp add: streams_lost_def same_controls_refl)
  qed
  then show ?thesis by (simp add: same_controls_def)
qed

text \<open>A frequency command while somebody holds the station.\<close>

theorem receive_side_harmless_witness:
  "\<forall>L m r. let d = live_start True True False (\<lambda>_. 5) r;
       d = d\<lparr>station := (station d)\<lparr>held := True\<rparr>\<rparr>;
       s = \<lparr>daemon = d, clients = iq_clients_none\<lparr>rtl_socket := Some \<lparr>socket_answers = [], socket_taken = []\<rparr>\<rparr>,
            publisher = the (iq_publisher_init (Some (destination r)) 256), rtl_parser = rtl_tcp_parser_zero\<rparr>
     in usb_rx_frequency (rx (daemon (rtl_receive_pass L True (Received [1, 0, 0xD8, 0xAC, 0xC0]) s))) =
        usb_rx_frequency r"
proof (intro allI)
  fix L m r
  define d where "d = live_start True True False (\<lambda>_. 5) r"
  define s where "s = \<lparr>daemon = d\<lparr>station := (station d)\<lparr>held := True\<rparr>\<rparr>,
    clients = iq_clients_none\<lparr>rtl_socket := Some \<lparr>socket_answers = [], socket_taken = []\<rparr>\<rparr>,
    publisher = the (iq_publisher_init (Some (destination r)) 256), rtl_parser = rtl_tcp_parser_zero\<rparr>"
  have "\<not> listens True (daemon s)" by (simp add: s_def listens_def)
  moreover have "rx (daemon s) = r"
    by (simp add: s_def d_def live_start_def Let_def tx_control_arm_physical_ptt_def map_tx_def)
  ultimately show "let d = live_start True True False (\<lambda>_. 5) r;
       d = d\<lparr>station := (station d)\<lparr>held := True\<rparr>\<rparr>;
       s = \<lparr>daemon = d, clients = iq_clients_none\<lparr>rtl_socket := Some \<lparr>socket_answers = [], socket_taken = []\<rparr>\<rparr>,
            publisher = the (iq_publisher_init (Some (destination r)) 256), rtl_parser = rtl_tcp_parser_zero\<rparr>
     in usb_rx_frequency (rx (daemon (rtl_receive_pass L True (Received [1, 0, 0xD8, 0xAC, 0xC0]) s))) =
        usb_rx_frequency r"
    using receive_side_harmless [OF live_step.Receive [of L m True s "Received [1, 0, 0xD8, 0xAC, 0xC0]"]]
    unfolding Let_def d_def [symmetric] s_def [symmetric] by simp
qed

subsection \<open>The status document\<close>

text \<open>What \<open>math.h\<close> promises of \<open>log10f\<close>, far less than its precision: on finite floats, a thousandth.\<close>

definition accurate_log10 :: "(rat \<Rightarrow> rat) \<Rightarrow> bool" where
  "accurate_log10 log10f \<longleftrightarrow> (\<forall>x. finite_f32 x \<and> 0 < x \<longrightarrow>
     \<bar>real_of_rat (log10f x) - log 10 (real_of_rat x)\<bar> \<le> 1 / 1000)"

text \<open>The meters of the microphone are floats.\<close>

definition meters_finite :: "tx_audio_stats \<Rightarrow> bool" where
  "meters_finite a \<longleftrightarrow> finite_f32 (input_peak a) \<and> finite_f32 (input_rms a) \<and>
     finite_f32 (post_gain_peak a) \<and> finite_f32 (post_gain_rms a) \<and>
     finite_f32 (output_peak a) \<and> finite_f32 (output_rms a)"

lemma meter_floor: "1 / 10 ^ 7 \<le> f32 (1 / 10 ^ 6)"
proof -
  let ?x = "1 / 10 ^ 6 :: rat"
  define e where "e = max (ilog2 ?x - 23) (- 149)"
  have "ilog2 ?x < - 19" by (intro ilog2_less) (simp_all add: pow2_def)
  then have "pow2 e \<le> pow2 (- 43)" by (intro pow2_mono) (simp add: e_def)
  then have e: "pow2 e \<le> 1 / 2 ^ 43" by (simp add: pow2_def)
  have "?x / pow2 e - 1 / 2 \<le> of_int (round_even (?x / pow2 e))"
    using round_even_near [of "?x / pow2 e"] by linarith
  then have "(?x / pow2 e - 1 / 2) * pow2 e \<le> of_int (round_even (?x / pow2 e)) * pow2 e"
    by (intro mult_right_mono) simp_all
  then have "?x - 1 / 2 * pow2 e \<le> f32 ?x"
    by (simp add: f32_def round_to_def e_def left_diff_distrib Let_def)
  with e show ?thesis by simp
qed

lemma log10_meter:
  assumes "accurate_log10 log10f" and "finite_f32 x" and "f32 (1 / 10 ^ 6) < x"
  shows "\<bar>log10f x\<bar> \<le> 40"
proof -
  have x: "1 / 10 ^ 7 < x" "x < 2 ^ 128" "0 < x"
    using assms(2,3) meter_floor by (auto simp: finite_f32_def pow2_def)
  define y where "y = real_of_rat x"
  have "real_of_rat (1 / 10 ^ 7) < y" "y < real_of_rat (2 ^ 128)"
    using x by (simp_all only: y_def of_rat_less)
  then have y: "1 / 10 ^ 7 < y" "y < 2 ^ 128" "0 < y"
    by (simp_all add: of_rat_divide of_rat_power)
  have "(2 :: real) ^ 128 < 10 ^ 39" by simp
  then have "y < 10 powr 39" using y(2) by (simp add: powr_numeral)
  moreover have "10 powr - 7 < y" using y(1) by (simp add: powr_minus_divide)
  ultimately have "- 7 < log 10 y" "log 10 y < 39" using y(3) by (simp_all add: less_log_iff log_less_iff)
  moreover have "\<bar>real_of_rat (log10f x) - log 10 y\<bar> \<le> 1 / 1000"
    using assms(1,2) x(3) by (simp add: accurate_log10_def y_def)
  ultimately have "real_of_rat (log10f x) \<le> 40" "- 40 \<le> real_of_rat (log10f x)" by linarith+
  then have "real_of_rat (log10f x) \<le> real_of_rat 40" "real_of_rat (- 40) \<le> real_of_rat (log10f x)"
    by simp_all
  then show ?thesis by (simp only: of_rat_less_eq abs_le_iff) simp
qed

lemma f32_meter: "\<bar>x\<bar> \<le> 40 \<Longrightarrow> \<bar>f32 (20 * x)\<bar> \<le> 999"
proof -
  assume "\<bar>x\<bar> \<le> 40"
  then have "\<bar>20 * x\<bar> \<le> of_int 800" by (simp add: abs_mult)
  from f32_bound [OF this] show ?thesis by simp
qed

lemma live_status_wf:
  assumes "accurate_log10 log10f" and "meters_finite (usb_rx_microphone_tx_stats (rx (daemon s)))"
  shows "status_wf (live_service_status log10f version revision s)"
proof -
  have "\<bar>meter_dbfs log10f x\<bar> \<le> 999" if "finite_f32 x" for x
    using log10_meter [OF assms(1) that] by (auto simp: meter_dbfs_def intro!: f32_meter)
  with assms(2) show ?thesis
    by (simp add: status_wf_def status_fields_def live_service_status_def Let_def meters_finite_def)
qed

lemma live_status_length:
  assumes "accurate_log10 log10f" and "meters_finite (usb_rx_microphone_tx_stats (rx (daemon s)))"
  shows "length (json_document (status_fields (live_service_status log10f version revision s))) \<le>
    3409 + length version + length revision"
proof -
  define st where "st = live_service_status log10f version revision s"
  have "status_wf st" unfolding st_def by (rule live_status_wf) (rule assms)+
  moreover have "sv_software_version st = Some version" "sv_git_revision st = Some revision"
    "sv_state st = ''receiving''"
    by (simp_all add: st_def live_service_status_def Let_def)
  ultimately show ?thesis using status_json_length [of st] by (simp add: st_def [symmetric] or_default_def)
qed

text \<open>A signed 32-bit field.\<close>

definition int32 :: "int \<Rightarrow> bool" where
  "int32 x \<longleftrightarrow> - (2 ^ 31) \<le> x \<and> x < 2 ^ 31"

definition documents_fit :: "daemon_sys \<Rightarrow> bool" where
  "documents_fit d \<longleftrightarrow> length (rx_mode (controller d)) \<le> 8 \<and> int32 (rx_squelch_db (controller d)) \<and>
     (case usb_rx_gain (rx d) of None \<Rightarrow> True | Some g \<Rightarrow> int32 g) \<and>
     meters_finite (usb_rx_microphone_tx_stats (rx d))"

lemma tx_names_short: "length (tx_owner_name ow) \<le> 20" "length (tx_state_name st) \<le> 20"
  by (cases ow; simp add: tx_owner_name_def) (cases st; simp add: tx_state_name_def)

lemma live_radio_length:
  assumes "documents_fit d" and r_def: "r = presented_radio d (live_radio_info te (rx d))"
  shows "length (json_document (radio_fields r)) < 1024"
proof -
  have fields: "ri_model r = ''FLEX-1500''" "ri_firmware r = ''0.5.3.24''" "ri_rx_mode r = Some (rx_mode (controller d))"
    "ri_rx_squelch_db r = rx_squelch_db (controller d)"
    "ri_rx_gain_known r = (usb_rx_gain (rx d) \<noteq> None)" "usb_rx_gain (rx d) = Some g \<Longrightarrow> ri_rx_gain_db r = g"
    "ri_tx_owner r = None \<or> ri_tx_owner r = Some (tx_owner_name (tx_owner_of (tx d)))"
    "ri_tx_state r = None \<or> ri_tx_state r = Some (tx_state_name (tx_state_of (tx d)))" for g
    by (auto simp: r_def presented_radio_def live_radio_info_def RADIO_INFO_def Let_def split: option.split)
  have "radio_wf r"
    using assms(1) fields(4-6)
    by (auto simp: radio_wf_def radio_fields_def documents_fit_def int32_def if_known_def)
  from radio_json_length [OF this] show ?thesis
    using assms(1) fields(1-3,7,8) tx_names_short(1) [of "tx_owner_of (tx d)"] tx_names_short(2) [of "tx_state_of (tx d)"]
    by (auto simp: documents_fit_def or_default_def)
qed

lemma get_paths:
  assumes "starts_with ''GET /v1/'' request"
  shows "\<not> path_owner request" "\<not> station_controlled request" "\<not> path_tx request"
    "\<not> path_compressor request" "\<not> path_tx_setting request" "\<not> path_timeout request" "\<not> path_tune request"
    "parse_rx_frequency_request request = None" "parse_rx_mode_request request = None"
    "parse_rx_bandwidth_request request = None" "parse_rx_gain_request request = None"
    "parse_rx_squelch_request request = None"
proof -
  obtain rest where r: "request = ''GET /v1/'' @ rest" using starts_withD [OF assms] by blast
  have put: "\<not> starts_with ''PUT /v1/radio/frequency/'' request" "\<not> starts_with ''PUT /v1/radio/bandwidth/'' request"
    "\<not> starts_with ''PUT /v1/radio/mode/'' request" "\<not> starts_with ''PUT /v1/radio/gain/'' request"
    by (simp_all add: r)
  show "\<not> path_owner request" "\<not> station_controlled request" "\<not> path_tx request"
    "\<not> path_compressor request" "\<not> path_tx_setting request" "\<not> path_timeout request" "\<not> path_tune request"
    by (simp_all add: r path_owner_def request_is_def station_controlled_def path_tx_def path_tune_def
      path_compressor_def path_tx_setting_def path_timeout_def)
  show "parse_rx_frequency_request request = None" "parse_rx_mode_request request = None"
    "parse_rx_bandwidth_request request = None" "parse_rx_gain_request request = None"
    using parse_needs_path [of request] put by blast+
  show "parse_rx_squelch_request request = None" by (simp add: r parse_rx_squelch_request_def)
qed

text \<open>C31.
  A request for the status or for the radio is answered 200 with the whole document, whatever the
  counters, the meters and the versions (of at most 64 characters) say: neither document, both of
  which the code builds for either request, outgrows its buffer, nor the response its 4096 bytes. The
  conditions: \<open>log10f\<close> is accurate to a thousandth, the fields of the state hold values of their C
  types, and the mode's name has at most 8 characters (\<open>documents_fit\<close>).
\<close>

theorem status_answered:
  assumes "accurate_log10 log10f" and "length version \<le> 64" and "length revision \<le> 64"
    and "documents_fit d" and "d = daemon s"
    and "status = live_service_status log10f version revision s"
    and "radio = live_radio_info transmit_enabled (rx d)"
  shows "(starts_with ''GET /v1/status '' request \<longrightarrow>
      api_dispatch (daemon_callbacks L) (daemon_api_callbacks L) request status radio RESPONSE_BYTES d =
       (ApiResponse, Some (http_text ''200 OK'' (json_document (status_fields status))), None, d)) \<and>
    (starts_with ''GET /v1/radio '' request \<longrightarrow>
      api_dispatch (daemon_callbacks L) (daemon_api_callbacks L) request status radio RESPONSE_BYTES d =
       (ApiResponse, Some (http_text ''200 OK'' (json_document (radio_fields (presented_radio d radio)))), None, d))"
proof -
  define status_body where "status_body = json_document (status_fields status)"
  define radio_body where "radio_body = json_document (radio_fields (presented_radio d radio))"
  have len: "length status_body \<le> 3537" "length radio_body < 1024"
    using live_status_length [OF assms(1), of s version revision] assms(2-5)
      live_radio_length [OF assms(4) refl, of transmit_enabled]
    by (simp_all add: status_body_def radio_body_def assms(6,7) documents_fit_def)
  then have digits: "length (show_nat (length status_body)) \<le> 4" "length (show_nat (length radio_body)) \<le> 4"
    by (auto intro: length_show_nat)
  have room: "fit RESPONSE_BYTES (http_text ''200 OK'' status_body) = Some (http_text ''200 OK'' status_body)"
    "fit RESPONSE_BYTES (http_text ''200 OK'' radio_body) = Some (http_text ''200 OK'' radio_body)"
    using len digits by (simp_all add: fit_def http_text_def)
  have built: "build_status_json status 4096 = Some status_body"
    "build_radio_json (presented_radio d radio) 1024 = Some radio_body"
    using len by (simp_all add: build_status_json_def build_radio_json_def fit_def status_body_def radio_body_def)
  have page: "api_dispatch (daemon_callbacks L) (daemon_api_callbacks L) request status radio RESPONSE_BYTES d =
      dispatch_page request status radio RESPONSE_BYTES d"
    if "starts_with ''GET /v1/status '' request \<or> starts_with ''GET /v1/radio '' request"
  proof -
    have "\<exists>rest. request = ''GET /v1/status '' @ rest \<or> request = ''GET /v1/radio '' @ rest"
      using that starts_withD by blast
    then obtain rest where r: "request = ''GET /v1/status '' @ rest \<or> request = ''GET /v1/radio '' @ rest" ..
    then have g: "starts_with ''GET /v1/'' request" by auto
    have "\<not> starts_with ''GET /v1/stream/iq '' request" "\<not> starts_with ''GET /test HTTP/'' request"
      "\<not> starts_with ''PUT /v1/radio/frequency/'' request" "\<not> starts_with ''PUT /v1/radio/mode/'' request"
      "\<not> starts_with ''PUT /v1/radio/gain/'' request" "\<not> starts_with ''PUT /v1/radio/bandwidth/'' request"
      "\<not> starts_with ''PUT /v1/radio/squelch/'' request"
      using r by auto
    then show ?thesis
      by (simp add: api_dispatch_def get_paths [OF g] dispatch_rx_def Let_def del: starts_with_Cons)
  qed
  have "dispatch_page request status radio RESPONSE_BYTES d =
      (ApiResponse, Some (http_text ''200 OK'' status_body), None, d)"
    if "starts_with ''GET /v1/status '' request"
    using that room(1) by (simp add: dispatch_page_def built build_http_response_def respond_def del: starts_with_Cons)
  moreover have "dispatch_page request status radio RESPONSE_BYTES d =
      (ApiResponse, Some (http_text ''200 OK'' radio_body), None, d)"
    if radio: "starts_with ''GET /v1/radio '' request"
  proof -
    obtain rest where "request = ''GET /v1/radio '' @ rest" using starts_withD [OF radio] by blast
    then have "\<not> starts_with ''GET /v1/status '' request" by simp
    then show ?thesis
      using radio room(2) by (simp add: dispatch_page_def built build_http_response_def respond_def del: starts_with_Cons)
  qed
  ultimately show ?thesis using page unfolding status_body_def radio_body_def
    by (intro conjI impI) (simp_all del: starts_with_Cons)
qed

text \<open>A logarithm to three decimals, and a microphone at half its range.\<close>

definition log10_example :: "rat \<Rightarrow> rat" where
  "log10_example x = of_int \<lfloor>log 10 (real_of_rat x) * 1000\<rfloor> / 1000"

lemma log10_example_accurate: "accurate_log10 log10_example"
proof -
  have "\<bar>real_of_rat (log10_example x) - log 10 (real_of_rat x)\<bar> \<le> 1 / 1000" for x
    by (simp add: log10_example_def of_rat_divide) linarith
  then show ?thesis by (simp add: accurate_log10_def)
qed

definition metered_radio :: usb_rx where
  "metered_radio = (let r = fresh_rx (world_with []); m = microphone_stream r
     in r\<lparr>microphone_stream := m\<lparr>audio_stats := (audio_stats m)\<lparr>microphone_frames := 1,
       input_peak := 1 / 2, input_rms := 1 / 2\<rparr>\<rparr>\<rparr>)"

theorem status_answered_witness:
  "\<forall>L. let d = live_start True True False (\<lambda>_. 5) metered_radio;
         s = \<lparr>daemon = d, clients = iq_clients_none,
              publisher = the (iq_publisher_init (Some (destination metered_radio)) 256),
              rtl_parser = rtl_tcp_parser_zero\<rparr>;
         answer = (\<lambda>request. fst (snd (api_dispatch (daemon_callbacks L) (daemon_api_callbacks L) request
           (live_service_status log10_example ''1.0'' ''abc'' s) (live_radio_info True (rx d)) RESPONSE_BYTES d)))
     in answer ''GET /v1/status HTTP/1.1'' \<noteq> None \<and> answer ''GET /v1/radio HTTP/1.1'' \<noteq> None"
proof
  fix L
  define d where "d = live_start True True False (\<lambda>_. 5) metered_radio"
  define s where "s = \<lparr>daemon = d, clients = iq_clients_none,
    publisher = the (iq_publisher_init (Some (destination metered_radio)) 256), rtl_parser = rtl_tcp_parser_zero\<rparr>"
  have d: "rx d = metered_radio" "length (rx_mode (controller d)) \<le> 8" "int32 (rx_squelch_db (controller d))"
    by (simp_all add: d_def live_start_def Let_def tx_control_arm_physical_ptt_def map_tx_def
      api_controller_init_def int32_def)
  have f: "finite_f32 (1 / 2)" "finite_f32 0"
    using f32_sample [of 16384] f32_int [of 0] by (simp_all add: finite_f32_def pow2_def)
  have "usb_rx_gain metered_radio = None" "meters_finite (usb_rx_microphone_tx_stats metered_radio)"
    using f by (simp_all add: metered_radio_def fresh_rx_def usb_rx_create_def usb_rx_gain_def world_with_def
      meters_finite_def usb_rx_microphone_tx_stats_def Let_def zero_stream_def zero_stats_def)
  with d have fit: "documents_fit d" by (simp add: documents_fit_def)
  have v: "length ''1.0'' \<le> 64" "length ''abc'' \<le> 64" by simp_all
  have ds: "d = daemon s" by (simp add: s_def)
  note answer = status_answered [OF log10_example_accurate v fit ds refl refl, where L = L and transmit_enabled = True]
  have p: "starts_with ''GET /v1/status '' ''GET /v1/status HTTP/1.1''" "starts_with ''GET /v1/radio '' ''GET /v1/radio HTTP/1.1''"
    by simp_all
  show "let d = live_start True True False (\<lambda>_. 5) metered_radio;
         s = \<lparr>daemon = d, clients = iq_clients_none,
              publisher = the (iq_publisher_init (Some (destination metered_radio)) 256),
              rtl_parser = rtl_tcp_parser_zero\<rparr>;
         answer = (\<lambda>request. fst (snd (api_dispatch (daemon_callbacks L) (daemon_api_callbacks L) request
           (live_service_status log10_example ''1.0'' ''abc'' s) (live_radio_info True (rx d)) RESPONSE_BYTES d)))
     in answer ''GET /v1/status HTTP/1.1'' \<noteq> None \<and> answer ''GET /v1/radio HTTP/1.1'' \<noteq> None"
    unfolding Let_def d_def [symmetric] s_def [symmetric]
    by (simp only: mp [OF conjunct1 [OF answer] p(1)] mp [OF conjunct2 [OF answer] p(2)]
      fst_conv snd_conv option.distinct not_False_eq_True simp_thms)
qed

end
