(* ===== verification/Config.thy ===== *)
theory Config
  imports Network "HOL-Library.Sublist"
begin

text \<open>
  Model of \<open>src/config.c\<close>, the configuration file of the daemon, and of how \<open>main\<close> in
  \<open>src/flex1500d.c\<close> turns the file and the command line into what is started. A file is what \<open>fopen\<close>
  and the reads on it give; reading and closing it have no other effect. Text sent to the terminal
  is left out.
\<close>

subsection \<open>The configuration\<close>

datatype radio_mode = RadioDisabled | RadioReceive | RadioRxTuning | RadioTransmit

record config =
  daemon_enabled :: bool
  config_mode :: radio_mode
  http_bind :: string
  http_port :: u16
  test_page :: bool
  rtl_enabled :: bool
  rtl_bind :: string
  rtl_port :: u16

definition config_defaults :: config where
  "config_defaults =
     \<lparr>daemon_enabled = True, config_mode = RadioRxTuning, http_bind = ''0.0.0.0'', http_port = 15000,
      test_page = False, rtl_enabled = False, rtl_bind = ''0.0.0.0'', rtl_port = 1234\<rparr>"

definition radio_mode_name :: "radio_mode \<Rightarrow> string" where
  "radio_mode_name mode =
     (case mode of RadioDisabled \<Rightarrow> ''offline'' | RadioReceive \<Rightarrow> ''receive''
      | RadioRxTuning \<Rightarrow> ''rx-tuning'' | RadioTransmit \<Rightarrow> ''transmit'')"

definition parse_radio_mode :: "string \<Rightarrow> radio_mode option" where
  "parse_radio_mode text =
     (if text = ''offline'' then Some RadioDisabled else if text = ''receive'' then Some RadioReceive
      else if text = ''rx-tuning'' then Some RadioRxTuning else if text = ''transmit'' then Some RadioTransmit
      else None)"

definition trim :: "string \<Rightarrow> string" where
  "trim text = rev (dropWhile is_space (rev (dropWhile is_space text)))"

definition parse_bool :: "string \<Rightarrow> bool option" where
  "parse_bool text =
     (if text = ''true'' \<or> text = ''yes'' \<or> text = ''1'' then Some True
      else if text = ''false'' \<or> text = ''no'' \<or> text = ''0'' then Some False else None)"

text \<open>The port checks of the file and of the command line are the same.\<close>

definition valid_port_text :: "string \<Rightarrow> u16 option" where
  "valid_port_text text =
     (case strtoull text of (value, rest) \<Rightarrow>
        if rest = text \<or> rest \<noteq> [] \<or> value = 0 \<or> value > 65535 then None else Some (ucast value))"

definition parse_bind :: "string \<Rightarrow> string option" where
  "parse_bind text = (if 0 < length text \<and> length text < 64 then Some text else None)"

subsection \<open>A line\<close>

datatype config_section = SectionNone | SectionDaemon | SectionRadio | SectionHttp | SectionRtlTcp

datatype seen_key = SeenEnabled | SeenMode | SeenBind | SeenPort | SeenTestPage |
  SeenRtlEnabled | SeenRtlBind | SeenRtlPort

datatype config_error = LineTooLong | MalformedSection | UnknownSection | ExpectedKeyValue |
  UnknownKey | DuplicateKey | InvalidValue

record load_state =
  in_section :: config_section
  seen :: "seen_key list"
  loaded :: config

definition section_named :: "string \<Rightarrow> config_section option" where
  "section_named name =
     (if name = ''daemon'' then Some SectionDaemon else if name = ''radio'' then Some SectionRadio
      else if name = ''http'' then Some SectionHttp else if name = ''rtl_tcp'' then Some SectionRtlTcp
      else None)"

text \<open>A value that parses is stored, before the check for a second occurrence.\<close>

definition store_value :: "('a \<Rightarrow> config \<Rightarrow> config) \<Rightarrow> 'a option \<Rightarrow> config \<Rightarrow> bool \<times> config" where
  "store_value set_field parsed c =
     (case parsed of None \<Rightarrow> (False, c) | Some value \<Rightarrow> (True, set_field value c))"

definition load_key :: "config_section \<Rightarrow> string \<Rightarrow> string \<Rightarrow> config \<Rightarrow> (seen_key \<times> bool \<times> config) option" where
  "load_key sec key value c =
     (if sec = SectionDaemon \<and> key = ''enabled''
      then Some (SeenEnabled, store_value (\<lambda>b c. c\<lparr>daemon_enabled := b\<rparr>) (parse_bool value) c)
      else if sec = SectionRadio \<and> key = ''mode''
      then Some (SeenMode, store_value (\<lambda>m c. c\<lparr>config_mode := m\<rparr>) (parse_radio_mode value) c)
      else if sec = SectionHttp \<and> key = ''bind''
      then Some (SeenBind, store_value (\<lambda>b c. c\<lparr>http_bind := b\<rparr>) (parse_bind value) c)
      else if sec = SectionHttp \<and> key = ''port''
      then Some (SeenPort, store_value (\<lambda>p c. c\<lparr>http_port := p\<rparr>) (valid_port_text value) c)
      else if sec = SectionHttp \<and> key = ''test_page''
      then Some (SeenTestPage, store_value (\<lambda>b c. c\<lparr>test_page := b\<rparr>) (parse_bool value) c)
      else if sec = SectionRtlTcp \<and> key = ''enabled''
      then Some (SeenRtlEnabled, store_value (\<lambda>b c. c\<lparr>rtl_enabled := b\<rparr>) (parse_bool value) c)
      else if sec = SectionRtlTcp \<and> key = ''bind''
      then Some (SeenRtlBind, store_value (\<lambda>b c. c\<lparr>rtl_bind := b\<rparr>) (parse_bind value) c)
      else if sec = SectionRtlTcp \<and> key = ''port''
      then Some (SeenRtlPort, store_value (\<lambda>p c. c\<lparr>rtl_port := p\<rparr>) (valid_port_text value) c)
      else None)"

definition load_line :: "string \<Rightarrow> load_state \<Rightarrow> config_error option \<times> load_state" where
  "load_line line st =
     (let text = trim line
      in if text = [] \<or> hd text = CHR ''#'' \<or> hd text = CHR '';'' then (None, st)
         else if hd text = CHR ''[''
         then
           if length text < 3 \<or> last text \<noteq> CHR '']'' then (Some MalformedSection, st)
           else (case section_named (trim (tl (butlast text))) of
                   None \<Rightarrow> (Some UnknownSection, st)
                 | Some sec \<Rightarrow> (None, st\<lparr>in_section := sec\<rparr>))
         else if CHR ''='' \<notin> set text \<or> in_section st = SectionNone then (Some ExpectedKeyValue, st)
         else
           let key = takeWhile (\<lambda>c. c \<noteq> CHR ''='') text;
               value = drop (length key + 1) text
           in case load_key (in_section st) (trim key) (trim value) (loaded st) of
                None \<Rightarrow> (Some UnknownKey, st)
              | Some (key_seen, parsed, c) \<Rightarrow>
                  let st = st\<lparr>loaded := c\<rparr>
                  in if key_seen \<in> set (seen st) then (Some DuplicateKey, st)
                     else if \<not> parsed then (Some InvalidValue, st)
                     else (None, st\<lparr>seen := key_seen # seen st\<rparr>))"

subsection \<open>The file\<close>

text \<open>\<open>fgets\<close>: the bytes up to a newline or a full buffer; the line it leaves ends at a NUL.\<close>

definition fgets :: "nat \<Rightarrow> string \<Rightarrow> string" where
  "fgets room text =
     (let t = take (room - 1) text in take (length (takeWhile (\<lambda>c. c \<noteq> LF) t) + 1) t)"

abbreviation LINE_BYTES :: nat where "LINE_BYTES \<equiv> 512"

lemma fgets_nonempty: "text \<noteq> [] \<Longrightarrow> fgets LINE_BYTES text \<noteq> []"
  by (cases "text") (simp_all add: fgets_def Let_def)

text \<open>The lines from number \<open>n\<close> on; end of file is seen by a read that stops short without a newline.\<close>

function load_lines :: "nat \<Rightarrow> string \<Rightarrow> load_state \<Rightarrow> (nat \<times> config_error) option \<times> load_state" where
  "load_lines n text st =
     (if text = [] then (None, st)
      else
        let chunk = fgets LINE_BYTES text;
            at_eof = (LF \<notin> set chunk \<and> length chunk < LINE_BYTES - 1);
            line = c_string_at chunk 0
        in if LF \<notin> set line \<and> \<not> at_eof then (Some (n, LineTooLong), st)
           else case load_line line st of
             (Some e, st) \<Rightarrow> (Some (n, e), st)
           | (None, st) \<Rightarrow> load_lines (n + 1) (drop (length chunk) text) st)"
  by pat_completeness auto

termination
  by (relation "measure (\<lambda>(n, text, st). length text)")
    (use fgets_nonempty in \<open>auto simp: diff_less\<close>)

declare load_lines.simps [simp del]

datatype config_file = Unopened bool string | File string bool

definition error_message :: "config_error \<Rightarrow> string" where
  "error_message e =
     (case e of LineTooLong \<Rightarrow> ''line is too long'' | MalformedSection \<Rightarrow> ''malformed section header''
      | UnknownSection \<Rightarrow> ''unknown section'' | ExpectedKeyValue \<Rightarrow> ''expected key=value inside a section''
      | UnknownKey \<Rightarrow> ''unknown key'' | DuplicateKey \<Rightarrow> ''duplicate key'' | InvalidValue \<Rightarrow> ''invalid value'')"

definition fail_text :: "nat \<Rightarrow> string \<Rightarrow> nat \<Rightarrow> string \<Rightarrow> string" where
  "fail_text room path line message =
     take (room - 1) (if line \<noteq> 0 then path @ '':'' @ show_nat line @ '': '' @ message
                      else path @ '': '' @ message)"

text \<open>
  The result: the text of an error, if any, and the configuration. A file that cannot be opened
  gives whether it is missing and \<open>strerror\<close>; one that can, its bytes and whether a read failed
  after them. A read error in the middle of a line makes \<open>fgets\<close> return NULL, so the part of the
  line before it is dropped, unless it has filled the buffer already.
\<close>

definition readable :: "string \<Rightarrow> bool \<Rightarrow> string" where
  "readable text read_error =
     (let partial = takeWhile (\<lambda>c. c \<noteq> LF) (rev text)
      in if read_error \<and> length partial < LINE_BYTES - 1 then take (length text - length partial) text
         else text)"

definition config_load ::
  "string \<Rightarrow> bool \<Rightarrow> nat \<Rightarrow> config_file \<Rightarrow> config \<Rightarrow> string option \<times> config" where
  "config_load path missing_is_ok error_size file c =
     (case file of
        Unopened missing text \<Rightarrow>
          if missing_is_ok \<and> missing then (None, c)
          else (Some (fail_text error_size path 0 (take 159 (''cannot open: '' @ text))), c)
      | File text read_error \<Rightarrow>
          (case load_lines 1 (readable text read_error) \<lparr>in_section = SectionNone, seen = [], loaded = c\<rparr> of
             (Some (n, e), st) \<Rightarrow> (Some (fail_text error_size path n (error_message e)), loaded st)
           | (None, st) \<Rightarrow>
               if read_error then (Some (fail_text error_size path 0 ''read error''), loaded st)
               else (None, loaded st)))"

definition config_print :: "config \<Rightarrow> string \<Rightarrow> string" where
  "config_print c path =
     ''# effective configuration ('' @ path @ '')'' @ [LF] @
     ''[daemon]'' @ [LF] @ ''enabled='' @ show_bool (daemon_enabled c) @ [LF, LF] @
     ''[radio]'' @ [LF] @ ''mode='' @ radio_mode_name (config_mode c) @ [LF, LF] @
     ''[http]'' @ [LF] @ ''bind='' @ http_bind c @ [LF] @ ''port='' @ show_nat (unat (http_port c)) @ [LF] @
     ''test_page='' @ show_bool (test_page c) @ [LF] @
     [LF] @ ''[rtl_tcp]'' @ [LF] @ ''enabled='' @ show_bool (rtl_enabled c) @ [LF] @
     ''bind='' @ rtl_bind c @ [LF] @ ''port='' @ show_nat (unat (rtl_port c)) @ [LF]"

subsection \<open>Printing and reading back\<close>

lemma load_lines_Nil [simp]: "load_lines n [] st = (None, st)"
  by (simp add: load_lines.simps)

lemma fgets_line: "LF \<notin> set line \<Longrightarrow> length line < 511 \<Longrightarrow> fgets LINE_BYTES (line @ LF # rest) = line @ [LF]"
proof -
  assume a: "LF \<notin> set line" "length line < 511"
  have t: "take 511 (line @ LF # rest) = line @ LF # take (510 - length line) rest"
    using a(2) Suc_diff_le [of "length line" 510] by simp
  have "takeWhile (\<lambda>c. c \<noteq> LF) (line @ LF # take (510 - length line) rest) = line"
    using a(1) by (subst takeWhile_append2) auto
  moreover have "take (Suc (length line)) (line @ LF # x) = line @ [LF]" for x by simp
  ultimately show ?thesis by (simp add: fgets_def Let_def t del: take_append)
qed

lemma load_lines_line:
  assumes "LF \<notin> set line" and "CHR 0x00 \<notin> set line" and "length line < 511"
  shows "load_lines n (line @ LF # rest) st =
    (case load_line (line @ [LF]) st of (Some e, st) \<Rightarrow> (Some (n, e), st)
     | (None, st) \<Rightarrow> load_lines (n + 1) rest st)"
proof -
  have "c_string_at (line @ [LF]) 0 = line @ [LF]"
    using assms(2) by (auto simp: c_string_at_def takeWhile_eq_all_conv)
  then show ?thesis using assms by (subst load_lines.simps) (simp add: fgets_line Let_def split: prod.split option.split)
qed

lemma LF_space [simp]: "is_space LF"
  by (simp add: is_space_def code_of_def)

lemma trim_line:
  assumes "text \<noteq> []" and "\<not> is_space (hd text)" and "\<not> is_space (last text)"
  shows "trim text = text" "trim (text @ [LF]) = text"
proof -
  have "rev text \<noteq> []" "\<not> is_space (hd (rev text))" using assms by (simp_all add: hd_rev)
  then have r: "dropWhile is_space (rev text) = rev text" by (cases "rev text") simp_all
  have "dropWhile is_space text = text" "dropWhile is_space (text @ [LF]) = text @ [LF]"
    using assms(1,2) by (cases "text"; simp)+
  then show "trim text = text" "trim (text @ [LF]) = text" by (simp_all add: trim_def r)
qed

lemma load_line_key:
  assumes "key \<noteq> []" and "list_all (\<lambda>c. \<not> is_space c \<and> c \<noteq> CHR ''='') key"
    and "hd key \<notin> {CHR ''#'', CHR '';'', CHR ''[''}"
    and "value \<noteq> []" and "\<not> is_space (hd value)" and "\<not> is_space (last value)"
    and "in_section st \<noteq> SectionNone"
    and "load_key (in_section st) key value (loaded st) = Some (mark, True, c)" and "mark \<notin> set (seen st)"
  shows "load_line (key @ CHR ''='' # value @ [LF]) st = (None, st\<lparr>loaded := c, seen := mark # seen st\<rparr>)"
proof -
  have k: "\<not> is_space (hd key)" "\<not> is_space (last key)" using assms(1,2) by (simp_all add: list_all_iff)
  let ?text = "key @ CHR ''='' # value"
  have trimmed: "trim (?text @ [LF]) = ?text"
    using assms(1,4,6) k by (intro trim_line(2)) simp_all
  have tw: "takeWhile (\<lambda>c. c \<noteq> CHR ''='') ?text = key"
    using assms(2) by (subst takeWhile_append2) (auto simp: list_all_iff)
  have hd: "?text \<noteq> []" "hd ?text = hd key" "CHR ''='' \<in> set ?text" using assms(1) by simp_all
  have kv: "trim key = key" "trim value = value" using k assms(1,4-6) trim_line(1) by blast+
  have "load_line (?text @ [LF]) st = (None, st\<lparr>loaded := c, seen := mark # seen st\<rparr>)"
    unfolding load_line_def Let_def trimmed tw using assms(3,7-9) hd kv by simp
  then show ?thesis by simp
qed

text \<open>What a value can hold to be read back: no blanks around it, no control byte that ends a line.\<close>

definition plain_value :: "string \<Rightarrow> bool" where
  "plain_value v \<longleftrightarrow> v \<noteq> [] \<and> length v < 64 \<and> LF \<notin> set v \<and> CHR 0x00 \<notin> set v \<and>
     \<not> is_space (hd v) \<and> \<not> is_space (last v)"

definition printable :: "config \<Rightarrow> bool" where
  "printable c \<longleftrightarrow> plain_value (http_bind c) \<and> plain_value (rtl_bind c) \<and> http_port c \<noteq> 0 \<and> rtl_port c \<noteq> 0"

text \<open>A printed key of a section, read in that section.\<close>

lemma load_lines_key:
  assumes "key \<noteq> []" and "list_all (\<lambda>c. \<not> is_space c \<and> c \<noteq> CHR ''='' \<and> c \<noteq> CHR 0x00) key"
    and "hd key \<notin> {CHR ''#'', CHR '';'', CHR ''[''}" and "length key < 64" and "plain_value value"
    and "in_section st \<noteq> SectionNone"
    and "load_key (in_section st) key value (loaded st) = Some (mark, True, c)" and "mark \<notin> set (seen st)"
  shows "load_lines n (key @ CHR ''='' # value @ LF # rest) st =
    load_lines (n + 1) rest (st\<lparr>loaded := c, seen := mark # seen st\<rparr>)"
proof -
  let ?line = "key @ CHR ''='' # value"
  have v: "value \<noteq> []" "\<not> is_space (hd value)" "\<not> is_space (last value)" "length value < 64"
    "LF \<notin> set value" "CHR 0x00 \<notin> set value"
    using assms(5) by (simp_all add: plain_value_def)
  have k: "list_all (\<lambda>c. \<not> is_space c \<and> c \<noteq> CHR ''='') key" using assms(2) by (auto simp: list_all_iff)
  have "\<not> is_space c \<and> c \<noteq> CHR 0x00" if "c \<in> set key" for c using assms(2) that by (simp add: list_all_iff)
  from this [of LF] this [of "CHR 0x00"] have "LF \<notin> set key" "CHR 0x00 \<notin> set key" by auto
  then have "LF \<notin> set ?line" "CHR 0x00 \<notin> set ?line" "length ?line < 511"
    using assms(4) v(4-6) by simp_all
  from load_lines_line [OF this, of n rest st] load_line_key [OF assms(1) k assms(3) v(1-3) assms(6-8)]
  show ?thesis by simp
qed

lemma valid_port_show: "p \<noteq> 0 \<Longrightarrow> valid_port_text (show_nat (unat p)) = Some p"
proof -
  assume "p \<noteq> 0"
  then have pos: "0 < unat p" by (simp add: unat_gt_0)
  have lt: "unat p < 65536" using unsigned_less [of p] by simp
  have "take_bit 64 (unat p) = unat p" "take_bit 16 (unat p) = unat p"
    using lt by (simp_all add: take_bit_nat_eq_self)
  then have up: "unat (ucast p :: u64) = unat p" "unat (ucast (ucast p :: u64) :: u16) = unat p"
    by (simp_all add: unsigned_ucast_eq take_bit_word_beyond_length_eq)
  then have "(ucast p :: u64) \<noteq> 0" "\<not> (65535 :: u64) < ucast p" "ucast (ucast p :: u64) = p"
    using pos lt by (auto simp: word_less_nat_alt word_unat_eq_iff)
  moreover have "strtoull (show_nat (unat p)) = (ucast p, [])"
    using strtoull_show [of "unat p" "[]"] lt by simp
  moreover have "[] \<noteq> show_nat (unat p)" using show_nat_digits [of "unat p"] by metis
  ultimately show ?thesis by (simp add: valid_port_text_def)
qed

text \<open>The lines that are not keys.\<close>

lemma load_section:
  "load_line (''[daemon]'' @ [LF]) st = (None, st\<lparr>in_section := SectionDaemon\<rparr>)"
  "load_line (''[radio]'' @ [LF]) st = (None, st\<lparr>in_section := SectionRadio\<rparr>)"
  "load_line (''[http]'' @ [LF]) st = (None, st\<lparr>in_section := SectionHttp\<rparr>)"
  "load_line (''[rtl_tcp]'' @ [LF]) st = (None, st\<lparr>in_section := SectionRtlTcp\<rparr>)"
  "load_line [LF] st = (None, st)"
  by (simp_all add: load_line_def trim_def is_space_def code_of_def section_named_def)

lemma load_comment: "hd text = CHR ''#'' \<Longrightarrow> text \<noteq> [] \<Longrightarrow> \<not> is_space (last text) \<Longrightarrow> load_line (text @ [LF]) st = (None, st)"
  using trim_line(2) [of "text"] by (simp add: load_line_def is_space_def code_of_def)

lemma load_bool: "parse_bool (show_bool b) = Some b" "plain_value (show_bool b)"
  by (simp_all add: parse_bool_def show_bool_def plain_value_def is_space_def code_of_def)

lemma load_mode: "parse_radio_mode (radio_mode_name m) = Some m" "plain_value (radio_mode_name m)"
  by (cases m; simp add: parse_radio_mode_def radio_mode_name_def plain_value_def is_space_def code_of_def)+

lemma load_port: "plain_value (show_nat (unat (p :: u16)))"
proof -
  have d: "show_nat (unat p) \<noteq> []" "list_all is_digit (show_nat (unat p))" using show_nat_digits by simp_all
  then have "\<not> is_space c \<and> c \<noteq> LF \<and> c \<noteq> CHR 0x00" if "c \<in> set (show_nat (unat p))" for c
    using that by (auto simp: list_all_iff is_digit_def is_space_def code_of_def)
  moreover have "length (show_nat (unat p)) \<le> 5"
    using unsigned_less [of p, where 'a = nat] by (intro length_show_nat) simp_all
  ultimately show ?thesis using d(1) by (auto simp: plain_value_def)
qed

text \<open>C21.
  The configuration the daemon prints is the configuration it reads: loading the printed text, over
  whatever configuration, succeeds and gives back every field, for a path that is one line of at most
  400 bytes and bind addresses without blanks at their ends.
\<close>

theorem config_roundtrip:
  assumes "printable c" and "LF \<notin> set path" and "CHR 0x00 \<notin> set path" and "length path \<le> 400"
  shows "config_load path' missing error_size (File (config_print c path) False) c0 = (None, c)"
proof -
  let ?head = "''# effective configuration ('' @ path @ '')''"
  have binds: "parse_bind (http_bind c) = Some (http_bind c)" "parse_bind (rtl_bind c) = Some (rtl_bind c)"
    "plain_value (http_bind c)" "plain_value (rtl_bind c)"
    using assms(1) by (auto simp: printable_def plain_value_def parse_bind_def)
  have ports: "valid_port_text (show_nat (unat (http_port c))) = Some (http_port c)"
    "valid_port_text (show_nat (unat (rtl_port c))) = Some (rtl_port c)"
    using assms(1) by (simp_all add: printable_def valid_port_show)
  have head: "load_lines n (?head @ LF # rest) st = load_lines (n + 1) rest st" for n rest st
    using load_lines_line [of ?head n rest st] load_comment [of ?head st] assms(2-4)
    by (simp add: is_space_def code_of_def)
  have sections: "load_lines n (''[daemon]'' @ LF # rest) st = load_lines (n + 1) rest (st\<lparr>in_section := SectionDaemon\<rparr>)"
    "load_lines n (''[radio]'' @ LF # rest) st = load_lines (n + 1) rest (st\<lparr>in_section := SectionRadio\<rparr>)"
    "load_lines n (''[http]'' @ LF # rest) st = load_lines (n + 1) rest (st\<lparr>in_section := SectionHttp\<rparr>)"
    "load_lines n (''[rtl_tcp]'' @ LF # rest) st = load_lines (n + 1) rest (st\<lparr>in_section := SectionRtlTcp\<rparr>)"
    for n rest st
    by (simp_all add: load_lines_line load_section del: append.simps)
  have blank: "load_lines n ([] @ LF # rest) st = load_lines (n + 1) rest st" for n rest st
    using load_lines_line [of "[]" n rest st] load_section(5) by simp
  have key: "load_lines n (k @ CHR ''='' # v @ LF # rest) st =
      load_lines (n + 1) rest (st\<lparr>loaded := c', seen := mark # seen st\<rparr>)"
    if "k \<in> {''enabled'', ''mode'', ''bind'', ''port'', ''test_page''}" and "plain_value v"
      and "in_section st \<noteq> SectionNone"
      and "load_key (in_section st) k v (loaded st) = Some (mark, True, c')" and "mark \<notin> set (seen st)"
    for n k v rest st c' mark
    using that(1) by (intro load_lines_key that(2-5)) (auto simp: is_space_def code_of_def)
  have eq: "config_print c path = ?head @ LF #
      (''[daemon]'' @ LF # (''enabled'' @ CHR ''='' # show_bool (daemon_enabled c) @ LF # ([] @ LF #
      (''[radio]'' @ LF # (''mode'' @ CHR ''='' # radio_mode_name (config_mode c) @ LF # ([] @ LF #
      (''[http]'' @ LF # (''bind'' @ CHR ''='' # http_bind c @ LF #
      (''port'' @ CHR ''='' # show_nat (unat (http_port c)) @ LF #
      (''test_page'' @ CHR ''='' # show_bool (test_page c) @ LF # ([] @ LF #
      (''[rtl_tcp]'' @ LF # (''enabled'' @ CHR ''='' # show_bool (rtl_enabled c) @ LF #
      (''bind'' @ CHR ''='' # rtl_bind c @ LF # (''port'' @ CHR ''='' # show_nat (unat (rtl_port c)) @ LF # [])))))))))))))))"
    by (simp add: config_print_def)
  have "\<exists>st. load_lines 1 (config_print c path) \<lparr>in_section = SectionNone, seen = [], loaded = c0\<rparr> = (None, st) \<and>
      loaded st = c"
    unfolding eq
    by (simp only: head sections blank)
      (simp add: key blank sections load_key_def store_value_def load_bool load_mode load_port binds ports
        del: append.simps)
  then show ?thesis by (auto simp: config_load_def readable_def)
qed

theorem config_roundtrip_witness:
  "config_load ''p'' False 512 (File (config_print config_defaults ''/etc/flex1500d/flex1500d.conf'') False)
     (config_defaults\<lparr>config_mode := RadioTransmit, http_port := 1\<rparr>) = (None, config_defaults)"
  by (rule config_roundtrip)
    (simp_all add: printable_def plain_value_def config_defaults_def is_space_def code_of_def)

text \<open>A minus sign is taken: the number wraps, so this is port 1.\<close>

lemma negative_port_accepted: "valid_port_text ''-18446744073709551615'' = Some 1"
proof -
  have d: "digits_value ''18446744073709551615'' = 2 ^ 64 - 1"
    by (simp add: digits_value_def digit_value_def code_of_def)
  have "strtoull ''-18446744073709551615'' = (1, [])"
    by (simp add: strtoull_def Let_def is_space_def code_of_def is_digit_def d)
  then show ?thesis by (simp add: valid_port_text_def)
qed

subsection \<open>What a file can set\<close>

text \<open>The ports and addresses stay usable, and transmitting is never turned on by accident.\<close>

definition usable :: "config \<Rightarrow> bool" where
  "usable c \<longleftrightarrow> http_port c \<noteq> 0 \<and> rtl_port c \<noteq> 0 \<and> http_bind c \<noteq> [] \<and> length (http_bind c) < 64 \<and>
     rtl_bind c \<noteq> [] \<and> length (rtl_bind c) < 64"

lemma valid_port_nonzero: "valid_port_text t = Some p \<Longrightarrow> p \<noteq> 0"
proof -
  assume "valid_port_text t = Some p"
  then obtain v :: u64 where v: "v \<noteq> 0" "\<not> 65535 < v" "p = ucast v"
    by (auto simp: valid_port_text_def split: prod.splits if_splits)
  from v(1) have pos: "0 < unat v" by (simp add: unat_gt_0)
  have "unat v < 2 ^ 16" using v(2) by (simp add: word_less_nat_alt)
  then have "take_bit 16 (unat v) = unat v" by (rule take_bit_nat_eq_self)
  then have "unat p = unat v" by (simp only: v(3) unsigned_ucast_eq) simp
  with pos show ?thesis by auto
qed

lemma load_key_usable:
  "usable c \<Longrightarrow> load_key sec key value c = Some (mark, parsed, c') \<Longrightarrow> usable c'"
  using valid_port_nonzero [of "value"]
  by (auto simp: load_key_def store_value_def usable_def parse_bind_def split: if_splits option.splits)

lemma load_key_mode:
  "load_key sec key value c = Some (mark, parsed, c') \<Longrightarrow> config_mode c' = RadioTransmit \<Longrightarrow>
     config_mode c = RadioTransmit \<or> value = ''transmit''"
  by (auto simp: load_key_def store_value_def parse_radio_mode_def split: if_splits option.splits)

lemma load_line_usable: "usable (loaded st) \<Longrightarrow> usable (loaded (snd (load_line line st)))"
  by (auto simp: load_line_def Let_def load_key_usable split: option.splits prod.splits)

lemma load_lines_invariant:
  assumes "\<And>line st. sublist line all \<Longrightarrow> P st \<Longrightarrow> P (snd (load_line line st))"
    and "suffix text all" and "P st"
  shows "P (snd (load_lines n text st))"
  using assms(2,3)
proof (induction n "text" st rule: load_lines.induct)
  case (1 n "text" st)
  define chunk where "chunk = fgets LINE_BYTES text"
  define line where "line = c_string_at chunk 0"
  obtain e st' where ll: "load_line line st = (e, st')" by fastforce
  have "prefix line chunk" "prefix chunk text"
    by (simp_all add: line_def chunk_def c_string_at_def fgets_def Let_def takeWhile_is_prefix take_is_prefix)
  then have "sublist line text" by (meson prefix_imp_sublist prefix_order.trans)
  with 1(2) have "sublist line all" by (meson sublist_order.order.trans suffix_imp_sublist)
  from assms(1) [OF this 1(3)] have st': "P st'" by (simp add: ll)
  show ?case
  proof (cases "text = [] \<or> LF \<notin> set line \<and> \<not> (LF \<notin> set chunk \<and> length chunk < LINE_BYTES - 1) \<or> e \<noteq> None")
    case True
    then show ?thesis
      using 1(3) st' ll by (subst load_lines.simps) (auto simp: Let_def chunk_def [symmetric] line_def [symmetric])
  next
    case False
    have "suffix (drop (length chunk) text) all" using 1(2) suffix_drop suffix_order.trans by blast
    with 1(1) [OF _ chunk_def refl line_def _ ll [symmetric]] False st'
    have "P (snd (load_lines (n + 1) (drop (length chunk) text) st'))" by blast
    then show ?thesis
      using False ll by (subst load_lines.simps) (auto simp: Let_def chunk_def [symmetric] line_def [symmetric])
  qed
qed

lemma config_load_usable: "usable c \<Longrightarrow> usable (snd (config_load path missing room file c))"
  using load_lines_invariant [where P = "\<lambda>st. usable (loaded st)", OF load_line_usable suffix_order.refl]
  by (auto simp: config_load_def split: config_file.splits prod.splits option.splits) (metis load_state.select_convs(3) snd_conv)+

lemma readable_sublist: "sublist (readable text err) text"
  by (simp add: readable_def Let_def take_is_prefix prefix_imp_sublist)

text \<open>A complete line before the error is read, the cut one is not.\<close>

lemma readable_example:
  "readable (''[http]'' @ [LF] @ ''port=80'') True = ''[http]'' @ [LF]"
  "readable (''[http]'' @ [LF] @ ''port=80'') False = ''[http]'' @ [LF] @ ''port=80''"
  by code_simp+

lemma trim_sublist: "sublist (trim text) text"
  unfolding trim_def
  by (metis rev_rev_ident sublist_order.order.trans sublist_rev suffix_dropWhile suffix_imp_sublist)

end
