(* ===== verification/Launch.thy ===== *)
theory Launch
  imports Config
begin

text \<open>
  Model of \<open>main\<close> in \<open>src/flex1500d.c\<close>: which server, tool or message a command line and a configuration
  file lead to. \<open>args\<close> are the arguments after the program's name and \<open>files\<close> what opening each path
  gives. The servers and tools themselves are elsewhere; here they are the values of \<open>launch\<close>.
\<close>

subsection \<open>What is started\<close>

record live_options =
  lo_bind :: string
  lo_port :: string
  lo_tuning :: bool
  lo_test_page :: bool
  lo_transmit :: bool
  lo_rtl :: bool
  lo_rtl_bind :: string
  lo_rtl_port :: string

datatype launch =
  Finished bool
| IdleStatus
| Offline string string bool
| Live live_options
| Analyze string
| FrameCapture string string
| Demod string string string "string option"

subsection \<open>Addresses and ports\<close>

text \<open>\<open>inet_pton\<close> for IPv4: four decimal numbers up to 255 without leading zeros.\<close>

definition ipv4_part :: "string \<Rightarrow> bool" where
  "ipv4_part s \<longleftrightarrow> s \<noteq> [] \<and> list_all is_digit s \<and> digits_value s \<le> 255 \<and> (hd s = CHR ''0'' \<longrightarrow> length s = 1)"

fun split_dots :: "string \<Rightarrow> string list" where
  "split_dots [] = [[]]"
| "split_dots (c # s) =
     (if c = CHR ''.'' then [] # split_dots s
      else case split_dots s of [] \<Rightarrow> [[c]] | part # parts \<Rightarrow> (c # part) # parts)"

definition inet_pton4 :: "string \<Rightarrow> bool" where
  "inet_pton4 text \<longleftrightarrow> length (split_dots text) = 4 \<and> list_all ipv4_part (split_dots text)"

text \<open>The part of \<open>open_listener\<close> before the first system call: the port it will listen on.\<close>

definition listener_port :: "string \<Rightarrow> nat option" where
  "listener_port port_text =
     (case strtoull port_text of (value, rest) \<Rightarrow>
        if rest = port_text \<or> rest \<noteq> [] \<or> value = 0 \<or> value > 65535 then None else Some (unat value))"

subsection \<open>The configured daemon\<close>

definition is_configured_option :: "string \<Rightarrow> bool" where
  "is_configured_option argument \<longleftrightarrow> argument \<in>
     {''--config'', ''--check-config'', ''--print-effective-config'', ''--daemon'', ''--no-daemon'',
      ''--radio-mode'', ''--http-bind'', ''--http-port'', ''--enable-test-page'',
      ''--disable-test-page'', ''--enable-rtl-tcp'', ''--disable-rtl-tcp'', ''--rtl-tcp-bind'',
      ''--rtl-tcp-port''}"

definition configured_invocation :: "string list \<Rightarrow> bool" where
  "configured_invocation args \<longleftrightarrow>
     args = [] \<or>
     hd args \<notin> {''--status'', ''--help'', ''--analyze'', ''--frame-capture'', ''--demod'',
       ''--serve-offline'', ''--serve-live-rx''} \<and>
     list_ex is_configured_option args"

text \<open>The last \<open>--config\<close> counts; the result also says whether there was one. \<open>None\<close>: it has no path.\<close>

fun config_path :: "string list \<Rightarrow> string \<Rightarrow> bool \<Rightarrow> (string \<times> bool) option" where
  "config_path [] path explicit = Some (path, explicit)"
| "config_path (option # args) path explicit =
     (if option = ''--config''
      then (case args of [] \<Rightarrow> None | p # rest \<Rightarrow> config_path rest p True)
      else config_path args path explicit)"

record overrides =
  check_only :: bool
  print_config :: bool
  effective :: config

text \<open>One option with what follows it: the overrides and the arguments left, or an error.\<close>

definition apply_option :: "string \<Rightarrow> string list \<Rightarrow> overrides \<Rightarrow> (overrides \<times> string list) option" where
  "apply_option option args ov =
     (let c = effective ov;
          set = (\<lambda>c. Some (ov\<lparr>effective := c\<rparr>, args));
          with_value = (\<lambda>f. case args of [] \<Rightarrow> None
            | v # rest \<Rightarrow> map_option (\<lambda>c. (ov\<lparr>effective := c\<rparr>, rest)) (f v))
      in if option = ''--config'' then Some (ov, tl args)
         else if option = ''--check-config'' then Some (ov\<lparr>check_only := True\<rparr>, args)
         else if option = ''--print-effective-config'' then Some (ov\<lparr>print_config := True\<rparr>, args)
         else if option = ''--daemon'' then set (c\<lparr>daemon_enabled := True\<rparr>)
         else if option = ''--no-daemon'' then set (c\<lparr>daemon_enabled := False\<rparr>)
         else if option = ''--enable-test-page'' then set (c\<lparr>test_page := True\<rparr>)
         else if option = ''--disable-test-page'' then set (c\<lparr>test_page := False\<rparr>)
         else if option = ''--enable-rtl-tcp'' then set (c\<lparr>rtl_enabled := True\<rparr>)
         else if option = ''--disable-rtl-tcp'' then set (c\<lparr>rtl_enabled := False\<rparr>)
         else if option = ''--radio-mode''
         then with_value (\<lambda>v. map_option (\<lambda>m. c\<lparr>config_mode := m\<rparr>) (parse_radio_mode v))
         else if option = ''--http-bind''
         then with_value (\<lambda>v. map_option (\<lambda>b. c\<lparr>http_bind := b\<rparr>) (parse_bind v))
         else if option = ''--http-port''
         then with_value (\<lambda>v. map_option (\<lambda>p. c\<lparr>http_port := p\<rparr>) (valid_port_text v))
         else if option = ''--rtl-tcp-bind''
         then with_value (\<lambda>v. map_option (\<lambda>b. c\<lparr>rtl_bind := b\<rparr>) (parse_bind v))
         else if option = ''--rtl-tcp-port''
         then with_value (\<lambda>v. map_option (\<lambda>p. c\<lparr>rtl_port := p\<rparr>) (valid_port_text v))
         else None)"

lemma apply_option_args: "apply_option option args ov = Some (ov', rest) \<Longrightarrow> suffix rest args"
  by (auto simp: apply_option_def Let_def suffix_tl suffix_ConsI split: if_splits list.splits)

function apply_options :: "string list \<Rightarrow> overrides \<Rightarrow> overrides option" where
  "apply_options [] ov = Some ov"
| "apply_options (option # args) ov =
     (case apply_option option args ov of None \<Rightarrow> None | Some (ov, rest) \<Rightarrow> apply_options rest ov)"
  by pat_completeness auto

termination
  by (relation "measure (\<lambda>(args, ov). length args)")
    (auto dest!: apply_option_args simp: suffix_length_le less_Suc_eq_le)

definition DEFAULT_CONFIG_PATH :: string where
  "DEFAULT_CONFIG_PATH = ''/etc/flex1500d/flex1500d.conf''"

definition live_options_of :: "config \<Rightarrow> live_options" where
  "live_options_of c =
     \<lparr>lo_bind = http_bind c, lo_port = show_nat (unat (http_port c)),
      lo_tuning = (config_mode c = RadioRxTuning \<or> config_mode c = RadioTransmit),
      lo_test_page = test_page c, lo_transmit = (config_mode c = RadioTransmit),
      lo_rtl = rtl_enabled c, lo_rtl_bind = rtl_bind c, lo_rtl_port = show_nat (unat (rtl_port c))\<rparr>"

definition run_configured :: "(string \<Rightarrow> config_file) \<Rightarrow> string list \<Rightarrow> launch" where
  "run_configured files args =
     (case config_path args DEFAULT_CONFIG_PATH False of None \<Rightarrow> Finished False
      | Some (path, explicit) \<Rightarrow>
          (case config_load path (\<not> explicit) 512 (files path) config_defaults of
             (Some error, c) \<Rightarrow> Finished False
           | (None, c) \<Rightarrow>
               (case apply_options args \<lparr>check_only = False, print_config = False, effective = c\<rparr> of
                  None \<Rightarrow> Finished False
                | Some ov \<Rightarrow>
                    let c = effective ov
                    in if \<not> inet_pton4 (http_bind c) then Finished False
                       else if \<not> inet_pton4 (rtl_bind c) then Finished False
                       else if check_only ov then Finished True
                       else if print_config ov \<or> \<not> daemon_enabled c
                       then (if print_config ov then Finished True else IdleStatus)
                       else if config_mode c = RadioDisabled
                       then Offline (http_bind c) (show_nat (unat (http_port c))) (test_page c)
                       else Live (live_options_of c))))"

definition serve_live_rx :: "string \<Rightarrow> bool \<Rightarrow> bool \<Rightarrow> bool \<Rightarrow> launch" where
  "serve_live_rx port_text tuning page transmit =
     Live \<lparr>lo_bind = ''0.0.0.0'', lo_port = port_text, lo_tuning = tuning, lo_test_page = page,
           lo_transmit = transmit, lo_rtl = False, lo_rtl_bind = ''0.0.0.0'', lo_rtl_port = ''1234''\<rparr>"

definition main :: "(string \<Rightarrow> config_file) \<Rightarrow> string list \<Rightarrow> launch" where
  "main files args =
     (if configured_invocation args then run_configured files args
      else case args of
        [a] \<Rightarrow>
          if a = ''--status'' then IdleStatus else if a = ''--help'' then Finished True else Finished False
      | [a, b] \<Rightarrow>
          if a = ''--analyze'' then Analyze b
          else if a = ''--serve-offline'' then Offline ''0.0.0.0'' b False else Finished False
      | [a, b, c] \<Rightarrow>
          if a = ''--serve-offline'' \<and> c = ''--enable-test-page'' then Offline ''0.0.0.0'' b True
          else if a = ''--frame-capture'' then FrameCapture b c
          else if a = ''--serve-live-rx'' \<and> c = ''--initialize-radio'' then serve_live_rx b False False False
          else if a = ''--serve-live-rx'' \<and> c = ''--initialize-radio-and-enable-rx-tuning''
          then serve_live_rx b True False False
          else if a = ''--serve-live-rx'' \<and> c = ''--initialize-radio-and-enable-transmit''
          then serve_live_rx b True False True
          else Finished False
      | [a, b, c, d] \<Rightarrow>
          if a = ''--demod'' then Demod b c d None
          else if a = ''--serve-live-rx'' \<and> c = ''--initialize-radio-and-enable-rx-tuning'' \<and>
                  d = ''--enable-test-page''
          then serve_live_rx b True True False
          else if a = ''--serve-live-rx'' \<and> c = ''--initialize-radio-and-enable-transmit'' \<and>
                  d = ''--enable-test-page''
          then serve_live_rx b True True True
          else Finished False
      | [a, b, c, d, e] \<Rightarrow>
          if a = ''--demod'' then Demod b c d (Some e) else Finished False
      | _ \<Rightarrow> Finished False)"

subsection \<open>Transmitting only on request\<close>

lemma sublist_trans: "sublist a b \<Longrightarrow> sublist b c \<Longrightarrow> sublist a c"
  by (rule sublist_order.order.trans)

lemma load_line_mode:
  assumes "config_mode (loaded (snd (load_line line st))) = RadioTransmit"
  shows "config_mode (loaded st) = RadioTransmit \<or> sublist ''transmit'' line"
proof -
  define text' where "text' = trim line"
  define v where "v = trim (drop (length (takeWhile (\<lambda>c. c \<noteq> CHR ''='') text') + 1) text')"
  have "sublist v text'"
    unfolding v_def using trim_sublist suffix_drop suffix_imp_sublist sublist_trans by blast
  then have "sublist v line" unfolding text'_def using trim_sublist sublist_trans by blast
  moreover have "config_mode (loaded st) = RadioTransmit \<or> v = ''transmit''"
    using assms unfolding load_line_def Let_def text'_def [symmetric] v_def [symmetric]
    by (auto split: if_splits option.splits prod.splits dest: load_key_mode)
  ultimately show ?thesis by auto
qed

lemma config_load_mode:
  assumes "config_load path missing room file c = (e, c')" and "config_mode c' = RadioTransmit"
    and "config_mode c \<noteq> RadioTransmit"
  shows "\<exists>text err. file = File text err \<and> sublist ''transmit'' text"
proof (cases "file")
  case (Unopened a b)
  then show ?thesis using assms by (auto simp: config_load_def split: if_splits)
next
  case (File text' err)
  let ?st = "\<lparr>in_section = SectionNone, seen = [], loaded = c\<rparr>"
  define lines where "lines = readable text' err"
  have "config_mode (loaded (snd (load_lines 1 lines ?st))) = RadioTransmit"
    using assms(1,2) File
    by (auto simp: config_load_def lines_def split: prod.splits option.splits if_splits)
  moreover have "config_mode (loaded (snd (load_lines 1 lines ?st))) = RadioTransmit \<longrightarrow> sublist ''transmit'' lines"
    using assms(3)
    by (intro load_lines_invariant [where all = lines
        and P = "\<lambda>st. config_mode (loaded st) = RadioTransmit \<longrightarrow> sublist ''transmit'' lines"])
      (auto dest!: load_line_mode intro: sublist_trans)
  ultimately have "sublist ''transmit'' lines" by blast
  then have "sublist ''transmit'' text'" unfolding lines_def using readable_sublist by (rule sublist_trans)
  with File show ?thesis by blast
qed

lemma apply_option_mode:
  assumes "apply_option option args ov = Some (ov', rest)" and "config_mode (effective ov') = RadioTransmit"
  shows "config_mode (effective ov) = RadioTransmit \<or> sublist [''--radio-mode'', ''transmit''] (option # args)"
  using assms
  by (auto simp: apply_option_def Let_def parse_radio_mode_def sublist_Cons_right split: if_splits list.splits)

lemma apply_options_mode:
  "apply_options args ov = Some ov' \<Longrightarrow> config_mode (effective ov') = RadioTransmit \<Longrightarrow>
     config_mode (effective ov) = RadioTransmit \<or> sublist [''--radio-mode'', ''transmit''] args"
proof (induction args ov rule: apply_options.induct)
  case (2 option args ov)
  then obtain ov1 rest where step: "apply_option option args ov = Some (ov1, rest)"
    "apply_options rest ov1 = Some ov'"
    by (auto split: option.splits prod.splits)
  have "sublist rest (option # args)"
    using apply_option_args [OF step(1)] by (meson suffix_ConsI suffix_imp_sublist)
  with 2(1) [OF step(1) refl step(2) 2(3)] apply_option_mode [OF step(1)] show ?case
    using sublist_trans by blast
qed simp

lemma config_path_from: "config_path args path explicit = Some (p, e) \<Longrightarrow> p = path \<or> p \<in> set args"
  by (induction args path explicit rule: config_path.induct) (auto split: if_splits list.splits)

lemma live_served: "serve_live_rx p t g x = Live o' \<Longrightarrow> lo_transmit o' = x"
  by (auto simp: serve_live_rx_def)

lemma short_list:
  obtains "args = []" | a where "args = [a]" | a b where "args = [a, b]" | a b c where "args = [a, b, c]"
  | a b c d where "args = [a, b, c, d]" | a b c d e where "args = [a, b, c, d, e]"
  | a b c d e f more where "args = a # b # c # d # e # f # more"
  by (metis list.exhaust)

lemma main_unconfigured:
  assumes "main files args = Live o'" and "lo_transmit o'" and "\<not> configured_invocation args"
  shows "args \<noteq> [] \<and> hd args = ''--serve-live-rx'' \<and> ''--initialize-radio-and-enable-transmit'' \<in> set args"
proof (cases "\<exists>p c more. args = ''--serve-live-rx'' # p # c # more")
  case True
  then obtain p c more where args: "args = ''--serve-live-rx'' # p # c # more" by blast
  show ?thesis
  proof (cases "c = ''--initialize-radio-and-enable-transmit''")
    case False
    then have "lo_transmit o' = False"
      using assms(1,3) unfolding main_def args by (cases more) (auto simp: live_served split: list.split_asm if_split_asm)
    with assms(2) show ?thesis by simp
  qed (simp add: args)
next
  case False
  then have "main files args \<noteq> Live o'"
  proof (cases args rule: short_list)
    case 1
    then show ?thesis using assms(3) by (simp add: configured_invocation_def)
  next
    case (2 a)
    then show ?thesis using assms(3) by (simp add: main_def)
  next
    case (3 a b)
    then show ?thesis using assms(3) by (simp add: main_def)
  next
    case (4 a b c)
    then have "a \<noteq> ''--serve-live-rx''" using False by auto
    then show ?thesis using assms(3) by (simp add: main_def 4)
  next
    case (5 a b c d)
    then have "a \<noteq> ''--serve-live-rx''" using False by auto
    then show ?thesis using assms(3) by (simp add: main_def 5)
  next
    case (6 a b c d e)
    then show ?thesis using assms(3) by (simp add: main_def)
  next
    case (7 a b c d e f more)
    then show ?thesis using assms(3) by (simp add: main_def)
  qed
  with assms(1) show ?thesis by simp
qed

lemma launch_example:
  obtains o' where "main (\<lambda>_. Unopened True '''') [''--radio-mode'', ''transmit''] = Live o'" "lo_transmit o'"
proof
  let ?args = "[''--radio-mode'', ''transmit'']"
  have cfg: "configured_invocation ?args" by (simp add: configured_invocation_def is_configured_option_def)
  have path: "config_path ?args DEFAULT_CONFIG_PATH False = Some (DEFAULT_CONFIG_PATH, False)" by simp
  have opts: "apply_options ?args ov = Some (ov\<lparr>effective := effective ov\<lparr>config_mode := RadioTransmit\<rparr>\<rparr>)" for ov
    by (simp add: apply_option_def Let_def parse_radio_mode_def)
  have addr: "inet_pton4 ''0.0.0.0''" by (simp add: inet_pton4_def ipv4_part_def is_digit_def code_of_def digits_value_def digit_value_def)
  show "main (\<lambda>_. Unopened True '''') ?args =
      Live (live_options_of (config_defaults\<lparr>config_mode := RadioTransmit\<rparr>))"
    by (simp add: main_def cfg run_configured_def path opts config_load_def config_defaults_def addr
        del: apply_options.simps)
qed (simp add: live_options_of_def)

text \<open>C6.
  The daemon transmits only when somebody asked for it in so many words: with
  \<open>--radio-mode transmit\<close>, with \<open>--initialize-radio-and-enable-transmit\<close>, or in the configuration
  file it read. No default, no error in a file and no other option leads there.
\<close>

theorem transmit_needs_consent:
  assumes "main files args = Live o'" and "lo_transmit o'"
  shows "sublist [''--radio-mode'', ''transmit''] args \<or>
    args \<noteq> [] \<and> hd args = ''--serve-live-rx'' \<and> ''--initialize-radio-and-enable-transmit'' \<in> set args \<or>
    (\<exists>path text err. (path = DEFAULT_CONFIG_PATH \<or> path \<in> set args) \<and> files path = File text err \<and>
       sublist ''transmit'' text)"
proof (cases "configured_invocation args")
  case False
  then show ?thesis using assms by (simp add: main_unconfigured)
next
  case True
  then have run: "run_configured files args = Live o'" using assms(1) by (simp add: main_def)
  then obtain path explicit where path: "config_path args DEFAULT_CONFIG_PATH False = Some (path, explicit)"
    by (auto simp: run_configured_def split: option.splits)
  obtain e c where load: "config_load path (\<not> explicit) 512 (files path) config_defaults = (e, c)" by fastforce
  with run path have "e = None" by (cases e) (auto simp: run_configured_def)
  with run path load obtain ov where ov:
    "apply_options args \<lparr>check_only = False, print_config = False, effective = c\<rparr> = Some ov"
    by (auto simp: run_configured_def split: option.splits)
  have "o' = live_options_of (effective ov)"
    using run path load \<open>e = None\<close> ov by (auto simp: run_configured_def Let_def split: if_splits)
  then have "config_mode (effective ov) = RadioTransmit" using assms(2) by (simp add: live_options_of_def)
  from apply_options_mode [OF ov this] show ?thesis
  proof
    assume "config_mode (effective \<lparr>check_only = False, print_config = False, effective = c\<rparr>) = RadioTransmit"
    then have "config_mode c = RadioTransmit" by simp
    from config_load_mode [OF load this] config_path_from [OF path] show ?thesis
      by (auto simp: config_defaults_def)
  qed blast
qed

lemma transmit_needs_consent_witness:
  "(\<exists>o'. main (\<lambda>_. Unopened True '''') [''--radio-mode'', ''transmit''] = Live o' \<and> lo_transmit o') \<and>
   sublist [''--radio-mode'', ''transmit''] [''--radio-mode'', ''transmit'']"
proof -
  obtain o' where o': "main (\<lambda>_. Unopened True '''') [''--radio-mode'', ''transmit''] = Live o'" "lo_transmit o'"
    by (rule launch_example)
  from transmit_needs_consent [OF this] this show ?thesis by auto
qed

subsection \<open>What a configured server listens on\<close>

lemma apply_option_usable:
  "apply_option option args ov = Some (ov', rest) \<Longrightarrow> usable (effective ov) \<Longrightarrow> usable (effective ov')"
  using valid_port_nonzero [of "hd args"]
  by (auto simp: apply_option_def Let_def usable_def parse_bind_def split: if_splits list.splits)

lemma apply_options_usable:
  "apply_options args ov = Some ov' \<Longrightarrow> usable (effective ov) \<Longrightarrow> usable (effective ov')"
  by (induction args ov rule: apply_options.induct)
    (auto split: option.splits prod.splits dest: apply_option_usable)

lemma listener_show: "p \<noteq> 0 \<Longrightarrow> listener_port (show_nat (unat p)) = Some (unat (p :: u16))"
proof -
  assume "p \<noteq> 0"
  then have pos: "0 < unat p" by (simp add: unat_gt_0)
  have lt: "unat p < 65536" using unsigned_less [of p] by simp
  then have up: "unat (ucast p :: u64) = unat p" by (simp add: unsigned_ucast_eq take_bit_nat_eq_self)
  then have "(ucast p :: u64) \<noteq> 0" "\<not> (65535 :: u64) < ucast p"
    using pos lt by (auto simp: word_less_nat_alt word_unat_eq_iff)
  moreover have "strtoull (show_nat (unat p)) = (ucast p, [])"
    using strtoull_show [of "unat p" "[]"] lt by simp
  moreover have "[] \<noteq> show_nat (unat p)" using show_nat_digits [of "unat p"] by metis
  ultimately show ?thesis by (simp add: listener_port_def up)
qed

text \<open>
  A server started from the configuration, the command line on top, listens on what it was told:
  both addresses are IPv4 addresses and both port texts are ports the listener accepts.
\<close>

theorem configured_server_listens:
  assumes "main files args = Live o'" and "configured_invocation args"
  shows "inet_pton4 (lo_bind o') \<and> inet_pton4 (lo_rtl_bind o') \<and>
    (\<exists>http rtl. listener_port (lo_port o') = Some http \<and> listener_port (lo_rtl_port o') = Some rtl \<and>
       http \<in> {1..65535} \<and> rtl \<in> {1..65535})"
proof -
  have run: "run_configured files args = Live o'" using assms by (simp add: main_def)
  then obtain path explicit where path: "config_path args DEFAULT_CONFIG_PATH False = Some (path, explicit)"
    by (auto simp: run_configured_def split: option.splits)
  obtain e c where load: "config_load path (\<not> explicit) 512 (files path) config_defaults = (e, c)" by fastforce
  have "usable c" using config_load_usable [of config_defaults path "\<not> explicit" 512 "files path"] load
    by (simp add: usable_def config_defaults_def)
  from run path load have "e = None" by (cases e) (auto simp: run_configured_def)
  with run path load obtain ov where ov:
    "apply_options args \<lparr>check_only = False, print_config = False, effective = c\<rparr> = Some ov"
    by (auto simp: run_configured_def split: option.splits)
  have u: "usable (effective ov)" using apply_options_usable [OF ov] \<open>usable c\<close> by simp
  have "o' = live_options_of (effective ov) \<and> inet_pton4 (http_bind (effective ov)) \<and>
      inet_pton4 (rtl_bind (effective ov))"
    using run path load \<open>e = None\<close> ov by (auto simp: run_configured_def Let_def split: if_splits)
  with u show ?thesis
    using unsigned_less [of "http_port (effective ov)", where 'a = nat]
      unsigned_less [of "rtl_port (effective ov)", where 'a = nat]
    by (auto simp: live_options_of_def usable_def listener_show Suc_le_eq unat_gt_0)
qed

lemma configured_server_listens_witness:
  "\<exists>o'. main (\<lambda>_. Unopened True '''') [''--radio-mode'', ''transmit''] = Live o' \<and>
     inet_pton4 (lo_bind o') \<and> inet_pton4 (lo_rtl_bind o') \<and>
     (\<exists>http rtl. listener_port (lo_port o') = Some http \<and> listener_port (lo_rtl_port o') = Some rtl \<and>
       http \<in> {1..65535} \<and> rtl \<in> {1..65535})"
proof -
  obtain o' where o': "main (\<lambda>_. Unopened True '''') [''--radio-mode'', ''transmit''] = Live o'"
    by (rule launch_example)
  have "configured_invocation [''--radio-mode'', ''transmit'']"
    by (simp add: configured_invocation_def is_configured_option_def)
  from configured_server_listens [OF o' this] o' show ?thesis by blast
qed

text \<open>C32.
  The configuration keeps its type: whatever the file holds, also when it is refused half way, and
  whatever options follow, the ports are never 0 and the addresses are texts of 1 to 63 characters.
\<close>

theorem configuration_well_typed:
  assumes "usable c0" and "config_load path missing room file c0 = (e, c)"
  shows "usable c \<and>
    (case apply_options args \<lparr>check_only = check, print_config = print, effective = c\<rparr> of
       None \<Rightarrow> True | Some ov \<Rightarrow> usable (effective ov))"
proof -
  have "usable c" using config_load_usable [OF assms(1), of path missing room "file"] assms(2) by simp
  then show ?thesis by (auto split: option.split dest: apply_options_usable)
qed

lemma configuration_well_typed_witness:
  "\<exists>e c. config_load ''f'' False 512 (Unopened True ''x'') config_defaults = (Some e, c) \<and> usable c \<and>
     (case apply_options [''--http-port'', ''0''] \<lparr>check_only = False, print_config = False, effective = c\<rparr> of
        None \<Rightarrow> True | Some ov \<Rightarrow> usable (effective ov))"
proof -
  have "usable config_defaults" by (simp add: usable_def config_defaults_def)
  moreover obtain e where "config_load ''f'' False 512 (Unopened True ''x'') config_defaults = (Some e, config_defaults)"
    by (simp add: config_load_def)
  ultimately show ?thesis
    using configuration_well_typed [of config_defaults "''f''" False 512 "Unopened True ''x''" _ _
        "[''--http-port'', ''0'']" False False] by blast
qed

end
