(* ===== verification/Dsp.thy ===== *)
theory Dsp
  imports Tx_Dsp
begin

text \<open>
  Model of \<open>src/dsp.c\<close>, the demodulator of the offline tool: a 129 tap complex filter over a circular
  history, AM, FM and single-sideband detection, a high-pass and the automatic gain. Every
  operation on \<open>float\<close>s is written with its rounding, as in \<open>Tx_Dsp\<close>; \<open>atan2f\<close> joins the
  functions of \<open>libm\<close> as a parameter.
\<close>

datatype demod_mode = DemodAm | DemodFm | DemodUsb | DemodLsb

record dsp_config =
  cfg_mode :: demod_mode
  cfg_sample_rate :: rat
  cfg_offset_hz :: rat
  cfg_agc_enabled :: bool

record dsp =
  dm_config :: dsp_config
  dm_coefficients :: "iq_sample list"
  dm_history :: "iq_sample list"
  dm_index :: nat
  nco_phase :: rat
  previous_fm :: iq_sample
  have_previous_fm :: bool
  audio_previous_input :: rat
  audio_previous_output :: rat
  agc_envelope :: rat

abbreviation zero_sample :: iq_sample where "zero_sample \<equiv> \<lparr>i_part = 0, q_part = 0\<rparr>"

abbreviation DSP_FIR_TAPS :: nat where "DSP_FIR_TAPS \<equiv> 129"

subsection \<open>The filter's coefficients\<close>

definition filter_cutoff :: "demod_mode \<Rightarrow> rat" where
  "filter_cutoff mode = (case mode of DemodAm \<Rightarrow> 6000 | DemodFm \<Rightarrow> 8000 | _ \<Rightarrow> 1350)"

definition filter_center :: "demod_mode \<Rightarrow> rat" where
  "filter_center mode = (case mode of DemodUsb \<Rightarrow> 1650 | DemodLsb \<Rightarrow> - 1650 | _ \<Rightarrow> 0)"

definition windowed_lowpass :: "libm \<Rightarrow> dsp_config \<Rightarrow> nat \<Rightarrow> rat" where
  "windowed_lowpass m c tap =
     (let cutoff = filter_cutoff (cfg_mode c); offset = int tap - 64;
          lowpass = (if offset = 0 then f32 (f32 (2 * cutoff) / cfg_sample_rate c)
            else f32 (lib_sinf m (f32 (f32 (f32 (two_pi_f * cutoff) * of_int offset) / cfg_sample_rate c)) /
                      f32 (PI_F * of_int offset)))
      in f32 (lowpass * tap_window m tap))"

definition design_filter :: "libm \<Rightarrow> dsp_config \<Rightarrow> iq_sample list" where
  "design_filter m c =
     (let center = filter_center (cfg_mode c);
          phase = (\<lambda>tap. f32 (f32 (f32 (two_pi_f * center) * of_int (int tap - 64)) / cfg_sample_rate c));
          coefficients = map (\<lambda>tap. let lowpass = windowed_lowpass m c tap in
            \<lparr>i_part = f32 (lowpass * lib_cosf m (phase tap)),
             q_part = f32 (lowpass * lib_sinf m (phase tap))\<rparr>) [0..<DSP_FIR_TAPS];
          total = foldl (\<lambda>t tap. f32 (t + windowed_lowpass m c tap)) 0 [0..<DSP_FIR_TAPS]
      in if center = 0 \<and> total \<noteq> 0
         then map (\<lambda>h. h\<lparr>i_part := f32 (i_part h / total)\<rparr>) coefficients else coefficients)"

definition dsp_init :: "libm \<Rightarrow> dsp_config \<Rightarrow> dsp option" where
  "dsp_init m c =
     (if cfg_sample_rate c \<le> 0 \<or> \<bar>cfg_offset_hz c\<bar> \<ge> f32 (cfg_sample_rate c / 2) then None
      else Some \<lparr>dm_config = c, dm_coefficients = design_filter m c,
             dm_history = replicate DSP_FIR_TAPS zero_sample, dm_index = 0, nco_phase = 0,
             previous_fm = zero_sample, have_previous_fm = False, audio_previous_input = 0,
             audio_previous_output = 0, agc_envelope = 1\<rparr>)"

subsection \<open>Filtering\<close>

definition mac :: "iq_sample \<Rightarrow> iq_sample \<Rightarrow> iq_sample \<Rightarrow> iq_sample" where
  "mac out h x =
     \<lparr>i_part = f32 (i_part out + f32 (f32 (i_part x * i_part h) - f32 (q_part x * q_part h))),
      q_part = f32 (q_part out + f32 (f32 (i_part x * q_part h) + f32 (q_part x * i_part h)))\<rparr>"

fun filter_loop :: "iq_sample list \<Rightarrow> iq_sample list \<Rightarrow> nat \<Rightarrow> iq_sample \<Rightarrow> iq_sample" where
  "filter_loop [] history position out = out"
| "filter_loop (h # coefficients) history position out =
     filter_loop coefficients history (if position = 0 then DSP_FIR_TAPS - 1 else position - 1)
       (mac out h (history ! position))"

definition filter_sample :: "iq_sample \<Rightarrow> dsp \<Rightarrow> iq_sample \<times> dsp" where
  "filter_sample sample d =
     (let d = d\<lparr>dm_history := (dm_history d)[dm_index d := sample]\<rparr>
      in (filter_loop (dm_coefficients d) (dm_history d) (dm_index d) zero_sample,
          d\<lparr>dm_index := (dm_index d + 1) mod DSP_FIR_TAPS\<rparr>))"

subsection \<open>Demodulation\<close>

definition demodulate :: "libm \<Rightarrow> (rat \<Rightarrow> rat \<Rightarrow> rat) \<Rightarrow> iq_sample \<Rightarrow> dsp \<Rightarrow> rat \<times> dsp" where
  "demodulate m atan2f sample d =
     (case cfg_mode (dm_config d) of
        DemodAm \<Rightarrow> (lib_hypotf m (i_part sample) (q_part sample), d)
      | DemodFm \<Rightarrow>
          if \<not> have_previous_fm d then (0, d\<lparr>previous_fm := sample, have_previous_fm := True\<rparr>)
          else
            let p = previous_fm d;
                cross = f32 (f32 (i_part p * q_part sample) - f32 (q_part p * i_part sample));
                dot = f32 (f32 (i_part p * i_part sample) + f32 (q_part p * q_part sample))
            in (f32 (atan2f cross dot / PI_F), d\<lparr>previous_fm := sample\<rparr>)
      | _ \<Rightarrow> (i_part sample, d))"

definition advance_nco :: "dsp \<Rightarrow> dsp" where
  "advance_nco d =
     (let step = f32 (f32 (- two_pi_f * cfg_offset_hz (dm_config d)) / cfg_sample_rate (dm_config d));
          phase = f32 (nco_phase d + step);
          phase = (if phase > PI_F then f32 (phase - two_pi_f) else phase);
          phase = (if phase < - PI_F then f32 (phase + two_pi_f) else phase)
      in d\<lparr>nco_phase := phase\<rparr>)"

definition shift_sample :: "libm \<Rightarrow> rat \<Rightarrow> iq_sample \<Rightarrow> iq_sample" where
  "shift_sample m phase x =
     (let cosine = lib_cosf m phase; sine = lib_sinf m phase
      in \<lparr>i_part = f32 (f32 (i_part x * cosine) - f32 (q_part x * sine)),
          q_part = f32 (f32 (i_part x * sine) + f32 (q_part x * cosine))\<rparr>)"

definition dsp_sample :: "libm \<Rightarrow> (rat \<Rightarrow> rat \<Rightarrow> rat) \<Rightarrow> iq_sample \<Rightarrow> dsp \<Rightarrow> rat \<times> dsp" where
  "dsp_sample m atan2f x d =
     (let shifted = shift_sample m (nco_phase d) x;
          (filtered, d) = filter_sample shifted (advance_nco d);
          (raw, d) = demodulate m atan2f filtered d;
          highpass = f32 (f32 (raw - audio_previous_input d) +
                          f32 (f32 (995 / 1000) * audio_previous_output d));
          d = d\<lparr>audio_previous_input := raw, audio_previous_output := highpass\<rparr>
      in if cfg_agc_enabled (dm_config d)
         then
           let magnitude = \<bar>highpass\<bar>;
               coefficient = (if magnitude > agc_envelope d then f32 (1 / 100) else f32 (1 / 10000));
               envelope = f32 (agc_envelope d + f32 (coefficient * f32 (magnitude - agc_envelope d)))
           in (f32 (highpass * f32 (f32 (7 / 10) / max envelope (f32 (1 / 10 ^ 6)))),
               d\<lparr>agc_envelope := envelope\<rparr>)
         else (highpass, d))"

fun dsp_samples :: "libm \<Rightarrow> (rat \<Rightarrow> rat \<Rightarrow> rat) \<Rightarrow> iq_sample list \<Rightarrow> dsp \<Rightarrow> rat list \<times> dsp" where
  "dsp_samples m atan2f [] d = ([], d)"
| "dsp_samples m atan2f (x # xs) d =
     (case dsp_sample m atan2f x d of (a, d) \<Rightarrow>
      case dsp_samples m atan2f xs d of (audio, d) \<Rightarrow> (a # audio, d))"

definition dsp_process ::
  "libm \<Rightarrow> (rat \<Rightarrow> rat \<Rightarrow> rat) \<Rightarrow> iq_sample list \<Rightarrow> nat \<Rightarrow> dsp \<Rightarrow> rat list \<times> dsp" where
  "dsp_process m atan2f input audio_capacity d = dsp_samples m atan2f (take audio_capacity input) d"

definition demod_mode_name :: "demod_mode \<Rightarrow> string" where
  "demod_mode_name mode =
     (case mode of DemodAm \<Rightarrow> ''am'' | DemodFm \<Rightarrow> ''fm'' | DemodUsb \<Rightarrow> ''usb'' | DemodLsb \<Rightarrow> ''lsb'')"

definition parse_demod_mode :: "string \<Rightarrow> demod_mode option" where
  "parse_demod_mode t = find (\<lambda>mode. t = demod_mode_name mode) [DemodAm, DemodFm, DemodUsb, DemodLsb]"

lemma parse_demod_name [simp]: "parse_demod_mode (demod_mode_name mode) = Some mode"
  by (cases mode) (simp_all add: parse_demod_mode_def demod_mode_name_def)

subsection \<open>The circular history is a convolution\<close>

text \<open>The reference: the products with the most recent inputs, newest first, zeros before the start.\<close>

definition convolve :: "iq_sample list \<Rightarrow> iq_sample list \<Rightarrow> iq_sample" where
  "convolve coefficients newest = foldl (\<lambda>out (h, x). mac out h x) zero_sample (zip coefficients newest)"

fun filter_all :: "iq_sample list \<Rightarrow> dsp \<Rightarrow> iq_sample list \<times> dsp" where
  "filter_all [] d = ([], d)"
| "filter_all (x # xs) d =
     (case filter_sample x d of (y, d) \<Rightarrow> case filter_all xs d of (ys, d) \<Rightarrow> (y # ys, d))"

text \<open>The stored samples, newest first, when \<open>p\<close> is the position of the newest.\<close>

definition slot :: "nat \<Rightarrow> nat \<Rightarrow> nat" where
  "slot p k = (p + (DSP_FIR_TAPS - k)) mod DSP_FIR_TAPS"

definition walk :: "iq_sample list \<Rightarrow> nat \<Rightarrow> iq_sample list" where
  "walk history p = map (\<lambda>k. history ! slot p k) [0..<DSP_FIR_TAPS]"

lemma back_one: "0 < n \<Longrightarrow> (if Suc a mod n = 0 then n - 1 else Suc a mod n - 1) = a mod (n::nat)"
  by (auto simp: mod_Suc)

lemma slot_Suc:
  assumes "k < DSP_FIR_TAPS"
  shows "(if slot p k = 0 then DSP_FIR_TAPS - 1 else slot p k - 1) = slot p (Suc k)"
proof -
  have "DSP_FIR_TAPS - k = Suc (DSP_FIR_TAPS - Suc k)" using assms by simp
  then show ?thesis
    using back_one [of DSP_FIR_TAPS "p + (DSP_FIR_TAPS - Suc k)"] by (simp only: slot_def add_Suc_right)
qed

lemma slot_0: "p < DSP_FIR_TAPS \<Longrightarrow> slot p 0 = p"
  by (simp add: slot_def)

lemma filter_loop_walk:
  "j + length hs \<le> DSP_FIR_TAPS \<Longrightarrow>
   filter_loop hs history (slot p j) out =
     foldl (\<lambda>out (h, x). mac out h x) out (zip hs (map (\<lambda>k. history ! slot p k) [j..<j + length hs]))"
proof (induction hs arbitrary: j out)
  case (Cons h hs)
  have "j < DSP_FIR_TAPS" using Cons.prems by simp
  from slot_Suc [OF this, of p] have "filter_loop (h # hs) history (slot p j) out =
      filter_loop hs history (slot p (Suc j)) (mac out h (history ! slot p j))" by simp
  moreover have "[j..<j + length (h # hs)] = j # [Suc j..<Suc j + length hs]"
    by (simp add: upt_conv_Cons del: upt_Suc)
  moreover have "Suc j + length hs \<le> DSP_FIR_TAPS" using Cons.prems by simp
  ultimately show ?case by (simp only: Cons.IH list.map zip_Cons_Cons foldl_Cons case_prod_conv)
qed simp

lemma filter_sample_walk:
  assumes "dm_index d < DSP_FIR_TAPS" and "length (dm_coefficients d) = DSP_FIR_TAPS"
  shows "fst (filter_sample x d) =
    convolve (dm_coefficients d) (walk ((dm_history d)[dm_index d := x]) (dm_index d))"
  using filter_loop_walk [of 0 "dm_coefficients d" "(dm_history d)[dm_index d := x]" "dm_index d" zero_sample]
  by (simp add: assms slot_0 filter_sample_def convolve_def walk_def Let_def del: upt_Suc)

text \<open>The next sample overwrites the oldest.\<close>

lemma walk_update:
  assumes "p < DSP_FIR_TAPS" and "length history = DSP_FIR_TAPS"
  shows "walk (history[Suc p mod DSP_FIR_TAPS := x]) (Suc p mod DSP_FIR_TAPS) = x # butlast (walk history p)"
proof (rule nth_equalityI)
  let ?n = "DSP_FIR_TAPS" and ?q = "Suc p mod DSP_FIR_TAPS"
  show "length (walk (history[?q := x]) ?q) = length (x # butlast (walk history p))" by (simp add: walk_def)
  fix k assume "k < length (walk (history[?q := x]) ?q)"
  then have k: "k < ?n" by (simp add: walk_def)
  have at: "walk (history[?q := x]) ?q ! k = history[?q := x] ! slot ?q k"
    using k by (simp add: walk_def del: upt_Suc)
  show "walk (history[?q := x]) ?q ! k = (x # butlast (walk history p)) ! k"
  proof (cases k)
    case 0
    then show ?thesis using assms(2) at by (simp add: slot_0)
  next
    case (Suc j)
    have "slot ?q k = (Suc p + (?n - k)) mod ?n" by (simp only: slot_def mod_add_left_eq)
    also have "Suc p + (?n - k) = p + (?n - j)" using Suc k by simp
    finally have idx: "slot ?q k = slot p j" by (simp only: slot_def)
    have n: "?n - k < ?n" "?n - k \<noteq> 0" "(0::nat) < ?n" using Suc k by simp_all
    have "(?q + (?n - k)) mod ?n \<noteq> (?q + 0) mod ?n"
      by (rule contrapos_nn [OF n(2)]) (rule mod_offset_eq [OF n(1,3), of ?q])
    then have "slot ?q k \<noteq> ?q" by (simp add: slot_def)
    then have "walk (history[?q := x]) ?q ! k = history ! slot ?q k" using at by simp
    also have "\<dots> = (x # butlast (walk history p)) ! k"
      unfolding idx using Suc k by (simp add: walk_def nth_butlast del: upt_Suc)
    finally show ?thesis .
  qed
qed

lemma filter_sample_fields:
  "dm_coefficients (snd (filter_sample x d)) = dm_coefficients d"
  "dm_index (snd (filter_sample x d)) = (dm_index d + 1) mod DSP_FIR_TAPS"
  "dm_history (snd (filter_sample x d)) = (dm_history d)[dm_index d := x]"
  by (simp_all add: filter_sample_def Let_def)

text \<open>\<open>newest\<close> is what the history holds, newest first.\<close>

definition remembers :: "iq_sample list \<Rightarrow> dsp \<Rightarrow> bool" where
  "remembers newest d \<longleftrightarrow>
     length (dm_coefficients d) = DSP_FIR_TAPS \<and> length (dm_history d) = DSP_FIR_TAPS \<and>
     (\<exists>p<DSP_FIR_TAPS. dm_index d = Suc p mod DSP_FIR_TAPS \<and> walk (dm_history d) p = newest)"

lemma remembers_step:
  assumes "remembers newest d"
  shows "fst (filter_sample x d) = convolve (dm_coefficients d) (x # butlast newest)"
    and "remembers (x # butlast newest) (snd (filter_sample x d))"
proof -
  obtain p where p: "p < DSP_FIR_TAPS" "dm_index d = Suc p mod DSP_FIR_TAPS" "walk (dm_history d) p = newest"
    and len: "length (dm_coefficients d) = DSP_FIR_TAPS" "length (dm_history d) = DSP_FIR_TAPS"
    using assms by (auto simp: remembers_def)
  have w: "walk ((dm_history d)[dm_index d := x]) (dm_index d) = x # butlast newest"
    using walk_update [OF p(1) len(2)] p by simp
  have i: "dm_index d < DSP_FIR_TAPS" by (simp add: p(2))
  from filter_sample_walk [OF i len(1)] w
  show "fst (filter_sample x d) = convolve (dm_coefficients d) (x # butlast newest)" by simp
  show "remembers (x # butlast newest) (snd (filter_sample x d))"
    using w i len unfolding remembers_def filter_sample_fields by (auto intro!: exI [of _ "dm_index d"])
qed

lemma filter_all_reference:
  "remembers newest d \<Longrightarrow> length newest = DSP_FIR_TAPS \<Longrightarrow>
     fst (filter_all xs d) =
       map (\<lambda>n. convolve (dm_coefficients d) (take DSP_FIR_TAPS (rev (take (Suc n) xs) @ newest))) [0..<length xs]"
proof (induction xs arbitrary: newest d)
  case (Cons x xs)
  note step = remembers_step [OF Cons.prems(1), of x]
  have "length (x # butlast newest) = DSP_FIR_TAPS" using Cons.prems(2) by simp
  note IH = Cons.IH [OF step(2) this]
  have b: "butlast newest = take (DSP_FIR_TAPS - 1) newest" using Cons.prems(2) by (simp add: butlast_conv_take)
  have shift: "take (128 - n) (x # take 128 newest) = take (128 - n) (x # newest)" for n
    by (simp add: take_Cons')
  have split: "[0..<length (x # xs)] = 0 # map Suc [0..<length xs]"
    by (simp add: upt_conv_Cons map_Suc_upt del: upt_Suc)
  show ?case
    unfolding split using IH step(1)
    by (simp add: case_prod_beta filter_sample_fields shift b del: upt_Suc) 
qed simp

lemma dsp_init_remembers:
  "dsp_init m c = Some d \<Longrightarrow>
     remembers (replicate DSP_FIR_TAPS zero_sample) d \<and> dm_coefficients d = design_filter m c"
proof -
  assume "dsp_init m c = Some d"
  then have d: "dm_coefficients d = design_filter m c" "dm_history d = replicate DSP_FIR_TAPS zero_sample"
    "dm_index d = 0"
    by (auto simp: dsp_init_def split: if_splits)
  have "length (design_filter m c) = DSP_FIR_TAPS" by (simp add: design_filter_def Let_def)
  moreover have "walk (replicate DSP_FIR_TAPS zero_sample) 128 = replicate DSP_FIR_TAPS zero_sample"
    by (intro nth_equalityI) (simp_all add: walk_def slot_def del: upt_Suc replicate_Suc)
  ultimately show ?thesis
    using d unfolding remembers_def by (auto intro!: exI [of _ 128] simp del: replicate_Suc)
qed

text \<open>C27.
  The filter over the circular history is the convolution it stands for: from a fresh demodulator,
  each output is the sum of the coefficients times the latest 129 inputs, newest first, with zeros
  before the first, added in that order with the same roundings.
\<close>

theorem fir_is_convolution:
  assumes "dsp_init m c = Some d"
  shows "fst (filter_all xs d) =
    map (\<lambda>n. convolve (design_filter m c)
           (take DSP_FIR_TAPS (rev (take (Suc n) xs) @ replicate DSP_FIR_TAPS zero_sample))) [0..<length xs]"
  using filter_all_reference [of "replicate DSP_FIR_TAPS zero_sample" d xs] dsp_init_remembers [OF assms]
  by simp

definition am_config :: dsp_config where
  "am_config = \<lparr>cfg_mode = DemodAm, cfg_sample_rate = 48000, cfg_offset_hz = 1000, cfg_agc_enabled = True\<rparr>"

lemma am_config_accepted: "\<exists>d. dsp_init m am_config = Some d"
  using f32_int [of 24000] by (simp add: dsp_init_def am_config_def)

theorem fir_is_convolution_witness:
  "\<forall>m x y. \<exists>d. dsp_init m am_config = Some d \<and>
     fst (filter_all [x, y] d) =
       [convolve (design_filter m am_config) (x # replicate 128 zero_sample),
        convolve (design_filter m am_config) (y # x # replicate 127 zero_sample)]"
proof (intro allI)
  fix m x y
  obtain d where d: "dsp_init m am_config = Some d" using am_config_accepted by blast
  have "take 129 (x # replicate 129 zero_sample) = x # replicate 128 zero_sample"
    "take 129 (y # x # replicate 129 zero_sample) = y # x # replicate 127 zero_sample"
    by (simp_all add: take_Cons' del: replicate_Suc)
  with fir_is_convolution [OF d, of "[x, y]"] d
  show "\<exists>d. dsp_init m am_config = Some d \<and>
     fst (filter_all [x, y] d) =
       [convolve (design_filter m am_config) (x # replicate 128 zero_sample),
        convolve (design_filter m am_config) (y # x # replicate 127 zero_sample)]"
    by (simp add: upt_rec [of 0 2] upt_rec [of 1 2] del: replicate_Suc)
qed

text \<open>Block by block or at once, the audio is the same.\<close>

lemma dsp_samples_append:
  "dsp_samples m a (xs @ ys) d =
     (case dsp_samples m a xs d of (us, d) \<Rightarrow> case dsp_samples m a ys d of (vs, d) \<Rightarrow> (us @ vs, d))"
  by (induction xs arbitrary: d) (simp_all add: case_prod_beta)

lemma length_dsp_samples [simp]: "length (fst (dsp_samples m a xs d)) = length xs"
  by (induction xs arbitrary: d) (simp_all add: case_prod_beta)

end
