(* ===== verification/Offline.thy ===== *)
theory Offline
  imports Dsp Live_Streams Launch
begin

text \<open>
  The tools of \<open>src/flex1500d.c\<close> that need no radio: \<open>analyze_file\<close>, \<open>frame_capture\<close> and
  \<open>demod_capture\<close> read a recording in blocks, and \<open>serve_offline_at\<close> answers the API without one.
  A recording is its bytes and whether a read fails after them; a file being written takes as many
  bytes as the disk has room for, and reports the first it does not take.
\<close>

abbreviation INPUT_BYTES :: nat where "INPUT_BYTES \<equiv> 4096"
abbreviation INPUT_FRAMES :: nat where "INPUT_FRAMES \<equiv> 1024"

record in_file =
  in_bytes :: "u8 list"
  in_error :: bool

record out_file =
  f_bytes :: "u8 list"
  f_position :: nat
  f_room :: nat
  f_error :: bool

text \<open>\<open>fwrite\<close> over what is there and beyond; the result is the number of bytes.\<close>

definition fwrite :: "u8 list \<Rightarrow> out_file \<Rightarrow> nat \<times> out_file" where
  "fwrite bytes f =
     (let old = length (f_bytes f) - f_position f;
          n = min (length bytes) (old + f_room f)
      in (n, f\<lparr>f_bytes := take (f_position f) (f_bytes f) @ take n bytes @ drop (f_position f + n) (f_bytes f),
               f_position := f_position f + n, f_room := f_room f - (n - old),
               f_error := (f_error f \<or> n < length bytes)\<rparr>))"

text \<open>
  The loop the tools share: read a block, work on it, stop after a short one. The work may give up;
  the result says whether the loop ran to the end.
\<close>

function read_blocks :: "(u8 list \<Rightarrow> 's \<Rightarrow> bool \<times> 's) \<Rightarrow> u8 list \<Rightarrow> 's \<Rightarrow> bool \<times> 's" where
  "read_blocks work rest s =
     (let block = take INPUT_BYTES rest
      in if block = [] then (True, s)
         else case work block s of
           (False, s) \<Rightarrow> (False, s)
         | (True, s) \<Rightarrow>
             if length block < INPUT_BYTES then (True, s) else read_blocks work (drop INPUT_BYTES rest) s)"
  by pat_completeness auto

termination
  by (relation "measure (\<lambda>(work, rest, s). length rest)") auto

declare read_blocks.simps [simp del]

subsection \<open>Analysis\<close>

record analysis =
  an_stats :: iq_stats
  an_blocker :: dc_blocker
  an_ring :: "iq_sample iq_ring"
  an_consumed :: u64
  an_sum_i :: rat
  an_sum_q :: rat

definition analyze_block :: "u8 list \<Rightarrow> analysis \<Rightarrow> bool \<times> analysis" where
  "analyze_block block a =
     (case process_iq16le block INPUT_FRAMES (an_stats a) (an_blocker a) of (processed, st, b) \<Rightarrow>
      case iq_ring_push processed (an_ring a) of (_, ring) \<Rightarrow>
      case iq_ring_pop INPUT_FRAMES ring of (consumed, ring) \<Rightarrow>
        (True, \<lparr>an_stats = st, an_blocker = b, an_ring = ring,
                an_consumed = an_consumed a + of_nat (length consumed),
                an_sum_i = foldl (\<lambda>t x. f64 (t + i_part x)) (an_sum_i a) consumed,
                an_sum_q = foldl (\<lambda>t x. f64 (t + q_part x)) (an_sum_q a) consumed\<rparr>))"

text \<open>\<open>input\<close> is \<open>None\<close> when the file cannot be opened; the result, when the tool fails.\<close>

definition analyze_file :: "bool \<Rightarrow> in_file option \<Rightarrow> analysis option" where
  "analyze_file allocated input =
     (case input of None \<Rightarrow> None
      | Some file \<Rightarrow>
          (case iq_ring_init allocated zero_sample RING_CAPACITY of (ok, ring) \<Rightarrow>
             if \<not> ok then None
             else case read_blocks analyze_block (in_bytes file)
                 \<lparr>an_stats = iq_stats_reset, an_blocker = dc_blocker_init (f32 (1 / 1000)), an_ring = ring,
                  an_consumed = 0, an_sum_i = 0, an_sum_q = 0\<rparr> of
               (_, a) \<Rightarrow> if in_error file then None else Some a))"

definition processed_mean :: "rat \<Rightarrow> u64 \<Rightarrow> rat" where
  "processed_mean acc n = (if n \<noteq> 0 then f64 (acc / f64 (of_nat (unat n))) else 0)"

definition show_f6 :: "rat \<Rightarrow> string" where
  "show_f6 x =
     (let n = nat (round_even (\<bar>x\<bar> * 10 ^ 6)); digits = show_nat (n mod 10 ^ 6)
      in (if x < 0 then ''-'' else []) @ show_nat (n div 10 ^ 6) @ ''.'' @
         replicate (6 - length digits) (CHR ''0'') @ digits)"

definition analysis_fields :: "string \<Rightarrow> analysis \<Rightarrow> (string \<times> conv) list" where
  "analysis_fields path a =
     (let st = an_stats a
      in [(''service'', Str ''flex1500d''), (''state'', Str ''offline_analysis''), (''source'', Str path),
          (''sample_rate'', Raw ''48000''), (''sample_format'', Str ''iq_s16le''),
          (''frames'', U64 (st_frames st)), (''sentinel_frames'', U64 (st_sentinel_frames st)),
          (''raw_i_min'', I32 (st_min_i st)), (''raw_i_max'', I32 (st_max_i st)),
          (''raw_q_min'', I32 (st_min_q st)), (''raw_q_max'', I32 (st_max_q st)),
          (''raw_i_mean'', Raw (show_f6 (st_mean_i st))), (''raw_q_mean'', Raw (show_f6 (st_mean_q st))),
          (''dc_estimate_i'', Raw (show_f6 (estimate_i (an_blocker a)))),
          (''dc_estimate_q'', Raw (show_f6 (estimate_q (an_blocker a)))),
          (''processed_i_mean'', Raw (show_f6 (processed_mean (an_sum_i a) (an_consumed a)))),
          (''processed_q_mean'', Raw (show_f6 (processed_mean (an_sum_q a) (an_consumed a)))),
          (''ring_capacity_frames'', U64 (of_nat (capacity (an_ring a)))),
          (''ring_dropped_frames'', U64 (dropped (an_ring a)))])"

subsection \<open>Framing a recording\<close>

definition write_file :: "out_file writer" where
  "write_file f bytes =
     (case fwrite bytes f of (written, f) \<Rightarrow>
        (if written > 0 then PublishOk else if f_error f then PublishError else PublishWouldBlock, written, f))"

text \<open>\<open>None\<close> would be a loop that never ends.\<close>

partial_function (option) drain_publisher ::
  "iq_publisher \<Rightarrow> out_file \<Rightarrow> (bool \<times> iq_publisher \<times> out_file) option" where
  "drain_publisher p f =
     (case iq_publisher_pump write_file f p of (result, f, p) \<Rightarrow>
        if result = PublishEmpty then Some (True, p, f)
        else if result \<noteq> PublishOk then Some (False, p, f)
        else drain_publisher p f)"

record framing =
  fr_stats :: iq_stats
  fr_blocker :: dc_blocker
  fr_publisher :: iq_publisher
  fr_output :: out_file

definition frame_block :: "u8 list \<Rightarrow> framing \<Rightarrow> bool \<times> framing" where
  "frame_block block s =
     (case process_iq16le block INPUT_FRAMES (fr_stats s) (fr_blocker s) of (processed, st, b) \<Rightarrow>
      case iq_ring_push processed (pub_source (fr_publisher s)) of (n, ring) \<Rightarrow>
        let p = (fr_publisher s)\<lparr>pub_source := ring\<rparr>;
            s = s\<lparr>fr_stats := st, fr_blocker := b, fr_publisher := p\<rparr>
        in if n \<noteq> length processed then (False, s)
           else case the (drain_publisher p (fr_output s)) of
             (ok, p, f) \<Rightarrow> (ok, s\<lparr>fr_publisher := p, fr_output := f\<rparr>))"

text \<open>
  \<open>input\<close> and \<open>output\<close> are the opened files; \<open>fflush_ok\<close> and \<open>fclose_ok\<close>, whether \<open>fflush\<close> and \<open>fclose\<close>
  succeed. The result: whether the tool succeeds, and the file it leaves.
\<close>

definition frame_capture ::
  "bool \<Rightarrow> in_file option \<Rightarrow> out_file option \<Rightarrow> bool \<Rightarrow> bool \<Rightarrow> bool \<times> out_file option" where
  "frame_capture allocated input output fflush_ok fclose_ok =
     (case (input, output) of
        (Some file, Some out) \<Rightarrow>
          (case iq_ring_init allocated zero_sample RING_CAPACITY of (ok, ring) \<Rightarrow>
           case (if ok then iq_publisher_init (Some ring) 256 else None) of
             None \<Rightarrow> (False, Some out)
           | Some p \<Rightarrow>
               (case read_blocks frame_block (in_bytes file)
                   \<lparr>fr_stats = iq_stats_reset, fr_blocker = dc_blocker_init (f32 (1 / 1000)),
                    fr_publisher = p, fr_output = out\<rparr> of
                  (ok, s) \<Rightarrow> (ok \<and> \<not> in_error file \<and> fflush_ok \<and> fclose_ok, Some (fr_output s))))
      | _ \<Rightarrow> (False, output))"

subsection \<open>Blocks and the whole recording\<close>

definition whole_recording :: "u8 list \<Rightarrow> (int \<times> int) list" where
  "whole_recording bytes = iq_frames bytes (length bytes)"

lemma decode_iq_take: "4 \<le> n \<Longrightarrow> decode_iq_frame (take n bytes) = decode_iq_frame bytes"
  by (simp add: decode_iq_frame_def Let_def)

lemma whole_recording: "whole_recording bytes =
    map (\<lambda>frame. decode_iq_frame (drop (4 * frame) bytes)) [0..<length bytes div 4]"
proof -
  have "min (length bytes div 4) (length bytes) = length bytes div 4" by simp
  then show ?thesis by (simp only: whole_recording_def iq_frames_def)
qed

lemma iq_frames_full: "length bytes div 4 \<le> n \<Longrightarrow> iq_frames bytes n = whole_recording bytes"
  by (simp add: whole_recording iq_frames_def min_absorb1)

lemma whole_recording_append:
  assumes "4 dvd length xs"
  shows "whole_recording (xs @ ys) = whole_recording xs @ whole_recording ys"
proof (rule nth_equalityI)
  obtain k where k: "length xs = 4 * k" using assms by blast
  show "length (whole_recording (xs @ ys)) = length (whole_recording xs @ whole_recording ys)"
    by (simp add: whole_recording k)
  fix i assume "i < length (whole_recording (xs @ ys))"
  then have i: "i < k + length ys div 4" by (simp add: whole_recording k)
  have "whole_recording (xs @ ys) ! i = decode_iq_frame (drop (4 * i) (xs @ ys))"
    using i by (simp add: whole_recording k)
  also have "\<dots> = (whole_recording xs @ whole_recording ys) ! i"
  proof (cases "i < k")
    case True
    have "decode_iq_frame (drop (4 * i) xs) = decode_iq_frame (drop (4 * i) xs @ ys)"
      using decode_iq_take [of "length (drop (4 * i) xs)" "drop (4 * i) xs @ ys"] True k by simp
    with True show ?thesis by (simp add: whole_recording k nth_append)
  next
    case False
    then have "4 * i - 4 * k = 4 * (i - k)" "i - k < length ys div 4" using i by (simp, linarith)
    with False i show ?thesis by (simp add: whole_recording k nth_append)
  qed
  finally show "whole_recording (xs @ ys) ! i = (whole_recording xs @ whole_recording ys) ! i" .
qed

lemma length_whole_recording [simp]: "length (whole_recording bytes) = length bytes div 4"
  by (simp add: whole_recording)

text \<open>
  An invariant of the work, over the frames seen so far, holds over the whole recording at the end.
\<close>

lemma read_blocks_invariant:
  assumes "\<And>past block s. ok past s \<Longrightarrow> length block \<le> INPUT_BYTES \<Longrightarrow> INPUT_FRAMES dvd length past \<Longrightarrow>
      prefix (past @ whole_recording block) all \<Longrightarrow>
      \<exists>s'. work block s = (True, s') \<and> ok (past @ whole_recording block) s'"
    and "ok past s" and "INPUT_FRAMES dvd length past" and "all = past @ whole_recording bytes"
  shows "\<exists>s'. read_blocks work bytes s = (True, s') \<and> ok all s'"
  using assms(2-4)
proof (induction "length bytes" arbitrary: bytes s past rule: less_induct)
  case less
  define block where "block = take INPUT_BYTES bytes"
  show ?case
  proof (cases "block = []")
    case True
    then have "bytes = []" by (simp add: block_def)
    with less(2,4) True show ?thesis
      by (subst read_blocks.simps) (simp add: whole_recording flip: block_def)
  next
    case False
    have rest: "bytes = block @ drop INPUT_BYTES bytes" and len: "length block \<le> INPUT_BYTES"
      by (simp_all add: block_def)
    show ?thesis
    proof (cases "length block < INPUT_BYTES")
      case True
      then have "bytes = block" using rest by (auto simp: block_def)
      then have all: "all = past @ whole_recording block" using less(4) by simp
      then have "prefix (past @ whole_recording block) all" by simp
      from assms(1) [OF less(2) len less(3) this] obtain s' where "work block s = (True, s')" "ok all s'"
        unfolding all by blast
      with False True show ?thesis by (subst read_blocks.simps) (simp flip: block_def)
    next
      case full: False
      then have l: "length block = INPUT_BYTES" using len by simp
      then have all: "all = (past @ whole_recording block) @ whole_recording (drop INPUT_BYTES bytes)"
        using less(4) whole_recording_append [of block "drop INPUT_BYTES bytes"] rest by simp
      then have "prefix (past @ whole_recording block) all" by simp
      from assms(1) [OF less(2) len less(3) this] obtain s' where
        s': "work block s = (True, s')" "ok (past @ whole_recording block) s'" by blast
      have "INPUT_FRAMES dvd length (past @ whole_recording block)" using less(3) l by simp
      moreover have "length (drop INPUT_BYTES bytes) < length bytes" using l by (simp add: block_def)
      ultimately obtain s'' where "read_blocks work (drop INPUT_BYTES bytes) s' = (True, s'')" "ok all s''"
        using less(1) [OF _ s'(2) _ all] by blast
      with False full s' show ?thesis by (subst read_blocks.simps) (simp flip: block_def)
    qed
  qed
qed

lemma process_frames_append:
  "process_frames (xs @ ys) st b =
     (case process_frames xs st b of (us, st, b) \<Rightarrow>
      case process_frames ys st b of (vs, st, b) \<Rightarrow> (us @ vs, st, b))"
  by (induction xs st b rule: process_frames.induct) (simp_all add: Let_def case_prod_beta)

lemma length_process_frames [simp]: "length (fst (process_frames xs st b)) = length xs"
  by (induction xs st b rule: process_frames.induct) (simp_all add: Let_def case_prod_beta)

text \<open>A block of a recording goes through an empty ring unchanged.\<close>

lemma ring_passes:
  assumes "ring_wf r" and "ring_contents r = []" and "length xs \<le> capacity r" and "length xs \<le> n"
  obtains r1 r2 where "iq_ring_push xs r = (length xs, r1)" "iq_ring_pop n r1 = (xs, r2)" "ring_wf r2"
    "ring_contents r2 = []" "capacity r2 = capacity r" "dropped r2 = dropped r"
proof -
  obtain k r1 where push: "iq_ring_push xs r = (k, r1)" by fastforce
  obtain ys r2 where pop: "iq_ring_pop n r1 = (ys, r2)" by fastforce
  have k: "k = length xs" "ring_wf r1" "ring_contents r1 = xs" "capacity r1 = capacity r"
    using ring.push_count [OF assms(1), of xs] ring.push_wf [OF assms(1), of xs]
      ring.push_contents [OF assms(1), of xs] assms(2,3) push by auto
  have "ring_size r = 0" using assms(2) length_ring_contents [of r] by simp
  then have "dropped r1 = dropped r"
    using push assms(3) by (auto simp: iq_ring_push_unfold Let_def min_absorb1)
  moreover have "dropped r2 = dropped r1" using pop by (auto simp: iq_ring_pop_def Let_def)
  moreover have "ys = xs" "ring_wf r2" "ring_contents r2 = []" "capacity r2 = capacity r1"
    using ring.pop_result [OF k(2), of n] ring.pop_wf [OF k(2), of n] ring.pop_contents [OF k(2), of n]
      k(3) assms(4) pop by auto
  ultimately show ?thesis using that push pop k by simp
qed

subsection \<open>What the analysis reports\<close>

definition block_start :: "iq_stats \<times> dc_blocker" where
  "block_start = (iq_stats_reset, dc_blocker_init (f32 (1 / 1000)))"

definition analyzed :: "(int \<times> int) list \<Rightarrow> analysis \<Rightarrow> bool" where
  "analyzed past a \<longleftrightarrow>
     (case process_frames past (fst block_start) (snd block_start) of (outs, st, b) \<Rightarrow>
        an_stats a = st \<and> an_blocker a = b \<and> an_consumed a = of_nat (length past) \<and>
        an_sum_i a = foldl (\<lambda>t x. f64 (t + i_part x)) 0 outs \<and>
        an_sum_q a = foldl (\<lambda>t x. f64 (t + q_part x)) 0 outs) \<and>
     ring_wf (an_ring a) \<and> ring_contents (an_ring a) = [] \<and> capacity (an_ring a) = RING_CAPACITY \<and>
     dropped (an_ring a) = 0"

lemma block_frames: "length block \<le> INPUT_BYTES \<Longrightarrow> iq_frames block INPUT_FRAMES = whole_recording block"
  by (rule iq_frames_full) simp

lemma analyze_block_step:
  assumes "analyzed past a" and "length block \<le> INPUT_BYTES"
  shows "\<exists>a'. analyze_block block a = (True, a') \<and> analyzed (past @ whole_recording block) a'"
proof -
  obtain outs st b where past: "process_frames past (fst block_start) (snd block_start) = (outs, st, b)"
    by (metis prod_cases3)
  obtain us st' b' where new: "process_frames (whole_recording block) st b = (us, st', b')"
    by (metis prod_cases3)
  have us: "length us = length (whole_recording block)" using length_process_frames new by (metis fst_conv)
  then have l: "length us \<le> 1024" using assms(2) by simp
  note a = assms(1) [unfolded analyzed_def past prod.case]
  have "length us \<le> capacity (an_ring a)" using l a by (simp add: RING_CAPACITY_def)
  with l a obtain r1 r2 where ring: "iq_ring_push us (an_ring a) = (length us, r1)"
    "iq_ring_pop INPUT_FRAMES r1 = (us, r2)" "ring_wf r2" "ring_contents r2 = []"
    "capacity r2 = RING_CAPACITY" "dropped r2 = 0"
    by (metis ring_passes)
  have "process_frames (past @ whole_recording block) (fst block_start) (snd block_start) = (outs @ us, st', b')"
    by (simp add: process_frames_append past new)
  then show ?thesis
    using a ring new us
    by (simp add: analyze_block_def analyzed_def process_iq16le_def block_frames [OF assms(2)])
qed

text \<open>
  An analysis that succeeds reports the whole recording: the statistics are exact over all its frames,
  every frame went through the ring and none was dropped, and the sums are over all of them, whatever
  the length of the file.
\<close>

theorem analysis_complete:
  assumes "analyze_file True (Some \<lparr>in_bytes = bytes, in_error = False\<rparr>) = Some a"
  shows "stats_inv (whole_recording bytes) (an_stats a) \<and>
    an_consumed a = of_nat (length bytes div 4) \<and> dropped (an_ring a) = 0 \<and>
    (let outs = fst (process_frames (whole_recording bytes) iq_stats_reset (dc_blocker_init (f32 (1 / 1000))))
     in an_sum_i a = foldl (\<lambda>t x. f64 (t + i_part x)) 0 outs \<and>
        an_sum_q a = foldl (\<lambda>t x. f64 (t + q_part x)) 0 outs)"
proof -
  obtain r where r: "iq_ring_init True zero_sample RING_CAPACITY = (True, r)"
    by (simp add: iq_ring_init_def RING_CAPACITY_def)
  then have wf: "ring_wf r" "ring_contents r = []" "capacity r = RING_CAPACITY" "dropped r = 0"
    by (auto simp: iq_ring_init_def ring_wf_def ring_contents_def RING_CAPACITY_def)
  define a0 where "a0 = \<lparr>an_stats = iq_stats_reset, an_blocker = dc_blocker_init (f32 (1 / 1000)), an_ring = r,
    an_consumed = 0, an_sum_i = 0, an_sum_q = 0\<rparr>"
  have "analyzed [] a0" using wf by (simp add: analyzed_def block_start_def a0_def)
  from read_blocks_invariant [where ok = analyzed and work = analyze_block and all = "whole_recording bytes",
      OF analyze_block_step this] obtain a'
    where "read_blocks analyze_block bytes a0 = (True, a')" "analyzed (whole_recording bytes) a'" by auto
  with assms have a: "analyzed (whole_recording bytes) a" by (simp add: analyze_file_def r a0_def)
  obtain outs st b where p: "process_frames (whole_recording bytes) iq_stats_reset
      (dc_blocker_init (f32 (1 / 1000))) = (outs, st, b)"
    by (metis prod_cases3)
  from process_frames_stats [OF stats_inv_empty p] a show ?thesis
    by (simp add: analyzed_def block_start_def p)
qed

theorem analysis_complete_witness:
  "\<exists>a. analyze_file True (Some \<lparr>in_bytes = [1, 0, 2, 0, 7], in_error = False\<rparr>) = Some a \<and>
     an_consumed a = 1 \<and> stats_inv [(1, 2)] (an_stats a)"
proof -
  have f: "whole_recording [1, 0, 2, 0, 7] = [(1, 2)]" by code_simp
  obtain a where a: "analyze_file True (Some \<lparr>in_bytes = [1, 0, 2, 0, 7], in_error = False\<rparr>) = Some a"
    by (simp add: analyze_file_def iq_ring_init_def RING_CAPACITY_def case_prod_beta)
  from analysis_complete [OF this] a show ?thesis by (simp add: f)
qed

subsection \<open>What framing writes\<close>

function cut_into :: "nat \<Rightarrow> 'a list \<Rightarrow> 'a list list" where
  "cut_into n xs = (if xs = [] \<or> n = 0 then [] else take n xs # cut_into n (drop n xs))"
  by pat_completeness auto

termination
  by (relation "measure (\<lambda>(n, xs). length xs)") auto

declare cut_into.simps [simp del]

lemma cut_into_Nil [simp]: "cut_into n [] = []"
  by (simp add: cut_into.simps)

lemma cut_into_append: "n dvd length xs \<Longrightarrow> cut_into n (xs @ ys) = cut_into n xs @ cut_into n ys"
proof (induction "length xs" arbitrary: xs rule: less_induct)
  case less
  show ?case
  proof (cases "xs = [] \<or> n = 0")
    case True
    then show ?thesis using less(2) by (auto simp: cut_into.simps [of 0])
  next
    case False
    then have "n \<le> length xs" using less(2) by (simp add: dvd_imp_le)
    moreover from this False have "cut_into n (drop n xs @ ys) = cut_into n (drop n xs) @ cut_into n ys"
      using less(2) by (intro less(1)) (simp_all add: dvd_diff_nat)
    ultimately show ?thesis
      using False by (subst (1 2) cut_into.simps) simp
  qed
qed

lemma fwrite_all:
  "f_position f = length (f_bytes f) \<Longrightarrow> length bytes \<le> f_room f \<Longrightarrow>
     fwrite bytes f = (length bytes, f\<lparr>f_bytes := f_bytes f @ bytes, f_position := f_position f + length bytes,
                                       f_room := f_room f - length bytes\<rparr>)"
  by (simp add: fwrite_def Let_def min_absorb1)

text \<open>A frame is cut from a ring with something in it when nothing is pending.\<close>

lemma prepare_frame_cut:
  assumes "pub_wf p" and "pending_offset p = pending_length p" and "ring_contents (pub_source p) \<noteq> []"
  defines "xs \<equiv> take (samples_per_frame p) (ring_contents (pub_source p))"
  obtains ring where "ring_wf ring" "capacity ring = capacity (pub_source p)"
    "ring_contents ring = drop (samples_per_frame p) (ring_contents (pub_source p))"
    "prepare_frame p = (True, map_pub_stats (\<lambda>st. st\<lparr>ps_frames_encoded := ps_frames_encoded st + 1\<rparr>)
       (p\<lparr>pub_source := ring,
          pub_pending := encode_iq_frame (next_sequence p) xs PUBLISHER_BUFFER_SIZE @
            drop (length (encode_iq_frame (next_sequence p) xs PUBLISHER_BUFFER_SIZE)) (pub_pending p),
          pending_length := 20 + 8 * length xs, pending_offset := 0, pending_samples := length xs,
          next_sequence := next_sequence p + 1\<rparr>))"
proof -
  define count where "count = min (ring_size (pub_source p)) (samples_per_frame p)"
  obtain ys ring where pop: "iq_ring_pop count (pub_source p) = (ys, ring)" by fastforce
  have wf: "ring_wf (pub_source p)" "samples_per_frame p \<le> PUBLISHER_MAX_SAMPLES"
    using assms(1) by (simp_all add: pub_wf_def)
  have ys: "ys = take count (ring_contents (pub_source p))"
    and ring: "ring_contents ring = drop count (ring_contents (pub_source p))" "ring_wf ring"
      "capacity ring = capacity (pub_source p)"
    using ring.pop_result [OF wf(1), of count] ring.pop_contents [OF wf(1), of count]
      ring.pop_wf [OF wf(1), of count] pop by auto
  have xs: "ys = xs" "ring_contents ring = drop (samples_per_frame p) (ring_contents (pub_source p))"
    using ys ring(1) by (simp_all add: xs_def count_def min_def)
  have "ring_size (pub_source p) \<noteq> 0" using assms(3) by (metis length_0_conv length_ring_contents)
  moreover have len: "length (encode_iq_frame (next_sequence p) xs PUBLISHER_BUFFER_SIZE) = 20 + 8 * length xs"
    using wf(2) by (intro length_encode) (simp add: xs_def)
  moreover from this have "encode_iq_frame (next_sequence p) xs PUBLISHER_BUFFER_SIZE \<noteq> []" by auto
  moreover have "(if samples_per_frame p > ring_size (pub_source p) then ring_size (pub_source p)
      else samples_per_frame p) = count" by (simp add: count_def)
  ultimately show ?thesis
    using that [OF ring(2,3) xs(2)] assms(2) pop xs(1) by (simp add: prepare_frame_def Let_def)
qed

definition idle :: "iq_publisher \<Rightarrow> bool" where
  "idle p \<longleftrightarrow> pub_wf p \<and> pending_offset p = pending_length p \<and> samples_per_frame p = 256 \<and>
     capacity (pub_source p) = RING_CAPACITY"

text \<open>The file with \<open>bytes\<close> added at its end.\<close>

definition extended :: "out_file \<Rightarrow> u8 list \<Rightarrow> out_file \<Rightarrow> bool" where
  "extended f bytes f' \<longleftrightarrow>
     f' = f\<lparr>f_bytes := f_bytes f @ bytes, f_position := f_position f + length bytes,
            f_room := f_room f - length bytes\<rparr>"

lemma extended_trans:
  "extended f bs f1 \<Longrightarrow> extended f1 cs f2 \<Longrightarrow> extended f (bs @ cs) f2"
  by (simp add: extended_def add.assoc)

lemma pump_writes:
  assumes "idle p" and "ring_contents (pub_source p) \<noteq> []" and "f_position f = length (f_bytes f)"
  defines "frame \<equiv> encode_iq_frame (next_sequence p) (take 256 (ring_contents (pub_source p))) PUBLISHER_BUFFER_SIZE"
  assumes "length frame \<le> f_room f"
  obtains f' p' where "iq_publisher_pump write_file f p = (PublishOk, f', p')" "extended f frame f'"
    "idle p'" "ring_contents (pub_source p') = drop 256 (ring_contents (pub_source p))"
    "next_sequence p' = next_sequence p + 1"
proof -
  note p = assms(1) [unfolded idle_def]
  have wf: "pub_wf p" "pending_offset p = pending_length p" and spf: "samples_per_frame p = 256"
    using p by simp_all
  obtain ring where ring: "ring_wf ring" "capacity ring = capacity (pub_source p)"
    "ring_contents ring = drop 256 (ring_contents (pub_source p))"
    and prep: "prepare_frame p = (True, map_pub_stats (\<lambda>st. st\<lparr>ps_frames_encoded := ps_frames_encoded st + 1\<rparr>)
       (p\<lparr>pub_source := ring, pub_pending := frame @ drop (length frame) (pub_pending p),
          pending_length := 20 + 8 * length (take 256 (ring_contents (pub_source p))), pending_offset := 0,
          pending_samples := length (take 256 (ring_contents (pub_source p))),
          next_sequence := next_sequence p + 1\<rparr>))"
    unfolding frame_def by (rule prepare_frame_cut [OF wf assms(2), unfolded spf]) 
  have len: "length frame = 20 + 8 * length (take 256 (ring_contents (pub_source p)))"
    unfolding frame_def by (rule length_encode) (simp add: PUBLISHER_MAX_SAMPLES_def)
  then have "length frame \<le> PUBLISHER_BUFFER_SIZE" by (simp add: PUBLISHER_BUFFER_SIZE_def PUBLISHER_MAX_SAMPLES_def)
  obtain f' where fw: "fwrite frame f = (length frame, f')" "extended f frame f'"
    using fwrite_all [OF assms(3,5)] by (simp add: extended_def)
  define p1 where "p1 = map_pub_stats (\<lambda>st. st\<lparr>ps_frames_encoded := ps_frames_encoded st + 1\<rparr>)
       (p\<lparr>pub_source := ring, pub_pending := frame @ drop (length frame) (pub_pending p),
          pending_length := length frame, pending_offset := 0,
          pending_samples := length (take 256 (ring_contents (pub_source p))),
          next_sequence := next_sequence p + 1\<rparr>)"
  have prep1: "prepare_frame p = (True, p1)" using prep by (simp only: p1_def len)
  have p1: "unsent p1 = frame" "pending_offset p1 = 0" "pending_length p1 = length frame"
    by (simp_all add: p1_def unsent_def map_pub_stats_def)
  have ne: "0 < length frame" by (simp add: len)
  then have "write_file f frame = (PublishOk, length frame, f')" by (simp add: write_file_def fw)
  then have pump: "iq_publisher_pump write_file f p = (PublishOk, f', iq_publisher_disconnect
      (map_pub_stats (\<lambda>st. st\<lparr>ps_frames_sent := ps_frames_sent st + 1,
         ps_samples_sent := ps_samples_sent st + of_nat (pending_samples p1)\<rparr>) (p1\<lparr>pending_offset := length frame\<rparr>)))"
    using ne by (simp add: iq_publisher_pump_def prep1 p1 del: length_0_conv length_greater_0_conv)
  show ?thesis
    by (rule that [OF pump fw(2)])
      (use p ring \<open>length frame \<le> PUBLISHER_BUFFER_SIZE\<close> in
        \<open>simp_all add: p1_def map_pub_stats_def idle_def pub_wf_def iq_publisher_disconnect_def\<close>)
qed

lemma drain_writes:
  "idle p \<Longrightarrow> f_position f = length (f_bytes f) \<Longrightarrow>
   length (frame_stream (next_sequence p) (cut_into 256 (ring_contents (pub_source p)))) \<le> f_room f \<Longrightarrow>
   \<exists>p' f'. drain_publisher p f = Some (True, p', f') \<and> idle p' \<and> ring_contents (pub_source p') = [] \<and>
     extended f (frame_stream (next_sequence p) (cut_into 256 (ring_contents (pub_source p)))) f' \<and>
     next_sequence p' = next_sequence p + of_nat (length (cut_into 256 (ring_contents (pub_source p))))"
proof (induction "length (ring_contents (pub_source p))" arbitrary: p f rule: less_induct)
  case less
  show ?case
  proof (cases "ring_contents (pub_source p) = []")
    case True
    then have "ring_size (pub_source p) = 0" by (metis length_0_conv length_ring_contents)
    then have "prepare_frame p = (False, p)" using less(2) by (simp add: prepare_frame_def idle_def)
    then show ?thesis
      using True less(2) by (subst drain_publisher.simps) (simp add: iq_publisher_pump_def extended_def)
  next
    case False
    define xs where "xs = ring_contents (pub_source p)"
    define frame where "frame = encode_iq_frame (next_sequence p) (take 256 xs) PUBLISHER_BUFFER_SIZE"
    have cut: "cut_into 256 xs = take 256 xs # cut_into 256 (drop 256 xs)"
      using False by (subst cut_into.simps) (simp add: xs_def)
    have stream: "frame_stream (next_sequence p) (cut_into 256 xs) =
        frame @ frame_stream (next_sequence p + 1) (cut_into 256 (drop 256 xs))"
      by (simp add: cut frame_def)
    with less(4) have room: "length frame \<le> f_room f" by (simp flip: xs_def)
    obtain f1 p1 where pump: "iq_publisher_pump write_file f p = (PublishOk, f1, p1)" "extended f frame f1"
      "idle p1" "ring_contents (pub_source p1) = drop 256 xs" "next_sequence p1 = next_sequence p + 1"
      using pump_writes [OF less(2) False less(3)] room unfolding frame_def xs_def by metis
    have "xs \<noteq> []" using False by (simp add: xs_def)
    then have "length (drop 256 xs) < length xs" by (cases xs) simp_all
    moreover have "f_position f1 = length (f_bytes f1)" using pump(2) less(3) by (simp add: extended_def)
    moreover have "length (frame_stream (next_sequence p + 1) (cut_into 256 (drop 256 xs))) \<le> f_room f1"
      using less(4) pump(2) stream by (simp add: extended_def flip: xs_def)
    ultimately obtain p2 f2 where rec: "drain_publisher p1 f1 = Some (True, p2, f2)" "idle p2"
      "ring_contents (pub_source p2) = []"
      "extended f1 (frame_stream (next_sequence p + 1) (cut_into 256 (drop 256 xs))) f2"
      "next_sequence p2 = next_sequence p + 1 + of_nat (length (cut_into 256 (drop 256 xs)))"
      using less(1) [of p1 f1] pump(3-5) by (auto simp flip: xs_def)
    have "drain_publisher p f = Some (True, p2, f2)"
      using pump(1) rec(1) by (subst drain_publisher.simps) simp
    moreover have "extended f (frame_stream (next_sequence p) (cut_into 256 xs)) f2"
      unfolding stream by (rule extended_trans [OF pump(2) rec(4)])
    ultimately show ?thesis using rec(2,3,5) by (simp add: cut add.assoc flip: xs_def)
  qed
qed

text \<open>The bytes \<open>n\<close> samples take in frames.\<close>

definition framed_bytes :: "nat \<Rightarrow> nat" where
  "framed_bytes n = 20 * ((n + 255) div 256) + 8 * n"

lemma length_frame_stream: "length (frame_stream n (cut_into 256 xs)) = framed_bytes (length xs)"
proof (induction "length xs" arbitrary: xs n rule: less_induct)
  case less
  show ?case
  proof (cases "xs = []")
    case False
    then have l: "length (drop 256 xs) < length xs" by (cases xs) simp_all
    have cut: "cut_into 256 xs = take 256 xs # cut_into 256 (drop 256 xs)"
      using False by (subst cut_into.simps) simp
    have "length (encode_iq_frame n (take 256 xs) PUBLISHER_BUFFER_SIZE) = 20 + 8 * length (take 256 xs)"
      by (rule length_encode) (simp add: PUBLISHER_MAX_SAMPLES_def)
    with less [OF l, of "n + 1"] have "length (frame_stream n (cut_into 256 xs)) =
        20 + 8 * min 256 (length xs) + framed_bytes (length xs - 256)"
      by (simp add: cut)
    also have "\<dots> = framed_bytes (length xs)"
    proof (cases "length xs \<le> 256")
      case True
      then have "(length xs + 255) div 256 = 1" using False by (cases xs) simp_all
      with True show ?thesis by (simp add: framed_bytes_def)
    next
      case big: False
      then have "length xs + 255 = (length xs - 256 + 255) + 256" by simp
      then have "(length xs + 255) div 256 = (length xs - 256 + 255) div 256 + 1"
        by (simp only: div_add_self2)
      with big show ?thesis by (simp add: framed_bytes_def)
    qed
    finally show ?thesis .
  qed (simp add: framed_bytes_def)
qed

lemma framed_bytes_mono: "m \<le> n \<Longrightarrow> framed_bytes m \<le> framed_bytes n"
  by (simp add: framed_bytes_def add_mono div_le_mono)

definition framed :: "out_file \<Rightarrow> (int \<times> int) list \<Rightarrow> framing \<Rightarrow> bool" where
  "framed f0 past s \<longleftrightarrow>
     (case process_frames past (fst block_start) (snd block_start) of (outs, st, b) \<Rightarrow>
        fr_stats s = st \<and> fr_blocker s = b \<and>
        extended f0 (frame_stream 0 (cut_into 256 outs)) (fr_output s) \<and>
        next_sequence (fr_publisher s) = of_nat (length (cut_into 256 outs))) \<and>
     idle (fr_publisher s) \<and> ring_contents (pub_source (fr_publisher s)) = []"

lemma frame_block_step:
  assumes "framed f0 past s" and "length block \<le> INPUT_BYTES" and "INPUT_FRAMES dvd length past"
    and "prefix (past @ whole_recording block) all"
    and "f_position f0 = length (f_bytes f0)" and "framed_bytes (length all) \<le> f_room f0"
  shows "\<exists>s'. frame_block block s = (True, s') \<and> framed f0 (past @ whole_recording block) s'"
proof -
  obtain outs st b where past: "process_frames past (fst block_start) (snd block_start) = (outs, st, b)"
    by (metis prod_cases3)
  obtain us st' b' where new: "process_frames (whole_recording block) st b = (us, st', b')"
    by (metis prod_cases3)
  have us: "length us = length (whole_recording block)" and outs: "length outs = length past"
    using length_process_frames new past by (metis fst_conv)+
  then have l: "length us \<le> 1024" using assms(2) by simp
  note s = assms(1) [unfolded framed_def past prod.case]
  note p = conjunct1 [OF conjunct2 [OF s], unfolded idle_def]
  obtain n r1 where push: "iq_ring_push us (pub_source (fr_publisher s)) = (n, r1)" by fastforce
  have wf: "ring_wf (pub_source (fr_publisher s))" using p by (simp add: pub_wf_def)
  have r1: "n = length us" "ring_wf r1" "ring_contents r1 = us" "capacity r1 = RING_CAPACITY"
    using ring.push_count [OF wf, of us] ring.push_wf [OF wf, of us] ring.push_contents [OF wf, of us]
      s p l push by (auto simp: RING_CAPACITY_def)
  let ?p = "(fr_publisher s)\<lparr>pub_source := r1\<rparr>"
  have "256 dvd length past" using assms(3) by (rule dvd_trans [rotated]) simp
  then have cut: "cut_into 256 (outs @ us) = cut_into 256 outs @ cut_into 256 us"
    by (simp add: cut_into_append outs)
  then have stream: "frame_stream 0 (cut_into 256 (outs @ us)) =
      frame_stream 0 (cut_into 256 outs) @ frame_stream (next_sequence ?p) (cut_into 256 us)"
    using s by (simp add: frame_stream_append)
  have "length past + length us \<le> length all" using prefix_length_le [OF assms(4)] us by simp
  from framed_bytes_mono [OF this] assms(6)
  have "length (frame_stream 0 (cut_into 256 (outs @ us))) \<le> f_room f0"
    unfolding length_frame_stream by (simp add: outs)
  then have room: "length (frame_stream (next_sequence ?p) (cut_into 256 (ring_contents (pub_source ?p)))) \<le>
      f_room (fr_output s)"
    using s unfolding stream by (simp add: r1 extended_def)
  have "idle ?p" using p r1 by (simp add: idle_def pub_wf_def)
  moreover have "f_position (fr_output s) = length (f_bytes (fr_output s))"
    using s assms(5) by (simp add: extended_def)
  ultimately obtain p' f' where drain: "drain_publisher ?p (fr_output s) = Some (True, p', f')" "idle p'"
    "ring_contents (pub_source p') = []"
    "extended (fr_output s) (frame_stream (next_sequence ?p) (cut_into 256 us)) f'"
    "next_sequence p' = next_sequence ?p + of_nat (length (cut_into 256 us))"
    using drain_writes [OF _ _ room] by (auto simp: r1)
  have "extended f0 (frame_stream 0 (cut_into 256 (outs @ us))) f'"
    unfolding stream using s by (intro extended_trans [OF _ drain(4)]) simp
  moreover have "process_frames (past @ whole_recording block) (fst block_start) (snd block_start) =
      (outs @ us, st', b')"
    by (simp add: process_frames_append past new)
  ultimately show ?thesis
    using s drain push r1(1) new
    by (simp add: frame_block_def framed_def process_iq16le_def block_frames [OF assms(2)] cut Let_def)
qed

text \<open>C29.
  Framing a recording onto a disk with room for it always succeeds, and the file then holds what a
  network client would have received: every sample of the recording, processed as by the receiver,
  in order, in frames of 256 numbered from 0, of which only the last may be shorter.
\<close>

theorem frame_capture_output:
  assumes "framed_bytes (length bytes div 4) \<le> room"
  shows "frame_capture True (Some \<lparr>in_bytes = bytes, in_error = False\<rparr>)
      (Some \<lparr>f_bytes = [], f_position = 0, f_room = room, f_error = False\<rparr>) True True =
    (let stream = frame_stream 0 (cut_into 256
           (fst (process_frames (whole_recording bytes) iq_stats_reset (dc_blocker_init (f32 (1 / 1000))))))
     in (True, Some \<lparr>f_bytes = stream, f_position = length stream, f_room = room - length stream,
                     f_error = False\<rparr>))"
proof -
  obtain r where r: "iq_ring_init True zero_sample RING_CAPACITY = (True, r)"
    by (simp add: iq_ring_init_def RING_CAPACITY_def)
  then have wf: "ring_wf r" "ring_contents r = []" "capacity r = RING_CAPACITY" "samples r \<noteq> []"
    by (auto simp: iq_ring_init_def ring_wf_def ring_contents_def RING_CAPACITY_def)
  obtain p where p: "iq_publisher_init (Some r) 256 = Some p"
    using wf by (simp add: iq_publisher_init_def PUBLISHER_MAX_SAMPLES_def)
  define f0 where "f0 = \<lparr>f_bytes = [], f_position = 0, f_room = room, f_error = False\<rparr>"
  define s0 where "s0 = \<lparr>fr_stats = iq_stats_reset, fr_blocker = dc_blocker_init (f32 (1 / 1000)),
    fr_publisher = p, fr_output = f0\<rparr>"
  have "pending_offset p = pending_length p" using p by (auto simp: iq_publisher_init_def split: if_splits)
  then have "idle p" using iq_publisher_init_wf [OF p wf(1)] wf(3) by (simp add: idle_def)
  then have "framed f0 [] s0"
    using iq_publisher_init_wf [OF p wf(1)] wf(2)
    by (simp add: framed_def block_start_def s0_def extended_def)
  moreover have "f_position f0 = length (f_bytes f0)" "framed_bytes (length (whole_recording bytes)) \<le> f_room f0"
    using assms by (simp_all add: f0_def)
  ultimately obtain s' where s': "read_blocks frame_block bytes s0 = (True, s')"
    "framed f0 (whole_recording bytes) s'"
    using read_blocks_invariant [where ok = "framed f0" and work = frame_block and past = "[]" and s = s0
        and all = "whole_recording bytes" and bytes = bytes] frame_block_step
    by auto
  obtain outs st b where o: "process_frames (whole_recording bytes) iq_stats_reset
      (dc_blocker_init (f32 (1 / 1000))) = (outs, st, b)"
    by (metis prod_cases3)
  have "fr_output s' = f0\<lparr>f_bytes := f_bytes f0 @ frame_stream 0 (cut_into 256 outs),
      f_position := f_position f0 + length (frame_stream 0 (cut_into 256 outs)),
      f_room := f_room f0 - length (frame_stream 0 (cut_into 256 outs))\<rparr>"
    using s'(2) by (simp add: framed_def block_start_def o extended_def)
  then show ?thesis
    using s'(1) unfolding frame_capture_def s0_def [symmetric] f0_def [symmetric]
    by (simp add: r p o Let_def s0_def [symmetric]) (simp add: f0_def)
qed

theorem frame_capture_output_witness:
  "\<exists>out. frame_capture True (Some \<lparr>in_bytes = [1, 0, 2, 0, 7], in_error = False\<rparr>)
      (Some \<lparr>f_bytes = [], f_position = 0, f_room = 28, f_error = False\<rparr>) True True = (True, Some out) \<and>
     length (f_bytes out) = 28 \<and> f_room out = 0"
proof -
  have "framed_bytes (length [1, 0, 2, 0, 7 :: u8] div 4) \<le> 28" by (simp add: framed_bytes_def)
  from frame_capture_output [OF this] show ?thesis
    by (simp add: Let_def length_frame_stream framed_bytes_def)
qed

end
