(* ===== verification/Demod_Capture.thy ===== *)
theory Demod_Capture
  imports Offline
begin

text \<open>
  Model of \<open>demod_capture\<close> in \<open>src/flex1500d.c\<close>: a recording is demodulated block by block into a WAV
  file, whose header is written first with no samples and again at the end with their number; and
  of \<open>strtof\<close>, which reads the tuning offset.
\<close>

subsection \<open>Reading a float\<close>

datatype parsed_float = Finite rat | Infinite bool | NotANumber

definition hex_value :: "char \<Rightarrow> nat option" where
  "hex_value c =
     (if is_digit c then Some (digit_value c)
      else if 97 \<le> code_of (to_lower c) \<and> code_of (to_lower c) \<le> 102 then Some (code_of (to_lower c) - 87)
      else None)"

definition is_hex :: "char \<Rightarrow> bool" where "is_hex c \<longleftrightarrow> hex_value c \<noteq> None"

definition hex_digits_value :: "string \<Rightarrow> nat" where
  "hex_digits_value ds = foldl (\<lambda>n c. n * 16 + the (hex_value c)) 0 ds"

text \<open>A signed exponent after \<open>mark\<close>, taken only with a digit: its value and the rest.\<close>

definition read_exponent :: "char \<Rightarrow> string \<Rightarrow> int \<times> string" where
  "read_exponent mark s =
     (if s = [] \<or> to_lower (hd s) \<noteq> mark then (0, s)
      else
        let t = tl s; negative = (t \<noteq> [] \<and> hd t = CHR ''-'');
            t = (if t \<noteq> [] \<and> (hd t = CHR ''-'' \<or> hd t = CHR ''+'') then tl t else t);
            ds = takeWhile is_digit t
        in if ds = [] then (0, s)
           else ((if negative then - int (digits_value ds) else int (digits_value ds)), drop (length ds) t))"

text \<open>Digits with at most one point: those before it, those after it, and the rest.\<close>

definition read_mantissa :: "(char \<Rightarrow> bool) \<Rightarrow> string \<Rightarrow> string \<times> string \<times> string" where
  "read_mantissa cls s =
     (let whole = takeWhile cls s; rest = dropWhile cls s
      in if rest \<noteq> [] \<and> hd rest = CHR ''.''
         then (whole, takeWhile cls (tl rest), dropWhile cls (tl rest)) else (whole, [], rest))"

definition finite_or_infinite :: "(rat \<Rightarrow> rat) \<Rightarrow> rat \<Rightarrow> bool \<Rightarrow> rat \<Rightarrow> parsed_float" where
  "finite_or_infinite rounded limit negative x =
     (if rounded x \<ge> limit then Infinite negative else Finite (if negative then - rounded x else rounded x))"

definition rat_powi :: "rat \<Rightarrow> int \<Rightarrow> rat" where
  "rat_powi b e = (if 0 \<le> e then b ^ nat e else 1 / b ^ nat (- e))"

text \<open>
  The value and the end pointer, which is the start when nothing was read; \<open>strtof\<close> and \<open>strtod\<close>
  differ in the rounding.
\<close>

definition parse_float :: "(bool \<Rightarrow> rat \<Rightarrow> parsed_float) \<Rightarrow> string \<Rightarrow> parsed_float \<times> string" where
  "parse_float result s =
     (let t = dropWhile is_space s;
          negative = (t \<noteq> [] \<and> hd t = CHR ''-'');
          t = (if t \<noteq> [] \<and> (hd t = CHR ''-'' \<or> hd t = CHR ''+'') then tl t else t)
      in if starts_with_nocase ''infinity'' t then (Infinite negative, drop 8 t)
         else if starts_with_nocase ''inf'' t then (Infinite negative, drop 3 t)
         else if starts_with_nocase ''nan'' t
         then
           let r = drop 3 t;
               body = takeWhile (\<lambda>c. is_digit c \<or> c = CHR ''_'' \<or>
                 97 \<le> code_of (to_lower c) \<and> code_of (to_lower c) \<le> 122) (tl r);
               close = drop (length body + 1) r
           in (NotANumber,
               if r \<noteq> [] \<and> hd r = CHR ''('' \<and> close \<noteq> [] \<and> hd close = CHR '')'' then tl close else r)
         else
           let (whole, part, rest) = read_mantissa is_hex (drop 2 t)
           in if starts_with_nocase ''0x'' t \<and> whole @ part \<noteq> []
              then case read_exponent (CHR ''p'') rest of (e, rest) \<Rightarrow>
                (result negative
                   (of_nat (hex_digits_value (whole @ part)) * rat_powi 2 (e - 4 * int (length part))), rest)
              else
                let (whole, part, rest) = read_mantissa is_digit t
                in if whole @ part = [] then (Finite 0, s)
                   else case read_exponent (CHR ''e'') rest of (e, rest) \<Rightarrow>
                     (result negative
                        (of_nat (digits_value (whole @ part)) * rat_powi 10 (e - int (length part))), rest))"

definition strtof :: "string \<Rightarrow> parsed_float \<times> string" where
  "strtof = parse_float (finite_or_infinite f32 (2 ^ 128))"

definition strtod :: "string \<Rightarrow> parsed_float \<times> string" where
  "strtod = parse_float (finite_or_infinite f64 (2 ^ 1024))"

text \<open>The offset the command line gives; \<open>None\<close> when it is refused. Comparisons with a NaN are false.\<close>

definition demod_offset :: "string option \<Rightarrow> parsed_float option" where
  "demod_offset arg =
     (case arg of None \<Rightarrow> Some (Finite 0)
      | Some t \<Rightarrow>
          (case strtof t of (v, rest) \<Rightarrow>
             if rest = t \<or> rest \<noteq> [] then None
             else case v of
               Finite x \<Rightarrow> if x \<le> - 24000 \<or> x \<ge> 24000 then None else Some v
             | Infinite negative \<Rightarrow> None
             | NotANumber \<Rightarrow> Some v))"

subsection \<open>The WAV file\<close>

definition store_le16 :: "u16 \<Rightarrow> u8 list" where
  "store_le16 v = [ucast v, ucast (drop_bit 8 v)]"

definition store_le32 :: "u32 \<Rightarrow> u8 list" where
  "store_le32 v = [ucast v, ucast (drop_bit 8 v), ucast (drop_bit 16 v), ucast (drop_bit 24 v)]"

definition wav_header :: "u32 \<Rightarrow> u8 list" where
  "wav_header n =
     [0x52, 0x49, 0x46, 0x46] @ store_le32 (36 + n * 2) @
     [0x57, 0x41, 0x56, 0x45, 0x66, 0x6D, 0x74, 0x20] @ store_le32 16 @ store_le16 1 @ store_le16 1 @
     store_le32 48000 @ store_le32 (48000 * 2) @ store_le16 2 @ store_le16 16 @
     [0x64, 0x61, 0x74, 0x61] @ store_le32 (n * 2)"

definition write_wav_header :: "u32 \<Rightarrow> out_file \<Rightarrow> bool \<times> out_file" where
  "write_wav_header n f =
     (case fwrite (wav_header n) f of (written, f) \<Rightarrow> (written = length (wav_header n), f))"

definition pcm_sample :: "rat \<Rightarrow> u8 list" where
  "pcm_sample a = store_le16 (of_int (lrint (f32 (max (- 1) (min 1 a) * 32767))))"

record demodulation =
  de_stats :: iq_stats
  de_blocker :: dc_blocker
  de_dsp :: dsp
  de_output :: out_file
  de_written :: u64

text \<open>Too many samples end the loop, and the tool fails after it.\<close>

definition demod_block :: "libm \<Rightarrow> (rat \<Rightarrow> rat \<Rightarrow> rat) \<Rightarrow> u8 list \<Rightarrow> demodulation \<Rightarrow> bool \<times> demodulation" where
  "demod_block m atan2f block s =
     (case process_iq16le block INPUT_FRAMES (de_stats s) (de_blocker s) of (iq, st, b) \<Rightarrow>
      case dsp_process m atan2f iq INPUT_FRAMES (de_dsp s) of (audio, d) \<Rightarrow>
      case fwrite (concat (map pcm_sample audio)) (de_output s) of (written, f) \<Rightarrow>
        let s = \<lparr>de_stats = st, de_blocker = b, de_dsp = d, de_output = f, de_written = de_written s\<rparr>
        in if written div 2 \<noteq> length audio then (False, s)
           else
             let s = s\<lparr>de_written := de_written s + of_nat (length audio)\<rparr>
             in (de_written s \<le> 2147483647, s))"

text \<open>The demodulation of an accepted mode at a finite offset. The result as for \<open>frame_capture\<close>.\<close>

definition demod_files ::
  "libm \<Rightarrow> (rat \<Rightarrow> rat \<Rightarrow> rat) \<Rightarrow> demod_mode \<Rightarrow> rat \<Rightarrow> in_file \<Rightarrow> out_file \<Rightarrow> bool \<Rightarrow> bool \<Rightarrow> bool \<times> out_file" where
  "demod_files m atan2f mode offset file out fflush_ok fclose_ok =
     (case dsp_init m \<lparr>cfg_mode = mode, cfg_sample_rate = 48000, cfg_offset_hz = offset, cfg_agc_enabled = True\<rparr> of
        None \<Rightarrow> (False, out)
      | Some d \<Rightarrow>
          (case write_wav_header 0 out of (ok, out) \<Rightarrow>
             if \<not> ok then (False, out)
             else case read_blocks (demod_block m atan2f) (in_bytes file)
                 \<lparr>de_stats = iq_stats_reset, de_blocker = dc_blocker_init (f32 (1 / 1000)), de_dsp = d,
                  de_output = out, de_written = 0\<rparr> of
               (ok, s) \<Rightarrow>
                 if \<not> ok \<or> in_error file then (False, de_output s)
                 else case write_wav_header (ucast (de_written s)) ((de_output s)\<lparr>f_position := 0\<rparr>) of
                   (ok, out) \<Rightarrow> (ok \<and> fflush_ok \<and> fclose_ok, out)))"

text \<open>The whole tool; \<open>None\<close> is an offset that is not a number, whose samples are not modelled.\<close>

definition demod_capture ::
  "libm \<Rightarrow> (rat \<Rightarrow> rat \<Rightarrow> rat) \<Rightarrow> string \<Rightarrow> string option \<Rightarrow> in_file option \<Rightarrow> out_file option \<Rightarrow> bool \<Rightarrow> bool \<Rightarrow>
   (bool \<times> out_file option) option" where
  "demod_capture m atan2f mode_text offset_text input output fflush_ok fclose_ok =
     (case (parse_demod_mode mode_text, demod_offset offset_text) of
        (Some mode, Some (Finite offset)) \<Rightarrow>
          (case (input, output) of
             (Some file, Some out) \<Rightarrow>
               (case demod_files m atan2f mode offset file out fflush_ok fclose_ok of (ok, out) \<Rightarrow> Some (ok, Some out))
           | _ \<Rightarrow> Some (False, output))
      | (Some _, Some _) \<Rightarrow> None
      | _ \<Rightarrow> Some (False, output))"

text \<open>An offset that the range check lets through.\<close>

lemma not_a_number_accepted: "demod_offset (Some ''nan'') = Some NotANumber"
  by code_simp

text \<open>Near the largest accepted length the size in the RIFF header wraps.\<close>

lemma riff_size_wraps: "take 8 (wav_header 2147483630) = [0x52, 0x49, 0x46, 0x46, 0, 0, 0, 0]"
  by code_simp

subsection \<open>What demodulation writes\<close>

lemma length_wav_header [simp]: "length (wav_header n) = 44"
  by (simp add: wav_header_def store_le32_def store_le16_def)

lemma length_pcm [simp]: "length (concat (map pcm_sample audio)) = 2 * length audio"
  by (induction audio) (simp_all add: pcm_sample_def store_le16_def)

definition demodulated ::
  "libm \<Rightarrow> (rat \<Rightarrow> rat \<Rightarrow> rat) \<Rightarrow> dsp \<Rightarrow> out_file \<Rightarrow> (int \<times> int) list \<Rightarrow> demodulation \<Rightarrow> bool" where
  "demodulated m a d0 f0 past s \<longleftrightarrow>
     (case process_frames past (fst block_start) (snd block_start) of (outs, st, b) \<Rightarrow>
      case dsp_samples m a outs d0 of (audio, d) \<Rightarrow>
        de_stats s = st \<and> de_blocker s = b \<and> de_dsp s = d \<and>
        extended f0 (concat (map pcm_sample audio)) (de_output s)) \<and>
     de_written s = of_nat (length past)"

lemma demod_block_step:
  assumes "demodulated m a d0 f0 past s" and "length block \<le> INPUT_BYTES"
    and "prefix (past @ whole_recording block) all"
    and "f_position f0 = length (f_bytes f0)" and "2 * length all \<le> f_room f0" and "length all \<le> 2147483647"
  shows "\<exists>s'. demod_block m a block s = (True, s') \<and> demodulated m a d0 f0 (past @ whole_recording block) s'"
proof -
  obtain outs st b where past: "process_frames past (fst block_start) (snd block_start) = (outs, st, b)"
    by (metis prod_cases3)
  obtain audio d where audio: "dsp_samples m a outs d0 = (audio, d)" by fastforce
  obtain us st' b' where new: "process_frames (whole_recording block) st b = (us, st', b')"
    by (metis prod_cases3)
  obtain vs d' where new_audio: "dsp_samples m a us d = (vs, d')" by fastforce
  note s = assms(1) [unfolded demodulated_def past audio prod.case]
  have us: "length us = length (whole_recording block)" and outs: "length outs = length past"
    using length_process_frames new past by (metis fst_conv)+
  have vs: "length vs = length us" and au: "length audio = length outs"
    using length_dsp_samples new_audio audio by (metis fst_conv)+
  have "length us \<le> 1024" using us assms(2) by simp
  then have process: "dsp_process m a us INPUT_FRAMES d = (vs, d')" by (simp add: dsp_process_def new_audio)
  have all: "length past + length us \<le> length all" using prefix_length_le [OF assms(3)] us by simp
  have "f_position (de_output s) = length (f_bytes (de_output s))"
    "length (concat (map pcm_sample vs)) \<le> f_room (de_output s)"
    using s assms(4,5) all vs au outs by (simp_all add: extended_def)
  from fwrite_all [OF this] obtain f' where f': "fwrite (concat (map pcm_sample vs)) (de_output s) = (2 * length vs, f')"
    "extended (de_output s) (concat (map pcm_sample vs)) f'"
    by (simp add: extended_def)
  have "unat (of_nat (length past + length us) :: u64) = length past + length us"
    using all assms(6) by (simp only: unsigned_of_nat) (simp add: take_bit_nat_eq_self)
  then have "(of_nat (length past) + of_nat (length us) :: u64) \<le> 2147483647"
    using all assms(6) by (simp add: word_le_nat_alt)
  moreover have "process_frames (past @ whole_recording block) (fst block_start) (snd block_start) =
      (outs @ us, st', b')"
    by (simp add: process_frames_append past new)
  moreover have "extended f0 (concat (map pcm_sample (audio @ vs))) f'"
    using s extended_trans [OF _ f'(2)] by simp
  ultimately show ?thesis
    using s f' us vs
    by (simp add: demod_block_def demodulated_def process_iq16le_def block_frames [OF assms(2)] new process
        dsp_samples_append audio new_audio Let_def)
qed

text \<open>A number of the file as a reader of the format takes it, least significant byte first.\<close>

definition le_number :: "u8 list \<Rightarrow> nat" where
  "le_number bytes = foldr (\<lambda>b n. unat b + 256 * n) bytes 0"

lemma unat_byte: "unat (ucast (drop_bit k (v :: 'a::len word)) :: u8) = unat v div 2 ^ k mod 256"
  by (simp add: unsigned_ucast_eq unsigned_drop_bit_eq) (simp add: take_bit_eq_mod drop_bit_eq_div)

lemma unat_low_byte: "unat (ucast (v :: 'a::len word) :: u8) = unat v mod 256"
  using unat_byte [of 0 v] by simp

lemma base_256: "(n :: nat) = n mod 256 + 256 * (n div 256)"
  by simp

lemma le_number_store [simp]:
  "le_number (store_le16 v) = unat v" "le_number (store_le32 w) = unat w"
proof -
  have v: "unat v < 2 ^ 16" and w: "unat w < 2 ^ 32" using unsigned_less [of v] unsigned_less [of w] by simp_all
  have "unat v div 256 < 256" using v by simp
  then show "le_number (store_le16 v) = unat v"
    unfolding le_number_def store_le16_def foldr.simps comp_def
    by (simp only: unat_byte) (simp add: unat_low_byte)
  have "unat w div 16777216 < 256" using w by simp
  moreover have "unat w div 65536 = unat w div 65536 mod 256 + 256 * (unat w div 16777216)"
    "unat w div 256 = unat w div 256 mod 256 + 256 * (unat w div 65536)"
    using base_256 [of "unat w div 65536"] base_256 [of "unat w div 256"] by (simp_all add: div_mult2_eq [symmetric])
  ultimately show "le_number (store_le32 w) = unat w"
    using base_256 [of "unat w"]
    unfolding le_number_def store_le32_def foldr.simps comp_def
    by (simp only: unat_byte) (simp add: unat_low_byte)
qed

text \<open>
  What a reader asks of the 44 bytes before \<open>count\<close> samples of one channel of 16 bits at 48 kHz: a
  RIFF file of everything that follows its size (modulo \<open>2 ^ 32\<close>), a format chunk and the head of a
  data chunk of exactly those samples.
\<close>

definition wav_of :: "nat \<Rightarrow> u8 list \<Rightarrow> bool" where
  "wav_of count h \<longleftrightarrow> length h = 44 \<and>
     take 4 h = map of_char ''RIFF'' \<and> le_number (take 4 (drop 4 h)) = (36 + 2 * count) mod 2 ^ 32 \<and>
     take 8 (drop 8 h) = map of_char ''WAVEfmt '' \<and> le_number (take 4 (drop 16 h)) = 16 \<and>
     le_number (take 2 (drop 20 h)) = 1 \<and> le_number (take 2 (drop 22 h)) = 1 \<and>
     le_number (take 4 (drop 24 h)) = 48000 \<and> le_number (take 4 (drop 28 h)) = 96000 \<and>
     le_number (take 2 (drop 32 h)) = 2 \<and> le_number (take 2 (drop 34 h)) = 16 \<and>
     take 4 (drop 36 h) = map of_char ''data'' \<and> le_number (drop 40 h) = 2 * count"

lemma length_store_le [simp]: "length (store_le32 w) = 4" "length (store_le16 v) = 2"
  by (simp_all add: store_le32_def store_le16_def)

lemma wav_header_names:
  assumes "n \<le> 2147483647"
  shows "wav_of n (wav_header (of_nat n))"
proof -
  have data: "unat (of_nat n * 2 :: u32) = 2 * n"
    using assms by (simp add: unat_word_ariths unsigned_of_nat take_bit_eq_mod)
  have riff: "unat (36 + of_nat n * 2 :: u32) = (36 + 2 * n) mod 2 ^ 32"
    using data by (simp add: unat_word_ariths)
  show ?thesis
    by (simp add: wav_of_def wav_header_def data riff)
qed

text \<open>C28.
  Demodulating a recording of at most 2147483647 frames onto a disk with room for it, in a mode and
  at an offset that are accepted, succeeds, and the file is a 44-byte WAV header followed by exactly
  two bytes for each frame: the header's data chunk is as long as what follows it, the RIFF size is
  that of the rest of the file (modulo \<open>2 ^ 32\<close>: the last 18 lengths wrap), and the samples are those
  of demodulating the whole recording at once, limited and rounded to 16 bits.
\<close>

theorem demod_writes_wav:
  assumes "dsp_init m \<lparr>cfg_mode = mode, cfg_sample_rate = 48000, cfg_offset_hz = offset, cfg_agc_enabled = True\<rparr> = Some d"
    and "length bytes div 4 \<le> 2147483647" and "44 + 2 * (length bytes div 4) \<le> room"
  shows "\<exists>out. demod_files m a mode offset \<lparr>in_bytes = bytes, in_error = False\<rparr>
      \<lparr>f_bytes = [], f_position = 0, f_room = room, f_error = False\<rparr> True True = (True, out) \<and>
    wav_of (length bytes div 4) (take 44 (f_bytes out)) \<and>
    length (drop 44 (f_bytes out)) = 2 * (length bytes div 4) \<and>
    drop 44 (f_bytes out) = concat (map pcm_sample
      (fst (dsp_samples m a (fst (process_frames (whole_recording bytes) iq_stats_reset
         (dc_blocker_init (f32 (1 / 1000))))) d)))"
proof -
  define f0 where "f0 = \<lparr>f_bytes = wav_header 0, f_position = 44, f_room = room - 44, f_error = False\<rparr>"
  have header: "write_wav_header 0 \<lparr>f_bytes = [], f_position = 0, f_room = room, f_error = False\<rparr> = (True, f0)"
    using assms(3) fwrite_all [of "\<lparr>f_bytes = [], f_position = 0, f_room = room, f_error = False\<rparr>" "wav_header 0"]
    by (simp add: write_wav_header_def f0_def)
  define s0 where "s0 = \<lparr>de_stats = iq_stats_reset, de_blocker = dc_blocker_init (f32 (1 / 1000)), de_dsp = d,
    de_output = f0, de_written = 0\<rparr>"
  have "demodulated m a d f0 [] s0" by (simp add: demodulated_def block_start_def s0_def extended_def)
  moreover have "f_position f0 = length (f_bytes f0)" "2 * length (whole_recording bytes) \<le> f_room f0"
    using assms(3) by (simp_all add: f0_def)
  ultimately obtain s' where s': "read_blocks (demod_block m a) bytes s0 = (True, s')"
    "demodulated m a d f0 (whole_recording bytes) s'"
    using read_blocks_invariant [where ok = "demodulated m a d f0" and work = "demod_block m a" and past = "[]"
        and s = s0 and all = "whole_recording bytes" and bytes = bytes] demod_block_step assms(2)
    by auto
  obtain outs st b where o: "process_frames (whole_recording bytes) iq_stats_reset
      (dc_blocker_init (f32 (1 / 1000))) = (outs, st, b)"
    by (metis prod_cases3)
  obtain audio d' where au: "dsp_samples m a outs d = (audio, d')" by fastforce
  have e: "extended f0 (concat (map pcm_sample audio)) (de_output s')"
    "de_written s' = of_nat (length bytes div 4)"
    using s'(2) by (simp_all add: demodulated_def block_start_def o au)
  have n: "(ucast (of_nat (length bytes div 4) :: u64) :: u32) = of_nat (length bytes div 4)"
    using take_bit_nat_eq_self [of "length bytes div 4" 64] assms(2) by (simp add: unsigned_of_nat)
  define header where "header = wav_header (of_nat (length bytes div 4))"
  have "fwrite header ((de_output s')\<lparr>f_position := 0\<rparr>) =
      (44, (de_output s')\<lparr>f_bytes := header @ concat (map pcm_sample audio), f_position := 44\<rparr>)"
    using e(1) by (simp add: fwrite_def extended_def f0_def header_def Let_def)
  then have "write_wav_header (of_nat (length bytes div 4)) ((de_output s')\<lparr>f_position := 0\<rparr>) =
      (True, (de_output s')\<lparr>f_bytes := header @ concat (map pcm_sample audio), f_position := 44\<rparr>)"
    by (simp add: write_wav_header_def header_def)
  moreover have "length (concat (map pcm_sample audio)) = 2 * (length bytes div 4)"
    using length_dsp_samples [of m a outs d] length_process_frames [of "whole_recording bytes" iq_stats_reset
      "dc_blocker_init (f32 (1 / 1000))"] by (simp add: o au)
  moreover have "length header = 44" by (simp add: header_def)
  ultimately show ?thesis
    using s'(1) e(2) wav_header_names [OF assms(2)]
    by (simp add: demod_files_def assms(1) header s0_def [symmetric] n header_def [symmetric] o au)
qed

theorem demod_writes_wav_witness:
  "\<forall>m a. \<exists>out. demod_files m a DemodAm 1000 \<lparr>in_bytes = [1, 0, 2, 0, 7], in_error = False\<rparr>
      \<lparr>f_bytes = [], f_position = 0, f_room = 46, f_error = False\<rparr> True True = (True, out) \<and>
    le_number (drop 40 (take 44 (f_bytes out))) = 2 \<and> length (drop 44 (f_bytes out)) = 2"
proof (intro allI)
  fix m a
  have one: "length [1, 0, 2, 0, 7 :: u8] div 4 = 1" by simp
  obtain d where d: "dsp_init m \<lparr>cfg_mode = DemodAm, cfg_sample_rate = 48000, cfg_offset_hz = 1000,
      cfg_agc_enabled = True\<rparr> = Some d"
    using am_config_accepted [of m] by (auto simp: am_config_def)
  have "length [1, 0, 2, 0, 7 :: u8] div 4 \<le> 2147483647" "44 + 2 * (length [1, 0, 2, 0, 7 :: u8] div 4) \<le> 46"
    by simp_all
  from demod_writes_wav [OF d this, of a, unfolded one]
  show "\<exists>out. demod_files m a DemodAm 1000 \<lparr>in_bytes = [1, 0, 2, 0, 7], in_error = False\<rparr>
      \<lparr>f_bytes = [], f_position = 0, f_room = 46, f_error = False\<rparr> True True = (True, out) \<and>
    le_number (drop 40 (take 44 (f_bytes out))) = 2 \<and> length (drop 44 (f_bytes out)) = 2"
    by (auto simp only: wav_of_def mult_1_right)
qed

end
