(* ===== verification/Offline_Server.thy ===== *)
theory Offline_Server
  imports Live_Streams Launch
begin

text \<open>
  Model of \<open>serve_offline_at\<close> in \<open>src/flex1500d.c\<close>: the API without a radio. One client at a time is
  read until its request is complete and answered; the controller has none of the parts that
  transmit, tune or stream. \<open>version\<close> and \<open>revision\<close> are those of the build.
\<close>

definition offline_status :: "string \<Rightarrow> string \<Rightarrow> service_status" where
  "offline_status version revision =
     \<lparr>sv_software_version = Some version, sv_git_revision = Some revision,
      sv_state = ''offline_serving'', sv_radio_open = False, sv_network_listening = True,
      sv_sample_rate = 48000, sv_frames = 0, sv_sentinel_frames = 0, sv_usb_packets = 0,
      sv_usb_packet_errors = 0, sv_ring_dropped_frames = 0, sv_network_frames_sent = 0,
      sv_network_samples_sent = 0, sv_network_would_block_events = 0, sv_network_disconnects = 0,
      sv_network_write_errors = 0, sv_rx_tune_operations = 0, sv_radio_command_errors = 0,
      sv_usb_transfer_status_errors = 0, sv_usb_transfer_timeouts = 0, sv_usb_transfer_stalls = 0,
      sv_usb_transfer_no_device = 0, sv_usb_transfer_overflows = 0, sv_usb_transfer_other_errors = 0,
      sv_usb_packet_status_errors = 0, sv_usb_packet_timeouts = 0, sv_usb_packet_stalls = 0,
      sv_usb_packet_no_device = 0, sv_usb_packet_overflows = 0, sv_usb_packet_other_errors = 0,
      sv_usb_short_packets = 0, sv_usb_zero_length_packets = 0, sv_usb_oversized_packets = 0,
      sv_usb_missing_bytes = 0, sv_usb_trailing_bytes = 0, sv_usb_error_events = 0,
      sv_physical_status_packets = 0, sv_physical_status_changes = 0, sv_physical_status_errors = 0,
      sv_usb_first_error_ms = 0, sv_usb_last_error_ms = 0, sv_first_sentinel_frame = 0,
      sv_last_sentinel_frame = 0, sv_first_sentinel_ms = 0, sv_last_sentinel_ms = 0,
      sv_rx_recovery_attempts = 0, sv_rx_recovery_successes = 0, sv_tx_starts = 0, sv_tx_stops = 0,
      sv_tx_underruns = 0, sv_tx_clipped_frames = 0, sv_tx_limited_frames = 0,
      sv_tx_dropped_microphone_frames = 0, sv_tx_queued_frames = 0, sv_tx_queued_ms = 0,
      sv_tx_peak_queued_frames = 0, sv_tx_stop_requested_frames = 0, sv_tx_graceful_drained_frames = 0,
      sv_tx_graceful_discarded_frames = 0, sv_tx_graceful_drain_ms = 0,
      sv_tx_audio_meter_valid = False, sv_tx_input_peak_dbfs = 0, sv_tx_input_rms_dbfs = 0,
      sv_tx_post_gain_peak_dbfs = 0, sv_tx_post_gain_rms_dbfs = 0, sv_tx_output_peak_dbfs = 0,
      sv_tx_output_rms_dbfs = 0, sv_tx_rejected_ownership_requests = 0, sv_tx_watchdog_stops = 0,
      sv_tx_cleanup_failures = 0\<rparr>"

text \<open>The controller; the rest of the state is what its null pointers do not reach.\<close>

definition offline_start :: "bool \<Rightarrow> api_sys \<Rightarrow> api_sys" where
  "offline_start page s = s\<lparr>controller := api_controller_init False False page\<rparr>"

abbreviation OFFLINE_REQUEST_BYTES :: nat where "OFFLINE_REQUEST_BYTES \<equiv> 2048"

text \<open>What has been read when the request is complete, the buffer is full or the client is gone.\<close>

fun offline_receive :: "char recv_result list \<Rightarrow> string \<Rightarrow> string" where
  "offline_receive [] request = request"
| "offline_receive (arrival # arrivals) request =
     (if length request < OFFLINE_REQUEST_BYTES - 1 \<and> \<not> http_request_complete request
      then case recv (OFFLINE_REQUEST_BYTES - 1 - length request) arrival of
             Received data \<Rightarrow> offline_receive arrivals (request @ data)
           | _ \<Rightarrow> request
      else request)"

datatype offline_answer = NoAnswer | TestPage | Answer string

definition offline_client ::
  "string \<Rightarrow> string \<Rightarrow> char recv_result list \<Rightarrow> u64 \<Rightarrow> api_sys \<Rightarrow> offline_answer \<times> api_sys" where
  "offline_client version revision arrivals now s =
     (let request = offline_receive arrivals []
      in if request \<noteq> [] \<and> http_request_complete request
         then
           case api_dispatch \<lparr>start_callback = None, stop_callback = None\<rparr>
               \<lparr>tune_rx_callback = None, set_rx_gain_callback = None\<rparr> (c_string_at request 0)
               (offline_status version revision) RADIO_INFO RESPONSE_BYTES
               (map_controller (\<lambda>c. c\<lparr>request_now_ms := now\<rparr>) s) of
             (action, response, _, s) \<Rightarrow>
               (if action = ApiServeTestPage then TestPage
                else case response of None \<Rightarrow> NoAnswer | Some t \<Rightarrow> if t = [] then NoAnswer else Answer t, s)
         else (NoAnswer, s))"

text \<open>The clients one after the other; \<open>None\<close>: the address or the port is refused.\<close>

fun offline_clients ::
  "string \<Rightarrow> string \<Rightarrow> (char recv_result list \<times> u64) list \<Rightarrow> api_sys \<Rightarrow> offline_answer list \<times> api_sys" where
  "offline_clients version revision [] s = ([], s)"
| "offline_clients version revision ((arrivals, now) # visitors) s =
     (case offline_client version revision arrivals now s of (a, s) \<Rightarrow>
      case offline_clients version revision visitors s of (as, s) \<Rightarrow> (a # as, s))"

definition serve_offline_at ::
  "string \<Rightarrow> string \<Rightarrow> bool \<Rightarrow> string \<Rightarrow> string \<Rightarrow> (char recv_result list \<times> u64) list \<Rightarrow> api_sys \<Rightarrow>
   (offline_answer list \<times> api_sys) option" where
  "serve_offline_at bind_address port_text page version revision visitors s =
     (if listener_port port_text = None \<or> \<not> inet_pton4 bind_address then None
      else Some (offline_clients version revision visitors (offline_start page s)))"

subsection \<open>Nothing to control\<close>

definition powerless :: "api_controller \<Rightarrow> bool" where
  "powerless c \<longleftrightarrow> \<not> rx_tuning_enabled c \<and> \<not> iq_stream_active c \<and> \<not> has_tune c \<and> \<not> has_network_tx c \<and>
     \<not> has_station c"

declare starts_with_Cons [simp del]

lemma powerless_owner:
  assumes "powerless (controller s)"
  shows "dispatch_owner request room s = respond (not_found room) s"
    "dispatch_tx cb request radio room s = respond (not_found room) s"
    "dispatch_tune cb request radio room s = respond (not_found room) s"
    "tx_setting_guard s room = Some (not_found room)" "\<not> transmitter_active s"
    "station_request_authorized s request"
  using assms
  by (simp_all add: powerless_def dispatch_owner_def dispatch_tx_def dispatch_tune_def tx_setting_guard_def
      transmitter_active_def station_request_authorized_def)

text \<open>Every part of the dispatch answers, with a text that depends on the request alone.\<close>

definition answers_only :: "(api_sys \<Rightarrow> api_sys api_result) \<Rightarrow> api_sys \<Rightarrow> bool" where
  "answers_only f s \<longleftrightarrow>
     (\<exists>t. f s = respond t s \<and>
          (\<forall>now. f (map_controller (\<lambda>c. c\<lparr>request_now_ms := now\<rparr>) s) =
             respond t (map_controller (\<lambda>c. c\<lparr>request_now_ms := now\<rparr>) s)))"

lemma powerless_now: "powerless (c\<lparr>request_now_ms := now\<rparr>) = powerless c"
  by (simp add: powerless_def)

lemma powerless_parts:
  assumes "powerless (controller s)"
  shows "answers_only (dispatch_compressor request room) s"
    "answers_only (dispatch_tx_setting request room) s"
    "answers_only (dispatch_timeout request room) s"
    "answers_only (dispatch_page request status radio room) s"
proof -
  note p = assms [unfolded powerless_def] and guard = powerless_owner(4) [where room = room]
  show "answers_only (dispatch_compressor request room) s"
    unfolding answers_only_def dispatch_compressor_def Let_def
    by (cases "\<not> starts_with ''PUT /v1/radio/tx-compressor/on HTTP/'' request \<and>
        \<not> starts_with ''PUT /v1/radio/tx-compressor/off HTTP/'' request")
      (auto simp: guard assms powerless_now)
  show "answers_only (dispatch_tx_setting request room) s"
    unfolding answers_only_def dispatch_tx_setting_def Let_def
    by (auto simp: guard assms powerless_now split: option.split)
  show "answers_only (dispatch_timeout request room) s"
    unfolding answers_only_def dispatch_timeout_def Let_def using p by (auto split: option.split)
  have "presented_radio (map_controller (\<lambda>c. c\<lparr>request_now_ms := now\<rparr>) s) radio = presented_radio s radio" for now
    using p by (simp add: presented_radio_def api_rx_bandwidth_def Let_def)
  then show "answers_only (dispatch_page request status radio room) s"
    unfolding answers_only_def dispatch_page_def by (auto split: option.split)
qed

lemma answers_respond: "answers_only (respond t) s"
  by (auto simp: answers_only_def)

definition test_page_wanted :: "string \<Rightarrow> api_sys \<Rightarrow> bool" where
  "test_page_wanted request s \<longleftrightarrow> starts_with ''GET /test HTTP/'' request \<and> test_page_enabled (controller s)"

lemma powerless_rx:
  assumes "powerless (controller s)"
  shows "answers_only (dispatch_rx acb request status radio room) s \<or>
    (\<forall>s'. powerless (controller s') \<longrightarrow> test_page_enabled (controller s') = test_page_enabled (controller s) \<longrightarrow>
       dispatch_rx acb request status radio room s' = (ApiServeTestPage, None, None, s'))"
proof -
  let ?own = "starts_with ''PUT /v1/radio/frequency/'' request \<or> starts_with ''PUT /v1/radio/mode/'' request \<or>
    starts_with ''PUT /v1/radio/gain/'' request \<or> starts_with ''PUT /v1/radio/bandwidth/'' request \<or>
    starts_with ''PUT /v1/radio/squelch/'' request"
  have eq: "dispatch_rx acb request status radio room s' =
      (if ?own then respond (not_found room) s'
       else if test_page_wanted request s' then (ApiServeTestPage, None, None, s')
       else dispatch_page request status radio room s')" if "powerless (controller s')" for s'
    using that powerless_owner(5) [OF that] unfolding dispatch_rx_def Let_def test_page_wanted_def powerless_def by simp
  have now: "test_page_wanted request (map_controller (\<lambda>c. c\<lparr>request_now_ms := now\<rparr>) s) = test_page_wanted request s" for now
    by (simp add: test_page_wanted_def)
  consider ?own | "\<not> ?own" "test_page_wanted request s" | "\<not> ?own" "\<not> test_page_wanted request s" by blast
  then show ?thesis
  proof cases
    case 1
    then show ?thesis
      using answers_respond [of "not_found room" s] assms by (simp only: answers_only_def eq powerless_now api_frame if_True) blast
  next
    case 2
    then show ?thesis by (auto simp: eq test_page_wanted_def)
  next
    case 3
    then show ?thesis
      using powerless_parts(4) [OF assms, of request status radio room] assms
      by (simp add: answers_only_def eq powerless_now now)
  qed
qed

lemma powerless_dispatch:
  assumes "powerless (controller s)"
  shows "answers_only (api_dispatch cb acb request status radio room) s \<or>
    (\<forall>now. let s' = map_controller (\<lambda>c. c\<lparr>request_now_ms := now\<rparr>) s
           in api_dispatch cb acb request status radio room s' = (ApiServeTestPage, None, None, s'))"
proof -
  have eq: "api_dispatch cb acb request status radio room s' =
      (if path_owner request then respond (not_found room) s'
       else if path_tx request then respond (not_found room) s'
       else if path_compressor request then dispatch_compressor request room s'
       else if path_tx_setting request then dispatch_tx_setting request room s'
       else if path_timeout request then dispatch_timeout request room s'
       else if path_tune request then respond (not_found room) s'
       else dispatch_rx acb request status radio room s')" if "powerless (controller s')" for s'
    unfolding api_dispatch_def by (simp add: powerless_owner [OF that])
  let ?d = "api_dispatch cb acb request status radio room"
  have cong: "answers_only ?d s" if "answers_only g s" "\<And>s'. powerless (controller s') \<Longrightarrow> ?d s' = g s'" for g
    using that assms by (simp add: answers_only_def powerless_now)
  note parts = powerless_parts [OF assms, where request = request and room = room]
  consider (fixed) "path_owner request \<or> path_tx request"
    | (compressor) "\<not> path_owner request" "\<not> path_tx request" "path_compressor request"
    | (setting) "\<not> path_owner request" "\<not> path_tx request" "\<not> path_compressor request" "path_tx_setting request"
    | (timeout) "\<not> path_owner request" "\<not> path_tx request" "\<not> path_compressor request"
        "\<not> path_tx_setting request" "path_timeout request"
    | (tune) "\<not> path_owner request" "\<not> path_tx request" "\<not> path_compressor request"
        "\<not> path_tx_setting request" "\<not> path_timeout request" "path_tune request"
    | (rx) "\<not> path_owner request" "\<not> path_tx request" "\<not> path_compressor request"
        "\<not> path_tx_setting request" "\<not> path_timeout request" "\<not> path_tune request"
    by blast
  then show ?thesis
  proof cases
    case rx
    from powerless_rx [OF assms, of acb request status radio room] show ?thesis
    proof
      assume "answers_only (dispatch_rx acb request status radio room) s"
      then show ?thesis by (intro disjI1 cong) (simp_all add: eq rx)
    next
      assume "\<forall>s'. powerless (controller s') \<longrightarrow> test_page_enabled (controller s') = test_page_enabled (controller s) \<longrightarrow>
        dispatch_rx acb request status radio room s' = (ApiServeTestPage, None, None, s')"
      then show ?thesis using assms by (simp add: eq rx powerless_now Let_def)
    qed
  next
    case fixed
    then show ?thesis by (intro disjI1 cong [OF answers_respond [of "not_found room"]]) (auto simp: eq)
  next
    case compressor
    then show ?thesis by (intro disjI1 cong [OF parts(1)]) (simp add: eq)
  next
    case setting
    then show ?thesis by (intro disjI1 cong [OF parts(2)]) (simp add: eq)
  next
    case timeout
    then show ?thesis by (intro disjI1 cong [OF parts(3)]) (simp add: eq)
  next
    case tune
    then show ?thesis by (intro disjI1 cong [OF answers_respond [of "not_found room"]]) (simp add: eq)
  qed
qed

lemma powerless_reply:
  fixes s :: api_sys
  assumes "powerless (controller s)"
  shows "\<exists>action reply. \<forall>now. api_dispatch cb acb request status radio room
      (map_controller (\<lambda>c. c\<lparr>request_now_ms := now\<rparr>) s) =
    (action, reply, None, map_controller (\<lambda>c. c\<lparr>request_now_ms := now\<rparr>) s)"
  using powerless_dispatch [OF assms, of cb acb request status radio room]
  by (auto simp: answers_only_def respond_def Let_def)

lemma offline_client_alone:
  fixes s :: api_sys
  assumes "powerless (controller s)"
  shows "fst (offline_client version revision arrivals now (map_controller (\<lambda>c. c\<lparr>request_now_ms := n\<rparr>) s)) =
      fst (offline_client version revision arrivals now s)"
    and "\<exists>n. snd (offline_client version revision arrivals now s) = map_controller (\<lambda>c. c\<lparr>request_now_ms := n\<rparr>) s"
proof -
  have twice: "map_controller (\<lambda>c. c\<lparr>request_now_ms := a\<rparr>) (map_controller (\<lambda>c. c\<lparr>request_now_ms := b\<rparr>) s) =
      map_controller (\<lambda>c. c\<lparr>request_now_ms := a\<rparr>) s" for a b
    by (simp add: map_controller_def)
  show "fst (offline_client version revision arrivals now (map_controller (\<lambda>c. c\<lparr>request_now_ms := n\<rparr>) s)) =
      fst (offline_client version revision arrivals now s)"
    by (simp add: offline_client_def Let_def case_prod_beta twice)
  have same: "map_controller (\<lambda>c. c\<lparr>request_now_ms := request_now_ms (controller s)\<rparr>) s = s"
    by (simp add: map_controller_def)
  let ?request = "offline_receive arrivals []"
  obtain action reply where d: "\<forall>now. api_dispatch \<lparr>start_callback = None, stop_callback = None\<rparr>
      \<lparr>tune_rx_callback = None, set_rx_gain_callback = None\<rparr> (c_string_at ?request 0)
      (offline_status version revision) RADIO_INFO RESPONSE_BYTES
      (map_controller (\<lambda>c. c\<lparr>request_now_ms := now\<rparr>) s) =
    (action, reply, None, map_controller (\<lambda>c. c\<lparr>request_now_ms := now\<rparr>) s)"
    using powerless_reply [OF assms] by blast
  have "snd (offline_client version revision arrivals now s) \<in>
      {s, map_controller (\<lambda>c. c\<lparr>request_now_ms := now\<rparr>) s}"
    by (simp add: offline_client_def Let_def d)
  then show "\<exists>n. snd (offline_client version revision arrivals now s) = map_controller (\<lambda>c. c\<lparr>request_now_ms := n\<rparr>) s"
    using same by (metis insertE singletonD)
qed

text \<open>C30.
  The offline server controls nothing and remembers nothing: whatever its clients send, in whatever
  pieces, every one is answered as if it were the only one, and all that changes is the time of the
  last request.
\<close>

theorem offline_server_stateless:
  assumes "serve_offline_at bind_address port_text page version revision visitors s = Some (replies, s')"
  shows "replies = map (\<lambda>(arrivals, now). fst (offline_client version revision arrivals now (offline_start page s))) visitors \<and>
    (\<exists>now. s' = map_controller (\<lambda>c. c\<lparr>request_now_ms := now\<rparr>) (offline_start page s))"
proof -
  define s0 where "s0 = offline_start page s"
  have p: "powerless (controller (map_controller (\<lambda>c. c\<lparr>request_now_ms := n\<rparr>) s0))" for n
    by (simp add: powerless_def s0_def offline_start_def api_controller_init_def)
  have p0: "powerless (controller s0)"
    by (simp add: powerless_def s0_def offline_start_def api_controller_init_def)
  have twice: "map_controller (\<lambda>c. c\<lparr>request_now_ms := a\<rparr>) (map_controller (\<lambda>c. c\<lparr>request_now_ms := b\<rparr>) s0) =
      map_controller (\<lambda>c. c\<lparr>request_now_ms := a\<rparr>) s0" for a b
    by (simp add: map_controller_def)
  have "fst (offline_clients version revision visitors (map_controller (\<lambda>c. c\<lparr>request_now_ms := n\<rparr>) s0)) =
        map (\<lambda>(arrivals, now). fst (offline_client version revision arrivals now s0)) visitors \<and>
      (\<exists>now. snd (offline_clients version revision visitors (map_controller (\<lambda>c. c\<lparr>request_now_ms := n\<rparr>) s0)) =
         map_controller (\<lambda>c. c\<lparr>request_now_ms := now\<rparr>) s0)" for n
  proof (induction visitors arbitrary: n)
    case (Cons v visitors)
    obtain arrivals now where v: "v = (arrivals, now)" by fastforce
    obtain n' where "snd (offline_client version revision arrivals now (map_controller (\<lambda>c. c\<lparr>request_now_ms := n\<rparr>) s0)) =
        map_controller (\<lambda>c. c\<lparr>request_now_ms := n'\<rparr>) s0"
      using offline_client_alone(2) [OF p [of n], of version revision arrivals now] unfolding twice by blast
    with Cons.IH [of n'] offline_client_alone(1) [OF p0, of version revision arrivals now n] show ?case
      by (simp add: v case_prod_beta)
  qed auto
  moreover have "map_controller (\<lambda>c. c\<lparr>request_now_ms := request_now_ms (controller s0)\<rparr>) s0 = s0"
    by (simp add: map_controller_def)
  ultimately have "fst (offline_clients version revision visitors s0) =
        map (\<lambda>(arrivals, now). fst (offline_client version revision arrivals now s0)) visitors \<and>
      (\<exists>now. snd (offline_clients version revision visitors s0) = map_controller (\<lambda>c. c\<lparr>request_now_ms := now\<rparr>) s0)"
    by metis
  then show ?thesis
    using assms by (auto simp: serve_offline_at_def s0_def split: if_splits)
qed

theorem offline_server_stateless_witness:
  "\<forall>version revision arrivals now s. \<exists>reply n.
     serve_offline_at ''0.0.0.0'' (show_nat (unat (15000 :: u16))) True version revision [(arrivals, now)] s =
       Some ([reply], map_controller (\<lambda>c. c\<lparr>request_now_ms := n\<rparr>) (offline_start True s)) \<and>
     reply = fst (offline_client version revision arrivals now (offline_start True s))"
proof (intro allI)
  fix version revision arrivals now s
  have "listener_port (show_nat (unat (15000 :: u16))) \<noteq> None" using listener_show [of 15000] by simp
  moreover have "inet_pton4 ''0.0.0.0''"
    by (simp add: inet_pton4_def ipv4_part_def is_digit_def code_of_def digits_value_def digit_value_def)
  ultimately obtain replies s' where r: "serve_offline_at ''0.0.0.0'' (show_nat (unat (15000 :: u16))) True
      version revision [(arrivals, now)] s = Some (replies, s')"
    by (simp only: serve_offline_at_def) (cases "offline_clients version revision [(arrivals, now)] (offline_start True s)", simp)
  from offline_server_stateless [OF this] r show "\<exists>reply n.
     serve_offline_at ''0.0.0.0'' (show_nat (unat (15000 :: u16))) True version revision [(arrivals, now)] s =
       Some ([reply], map_controller (\<lambda>c. c\<lparr>request_now_ms := n\<rparr>) (offline_start True s)) \<and>
     reply = fst (offline_client version revision arrivals now (offline_start True s))"
    by (simp only: list.map prod.case) blast
qed

end
