(* ===== verification/Soapy_Rx.thy ===== *)
theory Soapy_Rx
  imports Rtl_Tcp Publisher
begin

text \<open>
  The receive stream of the SoapySDR adapter (\<open>soapy/Flex1500Device.cpp\<close>): buffering what the daemon
  sends, cutting it into frames, and handing the samples out in the pieces the application asks for,
  mixed to its frequency. It is the other end of the publisher, and the theorem joins the two: however
  the bytes arrive and however they are asked for, what the application reads is what was published.

  Values are as in \<open>Rtl_Tcp\<close>: a \<open>float\<close> is a rational or \<open>None\<close>. A negative return value is a
  \<open>soapy_error\<close>. Null buffers and handles of other streams have no counterpart.
\<close>

datatype soapy_error = SoapyTimeout | SoapyStreamError | SoapyCorruption | SoapyOverflow | SoapyNotSupported

datatype stream_format = CF32 | CS16

subsection \<open>The connection\<close>

text \<open>
  What the daemon has still to deliver, and the turns of the receive loop: the time since the loop
  began in microseconds, whether \<open>poll\<close> finds the socket readable within the milliseconds it is
  given, and what \<open>recv\<close> does. After the last turn the connection is closed.
\<close>

datatype arrival = Arrives nat | RecvInterrupted | RecvFails

record rx_turn =
  turn_elapsed :: int
  turn_ready :: "int \<Rightarrow> bool"
  turn_arrival :: arrival

record rx_stream =
  rs_format :: stream_format
  rs_active :: bool
  rs_input :: "u8 list"
  rs_samples :: "(c_float \<times> c_float) list"
  rs_sample_offset :: nat
  rs_expected_sequence :: u32
  rs_have_sequence :: bool
  rs_net :: "u8 list"
  rs_turns :: "rx_turn list"

definition wait_readable :: "rx_turn \<Rightarrow> int \<Rightarrow> bool" where
  "wait_readable t timeout_us =
     turn_ready t (if timeout_us < 0 then - 1 else sint (of_int ((timeout_us + 999) div 1000) :: 32 word))"

fun receive_bytes :: "nat \<Rightarrow> int \<Rightarrow> rx_turn list \<Rightarrow> u8 list \<Rightarrow> u8 list \<Rightarrow>
    soapy_error option \<times> rx_turn list \<times> u8 list \<times> u8 list" where
  "receive_bytes required timeout_us [] net input =
     (if required \<le> length input then (None, [], net, input) else (Some SoapyStreamError, [], net, input))"
| "receive_bytes required timeout_us (t # turns) net input =
     (if required \<le> length input then (None, t # turns, net, input)
      else let remaining = (if 0 \<le> timeout_us then timeout_us - turn_elapsed t else timeout_us)
      in if 0 \<le> timeout_us \<and> remaining \<le> 0 then (Some SoapyTimeout, turns, net, input)
         else if \<not> wait_readable t remaining then (Some SoapyTimeout, turns, net, input)
         else (case turn_arrival t of
             RecvInterrupted \<Rightarrow> receive_bytes required timeout_us turns net input
           | RecvFails \<Rightarrow> (Some SoapyStreamError, turns, net, input)
           | Arrives n \<Rightarrow>
               let chunk = take (min n 8192) net
               in if chunk = [] then (Some SoapyStreamError, turns, net, input)
                  else receive_bytes required timeout_us turns (drop (min n 8192) net) (input @ chunk)))"

definition receive_into :: "nat \<Rightarrow> int \<Rightarrow> rx_stream \<Rightarrow> soapy_error option \<times> rx_stream" where
  "receive_into required timeout_us rs =
     (case receive_bytes required timeout_us (rs_turns rs) (rs_net rs) (rs_input rs) of
        (result, turns, net, input) \<Rightarrow> (result, rs\<lparr>rs_turns := turns, rs_net := net, rs_input := input\<rparr>))"

subsection \<open>Frames\<close>

abbreviation FRAME_HEADER_SIZE :: nat where "FRAME_HEADER_SIZE \<equiv> 20"

definition frame_header_ok :: "u8 list \<Rightarrow> bool" where
  "frame_header_ok header \<longleftrightarrow>
     take 4 header = [0x46, 0x31, 0x35, 0x49] \<and> header ! 4 = 1 \<and> header ! 5 = 1 \<and> header ! 6 = 0 \<and>
     header ! 7 = 20 \<and> load_be32 (drop 12 header) = 48000 \<and>
     load_be32 (drop 16 header) \<noteq> 0 \<and> load_be32 (drop 16 header) \<le> 1048576"

definition frame_sample :: "u8 list \<Rightarrow> nat \<Rightarrow> c_float \<times> c_float" where
  "frame_sample input index =
     (let sample = drop (FRAME_HEADER_SIZE + index * 8) input
      in (c_float_of_bits (load_f32le sample), c_float_of_bits (load_f32le (drop 4 sample))))"

definition load_frame :: "int \<Rightarrow> rx_stream \<Rightarrow> soapy_error option \<times> rx_stream" where
  "load_frame timeout_us rs =
     (case receive_into FRAME_HEADER_SIZE timeout_us rs of
        (Some e, rs) \<Rightarrow> (Some e, rs)
      | (None, rs) \<Rightarrow>
          let header = rs_input rs; sequence = load_be32 (drop 8 header);
              count = unat (load_be32 (drop 16 header))
          in if \<not> frame_header_ok header then (Some SoapyCorruption, rs)
             else if rs_have_sequence rs \<and> sequence \<noteq> rs_expected_sequence rs then (Some SoapyOverflow, rs)
             else let frame_size = FRAME_HEADER_SIZE + count * 8
                  in case receive_into frame_size timeout_us rs of
                       (Some e, rs) \<Rightarrow> (Some e, rs)
                     | (None, rs) \<Rightarrow>
                         (None, rs\<lparr>rs_samples := map (frame_sample (rs_input rs)) [0..<count],
                            rs_input := drop frame_size (rs_input rs), rs_sample_offset := 0,
                            rs_expected_sequence := sequence + 1, rs_have_sequence := True\<rparr>))"

subsection \<open>Mixing and conversion\<close>

text \<open>
  The oscillator turns a listener's window to its frequency. A product with a term that is not finite
  is not finite. \<open>lround\<close> of what no \<open>long\<close> holds is the argument \<open>bad\<close>.
\<close>

definition rotate_sample :: "libm \<Rightarrow> rat \<Rightarrow> c_float \<times> c_float \<Rightarrow> c_float \<times> c_float" where
  "rotate_sample m phase sample =
     (case sample of
        (Some i, Some q) \<Rightarrow>
          let c = f32 (lib_cos m phase); s = f32 (lib_sin m phase)
          in (to_c_float (f32 (i * c) - f32 (q * s)), to_c_float (f32 (i * s) + f32 (q * c)))
      | _ \<Rightarrow> (None, None))"

definition advance_phase :: "rat \<Rightarrow> rat \<Rightarrow> rat" where
  "advance_phase offset_hz phase =
     (let phase = f64 (phase + f64 (f64 (2 * RTL_PI * offset_hz) / 48000));
          phase = (if phase > RTL_PI then f64 (phase - 2 * RTL_PI) else phase);
          phase = (if phase < - RTL_PI then f64 (phase + 2 * RTL_PI) else phase)
      in phase)"

fun mix_samples :: "libm \<Rightarrow> rat \<Rightarrow> (c_float \<times> c_float) list \<Rightarrow> rat \<Rightarrow> (c_float \<times> c_float) list \<times> rat" where
  "mix_samples m offset_hz [] phase = ([], phase)"
| "mix_samples m offset_hz (x # xs) phase =
     (if offset_hz \<noteq> 0
      then case mix_samples m offset_hz xs (advance_phase offset_hz phase) of
             (ys, phase') \<Rightarrow> (rotate_sample m phase x # ys, phase')
      else case mix_samples m offset_hz xs phase of (ys, phase') \<Rightarrow> (x # ys, phase'))"

definition half_away :: "rat \<Rightarrow> int" where
  "half_away x = (if x < 0 then - \<lfloor>- x + 1 / 2\<rfloor> else \<lfloor>x + 1 / 2\<rfloor>)"

definition lround :: "int \<Rightarrow> c_float \<Rightarrow> int" where
  "lround bad value =
     (case value of
        None \<Rightarrow> bad
      | Some x \<Rightarrow>
          let n = half_away x
          in if - (2 ^ 63) \<le> n \<and> n < 2 ^ 63 then n else bad)"

definition to_s16 :: "int \<Rightarrow> c_float \<Rightarrow> 16 word" where
  "to_s16 bad value = of_int (max (- 32768) (min 32767 (lround bad value)))"

datatype rx_samples = Floats "(c_float \<times> c_float) list" | Shorts "(16 word \<times> 16 word) list"

definition convert_samples :: "int \<Rightarrow> stream_format \<Rightarrow> (c_float \<times> c_float) list \<Rightarrow> rx_samples" where
  "convert_samples bad format xs =
     (case format of
        CF32 \<Rightarrow> Floats (map (\<lambda>(i, q). (i, map_option uminus q)) xs)
      | CS16 \<Rightarrow> Shorts (map (\<lambda>(i, q). (to_s16 bad i, to_s16 bad (map_option uminus q))) xs))"

subsection \<open>Reading\<close>

record rx_device =
  rx_stream_of :: rx_stream
  rx_offset_hz :: rat
  rx_phase :: rat

text \<open>The result is an error, or the samples and whether \<open>SOAPY_SDR_MORE_FRAGMENTS\<close> is set.\<close>

definition read_stream :: "libm \<Rightarrow> int \<Rightarrow> nat \<Rightarrow> int \<Rightarrow> rx_device \<Rightarrow> (soapy_error + rx_samples \<times> bool) \<times> rx_device" where
  "read_stream m bad num_elems timeout_us d =
     (let rs = rx_stream_of d
      in if \<not> rs_active rs then (Inl SoapyTimeout, d)
         else case (if rs_sample_offset rs = length (rs_samples rs) then load_frame timeout_us rs else (None, rs)) of
             (Some e, rs) \<Rightarrow> (Inl e, d\<lparr>rx_stream_of := rs\<rparr>)
           | (None, rs) \<Rightarrow>
               let count = min num_elems (length (rs_samples rs) - rs_sample_offset rs);
                   (mixed, phase) = mix_samples m (rx_offset_hz d)
                     (take count (drop (rs_sample_offset rs) (rs_samples rs))) (rx_phase d);
                   rs = rs\<lparr>rs_sample_offset := rs_sample_offset rs + count\<rparr>
               in (Inr (convert_samples bad (rs_format rs) mixed, rs_sample_offset rs < length (rs_samples rs)),
                   d\<lparr>rx_stream_of := rs, rx_phase := phase\<rparr>))"

text \<open>
  \<open>setupStream\<close>, \<open>activateStream\<close> and \<open>deactivateStream\<close>: an activation is the answer to the request
  for the stream, its status and the bytes that came with the header, and the connection behind it.
\<close>

definition setup_rx :: "stream_format \<Rightarrow> rx_stream" where
  "setup_rx format = \<lparr>rs_format = format, rs_active = False, rs_input = [], rs_samples = [], rs_sample_offset = 0,
     rs_expected_sequence = 0, rs_have_sequence = False, rs_net = [], rs_turns = []\<rparr>"

definition activate_rx :: "int \<Rightarrow> nat \<Rightarrow> nat \<Rightarrow> u8 list \<Rightarrow> u8 list \<Rightarrow> rx_turn list \<Rightarrow> rx_stream \<Rightarrow> soapy_error option \<times> rx_stream" where
  "activate_rx flags num_elems status body net turns rs =
     (if flags \<noteq> 0 \<or> num_elems \<noteq> 0 then (Some SoapyNotSupported, rs)
      else if status \<noteq> 200 then (Some SoapyStreamError, rs)
      else (None, rs\<lparr>rs_input := body, rs_net := net, rs_turns := turns, rs_samples := [], rs_sample_offset := 0,
              rs_have_sequence := False, rs_active := True\<rparr>))"

definition deactivate_rx :: "int \<Rightarrow> rx_stream \<Rightarrow> soapy_error option \<times> rx_stream" where
  "deactivate_rx flags rs =
     (if flags \<noteq> 0 then (Some SoapyNotSupported, rs)
      else (None, rs\<lparr>rs_net := [], rs_turns := [], rs_active := False\<rparr>))"


subsection \<open>What was published comes out\<close>

lemma receive_bytes_effect:
  "receive_bytes required timeout_us turns net input = (result, turns', net', input') \<Longrightarrow>
   input' @ net' = input @ net \<and> (result = None \<longrightarrow> required \<le> length input') \<and>
   result \<in> {None, Some SoapyTimeout, Some SoapyStreamError}"
proof (induction required timeout_us turns net input rule: receive_bytes.induct)
  case (2 required timeout_us t turns net input)
  show ?case
  proof (cases "turn_arrival t")
    case (Arrives n)
    then show ?thesis using 2 by (auto simp: Let_def split: if_splits)
  next
    case RecvInterrupted
    then show ?thesis using 2 by (auto simp: Let_def split: if_splits)
  next
    case RecvFails
    then show ?thesis using 2 by (auto simp: Let_def split: if_splits)
  qed
qed (auto split: if_splits)

lemma receive_into_effect:
  assumes "receive_into required timeout_us rs = (result, rs')"
  shows "\<exists>turns net input. rs' = rs\<lparr>rs_turns := turns, rs_net := net, rs_input := input\<rparr> \<and>
    input @ net = rs_input rs @ rs_net rs \<and> (result = None \<longrightarrow> required \<le> length input) \<and>
    result \<in> {None, Some SoapyTimeout, Some SoapyStreamError}"
  using assms receive_bytes_effect [of required timeout_us "rs_turns rs" "rs_net rs" "rs_input rs"]
  by (fastforce simp: receive_into_def split: prod.splits)

text \<open>A finite sample survives the bit patterns.\<close>

lemma float_bits_exponent:
  assumes "finite_f32 x"
  shows "unat (float_bits x) div 2 ^ 23 mod 256 \<noteq> 255"
proof (cases "x = 0")
  case False
  define e where "e = max (ilog2 \<bar>x\<bar>) (- 126)"
  obtain m where m: "\<bar>x\<bar> = of_nat m * pow2 (e - 23)" "m < 2 ^ 24"
    using f32_significand [of x] assms False by (auto simp: finite_f32_def e_def)
  have "ilog2 \<bar>x\<bar> < 128" using assms False by (intro ilog2_less) (auto simp: finite_f32_def)
  then have e: "- 126 \<le> e" "e \<le> 127" by (simp_all add: e_def)
  define k where "k = nat (e + 126)"
  have k: "k \<le> 253" using e by (simp add: k_def)
  define n where "n = (if x < 0 then 2 ^ 31 else 0) + k * 2 ^ 23 + m"
  have "round_even (\<bar>x\<bar> / pow2 (e - 23)) = int m"
    using round_even_int [of "int m"] by (simp add: m(1))
  then have "float_bits x = of_nat n"
    using False by (simp add: float_bits_def Let_def e_def [symmetric] k_def [symmetric] n_def)
  moreover have "n < 2 ^ 32" using k m(2) by (simp add: n_def)
  ultimately have "unat (float_bits x) = n" by (simp add: unsigned_of_nat take_bit_nat_eq_self)
  moreover have "n div 2 ^ 23 = k + m div 2 ^ 23 + 256 * (if x < 0 then 1 else 0)"
  proof -
    have "n = m + (256 * (if x < 0 then 1 else 0) + k) * 2 ^ 23" by (simp add: n_def)
    then show ?thesis by (simp only: div_mult_self1) simp
  qed
  moreover have "k + m div 2 ^ 23 < 255" using k m(2) by simp
  ultimately show ?thesis by simp
qed (simp add: float_bits_def)

definition as_floats :: "iq_sample \<Rightarrow> c_float \<times> c_float" where
  "as_floats s = (Some (i_part s), Some (q_part s))"

definition publishable :: "iq_sample list \<Rightarrow> bool" where
  "publishable frame \<longleftrightarrow> frame \<noteq> [] \<and> length frame \<le> PUBLISHER_MAX_SAMPLES \<and>
     list_all (\<lambda>s. finite_f32 (i_part s) \<and> finite_f32 (q_part s)) frame"

lemma c_float_bits: "finite_f32 x \<Longrightarrow> c_float_of_bits (float_bits x) = Some x"
  using float_bits_exponent [of x] by (simp add: c_float_of_bits_def bits_float_bits)

lemma blocks_read:
  assumes "\<And>x. x \<in> set xs \<Longrightarrow> length (w x) = 8"
  shows "map (\<lambda>k. g (drop (k * 8) (concat (map w xs) @ rest))) [0..<length xs] =
    map (\<lambda>k. g (w (xs ! k) @ concat (map w (drop (Suc k) xs)) @ rest)) [0..<length xs]"
  using assms
proof (induction xs)
  case (Cons x xs)
  have "[0..<length (x # xs)] = 0 # map Suc [0..<length xs]" by (simp add: map_Suc_upt upt_conv_Cons del: upt_Suc)
  with Cons show ?case by (simp add: comp_def del: upt_Suc)
qed simp

lemma samples_read_back:
  assumes "list_all (\<lambda>s. finite_f32 (i_part s) \<and> finite_f32 (q_part s)) xs" and "length header = FRAME_HEADER_SIZE"
  shows "map (frame_sample (header @ concat (map sample_words xs) @ rest)) [0..<length xs] = map as_floats xs"
proof -
  define g where "g bytes = (c_float_of_bits (load_f32le bytes), c_float_of_bits (load_f32le (drop 4 bytes)))" for bytes
  have "map (frame_sample (header @ concat (map sample_words xs) @ rest)) [0..<length xs] =
      map (\<lambda>k. g (drop (k * 8) (concat (map sample_words xs) @ rest))) [0..<length xs]"
    using assms(2) by (simp add: frame_sample_def g_def Let_def del: drop_append)
      (simp add: drop_append)
  also have "\<dots> = map (\<lambda>k. as_floats (xs ! k)) [0..<length xs]"
    unfolding blocks_read [of xs sample_words g, OF length_sample_words]
    using assms(1) by (simp add: g_def sample_words_def as_floats_def list_all_length c_float_bits)
  also have "\<dots> = map as_floats (map ((!) xs) [0..<length xs])" by simp
  also have "\<dots> = map as_floats xs" by (simp only: map_nth)
  finally show ?thesis .
qed

definition feeds :: "u32 \<Rightarrow> iq_sample list list \<Rightarrow> (c_float \<times> c_float) list \<Rightarrow> rx_stream \<Rightarrow> bool" where
  "feeds n frames pending rs \<longleftrightarrow>
     rs_active rs \<and> list_all publishable frames \<and> rs_sample_offset rs \<le> length (rs_samples rs) \<and>
     drop (rs_sample_offset rs) (rs_samples rs) = pending \<and>
     rs_input rs @ rs_net rs = frame_stream n frames \<and> (rs_have_sequence rs \<longrightarrow> rs_expected_sequence rs = n)"

lemma feeds_receive:
  assumes "feeds n frames pending rs" and "receive_into required timeout_us rs = (result, rs')"
  shows "feeds n frames pending rs' \<and> result \<in> {None, Some SoapyTimeout, Some SoapyStreamError} \<and>
    (result = None \<longrightarrow> required \<le> length (rs_input rs')) \<and> rs_format rs' = rs_format rs \<and>
    rs_sample_offset rs' = rs_sample_offset rs \<and> rs_samples rs' = rs_samples rs"
  using receive_into_effect [OF assms(2)] assms(1) by (auto simp: feeds_def)

definition frame_header :: "u32 \<Rightarrow> nat \<Rightarrow> u8 list" where
  "frame_header n count =
     [0x46, 0x31, 0x35, 0x49, 1, 1, 0, 20] @ store_be32 n @ store_be32 48000 @ store_be32 (of_nat count)"

lemma length_frame_header [simp]: "length (frame_header n count) = FRAME_HEADER_SIZE"
  by (simp add: frame_header_def)

lemma frame_header_read:
  "take 4 (frame_header n count @ rest) = [0x46, 0x31, 0x35, 0x49]" "(frame_header n count @ rest) ! 4 = 1"
  "(frame_header n count @ rest) ! 5 = 1" "(frame_header n count @ rest) ! 6 = 0"
  "(frame_header n count @ rest) ! 7 = 20" "load_be32 (drop 8 (frame_header n count @ rest)) = n"
  "load_be32 (drop 12 (frame_header n count @ rest)) = 48000"
  "load_be32 (drop 16 (frame_header n count @ rest)) = of_nat count"
  by (simp_all add: frame_header_def)

lemma published_frame:
  assumes "publishable f"
  shows "encode_iq_frame n f PUBLISHER_BUFFER_SIZE = frame_header n (length f) @ concat (map sample_words f)"
  using assms
  by (simp add: publishable_def encode_iq_frame_def PUBLISHER_BUFFER_SIZE_def IQ_FRAME_HEADER_SIZE_def
      frame_header_def store_be16_def)

lemma long_prefix:
  assumes "xs @ ys = p @ q" and "length p \<le> length xs"
  shows "\<exists>rest. xs = p @ rest \<and> rest @ ys = q"
  using assms by (metis append_eq_append_conv_if append_take_drop_id append.assoc append_same_eq)

lemma load_frame_nothing:
  assumes "feeds n [] pending rs" and "load_frame timeout_us rs = (result, rs')"
  shows "result \<in> {Some SoapyTimeout, Some SoapyStreamError} \<and> feeds n [] pending rs' \<and> rs_format rs' = rs_format rs"
proof -
  obtain r rs1 where r: "receive_into FRAME_HEADER_SIZE timeout_us rs = (r, rs1)" by fastforce
  from feeds_receive [OF assms(1) r] assms(2) r show ?thesis
    by (cases r) (auto simp: load_frame_def feeds_def)
qed

lemma load_frame_next:
  assumes "feeds n (f # frames) [] rs" and "load_frame timeout_us rs = (result, rs')"
  shows "(result \<in> {Some SoapyTimeout, Some SoapyStreamError} \<and> feeds n (f # frames) [] rs' \<or>
     result = None \<and> feeds (n + 1) frames (map as_floats f) rs' \<and> rs_sample_offset rs' = 0) \<and>
     rs_format rs' = rs_format rs"
proof -
  have f: "publishable f" "0 < length f" "length f \<le> 256" "list_all publishable frames"
    using assms(1) by (auto simp: feeds_def publishable_def PUBLISHER_MAX_SAMPLES_def)
  define body where "body = concat (map sample_words f)"
  have stream: "frame_stream n (f # frames) = (frame_header n (length f) @ body) @ frame_stream (n + 1) frames"
    by (simp add: published_frame [OF f(1)] body_def)
  have size: "length body = length f * 8"
    unfolding body_def by (induction f) simp_all
  have count: "unat (of_nat (length f) :: u32) = length f" "(of_nat (length f) :: u32) \<noteq> 0"
    "(of_nat (length f) :: u32) \<le> 1048576"
    using f(2,3) by (simp_all add: unsigned_of_nat take_bit_nat_eq_self word_le_nat_alt flip: unat_eq_zero)
  obtain r1 rs1 where r1: "receive_into FRAME_HEADER_SIZE timeout_us rs = (r1, rs1)" by fastforce
  note step1 = feeds_receive [OF assms(1) r1]
  show ?thesis
  proof (cases r1)
    case None
    with step1 have feeds1: "feeds n (f # frames) [] rs1" and long: "FRAME_HEADER_SIZE \<le> length (rs_input rs1)" by auto
    from feeds1 have "rs_input rs1 @ rs_net rs1 = frame_header n (length f) @ (body @ frame_stream (n + 1) frames)"
      unfolding feeds_def stream by simp
    from long_prefix [OF this] long obtain more where more: "rs_input rs1 = frame_header n (length f) @ more" by auto
    have header: "frame_header_ok (rs_input rs1)" "load_be32 (drop 8 (rs_input rs1)) = n"
      "unat (load_be32 (drop 16 (rs_input rs1))) = length f"
      unfolding more frame_header_ok_def by (simp_all only: frame_header_read count simp_thms)
    obtain r2 rs2 where r2: "receive_into (FRAME_HEADER_SIZE + length f * 8) timeout_us rs1 = (r2, rs2)" by fastforce
    note step2 = feeds_receive [OF feeds1 r2]
    have unfolded: "load_frame timeout_us rs = (case (r2, rs2) of (Some e, rs) \<Rightarrow> (Some e, rs)
       | (None, rs) \<Rightarrow> (None, rs\<lparr>rs_samples := map (frame_sample (rs_input rs)) [0..<length f],
           rs_input := drop (FRAME_HEADER_SIZE + length f * 8) (rs_input rs), rs_sample_offset := 0,
           rs_expected_sequence := n + 1, rs_have_sequence := True\<rparr>))"
    proof -
      have "\<not> (rs_have_sequence rs1 \<and> n \<noteq> rs_expected_sequence rs1)" using feeds1 by (auto simp: feeds_def)
      then show ?thesis by (cases r2) (auto simp: load_frame_def r1 r2 None header Let_def)
    qed
    show ?thesis
    proof (cases r2)
      case None
      with step2 have feeds2: "feeds n (f # frames) [] rs2"
        and long2: "length (frame_header n (length f) @ body) \<le> length (rs_input rs2)" by (auto simp: size)
      from feeds2 have "rs_input rs2 @ rs_net rs2 =
          (frame_header n (length f) @ body) @ frame_stream (n + 1) frames"
        unfolding feeds_def stream by simp
      from long_prefix [OF this long2] obtain more2 where
        more2: "rs_input rs2 = frame_header n (length f) @ body @ more2" "more2 @ rs_net rs2 = frame_stream (n + 1) frames"
        by auto
      have "map (frame_sample (rs_input rs2)) [0..<length f] = map as_floats f"
        unfolding more2 body_def using f(1) by (intro samples_read_back) (simp_all add: publishable_def)
      then show ?thesis
        using assms(2) None f(4) feeds2 more2(2) step1 step2
        unfolding unfolded by (auto simp: feeds_def more2(1) size)
    next
      case (Some e)
      with step1 step2 assms(2) show ?thesis unfolding unfolded by auto
    qed
  next
    case (Some e)
    with step1 assms(2) show ?thesis by (auto simp: load_frame_def r1)
  qed
qed

lemma mix_samples_append:
  "mix_samples m offset_hz (xs @ ys) phase =
    (case mix_samples m offset_hz xs phase of (us, phase') \<Rightarrow>
       case mix_samples m offset_hz ys phase' of (vs, phase'') \<Rightarrow> (us @ vs, phase''))"
  by (induction xs arbitrary: phase) (auto simp: case_prod_beta)

lemma mix_samples_tuned: "mix_samples m 0 xs phase = (xs, phase)"
  by (induction xs) auto

lemma read_stream_step:
  assumes "feeds n frames pending (rx_stream_of d)"
  shows "\<exists>result d'. read_stream m bad num_elems timeout_us d = (result, d') \<and>
    rx_offset_hz d' = rx_offset_hz d \<and> rs_format (rx_stream_of d') = rs_format (rx_stream_of d) \<and>
    ((result \<in> {Inl SoapyTimeout, Inl SoapyStreamError} \<and> feeds n frames pending (rx_stream_of d') \<and>
      rx_phase d' = rx_phase d) \<or>
     (\<exists>n' frames' pending' taken fragments. feeds n' frames' pending' (rx_stream_of d') \<and>
        pending @ map as_floats (concat frames) = taken @ pending' @ map as_floats (concat frames') \<and>
        (0 < num_elems \<longrightarrow> taken \<noteq> []) \<and>
        result = Inr (convert_samples bad (rs_format (rx_stream_of d))
          (fst (mix_samples m (rx_offset_hz d) taken (rx_phase d))), fragments) \<and>
        rx_phase d' = snd (mix_samples m (rx_offset_hz d) taken (rx_phase d))))"
proof -
  define rs where "rs = rx_stream_of d"
  have f: "feeds n frames pending rs" "rs_active rs" using assms by (simp_all add: rs_def feeds_def)
  define load where "load = (if rs_sample_offset rs = length (rs_samples rs) then load_frame timeout_us rs else (None, rs))"
  obtain r rs1 where l: "load = (r, rs1)" by fastforce
  have loaded: "rs_format rs1 = rs_format rs \<and>
     (r \<in> {Some SoapyTimeout, Some SoapyStreamError} \<and> feeds n frames pending rs1 \<or>
      r = None \<and> (\<exists>n1 frames1 pending1. feeds n1 frames1 pending1 rs1 \<and> pending1 \<noteq> [] \<and>
        pending @ map as_floats (concat frames) = pending1 @ map as_floats (concat frames1)))"
  proof (cases "rs_sample_offset rs = length (rs_samples rs)")
    case True
    then have "pending = []" using f(1) by (auto simp: feeds_def)
    show ?thesis
    proof (cases frames)
      case Nil
      with load_frame_nothing f(1) l True show ?thesis unfolding load_def by fastforce
    next
      case (Cons x xs)
      then have "x \<noteq> []" using f(1) by (auto simp: feeds_def publishable_def)
      with load_frame_next [of n x xs rs timeout_us r rs1] f(1) l True Cons \<open>pending = []\<close>
      show ?thesis unfolding load_def by fastforce
    qed
  next
    case False
    then have "pending \<noteq> []" using f(1) by (auto simp: feeds_def)
    with False f(1) l show ?thesis unfolding load_def by auto
  qed
  show ?thesis
  proof (cases r)
    case (Some e)
    with loaded l f(2) show ?thesis
      by (auto simp: read_stream_def Let_def rs_def [symmetric] load_def [symmetric])
  next
    case None
    with loaded obtain n1 frames1 pending1 where 1: "feeds n1 frames1 pending1 rs1" "pending1 \<noteq> []"
      "pending @ map as_floats (concat frames) = pending1 @ map as_floats (concat frames1)" by auto
    define count where "count = min num_elems (length (rs_samples rs1) - rs_sample_offset rs1)"
    define rs2 where "rs2 = rs1\<lparr>rs_sample_offset := rs_sample_offset rs1 + count\<rparr>"
    have p: "drop (rs_sample_offset rs1) (rs_samples rs1) = pending1" using 1(1) by (simp add: feeds_def)
    have "length pending1 = length (rs_samples rs1) - rs_sample_offset rs1" unfolding p [symmetric] by simp
    moreover have "0 < length pending1" using 1(2) by simp
    ultimately have "0 < num_elems \<longrightarrow> take count pending1 \<noteq> []" by (auto simp: count_def)
    moreover have "feeds n1 frames1 (drop count pending1) rs2"
      using 1(1) p by (auto simp: feeds_def rs2_def count_def add.commute)
    moreover have "pending @ map as_floats (concat frames) =
        take count pending1 @ drop count pending1 @ map as_floats (concat frames1)"
      using 1(3) by (simp flip: append_assoc)
    moreover define d1 where
      "d1 = d\<lparr>rx_stream_of := rs2, rx_phase := snd (mix_samples m (rx_offset_hz d) (take count pending1) (rx_phase d))\<rparr>"
    moreover have "read_stream m bad num_elems timeout_us d =
        (Inr (convert_samples bad (rs_format rs) (fst (mix_samples m (rx_offset_hz d) (take count pending1) (rx_phase d))),
           rs_sample_offset rs2 < length (rs_samples rs2)), d1)"
      using f(2) l None loaded
      by (simp add: read_stream_def Let_def rs_def [symmetric] load_def [symmetric] count_def [symmetric] p
          rs2_def case_prod_beta d1_def)
    moreover have "rx_offset_hz d1 = rx_offset_hz d" "rx_stream_of d1 = rs2" "rs_format rs2 = rs_format rs"
      "rx_phase d1 = snd (mix_samples m (rx_offset_hz d) (take count pending1) (rx_phase d))"
      using loaded by (simp_all add: d1_def rs2_def)
    ultimately show ?thesis unfolding rs_def [symmetric] by metis
  qed
qed

text \<open>A run of reads: how many samples are asked for each time, and how long it may take.\<close>

fun read_all :: "libm \<Rightarrow> int \<Rightarrow> (nat \<times> int) list \<Rightarrow> rx_device \<Rightarrow> (soapy_error + rx_samples \<times> bool) list \<times> rx_device" where
  "read_all m bad [] d = ([], d)"
| "read_all m bad ((num_elems, timeout_us) # reads) d =
     (case read_stream m bad num_elems timeout_us d of (result, d) \<Rightarrow>
        case read_all m bad reads d of (results, d) \<Rightarrow> (result # results, d))"

fun join_samples :: "rx_samples \<Rightarrow> rx_samples \<Rightarrow> rx_samples" where
  "join_samples (Floats xs) (Floats ys) = Floats (xs @ ys)"
| "join_samples (Shorts xs) (Shorts ys) = Shorts (xs @ ys)"
| "join_samples xs ys = xs"

fun delivered :: "stream_format \<Rightarrow> (soapy_error + rx_samples \<times> bool) list \<Rightarrow> rx_samples" where
  "delivered format [] = (case format of CF32 \<Rightarrow> Floats [] | CS16 \<Rightarrow> Shorts [])"
| "delivered format (Inl e # results) = delivered format results"
| "delivered format (Inr (xs, fragments) # results) = join_samples xs (delivered format results)"

lemma convert_append:
  "convert_samples bad format (xs @ ys) = join_samples (convert_samples bad format xs) (convert_samples bad format ys)"
  by (cases format) (simp_all add: convert_samples_def)

lemma convert_Nil [simp]: "convert_samples bad format [] = delivered format []"
  by (cases format) (simp_all add: convert_samples_def)

lemma read_all_delivers:
  assumes "feeds n frames pending (rx_stream_of d)" and "list_all (\<lambda>(num_elems, _). 0 < num_elems) reads"
    and "read_all m bad reads d = (results, d')"
  shows "\<exists>k \<le> length (pending @ map as_floats (concat frames)).
    delivered (rs_format (rx_stream_of d)) results = convert_samples bad (rs_format (rx_stream_of d))
      (fst (mix_samples m (rx_offset_hz d) (take k (pending @ map as_floats (concat frames))) (rx_phase d))) \<and>
    length (filter (\<lambda>r. \<not> isl r) results) \<le> k \<and>
    (\<forall>r \<in> set results. isl r \<longrightarrow> r \<in> {Inl SoapyTimeout, Inl SoapyStreamError})"
  using assms
proof (induction reads arbitrary: n frames pending d results)
  case (Cons read reads)
  obtain num_elems timeout_us where read: "read = (num_elems, timeout_us)" by fastforce
  from read_stream_step [OF Cons.prems(1), of m bad num_elems timeout_us] obtain result d1 where
    step: "read_stream m bad num_elems timeout_us d = (result, d1)"
      "rx_offset_hz d1 = rx_offset_hz d" "rs_format (rx_stream_of d1) = rs_format (rx_stream_of d)" and
    cases: "result \<in> {Inl SoapyTimeout, Inl SoapyStreamError} \<and> feeds n frames pending (rx_stream_of d1) \<and>
        rx_phase d1 = rx_phase d \<or>
       (\<exists>n' frames' pending' taken fragments. feeds n' frames' pending' (rx_stream_of d1) \<and>
          pending @ map as_floats (concat frames) = taken @ pending' @ map as_floats (concat frames') \<and>
          (0 < num_elems \<longrightarrow> taken \<noteq> []) \<and>
          result = Inr (convert_samples bad (rs_format (rx_stream_of d))
            (fst (mix_samples m (rx_offset_hz d) taken (rx_phase d))), fragments) \<and>
          rx_phase d1 = snd (mix_samples m (rx_offset_hz d) taken (rx_phase d)))"
    by blast
  obtain rest where rest: "read_all m bad reads d1 = (rest, d')" "results = result # rest"
    using Cons.prems(3) step(1) by (auto simp: read split: prod.splits)
  have positive: "0 < num_elems" "list_all (\<lambda>(num_elems, _). 0 < num_elems) reads"
    using Cons.prems(2) by (simp_all add: read)
  from cases show ?case
  proof
    assume failed: "result \<in> {Inl SoapyTimeout, Inl SoapyStreamError} \<and> feeds n frames pending (rx_stream_of d1) \<and>
        rx_phase d1 = rx_phase d"
    with Cons.IH [OF _ positive(2) rest(1)] step show ?thesis by (fastforce simp: rest(2))
  next
    assume "\<exists>n' frames' pending' taken fragments. feeds n' frames' pending' (rx_stream_of d1) \<and>
          pending @ map as_floats (concat frames) = taken @ pending' @ map as_floats (concat frames') \<and>
          (0 < num_elems \<longrightarrow> taken \<noteq> []) \<and>
          result = Inr (convert_samples bad (rs_format (rx_stream_of d))
            (fst (mix_samples m (rx_offset_hz d) taken (rx_phase d))), fragments) \<and>
          rx_phase d1 = snd (mix_samples m (rx_offset_hz d) taken (rx_phase d))"
    then obtain n' frames' pending' taken fragments where next_feeds: "feeds n' frames' pending' (rx_stream_of d1)" and
      all: "pending @ map as_floats (concat frames) = taken @ pending' @ map as_floats (concat frames')" and
      taken: "taken \<noteq> []" and
      result: "result = Inr (convert_samples bad (rs_format (rx_stream_of d))
            (fst (mix_samples m (rx_offset_hz d) taken (rx_phase d))), fragments)"
        "rx_phase d1 = snd (mix_samples m (rx_offset_hz d) taken (rx_phase d))"
      using positive(1) by blast
    from Cons.IH [OF next_feeds positive(2) rest(1)] obtain k where
      k: "k \<le> length (pending' @ map as_floats (concat frames'))"
        "delivered (rs_format (rx_stream_of d)) rest = convert_samples bad (rs_format (rx_stream_of d))
          (fst (mix_samples m (rx_offset_hz d) (take k (pending' @ map as_floats (concat frames'))) (rx_phase d1)))"
        "length (filter (\<lambda>r. \<not> isl r) rest) \<le> k"
        "\<forall>r \<in> set rest. isl r \<longrightarrow> r \<in> {Inl SoapyTimeout, Inl SoapyStreamError}"
      unfolding step by blast
    have "Suc 0 \<le> length taken" using taken by (cases taken) auto
    with k show ?thesis
      by (intro exI [of _ "length taken + k"])
        (simp add: all rest(2) result mix_samples_append case_prod_beta convert_append)
  qed
next
  case Nil
  then show ?case by (intro exI [of _ 0]) (auto simp: convert_samples_def split: stream_format.splits)
qed

text \<open>C18.
  The adapter reads what the daemon published: when the stream it activates carries the frames from
  any number on, then however the network cuts the bytes, whatever times out, and however many samples
  the application asks for at a time, the samples it has received are the first ones published, in
  order, each once, mixed by one continuous oscillator and converted. Every read that succeeds brings
  at least one, and a read only ever fails for time or for a lost connection.
\<close>

theorem soapy_reads_published:
  assumes "list_all publishable frames" and "body @ net = frame_stream n frames"
    and "activate_rx 0 0 200 body net turns (setup_rx format) = (None, rs)"
    and "list_all (\<lambda>(num_elems, _). 0 < num_elems) reads"
    and "read_all m bad reads \<lparr>rx_stream_of = rs, rx_offset_hz = offset, rx_phase = phase\<rparr> = (results, d')"
  shows "\<exists>k \<le> length (concat frames).
    delivered format results = convert_samples bad format
      (fst (mix_samples m offset (take k (map as_floats (concat frames))) phase)) \<and>
    length (filter (\<lambda>r. \<not> isl r) results) \<le> k \<and>
    (\<forall>r \<in> set results. isl r \<longrightarrow> r \<in> {Inl SoapyTimeout, Inl SoapyStreamError})"
proof -
  have "feeds n frames [] rs" "rs_format rs = format"
    using assms(1-3) by (auto simp: feeds_def activate_rx_def setup_rx_def)
  with read_all_delivers [of n frames "[]" "\<lparr>rx_stream_of = rs, rx_offset_hz = offset, rx_phase = phase\<rparr>"
      reads m bad results d'] assms(4,5)
  show ?thesis by simp
qed

definition example_frames :: "iq_sample list list" where
  "example_frames = [[\<lparr>i_part = 100, q_part = - 200\<rparr>, \<lparr>i_part = 300, q_part = - 400\<rparr>], [\<lparr>i_part = 7, q_part = 0\<rparr>]]"

theorem soapy_reads_published_witness:
  "\<forall>m bad turns. \<exists>k \<le> 3.
     delivered CF32 (fst (read_all m bad [(1, 5000), (9, 5000), (2, - 1)]
       \<lparr>rx_stream_of = snd (activate_rx 0 0 200 [0x46] (tl (frame_stream 7 example_frames)) turns (setup_rx CF32)),
        rx_offset_hz = 0, rx_phase = 0\<rparr>)) =
     convert_samples bad CF32 (take k [(Some 100, Some (- 200)), (Some 300, Some (- 400)), (Some 7, Some 0)])"
proof (intro allI)
  fix m bad turns
  have f: "list_all publishable example_frames"
    using f32_int [of 100] f32_int [of "- 200"] f32_int [of 300] f32_int [of "- 400"] f32_int [of 7]
    by (simp add: example_frames_def publishable_def PUBLISHER_MAX_SAMPLES_def finite_f32_def pow2_def)
  then have "frame_stream 7 example_frames = 0x46 # tl (frame_stream 7 example_frames)"
    by (simp add: example_frames_def published_frame frame_header_def)
  then have b: "[0x46] @ tl (frame_stream 7 example_frames) = frame_stream 7 example_frames" by simp
  obtain rs where rs: "activate_rx 0 0 200 [0x46] (tl (frame_stream 7 example_frames)) turns (setup_rx CF32) = (None, rs)"
    by (simp add: activate_rx_def)
  obtain results d' where r: "read_all m bad [(1, 5000), (9, 5000), (2, - 1)]
      \<lparr>rx_stream_of = rs, rx_offset_hz = 0, rx_phase = 0\<rparr> = (results, d')" by fastforce
  have all: "map as_floats (concat example_frames) = [(Some 100, Some (- 200)), (Some 300, Some (- 400)), (Some 7, Some 0)]"
    "length (concat example_frames) = 3"
    by (simp_all add: example_frames_def as_floats_def)
  from soapy_reads_published [OF f b rs _ r] show "\<exists>k \<le> 3.
     delivered CF32 (fst (read_all m bad [(1, 5000), (9, 5000), (2, - 1)]
       \<lparr>rx_stream_of = snd (activate_rx 0 0 200 [0x46] (tl (frame_stream 7 example_frames)) turns (setup_rx CF32)),
        rx_offset_hz = 0, rx_phase = 0\<rparr>)) =
     convert_samples bad CF32 (take k [(Some 100, Some (- 200)), (Some 300, Some (- 400)), (Some 7, Some 0)])"
    unfolding rs snd_conv r fst_conv all mix_samples_tuned by auto
qed

text \<open>
  A gap in the numbers is reported as an overflow, and reported for ever: the frame stays in the
  buffer and the number expected stays the one before the gap.
\<close>

lemma receive_into_enough: "required \<le> length (rs_input rs) \<Longrightarrow> receive_into required timeout_us rs = (None, rs)"
  by (cases "rs_turns rs") (simp_all add: receive_into_def)

lemma overflow_sticks:
  assumes "load_frame timeout_us rs = (Some SoapyOverflow, rs')"
  shows "load_frame timeout_us' rs' = (Some SoapyOverflow, rs')"
proof -
  obtain r rs1 where r: "receive_into FRAME_HEADER_SIZE timeout_us rs = (r, rs1)" by fastforce
  have "r = None \<and> rs' = rs1"
  proof (cases r)
    case None
    obtain r2 rs2 where "receive_into (FRAME_HEADER_SIZE + unat (load_be32 (drop 16 (rs_input rs1))) * 8) timeout_us rs1 = (r2, rs2)"
      by fastforce
    with assms r None receive_into_effect [OF this] show ?thesis
      by (auto simp: load_frame_def Let_def split: if_splits option.splits)
  next
    case (Some e)
    with assms receive_into_effect [OF r] show ?thesis by (auto simp: load_frame_def r)
  qed
  moreover from this have "FRAME_HEADER_SIZE \<le> length (rs_input rs1)" using receive_into_effect [OF r] by auto
  moreover from calculation assms r have "frame_header_ok (rs_input rs1) \<and> rs_have_sequence rs1 \<and>
      load_be32 (drop 8 (rs_input rs1)) \<noteq> rs_expected_sequence rs1"
    using receive_into_effect [of _ timeout_us rs1]
    by (auto simp: load_frame_def Let_def split: if_splits option.splits prod.splits)
  ultimately show ?thesis by (simp add: load_frame_def receive_into_enough Let_def)
qed

end
