(* ===== verification/Soapy_Tx.thy ===== *)
theory Soapy_Tx
  imports Soapy_Rx Demod_Capture Api
begin

text \<open>
  The transmit stream of the SoapySDR adapter (\<open>soapy/Flex1500Device.cpp\<close>): the requests it sends,
  activation and stop, and \<open>writeStream\<close> with its prebuffer, keying, pacing and keepalive.

  The daemon is the list of its replies, a request past the last one throws; so does a reply the HTTP
  client cannot read. A socket is what its nonblocking sends and polls answer. The clock counts
  microseconds and moves by a tick of its own whenever it is read, and by what is slept.
\<close>

subsection \<open>Requests\<close>

definition request_text :: "string \<Rightarrow> bool \<Rightarrow> string \<Rightarrow> string \<Rightarrow> string \<Rightarrow> string list \<Rightarrow> string" where
  "request_text host keep_socket verb path body headers =
     verb @ '' '' @ path @ '' HTTP/1.1'' @ CRLF @ ''Host: '' @ host @ CRLF @
     ''Connection: '' @ (if keep_socket then ''keep-alive'' else ''close'') @ CRLF @
     concat (map (\<lambda>h. h @ CRLF) headers) @
     (if body = [] then [] else ''Content-Length: '' @ show_nat (length body) @ CRLF) @
     CRLF @ body"

definition json_number :: "string \<Rightarrow> string \<Rightarrow> parsed_float \<Rightarrow> parsed_float" where
  "json_number json name fallback =
     (case strstr json (quoted name) of None \<Rightarrow> fallback
      | Some pos \<Rightarrow>
          let rest = dropWhile (\<lambda>c. c \<noteq> CHR '':'') (drop (pos + length name + 2) json)
          in if rest = [] then fallback
             else case strtod (tl rest) of (v, left) \<Rightarrow> if left = tl rest then fallback else v)"

definition control_header :: "u64 \<Rightarrow> string" where
  "control_header lease = ''X-Flex1500-Control-Lease: '' @ show_nat (unat lease)"

definition tx_header :: "u64 \<Rightarrow> string" where
  "tx_header lease = ''X-Flex1500-TX-Lease: '' @ show_nat (unat lease)"

subsection \<open>The stream and its environment\<close>

datatype http_reply = Reply nat string | RequestFails

datatype poll_answer = PollTimeout | PollReady | PollBroken
datatype send_answer = Took nat | SendInterrupted | WouldBlock | SendFails
datatype send_turn = SendTurn send_answer "int \<Rightarrow> poll_answer"

datatype wire_event = Requested bool string string string "string list" | Sent "u8 list"

record tx_stream =
  ts_lease :: u64
  ts_submitted :: nat
  ts_paced :: nat
  ts_active :: bool
  ts_keyed :: bool
  ts_last_keepalive :: int
  ts_pace_epoch :: int
  ts_station_lease :: u64
  ts_drive :: rat
  ts_log :: "wire_event list"
  ts_replies :: "http_reply list"
  ts_sends :: "send_turn list"
  ts_clock :: int
  ts_ticks :: "nat list"

datatype 'a outcome = Done 'a | Fails soapy_error | Throws

abbreviation TX_PREBUFFER_FRAMES :: nat where "TX_PREBUFFER_FRAMES \<equiv> 4096"
abbreviation TX_PACING_LEAD_FRAMES :: nat where "TX_PACING_LEAD_FRAMES \<equiv> 4096"

definition read_clock :: "tx_stream \<Rightarrow> int \<times> tx_stream" where
  "read_clock s =
     (let now = ts_clock s + (case ts_ticks s of [] \<Rightarrow> 0 | t # _ \<Rightarrow> int t)
      in (now, s\<lparr>ts_clock := now, ts_ticks := tl (ts_ticks s)\<rparr>))"

definition sleep_us :: "nat \<Rightarrow> tx_stream \<Rightarrow> tx_stream" where
  "sleep_us us s = s\<lparr>ts_clock := ts_clock s + int us\<rparr>"

definition send_request :: "bool \<Rightarrow> string \<Rightarrow> string \<Rightarrow> string \<Rightarrow> string list \<Rightarrow> tx_stream \<Rightarrow> http_reply \<times> tx_stream" where
  "send_request keep_socket verb path body headers s =
     (case ts_replies s of [] \<Rightarrow> RequestFails | r # _ \<Rightarrow> r,
      s\<lparr>ts_log := ts_log s @ [Requested keep_socket verb path body headers], ts_replies := tl (ts_replies s)\<rparr>)"

definition lease_request :: "bool \<Rightarrow> string \<Rightarrow> string \<Rightarrow> tx_stream \<Rightarrow> http_reply \<times> tx_stream" where
  "lease_request keep_socket verb path s =
     send_request keep_socket verb path [] [tx_header (ts_lease s), control_header (ts_station_lease s)] s"

subsection \<open>Activation and stop\<close>

definition tx_profile_text :: "rat \<Rightarrow> string" where
  "tx_profile_text drive =
     ''{'' @ quoted ''mode'' @ '':'' @ quoted ''iq'' @ '','' @ quoted ''source'' @ '':'' @ quoted ''iq'' @ '','' @
     quoted ''drive_percent'' @ '':'' @ show_int (if drive < 0 then - \<lfloor>- drive\<rfloor> else \<lfloor>drive\<rfloor>) @
     '','' @ quoted ''sample_rate'' @ '':48000,'' @
     quoted ''sample_format'' @ '':'' @ quoted ''cs16le'' @ '','' @ quoted ''channels'' @ '':1}''"

definition activate_tx :: "tx_stream \<Rightarrow> nat outcome \<times> tx_stream" where
  "activate_tx s =
     (if ts_active s then (Done 0, s)
      else case send_request False ''POST'' ''/v1/tx/sessions'' (tx_profile_text (ts_drive s))
             [''Content-Type: application/json'', control_header (ts_station_lease s)] s of
        (RequestFails, s) \<Rightarrow> (Throws, s)
      | (Reply status body, s) \<Rightarrow>
          if status \<noteq> 201 then (Fails SoapyStreamError, s)
          else case json_number body ''lease'' (Finite 0) of
            Finite lease \<Rightarrow>
              if lease < 1 then (Fails SoapyCorruption, s)
              else
                let s = s\<lparr>ts_lease := of_int \<lfloor>lease\<rfloor>\<rparr>
                in (case lease_request True ''CONNECT'' ''/v1/tx/stream'' s of
                  (RequestFails, s) \<Rightarrow> (Throws, s)
                | (Reply status body, s) \<Rightarrow>
                    if status \<noteq> 200
                    then (Fails SoapyStreamError,
                          (snd (lease_request False ''DELETE'' ''/v1/tx/sessions/current'' s))\<lparr>ts_lease := 0\<rparr>)
                    else case read_clock (s\<lparr>ts_submitted := 0, ts_paced := 0, ts_keyed := False, ts_active := True\<rparr>) of
                      (now, s) \<Rightarrow> (Done 0, s\<lparr>ts_last_keepalive := now\<rparr>))
          | _ \<Rightarrow> (Fails SoapyCorruption, s))"

definition stop_tx :: "tx_stream \<Rightarrow> tx_stream" where
  "stop_tx s =
     (let s = (if ts_lease s \<noteq> 0
               then
                 let delete = (\<lambda>s. snd (lease_request False ''DELETE'' ''/v1/tx/sessions/current'' s))
                 in if ts_keyed s
                    then case lease_request False ''PUT'' ''/v1/tx/ptt/stop'' s of
                      (RequestFails, s) \<Rightarrow> s
                    | (Reply _ _, s) \<Rightarrow> delete s
                    else delete s
               else s)
      in s\<lparr>ts_lease := 0, ts_submitted := 0, ts_paced := 0, ts_keyed := False, ts_active := False\<rparr>)"

subsection \<open>Keepalive, keying and pacing\<close>

definition keep_tx_alive :: "tx_stream \<Rightarrow> bool outcome \<times> tx_stream" where
  "keep_tx_alive s =
     (case read_clock s of (now, s) \<Rightarrow>
        if now - ts_last_keepalive s < 5000000 then (Done True, s)
        else case lease_request False ''PUT'' ''/v1/tx/sessions/keepalive'' s of
          (RequestFails, s) \<Rightarrow> (Throws, s)
        | (Reply status _, s) \<Rightarrow>
            if status \<noteq> 200 then (Done False, s) else (Done True, s\<lparr>ts_last_keepalive := now\<rparr>))"

lemma read_clock_replies [simp]: "ts_replies (snd (read_clock s)) = ts_replies s"
  by (simp add: read_clock_def Let_def)

lemma fewer_replies:
  "(Reply status body, s') = lease_request keep_socket verb path s \<Longrightarrow> length (ts_replies s') < length (ts_replies s)"
  by (cases "ts_replies s") (auto simp: lease_request_def send_request_def)

text \<open>The loop of \<open>keyTx\<close>, which began at \<open>started\<close>.\<close>

function key_loop :: "int \<Rightarrow> int \<Rightarrow> tx_stream \<Rightarrow> nat outcome \<times> tx_stream" where
  "key_loop started timeout_us s =
     (case lease_request False ''PUT'' ''/v1/tx/ptt/start'' s of
        (RequestFails, s) \<Rightarrow> (Throws, s)
      | (Reply status body, s) \<Rightarrow>
          if status = 200
          then case read_clock (s\<lparr>ts_keyed := True, ts_paced := 0\<rparr>) of
            (now, s) \<Rightarrow> (Done 0, s\<lparr>ts_pace_epoch := now\<rparr>)
          else if status \<noteq> 409 \<or> strstr body (quoted ''error'' @ '':'' @ quoted ''tx_not_ready'') = None
          then (Fails SoapyStreamError, s)
          else case (if 0 \<le> timeout_us then read_clock s else (started, s)) of (now, s) \<Rightarrow>
            if 0 \<le> timeout_us \<and> now - started \<ge> timeout_us then (Fails SoapyTimeout, s)
            else key_loop started timeout_us (sleep_us 5000 s))"
  by pat_completeness auto

termination
proof (relation "measure (\<lambda>(started, timeout_us, s). length (ts_replies s))", simp)
  fix started timeout_us s x s1 status body y now s2
  assume "(x, s1) = lease_request False ''PUT'' ''/v1/tx/ptt/start'' s" "x = Reply status body"
    and clock: "(now, s2) = (if 0 \<le> timeout_us then read_clock s1 else (started, s1))"
  then have "length (ts_replies s1) < length (ts_replies s)" using fewer_replies by blast
  moreover from clock have "ts_replies s2 = ts_replies s1"
    by (metis read_clock_replies snd_conv)
  ultimately show "((started, timeout_us, sleep_us 5000 s2), started, timeout_us, s)
      \<in> measure (\<lambda>(started, timeout_us, s). length (ts_replies s))"
    by (simp add: sleep_us_def)
qed

declare key_loop.simps [simp del]

definition key_tx :: "int \<Rightarrow> tx_stream \<Rightarrow> nat outcome \<times> tx_stream" where
  "key_tx timeout_us s = (case read_clock s of (started, s) \<Rightarrow> key_loop started timeout_us s)"

text \<open>
  The loop of \<open>paceTx\<close>: what the clock allows beyond what was paced. It ends without a timeout too,
  because a frame is allowed every 21 microseconds.
\<close>

definition pace_budget :: "int \<Rightarrow> tx_stream \<Rightarrow> nat" where
  "pace_budget now s =
     (let elapsed = now - ts_pace_epoch s
      in (if elapsed > 0 then nat elapsed * 48000 div 1000000 else 0) + TX_PACING_LEAD_FRAMES)"

lemma read_clock_fields [simp]:
  "ts_paced (snd (read_clock s)) = ts_paced s" "ts_pace_epoch (snd (read_clock s)) = ts_pace_epoch s"
  "ts_clock (snd (read_clock s)) = fst (read_clock s)" "ts_clock s \<le> fst (read_clock s)"
  by (auto simp: read_clock_def Let_def split: list.splits)

function pace_loop :: "int \<Rightarrow> nat \<Rightarrow> int \<Rightarrow> tx_stream \<Rightarrow> nat outcome \<times> tx_stream" where
  "pace_loop started requested timeout_us s =
     (case read_clock s of (now, s) \<Rightarrow>
        if pace_budget now s > ts_paced s
        then (Done (min requested (pace_budget now s - ts_paced s)), s)
        else if 0 \<le> timeout_us \<and> now - started \<ge> timeout_us then (Fails SoapyTimeout, s)
        else pace_loop started requested timeout_us (sleep_us 1000 s))"
  by pat_completeness auto

termination
proof (relation "measure (\<lambda>(started, requested, timeout_us, s).
    nat (ts_pace_epoch s + (int (ts_paced s) + 1) * 21 - ts_clock s))", simp)
  fix started :: int and requested :: nat and timeout_us :: int and s now s1
  assume "(now, s1) = read_clock s" and late: "\<not> ts_paced s1 < pace_budget now s1"
  then have clock: "ts_clock s \<le> now" "ts_clock s1 = now" "ts_paced s1 = ts_paced s" "ts_pace_epoch s1 = ts_pace_epoch s"
    by (metis read_clock_fields fst_conv snd_conv)+
  have "now - ts_pace_epoch s < (int (ts_paced s) + 1) * 21"
  proof (cases "now - ts_pace_epoch s > 0")
    case True
    then have "nat (now - ts_pace_epoch s) * 48000 div 1000000 \<le> ts_paced s"
      using late clock by (simp add: pace_budget_def Let_def)
    then have "nat (now - ts_pace_epoch s) * 48000 < (ts_paced s + 1) * 1000000"
      by (simp add: div_le_dividend less_Suc_eq_le flip: div_less_iff_less_mult [of 1000000 _ "Suc (ts_paced s)"])
    moreover obtain k where "now - ts_pace_epoch s = int k" using True by (metis less_imp_le zero_le_imp_eq_int)
    ultimately show ?thesis by simp
  qed auto
  then show "((started, requested, timeout_us, sleep_us 1000 s1), started, requested, timeout_us, s)
      \<in> measure (\<lambda>(started, requested, timeout_us, s).
          nat (ts_pace_epoch s + (int (ts_paced s) + 1) * 21 - ts_clock s))"
    using clock by (simp add: sleep_us_def)
qed

declare pace_loop.simps [simp del]

definition pace_tx :: "nat \<Rightarrow> int \<Rightarrow> tx_stream \<Rightarrow> nat outcome \<times> tx_stream" where
  "pace_tx requested timeout_us s =
     (case read_clock s of (started, s) \<Rightarrow> pace_loop started requested timeout_us s)"

subsection \<open>Sending\<close>

text \<open>\<open>send_wait\<close> is the part after a send that took nothing: the time left, and the poll.\<close>

definition send_wait :: "int \<Rightarrow> int \<Rightarrow> (int \<Rightarrow> poll_answer) \<Rightarrow> tx_stream \<Rightarrow> soapy_error option \<times> tx_stream" where
  "send_wait started timeout_us poll s =
     (case (if 0 \<le> timeout_us then read_clock s else (started, s)) of (now, s) \<Rightarrow>
        let remaining = (if 0 \<le> timeout_us then timeout_us - (now - started) else timeout_us)
        in if 0 \<le> timeout_us \<and> remaining \<le> 0 then (Some SoapyTimeout, s)
           else case poll (if remaining < 0 then - 1 else sint (of_int ((remaining + 999) div 1000) :: 32 word)) of
             PollTimeout \<Rightarrow> (Some SoapyTimeout, s)
           | PollBroken \<Rightarrow> (Some SoapyStreamError, s)
           | PollReady \<Rightarrow> (None, s))"

fun send_loop :: "int \<Rightarrow> int \<Rightarrow> send_turn list \<Rightarrow> u8 list \<Rightarrow> tx_stream \<Rightarrow> soapy_error option \<times> tx_stream" where
  "send_loop started timeout_us [] rest s =
     (if rest = [] then None else Some SoapyStreamError, s\<lparr>ts_sends := []\<rparr>)"
| "send_loop started timeout_us (SendTurn sent poll # turns) rest s =
     (if rest = [] then (None, s\<lparr>ts_sends := SendTurn sent poll # turns\<rparr>)
      else let wait = (case send_wait started timeout_us poll s of
             (Some e, s) \<Rightarrow> (Some e, s\<lparr>ts_sends := turns\<rparr>)
           | (None, s) \<Rightarrow> send_loop started timeout_us turns rest s)
      in case sent of
           SendInterrupted \<Rightarrow> send_loop started timeout_us turns rest s
         | SendFails \<Rightarrow> (Some SoapyStreamError, s\<lparr>ts_sends := turns\<rparr>)
         | WouldBlock \<Rightarrow> wait
         | Took n \<Rightarrow>
             if n = 0 then wait
             else send_loop started timeout_us turns (drop n rest) (s\<lparr>ts_log := ts_log s @ [Sent (take n rest)]\<rparr>))"

definition send_tx_bytes :: "u8 list \<Rightarrow> int \<Rightarrow> tx_stream \<Rightarrow> soapy_error option \<times> tx_stream" where
  "send_tx_bytes data timeout_us s =
     (case read_clock s of (started, s) \<Rightarrow> send_loop started timeout_us (ts_sends s) data s)"

subsection \<open>Writing\<close>

definition normalized_s16 :: "int \<Rightarrow> c_float \<Rightarrow> 16 word" where
  "normalized_s16 bad value =
     (case value of None \<Rightarrow> 0
      | Some x \<Rightarrow> of_int (max (- 32768) (min 32767 (lround bad (to_c_float (x * 32767))))))"

definition conjugate_s16 :: "16 word \<Rightarrow> 16 word" where
  "conjugate_s16 q = (if q = - 32768 then 32767 else - q)"

text \<open>The samples of the application's buffer, of the type its format names, and their bytes.\<close>

fun sample_count :: "rx_samples \<Rightarrow> nat" where
  "sample_count (Floats xs) = length xs"
| "sample_count (Shorts xs) = length xs"

fun wire_samples :: "int \<Rightarrow> nat \<Rightarrow> rx_samples \<Rightarrow> u8 list" where
  "wire_samples bad frames (Floats xs) = concat (map (\<lambda>(i, q).
     store_le16 (normalized_s16 bad i) @ store_le16 (normalized_s16 bad (map_option uminus q))) (take frames xs))"
| "wire_samples bad frames (Shorts xs) = concat (map (\<lambda>(i, q).
     store_le16 i @ store_le16 (conjugate_s16 q)) (take frames xs))"

definition send_frames :: "int \<Rightarrow> nat \<Rightarrow> rx_samples \<Rightarrow> int \<Rightarrow> tx_stream \<Rightarrow> nat outcome \<times> tx_stream" where
  "send_frames bad frames buffer timeout_us s =
     (case send_tx_bytes (wire_samples bad frames buffer) timeout_us s of
        (Some e, s) \<Rightarrow> (Fails e, s)
      | (None, s) \<Rightarrow>
          let s = s\<lparr>ts_submitted := ts_submitted s + frames\<rparr>;
              s = (if ts_keyed s then s\<lparr>ts_paced := ts_paced s + frames\<rparr> else s)
          in if \<not> ts_keyed s \<and> ts_submitted s \<ge> TX_PREBUFFER_FRAMES
             then case key_tx timeout_us s of
                 (Done _, s) \<Rightarrow> (Done frames, s)
               | (Fails e, s) \<Rightarrow> (if e = SoapyTimeout then Done frames else Fails e, s)
               | (Throws, s) \<Rightarrow> (Throws, s)
             else (Done frames, s))"

definition write_stream :: "int \<Rightarrow> int \<Rightarrow> rx_samples \<Rightarrow> int \<Rightarrow> tx_stream \<Rightarrow> nat outcome \<times> tx_stream" where
  "write_stream bad flags buffer timeout_us s =
     (if \<not> ts_active s then (Fails SoapyStreamError, s)
      else if flags \<noteq> 0 then (Fails SoapyNotSupported, s)
      else if sample_count buffer = 0 then (Done 0, s)
      else case keep_tx_alive s of
        (Throws, s) \<Rightarrow> (Throws, s)
      | (Fails e, s) \<Rightarrow> (Fails e, s)
      | (Done alive, s) \<Rightarrow>
        if \<not> alive then (Fails SoapyStreamError, s)
        else case (if \<not> ts_keyed s \<and> ts_submitted s \<ge> TX_PREBUFFER_FRAMES then key_tx timeout_us s else (Done 0, s)) of
          (Throws, s) \<Rightarrow> (Throws, s)
        | (Fails e, s) \<Rightarrow> (Fails e, s)
        | (Done _, s) \<Rightarrow>
            if \<not> ts_keyed s
            then send_frames bad (min (sample_count buffer) (TX_PREBUFFER_FRAMES - ts_submitted s)) buffer timeout_us s
            else case pace_tx (sample_count buffer) timeout_us s of
              (Done frames, s) \<Rightarrow> send_frames bad frames buffer timeout_us s
            | (e, s) \<Rightarrow> (e, s))"

subsection \<open>What reaches the daemon\<close>

text \<open>The bytes the current sample stream carried, and whether every request to key came after a full prebuffer.\<close>

fun carried :: "u8 list \<Rightarrow> wire_event list \<Rightarrow> u8 list" where
  "carried bytes [] = bytes"
| "carried bytes (Sent data # es) = carried (bytes @ data) es"
| "carried bytes (Requested keep_socket verb path body headers # es) =
     carried (if path = ''/v1/tx/stream'' then [] else bytes) es"

fun key_gated :: "u8 list \<Rightarrow> wire_event list \<Rightarrow> bool" where
  "key_gated bytes [] \<longleftrightarrow> True"
| "key_gated bytes (Sent data # es) \<longleftrightarrow> key_gated (bytes @ data) es"
| "key_gated bytes (Requested keep_socket verb path body headers # es) \<longleftrightarrow>
     (path = ''/v1/tx/ptt/start'' \<longrightarrow> 4 * TX_PREBUFFER_FRAMES \<le> length bytes) \<and>
     key_gated (if path = ''/v1/tx/stream'' then [] else bytes) es"

lemma carried_append [simp]: "carried bytes (xs @ ys) = carried (carried bytes xs) ys"
  by (induction bytes xs rule: carried.induct) simp_all

lemma key_gated_append [simp]: "key_gated bytes (xs @ ys) \<longleftrightarrow> key_gated bytes xs \<and> key_gated (carried bytes xs) ys"
  by (induction bytes xs rule: carried.induct) auto

abbreviation on_stream :: "tx_stream \<Rightarrow> u8 list" where "on_stream s \<equiv> carried [] (ts_log s)"

text \<open>What the steps of a write leave alone.\<close>

definition steady :: "tx_stream \<Rightarrow> tx_stream \<Rightarrow> bool" where
  "steady s s' \<longleftrightarrow> ts_active s' = ts_active s \<and> ts_submitted s' = ts_submitted s \<and> ts_lease s' = ts_lease s \<and>
     ts_station_lease s' = ts_station_lease s \<and> ts_clock s \<le> ts_clock s'"

lemma steady_refl [simp]: "steady s s"
  by (simp add: steady_def)

lemma steady_trans: "steady s s1 \<Longrightarrow> steady s1 s2 \<Longrightarrow> steady s s2"
  by (auto simp: steady_def)

lemma clock_steady:
  assumes "read_clock s = (now, s')"
  shows "steady s s' \<and> ts_log s' = ts_log s \<and> ts_keyed s' = ts_keyed s \<and> ts_paced s' = ts_paced s \<and>
    ts_pace_epoch s' = ts_pace_epoch s \<and> ts_sends s' = ts_sends s \<and> ts_last_keepalive s' = ts_last_keepalive s \<and>
    ts_clock s' = now"
  using assms by (auto simp: read_clock_def Let_def steady_def split: list.splits)

lemma request_steady:
  assumes "lease_request keep_socket verb path s = (reply, s')"
  shows "steady s s' \<and> ts_log s' = ts_log s @ [Requested keep_socket verb path [] [tx_header (ts_lease s), control_header (ts_station_lease s)]] \<and>
    ts_keyed s' = ts_keyed s \<and> ts_paced s' = ts_paced s \<and> ts_pace_epoch s' = ts_pace_epoch s \<and>
    ts_sends s' = ts_sends s \<and> ts_last_keepalive s' = ts_last_keepalive s \<and> ts_clock s' = ts_clock s"
  using assms by (auto simp: lease_request_def send_request_def steady_def)

text \<open>A stream keeps the gate and the pace: what holds between any two operations.\<close>

definition paced_ok :: "tx_stream \<Rightarrow> bool" where
  "paced_ok s \<longleftrightarrow> (ts_keyed s \<longrightarrow> ts_paced s \<le> pace_budget (ts_clock s) s)"

definition prebuffered :: "tx_stream \<Rightarrow> bool" where
  "prebuffered s \<longleftrightarrow> key_gated [] (ts_log s) \<and> (ts_active s \<longrightarrow> 4 * ts_submitted s \<le> length (on_stream s))"

lemma pace_budget_mono:
  assumes "now \<le> now'" and "ts_pace_epoch s' = ts_pace_epoch s"
  shows "pace_budget now s \<le> pace_budget now' s'"
proof -
  have "nat (now - ts_pace_epoch s) * 48000 \<le> nat (now' - ts_pace_epoch s) * 48000" using assms(1) by simp
  then have "nat (now - ts_pace_epoch s) * 48000 div 1000000 \<le> nat (now' - ts_pace_epoch s) * 48000 div 1000000"
    by (rule div_le_mono)
  then show ?thesis using assms by (auto simp: pace_budget_def Let_def)
qed

lemma paced_steady:
  assumes "paced_ok s" and "steady s s'" and "ts_keyed s' = ts_keyed s" "ts_paced s' = ts_paced s"
    "ts_pace_epoch s' = ts_pace_epoch s"
  shows "paced_ok s'"
proof -
  have "pace_budget (ts_clock s) s \<le> pace_budget (ts_clock s') s'"
    using assms by (intro pace_budget_mono) (auto simp: steady_def)
  with assms show ?thesis by (auto simp: paced_ok_def)
qed

lemma key_loop_effect:
  "key_loop started timeout_us s = (result, s') \<Longrightarrow>
   \<exists>k. steady s s' \<and> ts_sends s' = ts_sends s \<and>
     ts_log s' = ts_log s @ replicate k (Requested False ''PUT'' ''/v1/tx/ptt/start'' []
       [tx_header (ts_lease s), control_header (ts_station_lease s)]) \<and>
     (ts_keyed s' \<and> ts_paced s' = 0 \<and> ts_clock s \<le> ts_pace_epoch s' \<and> ts_pace_epoch s' \<le> ts_clock s' \<or>
      ts_keyed s' = ts_keyed s \<and> ts_paced s' = ts_paced s \<and> ts_pace_epoch s' = ts_pace_epoch s) \<and>
     (\<forall>m. result = Done m \<longrightarrow> ts_keyed s')"
proof (induction started timeout_us s arbitrary: result s' rule: key_loop.induct)
  case (1 started timeout_us s)
  obtain reply s1 where r: "lease_request False ''PUT'' ''/v1/tx/ptt/start'' s = (reply, s1)" by fastforce
  note one = request_steady [OF r]
  have first: ?case if "s' = s1" "\<forall>m. result \<noteq> Done m"
    using one that by (intro exI [of _ 1]) simp
  show ?case
  proof (cases reply)
    case RequestFails
    with 1(2) r first show ?thesis by (subst (asm) key_loop.simps) simp
  next
    case (Reply status body)
    obtain now s2 where c: "(if 0 \<le> timeout_us then read_clock s1 else (started, s1)) = (now, s2)" by fastforce
    then have two: "steady s1 s2 \<and> ts_log s2 = ts_log s1 \<and> ts_keyed s2 = ts_keyed s1 \<and> ts_paced s2 = ts_paced s1 \<and>
        ts_pace_epoch s2 = ts_pace_epoch s1 \<and> ts_sends s2 = ts_sends s1"
      using clock_steady [of s1 now s2] by (auto split: if_splits)
    consider "status = 200" | "status \<noteq> 200" "s' = s1" "\<forall>m. result \<noteq> Done m" | "s' = s2" "\<forall>m. result \<noteq> Done m"
      | "status = 409" "strstr body (quoted ''error'' @ '':'' @ quoted ''tx_not_ready'') \<noteq> None"
        "\<not> (0 \<le> timeout_us \<and> now - started \<ge> timeout_us)"
        "key_loop started timeout_us (sleep_us 5000 s2) = (result, s')"
      using 1(2) r Reply c by (subst (asm) (2) key_loop.simps) (auto split: if_splits prod.splits)
    then show ?thesis
    proof cases
      case 1
      obtain now' s3 where "read_clock (s1\<lparr>ts_keyed := True, ts_paced := 0\<rparr>) = (now', s3)" by fastforce
      moreover from this 1(1) "1.prems" r Reply have "s' = s3\<lparr>ts_pace_epoch := now'\<rparr>"
        by (subst (asm) key_loop.simps) auto
      ultimately show ?thesis
        using clock_steady [of "s1\<lparr>ts_keyed := True, ts_paced := 0\<rparr>" now' s3] one
        by (intro exI [of _ 1]) (auto simp: steady_def)
    next
      case 2
      then show ?thesis using first by blast
    next
      case 3
      then show ?thesis using one two by (intro exI [of _ 1]) (auto simp: steady_def)
    next
      case 4
      have "status \<noteq> 200"
        "\<not> (status \<noteq> 409 \<or> strstr body (quoted ''error'' @ '':'' @ quoted ''tx_not_ready'') = None)"
        using 4 by simp_all
      from "1.IH" [OF r [symmetric] Reply this c [symmetric] 4(3,4)] obtain k where
        "steady (sleep_us 5000 s2) s' \<and> ts_sends s' = ts_sends (sleep_us 5000 s2) \<and>
         ts_log s' = ts_log (sleep_us 5000 s2) @ replicate k (Requested False ''PUT'' ''/v1/tx/ptt/start'' []
           [tx_header (ts_lease (sleep_us 5000 s2)), control_header (ts_station_lease (sleep_us 5000 s2))]) \<and>
         (ts_keyed s' \<and> ts_paced s' = 0 \<and> ts_clock (sleep_us 5000 s2) \<le> ts_pace_epoch s' \<and> ts_pace_epoch s' \<le> ts_clock s' \<or>
          ts_keyed s' = ts_keyed (sleep_us 5000 s2) \<and> ts_paced s' = ts_paced (sleep_us 5000 s2) \<and>
          ts_pace_epoch s' = ts_pace_epoch (sleep_us 5000 s2)) \<and>
         (\<forall>m. result = Done m \<longrightarrow> ts_keyed s')"
        by blast
      with one two show ?thesis by (intro exI [of _ "Suc k"]) (auto simp: steady_def sleep_us_def)
    qed
  qed
qed

lemma key_tx_effect:
  assumes "key_tx timeout_us s = (result, s')"
  shows "\<exists>k. steady s s' \<and> ts_sends s' = ts_sends s \<and>
     ts_log s' = ts_log s @ replicate k (Requested False ''PUT'' ''/v1/tx/ptt/start'' []
       [tx_header (ts_lease s), control_header (ts_station_lease s)]) \<and>
     (ts_keyed s' \<and> ts_paced s' = 0 \<and> ts_clock s \<le> ts_pace_epoch s' \<and> ts_pace_epoch s' \<le> ts_clock s' \<or>
      ts_keyed s' = ts_keyed s \<and> ts_paced s' = ts_paced s \<and> ts_pace_epoch s' = ts_pace_epoch s) \<and>
     (\<forall>m. result = Done m \<longrightarrow> ts_keyed s')"
proof -
  obtain started s1 where c: "read_clock s = (started, s1)" by fastforce
  with assms have "key_loop started timeout_us s1 = (result, s')" by (simp add: key_tx_def)
  from key_loop_effect [OF this] clock_steady [OF c] show ?thesis by (auto simp: steady_def)
qed

lemma gated_keys:
  assumes "4 * TX_PREBUFFER_FRAMES \<le> length bytes"
  shows "key_gated bytes (replicate k (Requested keep_socket verb ''/v1/tx/ptt/start'' body headers)) \<and>
    carried bytes (replicate k (Requested keep_socket verb ''/v1/tx/ptt/start'' body headers)) = bytes"
  using assms by (induction k) auto

lemma key_tx_ok:
  assumes "key_tx timeout_us s = (result, s')" and "prebuffered s" "paced_ok s" "ts_active s"
    and "TX_PREBUFFER_FRAMES \<le> ts_submitted s"
  shows "prebuffered s' \<and> paced_ok s' \<and> steady s s' \<and> on_stream s' = on_stream s \<and>
    (\<forall>m. result = Done m \<longrightarrow> ts_keyed s')"
proof -
  from key_tx_effect [OF assms(1)] obtain k where k: "steady s s'"
    "ts_log s' = ts_log s @ replicate k (Requested False ''PUT'' ''/v1/tx/ptt/start'' []
       [tx_header (ts_lease s), control_header (ts_station_lease s)])"
    "ts_keyed s' \<and> ts_paced s' = 0 \<or>
      ts_keyed s' = ts_keyed s \<and> ts_paced s' = ts_paced s \<and> ts_pace_epoch s' = ts_pace_epoch s"
    "\<forall>m. result = Done m \<longrightarrow> ts_keyed s'"
    by blast
  have "4 * TX_PREBUFFER_FRAMES \<le> length (on_stream s)" using assms(2,4,5) by (simp add: prebuffered_def)
  from gated_keys [OF this] k have "prebuffered s'" "on_stream s' = on_stream s"
    using assms(2) by (auto simp: prebuffered_def steady_def)
  moreover have "paced_ok s'"
    using k(3) paced_steady [OF assms(3) k(1)] by (auto simp: paced_ok_def)
  ultimately show ?thesis using k(1,4) by blast
qed

lemma pace_loop_effect:
  "pace_loop started requested timeout_us s = (result, s') \<Longrightarrow>
   steady s s' \<and> ts_log s' = ts_log s \<and> ts_keyed s' = ts_keyed s \<and> ts_paced s' = ts_paced s \<and>
   ts_pace_epoch s' = ts_pace_epoch s \<and> ts_sends s' = ts_sends s \<and>
   (\<forall>frames. result = Done frames \<longrightarrow> ts_paced s' + frames \<le> pace_budget (ts_clock s') s' \<and> frames \<le> requested \<and>
      (0 < requested \<longrightarrow> 0 < frames))"
proof (induction started requested timeout_us s arbitrary: result s' rule: pace_loop.induct)
  case (1 started requested timeout_us s)
  obtain now s1 where c: "read_clock s = (now, s1)" by fastforce
  note one = clock_steady [OF c]
  show ?case
  proof (cases "pace_budget now s1 > ts_paced s1 \<or> 0 \<le> timeout_us \<and> now - started \<ge> timeout_us")
    case True
    with 1(2) c one show ?thesis by (subst (asm) pace_loop.simps) (auto split: if_splits)
  next
    case False
    with 1(2) c have "pace_loop started requested timeout_us (sleep_us 1000 s1) = (result, s')"
      by (subst (asm) pace_loop.simps) auto
    from "1.IH" [OF c [symmetric] _ _ this] False have
      "steady (sleep_us 1000 s1) s' \<and> ts_log s' = ts_log s1 \<and> ts_keyed s' = ts_keyed s1 \<and> ts_paced s' = ts_paced s1 \<and>
       ts_pace_epoch s' = ts_pace_epoch s1 \<and> ts_sends s' = ts_sends s1 \<and>
       (\<forall>frames. result = Done frames \<longrightarrow> ts_paced s' + frames \<le> pace_budget (ts_clock s') s' \<and> frames \<le> requested \<and>
          (0 < requested \<longrightarrow> 0 < frames))"
      by (auto simp: sleep_us_def)
    moreover have "steady s1 (sleep_us 1000 s1)" by (simp add: steady_def sleep_us_def)
    ultimately show ?thesis using one steady_trans by metis
  qed
qed

lemma pace_tx_effect:
  assumes "pace_tx requested timeout_us s = (result, s')"
  shows "steady s s' \<and> ts_log s' = ts_log s \<and> ts_keyed s' = ts_keyed s \<and> ts_paced s' = ts_paced s \<and>
   ts_pace_epoch s' = ts_pace_epoch s \<and> ts_sends s' = ts_sends s \<and>
   (\<forall>frames. result = Done frames \<longrightarrow> ts_paced s' + frames \<le> pace_budget (ts_clock s') s' \<and> frames \<le> requested \<and>
      (0 < requested \<longrightarrow> 0 < frames))"
proof -
  obtain started s1 where c: "read_clock s = (started, s1)" by fastforce
  with assms have "pace_loop started requested timeout_us s1 = (result, s')" by (simp add: pace_tx_def)
  from pace_loop_effect [OF this] clock_steady [OF c] steady_trans [of s s1 s'] show ?thesis by auto
qed

lemma send_wait_effect:
  assumes "send_wait started timeout_us poll s = (result, s')"
  shows "steady s s' \<and> ts_log s' = ts_log s \<and> ts_keyed s' = ts_keyed s \<and> ts_paced s' = ts_paced s \<and>
    ts_pace_epoch s' = ts_pace_epoch s"
proof -
  obtain now s1 where "(if 0 \<le> timeout_us then read_clock s else (started, s)) = (now, s1)" by fastforce
  moreover from this have "steady s s1 \<and> ts_log s1 = ts_log s \<and> ts_keyed s1 = ts_keyed s \<and> ts_paced s1 = ts_paced s \<and>
      ts_pace_epoch s1 = ts_pace_epoch s"
    using clock_steady [of s now s1] by (auto split: if_splits)
  ultimately show ?thesis
    using assms by (auto simp: send_wait_def Let_def split: if_splits poll_answer.splits)
qed

text \<open>What was sent of \<open>rest\<close>: a prefix of it, all of it when the loop succeeds.\<close>

lemma send_loop_effect:
  "send_loop started timeout_us turns rest s = (result, s') \<Longrightarrow>
   steady s s' \<and> ts_keyed s' = ts_keyed s \<and> ts_paced s' = ts_paced s \<and> ts_pace_epoch s' = ts_pace_epoch s \<and>
   (\<exists>datas left. ts_log s' = ts_log s @ map Sent datas \<and> rest = concat datas @ left \<and> (result = None \<longrightarrow> left = []))"
proof (induction started timeout_us turns rest s arbitrary: result s' rule: send_loop.induct)
  case (1 started timeout_us rest s)
  then show ?case by (auto simp: steady_def intro!: exI [of _ "[] :: u8 list list"] split: if_splits)
next
  case (2 started timeout_us sent poll turns rest s)
  show ?case
  proof (cases "rest = []")
    case True
    with 2 show ?thesis by (auto simp: steady_def intro!: exI [of _ "[] :: u8 list list"])
  next
    case False
    obtain r1 s1 where w: "send_wait started timeout_us poll s = (r1, s1)" by fastforce
    note one = send_wait_effect [OF w]
    have waited: ?thesis if "sent = WouldBlock \<or> sent = Took 0"
    proof (cases r1)
      case None
      with "2.prems" that False w have go: "send_loop started timeout_us turns rest s1 = (result, s')" by auto
      have "steady s1 s' \<and> ts_keyed s' = ts_keyed s1 \<and> ts_paced s' = ts_paced s1 \<and> ts_pace_epoch s' = ts_pace_epoch s1 \<and>
       (\<exists>datas left. ts_log s' = ts_log s1 @ map Sent datas \<and> rest = concat datas @ left \<and> (result = None \<longrightarrow> left = []))"
        using "2.IH"(1) [OF False w [symmetric] None go] .
      with one steady_trans [of s s1 s'] show ?thesis by auto
    next
      case (Some e)
      with "2.prems" that False w have "result = Some e" "s' = s1\<lparr>ts_sends := turns\<rparr>" by auto
      with one show ?thesis by (auto simp: steady_def intro!: exI [of _ "[] :: u8 list list"])
    qed
    show ?thesis
    proof (cases sent)
      case (Took n)
      show ?thesis
      proof (cases "n = 0")
        case True
        with waited Took show ?thesis by simp
      next
        case n: False
        define s2 where "s2 = s\<lparr>ts_log := ts_log s @ [Sent (take n rest)]\<rparr>"
        have go: "send_loop started timeout_us turns (drop n rest) s2 = (result, s')"
          using "2.prems" Took n False by (simp add: s2_def)
        from "2.IH"(2) [OF False refl Took n] go obtain datas left where
          ih: "steady s2 s'" "ts_keyed s' = ts_keyed s2" "ts_paced s' = ts_paced s2" "ts_pace_epoch s' = ts_pace_epoch s2"
            "ts_log s' = ts_log s2 @ map Sent datas" "drop n rest = concat datas @ left" "result = None \<longrightarrow> left = []"
          unfolding s2_def by blast
        have "rest = concat (take n rest # datas) @ left" using ih(6) append_take_drop_id [of n rest] by simp
        moreover have "ts_log s' = ts_log s @ map Sent (take n rest # datas)" using ih(5) by (simp add: s2_def)
        moreover have "steady s s'" using ih(1) by (simp add: s2_def steady_def)
        moreover from calculation ih(7) have "\<exists>datas left. ts_log s' = ts_log s @ map Sent datas \<and>
            rest = concat datas @ left \<and> (result = None \<longrightarrow> left = [])" by blast
        ultimately show ?thesis using ih(2-4) by (simp add: s2_def)
      qed
    next
      case SendInterrupted
      with "2.prems" False have "send_loop started timeout_us turns rest s = (result, s')" by simp
      from "2.IH"(3) [OF False refl SendInterrupted this] show ?thesis .
    next
      case WouldBlock
      with waited show ?thesis by simp
    next
      case SendFails
      with "2.prems" False show ?thesis by (auto simp: steady_def intro!: exI [of _ "[] :: u8 list list"])
    qed
  qed
qed

lemma send_tx_effect:
  assumes "send_tx_bytes data timeout_us s = (result, s')"
  shows "steady s s' \<and> ts_keyed s' = ts_keyed s \<and> ts_paced s' = ts_paced s \<and> ts_pace_epoch s' = ts_pace_epoch s \<and>
   (\<exists>datas left. ts_log s' = ts_log s @ map Sent datas \<and> data = concat datas @ left \<and> (result = None \<longrightarrow> left = []))"
proof -
  obtain started s1 where c: "read_clock s = (started, s1)" by fastforce
  with assms have "send_loop started timeout_us (ts_sends s1) data s1 = (result, s')" by (simp add: send_tx_bytes_def)
  from send_loop_effect [OF this] clock_steady [OF c] steady_trans [of s s1 s'] show ?thesis by auto
qed

lemma carried_sent: "carried bytes (map Sent datas) = bytes @ concat datas"
  by (induction datas arbitrary: bytes) auto

lemma gated_sent: "key_gated bytes (map Sent datas)"
  by (induction datas arbitrary: bytes) auto

lemma length_wire_samples:
  assumes "frames \<le> sample_count buffer"
  shows "length (wire_samples bad frames buffer) = 4 * frames"
proof -
  have 4: "length (concat (map f xs)) = 4 * length xs" if "\<And>x. length (f x) = 4" for f :: "'b \<Rightarrow> u8 list" and xs
    using that by (induction xs) simp_all
  show ?thesis
    using assms by (cases buffer) (simp_all add: 4 store_le16_def case_prod_beta)
qed

lemma send_frames_effect:
  assumes "send_frames bad frames buffer timeout_us s = (result, s')" and "prebuffered s" "ts_active s"
    and "paced_ok s" and "ts_keyed s \<Longrightarrow> ts_paced s + frames \<le> pace_budget (ts_clock s) s"
    and "frames \<le> sample_count buffer"
  shows "prebuffered s' \<and> paced_ok s' \<and> ts_active s' \<and>
    (\<forall>n. result = Done n \<longrightarrow> n = frames \<and> on_stream s' = on_stream s @ wire_samples bad frames buffer)"
proof -
  obtain r s1 where sent: "send_tx_bytes (wire_samples bad frames buffer) timeout_us s = (r, s1)" by fastforce
  from send_tx_effect [OF sent] obtain datas left where
    1: "steady s s1" "ts_keyed s1 = ts_keyed s" "ts_paced s1 = ts_paced s" "ts_pace_epoch s1 = ts_pace_epoch s"
      "ts_log s1 = ts_log s @ map Sent datas" "wire_samples bad frames buffer = concat datas @ left"
      "r = None \<longrightarrow> left = []"
    by blast
  have stream: "on_stream s1 = on_stream s @ concat datas" using 1(5) by (simp add: carried_sent)
  have "prebuffered s1" "ts_active s1"
    using assms(2,3) 1(1,5) stream by (auto simp: prebuffered_def gated_sent steady_def)
  note ok1 = this paced_steady [OF assms(4) 1(1-4)]
  show ?thesis
  proof (cases r)
    case (Some e)
    with assms(1) sent ok1 show ?thesis by (auto simp: send_frames_def)
  next
    case None
    define s2 where "s2 = s1\<lparr>ts_submitted := ts_submitted s1 + frames\<rparr>"
    define s3 where "s3 = (if ts_keyed s2 then s2\<lparr>ts_paced := ts_paced s2 + frames\<rparr> else s2)"
    have all: "on_stream s3 = on_stream s @ wire_samples bad frames buffer"
      using stream 1(6,7) None by (simp add: s3_def s2_def)
    have "4 * ts_submitted s \<le> length (on_stream s)" using assms(2,3) by (simp add: prebuffered_def)
    then have "4 * ts_submitted s3 \<le> length (on_stream s3)"
      unfolding all using 1(1) length_wire_samples [OF assms(6), of bad] by (simp add: s3_def s2_def steady_def)
    then have pre3: "prebuffered s3" "ts_active s3"
      using ok1(1,2) by (auto simp: prebuffered_def s3_def s2_def)
    have pace3: "paced_ok s3"
    proof (cases "ts_keyed s")
      case True
      have "pace_budget (ts_clock s) s \<le> pace_budget (ts_clock s1) s3"
        using 1(1,4) by (intro pace_budget_mono) (auto simp: steady_def s3_def s2_def)
      with assms(5) [OF True] 1(2,3) True show ?thesis by (auto simp: paced_ok_def s3_def s2_def)
    next
      case False
      with 1(2) show ?thesis by (auto simp: paced_ok_def s3_def s2_def)
    qed
    have send: "send_frames bad frames buffer timeout_us s =
       (if \<not> ts_keyed s3 \<and> ts_submitted s3 \<ge> TX_PREBUFFER_FRAMES
        then case key_tx timeout_us s3 of
            (Done _, s) \<Rightarrow> (Done frames, s)
          | (Fails e, s) \<Rightarrow> (if e = SoapyTimeout then Done frames else Fails e, s)
          | (Throws, s) \<Rightarrow> (Throws, s)
        else (Done frames, s3))"
      by (simp add: send_frames_def sent None Let_def s3_def s2_def)
    show ?thesis
    proof (cases "\<not> ts_keyed s3 \<and> ts_submitted s3 \<ge> TX_PREBUFFER_FRAMES")
      case False
      with assms(1) send pre3 pace3 all show ?thesis by auto
    next
      case True
      obtain k s4 where k: "key_tx timeout_us s3 = (k, s4)" by fastforce
      from key_tx_ok [OF k pre3(1) pace3 pre3(2)] True
      have "prebuffered s4 \<and> paced_ok s4 \<and> ts_active s4 \<and> on_stream s4 = on_stream s @ wire_samples bad frames buffer"
        using all pre3(2) by (auto simp: steady_def)
      with assms(1) send True k show ?thesis by (auto split: outcome.splits if_splits)
    qed
  qed
qed

lemma gate_updates:
  "prebuffered (s\<lparr>ts_lease := l\<rparr>) = prebuffered s" "paced_ok (s\<lparr>ts_lease := l\<rparr>) = paced_ok s"
  "prebuffered (s\<lparr>ts_last_keepalive := now\<rparr>) = prebuffered s" "paced_ok (s\<lparr>ts_last_keepalive := now\<rparr>) = paced_ok s"
  by (simp_all add: prebuffered_def paced_ok_def pace_budget_def)

lemma keep_tx_alive_effect:
  assumes "keep_tx_alive s = (result, s')" and "prebuffered s" "paced_ok s"
  shows "prebuffered s' \<and> paced_ok s' \<and> ts_active s' = ts_active s \<and> on_stream s' = on_stream s"
proof -
  obtain now s1 where c: "read_clock s = (now, s1)" by fastforce
  obtain reply s2 where r: "lease_request False ''PUT'' ''/v1/tx/sessions/keepalive'' s1 = (reply, s2)" by fastforce
  note 1 = clock_steady [OF c] and 2 = request_steady [OF r]
  have "prebuffered s1 \<and> paced_ok s1 \<and> ts_active s1 = ts_active s \<and> on_stream s1 = on_stream s"
    using assms(2,3) 1 paced_steady [of s s1] by (auto simp: prebuffered_def steady_def)
  moreover from this have "prebuffered s2 \<and> paced_ok s2 \<and> ts_active s2 = ts_active s \<and> on_stream s2 = on_stream s"
    using 2 paced_steady [of s1 s2] by (auto simp: prebuffered_def steady_def)
  moreover have "s' = s1 \<or> s' = s2 \<or> s' = s2\<lparr>ts_last_keepalive := now\<rparr>"
    using assms(1) c r by (auto simp: keep_tx_alive_def split: http_reply.splits if_splits)
  ultimately show ?thesis by (elim disjE) (simp_all add: gate_updates)
qed

lemma write_stream_effect:
  assumes "write_stream bad flags buffer timeout_us s = (result, s')" and "prebuffered s" "paced_ok s"
  shows "prebuffered s' \<and> paced_ok s' \<and>
    (\<forall>n. result = Done n \<longrightarrow> n \<le> sample_count buffer \<and> on_stream s' = on_stream s @ wire_samples bad n buffer \<and>
       (0 < sample_count buffer \<longrightarrow> 0 < n))"
proof (cases "ts_active s \<and> flags = 0 \<and> 0 < sample_count buffer")
  case False
  moreover have "wire_samples bad 0 buffer = []" by (cases buffer) simp_all
  ultimately show ?thesis using assms by (auto simp: write_stream_def split: if_splits)
next
  case True
  obtain r1 s1 where a: "keep_tx_alive s = (r1, s1)" by fastforce
  note one = keep_tx_alive_effect [OF a assms(2,3)]
  show ?thesis
  proof (cases "r1 = Done True")
    case False
    then consider e where "r1 = Fails e" | "r1 = Throws" | "r1 = Done False" by (cases r1) auto
    then show ?thesis using assms(1) True a one by cases (auto simp: write_stream_def)
  next
    case alive: True
    obtain r2 s2 where k: "(if \<not> ts_keyed s1 \<and> ts_submitted s1 \<ge> TX_PREBUFFER_FRAMES
        then key_tx timeout_us s1 else (Done 0, s1)) = (r2, s2)" by fastforce
    have two: "prebuffered s2 \<and> paced_ok s2 \<and> ts_active s2 \<and> on_stream s2 = on_stream s \<and>
        (\<forall>m. r2 = Done m \<longrightarrow> ts_keyed s2 \<or> ts_submitted s2 < TX_PREBUFFER_FRAMES)"
      using k one True key_tx_ok [of timeout_us s1 r2 s2] by (auto simp: steady_def split: if_splits)
    show ?thesis
    proof (cases r2)
      case (Done m)
      show ?thesis
      proof (cases "ts_keyed s2")
        case False
        have "write_stream bad flags buffer timeout_us s =
            send_frames bad (min (sample_count buffer) (TX_PREBUFFER_FRAMES - ts_submitted s2)) buffer timeout_us s2"
          using True a alive k Done False by (simp add: write_stream_def)
        with assms(1) send_frames_effect [of bad _ buffer timeout_us s2 result s'] two False Done True
        show ?thesis by auto
      next
        case keyed: True
        obtain r3 s3 where p: "pace_tx (sample_count buffer) timeout_us s2 = (r3, s3)" by fastforce
        note three = pace_tx_effect [OF p]
        have ok3: "prebuffered s3" "paced_ok s3" "ts_active s3" "on_stream s3 = on_stream s"
          using three two paced_steady [of s2 s3] by (auto simp: prebuffered_def steady_def)
        show ?thesis
        proof (cases r3)
          case (Done frames)
          have "write_stream bad flags buffer timeout_us s = send_frames bad frames buffer timeout_us s3"
            using True a alive k \<open>r2 = Done m\<close> keyed p Done by (simp add: write_stream_def)
          with assms(1) send_frames_effect [of bad frames buffer timeout_us s3 result s'] ok3 three Done True
          show ?thesis by auto
        qed (use assms(1) True a alive k \<open>r2 = Done m\<close> keyed p ok3 in \<open>auto simp: write_stream_def\<close>)
      qed
    qed (use assms(1) True a alive k two in \<open>auto simp: write_stream_def\<close>)
  qed
qed

text \<open>A run of the application: activations, writes of any size and timeout, and stops.\<close>

datatype tx_op = Activate | Write int rx_samples int | Stop

definition tx_step :: "int \<Rightarrow> tx_op \<Rightarrow> tx_stream \<Rightarrow> tx_stream" where
  "tx_step bad operation s =
     (case operation of
        Activate \<Rightarrow> snd (activate_tx s)
      | Write flags buffer timeout_us \<Rightarrow> snd (write_stream bad flags buffer timeout_us s)
      | Stop \<Rightarrow> stop_tx s)"

definition setup_tx :: "u64 \<Rightarrow> rat \<Rightarrow> http_reply list \<Rightarrow> send_turn list \<Rightarrow> int \<Rightarrow> nat list \<Rightarrow> tx_stream" where
  "setup_tx radio drive replies sends now ticks =
     \<lparr>ts_lease = 0, ts_submitted = 0, ts_paced = 0, ts_active = False, ts_keyed = False, ts_last_keepalive = 0,
      ts_pace_epoch = 0, ts_station_lease = radio, ts_drive = drive, ts_log = [], ts_replies = replies,
      ts_sends = sends, ts_clock = now, ts_ticks = ticks\<rparr>"

lemma logged_request:
  assumes "send_request keep_socket verb path body headers s = (reply, s')" and "prebuffered s" "paced_ok s"
    and "path \<noteq> ''/v1/tx/ptt/start''" "path \<noteq> ''/v1/tx/stream'' \<or> \<not> ts_active s"
  shows "prebuffered s' \<and> paced_ok s' \<and> ts_active s' = ts_active s"
  using assms by (auto simp: send_request_def prebuffered_def paced_ok_def pace_budget_def)

lemma logged_lease_request:
  assumes "lease_request keep_socket verb path s = (reply, s')" and "prebuffered s" "paced_ok s"
    and "path \<noteq> ''/v1/tx/ptt/start''" "path \<noteq> ''/v1/tx/stream'' \<or> \<not> ts_active s"
  shows "prebuffered s' \<and> paced_ok s' \<and> ts_active s' = ts_active s"
  using logged_request [OF assms(1) [unfolded lease_request_def] assms(2-5)] .

lemma activate_tx_ok:
  assumes "prebuffered s" "paced_ok s"
  shows "prebuffered (snd (activate_tx s)) \<and> paced_ok (snd (activate_tx s))"
proof (cases "ts_active s")
  case True
  with assms show ?thesis by (simp add: activate_tx_def)
next
  case inactive: False
  obtain reply s1 where r: "send_request False ''POST'' ''/v1/tx/sessions'' (tx_profile_text (ts_drive s))
      [''Content-Type: application/json'', control_header (ts_station_lease s)] s = (reply, s1)" by fastforce
  have 1: "prebuffered s1" "paced_ok s1" "\<not> ts_active s1" using logged_request [OF r assms] inactive by simp_all
  have connect: "prebuffered (snd c) \<and> paced_ok (snd c)"
    if c: "c = (case lease_request True ''CONNECT'' ''/v1/tx/stream'' (s1\<lparr>ts_lease := l\<rparr>) of
         (RequestFails, s) \<Rightarrow> (Throws, s)
       | (Reply status body, s) \<Rightarrow>
           if status \<noteq> 200
           then (Fails SoapyStreamError,
                 (snd (lease_request False ''DELETE'' ''/v1/tx/sessions/current'' s))\<lparr>ts_lease := 0\<rparr>)
           else case read_clock (s\<lparr>ts_submitted := 0, ts_paced := 0, ts_keyed := False, ts_active := True\<rparr>) of
             (now, s) \<Rightarrow> (Done 0, s\<lparr>ts_last_keepalive := now\<rparr>))" for l and c :: "nat outcome \<times> tx_stream"
  proof -
    obtain reply2 s2 where r2: "lease_request True ''CONNECT'' ''/v1/tx/stream'' (s1\<lparr>ts_lease := l\<rparr>) = (reply2, s2)"
      by fastforce
    have 2: "prebuffered s2" "paced_ok s2" "\<not> ts_active s2"
      using logged_lease_request [OF r2] 1 by (simp_all add: gate_updates)
    obtain r3 s3 where r3: "lease_request False ''DELETE'' ''/v1/tx/sessions/current'' s2 = (r3, s3)" by fastforce
    have 3: "prebuffered s3" "paced_ok s3" using logged_lease_request [OF r3 2(1,2)] by simp_all
    obtain now s4 where r4: "read_clock (s2\<lparr>ts_submitted := 0, ts_paced := 0, ts_keyed := False, ts_active := True\<rparr>) = (now, s4)"
      by fastforce
    have "prebuffered (s4\<lparr>ts_last_keepalive := now\<rparr>)" "paced_ok (s4\<lparr>ts_last_keepalive := now\<rparr>)"
      using clock_steady [OF r4] 2 by (auto simp: prebuffered_def paced_ok_def steady_def)
    then show ?thesis using 2 3 by (auto simp: c r2 r3 r4 gate_updates split: http_reply.splits)
  qed
  show ?thesis
    unfolding activate_tx_def using inactive 1
    by (auto simp: r connect split: http_reply.splits parsed_float.splits)
qed

lemma activate_unkeyed: "\<not> ts_active s \<Longrightarrow> \<not> ts_keyed s \<Longrightarrow> \<not> ts_keyed (snd (activate_tx s))"
  by (auto simp: activate_tx_def send_request_def lease_request_def read_clock_def Let_def
      split: http_reply.splits parsed_float.splits list.splits)

lemma stop_tx_ok:
  assumes "prebuffered s" "paced_ok s"
  shows "prebuffered (stop_tx s) \<and> paced_ok (stop_tx s)"
proof -
  obtain r1 s1 where 1: "lease_request False ''PUT'' ''/v1/tx/ptt/stop'' s = (r1, s1)" by fastforce
  obtain r2 s2 where 2: "lease_request False ''DELETE'' ''/v1/tx/sessions/current'' s1 = (r2, s2)" by fastforce
  obtain r3 s3 where 3: "lease_request False ''DELETE'' ''/v1/tx/sessions/current'' s = (r3, s3)" by fastforce
  have "key_gated [] (ts_log s1)" "key_gated [] (ts_log s2)" "key_gated [] (ts_log s3)" "key_gated [] (ts_log s)"
    using logged_lease_request [OF 1 assms] logged_lease_request [OF 2] logged_lease_request [OF 3 assms] assms
    by (simp_all add: prebuffered_def)
  then show ?thesis
    by (auto simp: stop_tx_def Let_def 1 2 3 prebuffered_def paced_ok_def split: http_reply.splits)
qed

lemma tx_run_ok: "prebuffered s \<Longrightarrow> paced_ok s \<Longrightarrow>
  prebuffered (fold (tx_step bad) operations s) \<and> paced_ok (fold (tx_step bad) operations s)"
proof (induction operations arbitrary: s)
  case (Cons operation operations)
  have "prebuffered (tx_step bad operation s) \<and> paced_ok (tx_step bad operation s)"
  proof (cases operation)
    case (Write flags buffer timeout_us)
    with write_stream_effect [of bad flags buffer timeout_us s] Cons.prems show ?thesis
      by (auto simp: tx_step_def intro: prod.exhaust [of "write_stream bad flags buffer timeout_us s"])
  qed (use Cons.prems activate_tx_ok stop_tx_ok in \<open>auto simp: tx_step_def\<close>)
  with Cons.IH show ?case by simp
qed simp

lemma setup_tx_ok: "prebuffered (setup_tx radio drive replies sends now ticks)"
  "paced_ok (setup_tx radio drive replies sends now ticks)"
  by (simp_all add: setup_tx_def prebuffered_def paced_ok_def)

subsection \<open>The pace\<close>

text \<open>
  What a write counts against the pace: the frames it reports, when it began keyed or with the
  prebuffer full, so that they went out after the key.
\<close>

fun frames_written :: "nat outcome \<Rightarrow> nat" where
  "frames_written (Done n) = n"
| "frames_written _ = 0"

definition counted :: "tx_stream \<Rightarrow> tx_stream \<Rightarrow> nat \<Rightarrow> bool" where
  "counted s s' n \<longleftrightarrow> ts_clock s \<le> ts_clock s' \<and> ts_active s' = ts_active s \<and>
     (if ts_keyed s
      then ts_keyed s' \<and> ts_paced s' = ts_paced s + n \<and> ts_pace_epoch s' = ts_pace_epoch s
      else ts_keyed s' \<longrightarrow> ts_paced s' = (if TX_PREBUFFER_FRAMES \<le> ts_submitted s then n else 0) \<and>
        ts_clock s \<le> ts_pace_epoch s' \<and> ts_pace_epoch s' \<le> ts_clock s')"

lemma counted_after:
  assumes "steady s t" "ts_keyed t = ts_keyed s" "ts_paced t = ts_paced s" "ts_pace_epoch t = ts_pace_epoch s"
    and "counted t s' n"
  shows "counted s s' n"
  using assms unfolding counted_def steady_def by (auto split: if_splits)

lemma keep_tx_alive_steady:
  assumes "keep_tx_alive s = (result, s')"
  shows "steady s s' \<and> ts_keyed s' = ts_keyed s \<and> ts_paced s' = ts_paced s \<and> ts_pace_epoch s' = ts_pace_epoch s"
proof -
  obtain now s1 where c: "read_clock s = (now, s1)" by fastforce
  obtain reply s2 where r: "lease_request False ''PUT'' ''/v1/tx/sessions/keepalive'' s1 = (reply, s2)" by fastforce
  have "s' = s1 \<or> s' = s2 \<or> s' = s2\<lparr>ts_last_keepalive := now\<rparr>"
    using assms c r by (auto simp: keep_tx_alive_def split: http_reply.splits if_splits)
  then show ?thesis
    using clock_steady [OF c] request_steady [OF r] by (auto simp: steady_def)
qed

lemma send_frames_counted:
  assumes "send_frames bad frames buffer timeout_us s = (result, s')"
    and "ts_keyed s \<or> ts_submitted s < TX_PREBUFFER_FRAMES"
  shows "counted s s' (frames_written result)"
proof -
  obtain r s1 where sent: "send_tx_bytes (wire_samples bad frames buffer) timeout_us s = (r, s1)" by fastforce
  have 1: "steady s s1" "ts_keyed s1 = ts_keyed s" "ts_paced s1 = ts_paced s" "ts_pace_epoch s1 = ts_pace_epoch s"
    using send_tx_effect [OF sent] by blast+
  define s3 where "s3 = (if ts_keyed s1 then s1\<lparr>ts_submitted := ts_submitted s1 + frames, ts_paced := ts_paced s1 + frames\<rparr>
    else s1\<lparr>ts_submitted := ts_submitted s1 + frames\<rparr>)"
  obtain k s4 where k: "key_tx timeout_us s3 = (k, s4)" by fastforce
  consider e where "result = Fails e" "s' = s1" | "result = Done frames" "s' = s3"
    | "\<not> ts_keyed s" "s' = s4"
    using assms(1) 1(2) sent k
    by (auto simp: send_frames_def s3_def [symmetric] Let_def s3_def split: option.splits if_splits outcome.splits)
  then show ?thesis
  proof cases
    case 1
    then show ?thesis using \<open>steady s s1\<close> \<open>ts_keyed s1 = ts_keyed s\<close> \<open>ts_paced s1 = ts_paced s\<close>
      \<open>ts_pace_epoch s1 = ts_pace_epoch s\<close> by (auto simp: counted_def steady_def)
  next
    case 2
    then show ?thesis using 1 by (auto simp: counted_def steady_def s3_def)
  next
    case 3
    have "ts_submitted s < TX_PREBUFFER_FRAMES" using 3 assms(2) by blast
    with 3 1 key_tx_effect [OF k] show ?thesis by (auto simp: counted_def steady_def s3_def)
  qed
qed

lemma write_stream_counted:
  assumes "write_stream bad flags buffer timeout_us s = (result, s')"
  shows "counted s s' (frames_written result)"
proof (cases "ts_active s \<and> flags = 0 \<and> 0 < sample_count buffer")
  case False
  then show ?thesis using assms by (auto simp: write_stream_def counted_def split: if_splits)
next
  case True
  obtain r1 s1 where a: "keep_tx_alive s = (r1, s1)" by fastforce
  note one = keep_tx_alive_steady [OF a]
  have stay: "counted s s1 0" using one by (auto simp: counted_def steady_def)
  show ?thesis
  proof (cases "r1 = Done True")
    case False
    then consider e where "r1 = Fails e" | "r1 = Throws" | "r1 = Done False" by (cases r1) auto
    then show ?thesis using assms True a stay by cases (auto simp: write_stream_def)
  next
    case alive: True
    obtain r2 s2 where k: "(if \<not> ts_keyed s1 \<and> ts_submitted s1 \<ge> TX_PREBUFFER_FRAMES
        then key_tx timeout_us s1 else (Done 0, s1)) = (r2, s2)" by fastforce
    have two: "steady s1 s2" "ts_keyed s1 \<longrightarrow> s2 = s1" "ts_submitted s1 < TX_PREBUFFER_FRAMES \<longrightarrow> s2 = s1"
      "\<not> ts_keyed s1 \<and> ts_keyed s2 \<longrightarrow> ts_paced s2 = 0 \<and> ts_clock s1 \<le> ts_pace_epoch s2 \<and> ts_pace_epoch s2 \<le> ts_clock s2"
      "\<forall>m. r2 = Done m \<longrightarrow> ts_keyed s2 \<or> ts_submitted s2 < TX_PREBUFFER_FRAMES"
      using k key_tx_effect [of timeout_us s1 r2 s2] by (auto split: if_splits simp: steady_def)
    have on: "counted s t n" if "counted s2 t n" and "ts_keyed s2 \<or> s2 = s1" for t n
      using that two one
      by (cases "ts_keyed s1"; cases "ts_keyed s2") (auto simp: counted_def steady_def)
    have "counted s1 s2 0" using two by (auto simp: counted_def steady_def)
    then have keep: "counted s s2 0" using one by (intro counted_after [of s s1]) simp_all
    show ?thesis
    proof (cases r2)
      case (Done m)
      show ?thesis
      proof (cases "ts_keyed s2")
        case False
        have w: "send_frames bad (min (sample_count buffer) (TX_PREBUFFER_FRAMES - ts_submitted s2)) buffer timeout_us s2 =
            (result, s')"
          using assms True a alive k Done False by (simp add: write_stream_def)
        have few: "ts_submitted s2 < TX_PREBUFFER_FRAMES" using two(5) Done False by blast
        then have "s2 = s1" using two(1,3) by (simp add: steady_def)
        with send_frames_counted [OF w] few on show ?thesis by blast
      next
        case keyed: True
        obtain r3 s3 where p: "pace_tx (sample_count buffer) timeout_us s2 = (r3, s3)" by fastforce
        note three = pace_tx_effect [OF p]
        show ?thesis
        proof (cases r3)
          case (Done frames)
          have w: "send_frames bad frames buffer timeout_us s3 = (result, s')"
            using assms True a alive k \<open>r2 = Done m\<close> keyed p Done by (simp add: write_stream_def)
          have "counted s3 s' (frames_written result)" using send_frames_counted [OF w] three keyed by simp
          then have "counted s2 s' (frames_written result)" using three by (intro counted_after [of s2 s3]) simp_all
          with on keyed show ?thesis by blast
        next
          case (Fails e)
          have "counted s2 s3 0" using three keyed by (simp add: counted_def steady_def)
          moreover have "result = Fails e" "s' = s3"
            using assms True a alive k \<open>r2 = Done m\<close> keyed p Fails by (simp_all add: write_stream_def)
          ultimately show ?thesis using on keyed by simp
        next
          case Throws
          have "counted s2 s3 0" using three keyed by (simp add: counted_def steady_def)
          moreover have "result = Throws" "s' = s3"
            using assms True a alive k \<open>r2 = Done m\<close> keyed p Throws by (simp_all add: write_stream_def)
          ultimately show ?thesis using on keyed by simp
        qed
      qed
    qed (use assms True a alive k keep in \<open>auto simp: write_stream_def\<close>)
  qed
qed

text \<open>
  A run with its account: how many frames the writes reported since the transmitter was keyed, and
  when the operation that keyed it began.
\<close>

definition tx_account :: "int \<Rightarrow> tx_op \<Rightarrow> tx_stream \<times> nat \<times> int \<Rightarrow> tx_stream \<times> nat \<times> int" where
  "tx_account bad operation =
     (\<lambda>(s, sent, since).
        let s' = tx_step bad operation s;
            written = (case operation of
              Write flags buffer timeout_us \<Rightarrow> frames_written (fst (write_stream bad flags buffer timeout_us s))
            | _ \<Rightarrow> 0)
        in (s', if \<not> ts_keyed s' then 0
                else if ts_keyed s \<or> TX_PREBUFFER_FRAMES \<le> ts_submitted s then sent + written else 0,
            if ts_keyed s then since else ts_clock s))"

definition keeps_pace :: "tx_stream \<Rightarrow> nat \<Rightarrow> int \<Rightarrow> bool" where
  "keeps_pace s sent since \<longleftrightarrow> (ts_keyed s \<longrightarrow>
     since \<le> ts_pace_epoch s \<and> ts_pace_epoch s \<le> ts_clock s \<and>
     int sent \<le> 4096 + (ts_clock s - ts_pace_epoch s) * 48000 div 1000000)"

definition account_ok :: "tx_stream \<times> nat \<times> int \<Rightarrow> bool" where
  "account_ok = (\<lambda>(s, sent, since). prebuffered s \<and> paced_ok s \<and>
     (if ts_keyed s then ts_active s \<and> sent = ts_paced s \<and> since \<le> ts_pace_epoch s \<and> ts_pace_epoch s \<le> ts_clock s
      else sent = 0))"

lemma account_step: "account_ok a \<Longrightarrow> account_ok (tx_account bad operation a)"
proof -
  assume ok: "account_ok a"
  obtain s sent since where a: "a = (s, sent, since)" by (cases a)
  have ok: "prebuffered s" "paced_ok s" "ts_keyed s \<longrightarrow> ts_active s \<and> sent = ts_paced s \<and>
      since \<le> ts_pace_epoch s \<and> ts_pace_epoch s \<le> ts_clock s" "\<not> ts_keyed s \<longrightarrow> sent = 0"
    using ok by (auto simp: account_ok_def a split: if_splits)
  show ?thesis
  proof (cases operation)
    case Activate
    have "ts_keyed (snd (activate_tx s)) \<longrightarrow> ts_keyed s \<and> activate_tx s = (Done 0, s)"
      using ok(3) activate_unkeyed [of s] by (cases "ts_active s") (auto simp: activate_tx_def)
    then show ?thesis
      using ok activate_tx_ok [OF ok(1,2)]
      by (auto simp: account_ok_def a tx_account_def tx_step_def Activate Let_def)
  next
    case (Write flags buffer timeout_us)
    obtain result s' where w: "write_stream bad flags buffer timeout_us s = (result, s')" by fastforce
    have active: "ts_active s" if "ts_keyed s'"
      using that w ok(3) by (cases "ts_active s") (auto simp: write_stream_def)
    show ?thesis
      using ok write_stream_effect [OF w ok(1,2)] write_stream_counted [OF w] active
      by (auto simp: account_ok_def a tx_account_def tx_step_def Write Let_def w counted_def split: if_splits)
  next
    case Stop
    then show ?thesis
      using stop_tx_ok [OF ok(1,2)]
      by (auto simp: account_ok_def a tx_account_def tx_step_def Let_def stop_tx_def)
  qed
qed

lemma account_run: "account_ok a \<Longrightarrow> account_ok (fold (tx_account bad) operations a) \<and>
    fst (fold (tx_account bad) operations a) = fold (tx_step bad) operations (fst a)"
proof (induction operations arbitrary: a)
  case (Cons operation operations)
  have "fst (tx_account bad operation a) = tx_step bad operation (fst a)"
    by (simp add: tx_account_def Let_def case_prod_beta)
  with Cons.IH [OF account_step [OF Cons.prems]] show ?case by simp
qed simp

text \<open>C19.
  Whatever the application writes, whatever the network takes and the daemon answers, and however the
  clock moves: the adapter never asks the daemon to key before 4096 frames, 16384 bytes, have gone out
  on the stream it opened, and while it keys the frames its writes have reported since the key - not a
  counter of the adapter's own - are at most 4096 plus 48 for each millisecond since the key, whose
  time is not before the operation that keyed began. What a write sends before it fails is
  reported to nobody, and not paced.
\<close>

theorem soapy_keys_after_prebuffer:
  "case fold (tx_account bad) operations (setup_tx radio drive replies sends now ticks, 0, now) of (s, sent, since) \<Rightarrow>
     s = fold (tx_step bad) operations (setup_tx radio drive replies sends now ticks) \<and>
     key_gated [] (ts_log s) \<and> keeps_pace s sent since"
proof -
  define a where "a = fold (tx_account bad) operations (setup_tx radio drive replies sends now ticks, 0, now)"
  obtain s sent since where s: "a = (s, sent, since)" by (cases a)
  have "account_ok (setup_tx radio drive replies sends now ticks, 0, now)"
    using setup_tx_ok [of radio drive replies sends now ticks] by (simp add: account_ok_def setup_tx_def)
  note run = account_run [OF this, of bad operations, folded a_def, unfolded s fst_conv]
  have "keeps_pace s sent since"
    using conjunct1 [OF run] by (auto simp: keeps_pace_def account_ok_def paced_ok_def pace_budget_def Let_def zdiv_int split: if_splits)
  moreover have "key_gated [] (ts_log s)" using conjunct1 [OF run] by (simp add: account_ok_def prebuffered_def)
  ultimately show ?thesis using conjunct2 [OF run] unfolding a_def [symmetric] s prod.case by blast
qed

text \<open>C25.
  A write that returns a number of frames has taken at least one, and no more than it was given, and
  exactly their conjugated, little-endian 16-bit samples have gone out behind everything the stream
  carried before.
\<close>

theorem soapy_write_sends:
  assumes "s = fold (tx_step bad) operations (setup_tx radio drive replies sends now ticks)"
    and "write_stream bad flags buffer timeout_us s = (Done n, s')" and "0 < sample_count buffer"
  shows "0 < n \<and> n \<le> sample_count buffer \<and> on_stream s' = on_stream s @ wire_samples bad n buffer"
  using write_stream_effect [OF assms(2)] tx_run_ok [OF setup_tx_ok, of bad operations] assms(3)
  unfolding assms(1) by auto

definition tx_example :: tx_stream where
  "tx_example = fold (tx_step 0) [Activate] (setup_tx 3 100
     [Reply 201 (''{'' @ quoted ''lease'' @ '':5,'' @ quoted ''state'' @ '':'' @ quoted ''reserved'' @ ''}''), Reply 200 []]
     [SendTurn (Took 3) (\<lambda>_. PollReady), SendTurn WouldBlock (\<lambda>_. PollReady), SendTurn (Took 9) (\<lambda>_. PollReady)] 0 [])"

theorem soapy_write_sends_witness:
  "\<exists>s'. write_stream 0 0 (Shorts [(1, 2), (3, - 32768)]) 1000 tx_example = (Done 2, s') \<and>
     on_stream s' = on_stream tx_example @ wire_samples 0 2 (Shorts [(1, 2), (3, - 32768)])"
proof -
  have "fst (write_stream 0 0 (Shorts [(1, 2), (3, - 32768)]) 1000 tx_example) = Done 2"
    unfolding tx_example_def by code_simp
  then obtain s' where s': "write_stream 0 0 (Shorts [(1, 2), (3, - 32768)]) 1000 tx_example = (Done 2, s')"
    by (metis prod.collapse)
  from soapy_write_sends [OF tx_example_def s'] show ?thesis using s' by auto
qed

text \<open>
  A timeout in the middle of a frame: three bytes are on the stream, none are counted, and keyed or
  not the pace does not know of them.
\<close>

lemma partial_send_uncounted:
  "let s = (tx_example\<lparr>ts_keyed := True, ts_sends := [SendTurn (Took 3) (\<lambda>_. PollReady), SendTurn WouldBlock (\<lambda>_. PollTimeout)]\<rparr>);
       (result, s') = write_stream 0 0 (Shorts [(1, 2), (3, 4)]) 1000 s
   in result = Fails SoapyTimeout \<and> length (on_stream s') = 3 \<and> ts_submitted s' = 0 \<and> ts_paced s' = 0"
  unfolding tx_example_def by code_simp

subsection \<open>The daemon understands the requests\<close>

lemma request_text_header:
  "request_text host keep_socket verb path [] headers = header_text ((verb @ '' '' @ path @ '' HTTP/1.1'') #
     (''Host: '' @ host) # (''Connection: '' @ (if keep_socket then ''keep-alive'' else ''close'')) # headers) @ CRLF"
  by (simp add: request_text_def header_text_def)

lemma request_header_found:
  "list_all header_line pre \<Longrightarrow> list_all (\<lambda>l. \<not> starts_with_nocase name l) pre \<Longrightarrow> header_line (name @ '': '' @ v) \<Longrightarrow>
   v \<noteq> [] \<Longrightarrow> hd v \<noteq> CHR '' '' \<Longrightarrow> hd v \<noteq> CHR 0x09 \<Longrightarrow>
   request_header (header_text pre @ name @ '': '' @ v @ CRLF @ R) name = Some (v @ CRLF @ R)"
proof (induction pre)
  case Nil
  have line: "strstr (name @ '': '' @ v @ CRLF @ R) CRLF = Some (length (name @ '': '' @ v))"
    using strstr_line [of "name @ '': '' @ v" R] Nil by (simp add: header_line_def)
  have "dropWhile (\<lambda>c. c = CHR '' '' \<or> c = CHR 0x09) (v @ CRLF @ R) = v @ CRLF @ R"
    using Nil by (cases v) auto
  with line show ?case
    by (subst request_header.simps) (simp add: starts_with_nocase_def)
next
  case (Cons l pre)
  have "CR \<notin> set name" using Cons.prems(3) by (simp add: header_line_def)
  then have "starts_with_nocase name (l @ CR # LF # (header_text pre @ name @ '': '' @ v @ CRLF @ R)) = starts_with_nocase name l"
    by (rule names_within_line)
  moreover have "strstr (l @ CR # LF # (header_text pre @ name @ '': '' @ v @ CRLF @ R)) CRLF = Some (length l)"
    using Cons.prems(1) by (intro strstr_line) (simp add: header_line_def)
  ultimately show ?case
    using Cons by (subst request_header.simps) (auto simp: header_line_def)
qed

lemma digit_printable: "list_all is_digit ds \<Longrightarrow> CR \<notin> set ds \<and> LF \<notin> set ds \<and> CHR 0x00 \<notin> set ds \<and> CHR '' '' \<notin> set ds \<and> CHR 0x09 \<notin> set ds"
  by (auto simp: list_all_iff is_digit_def code_of_def)

lemma number_line: "header_line p \<Longrightarrow> header_line (p @ show_nat n)"
  using show_nat_digits [of n] digit_printable [of "show_nat n"] by (auto simp: header_line_def)

text \<open>The requests of a transmit session that are made with its lease.\<close>

definition session_requests :: "(string \<times> string) list" where
  "session_requests =
     [(''CONNECT'', ''/v1/tx/stream''), (''PUT'', ''/v1/tx/sessions/keepalive''), (''PUT'', ''/v1/tx/ptt/start''),
      (''PUT'', ''/v1/tx/ptt/stop''), (''DELETE'', ''/v1/tx/sessions/current'')]"

lemma nocase_Cons:
  "starts_with_nocase (a # p) (b # s) \<longleftrightarrow> to_lower a = to_lower b \<and> starts_with_nocase p s"
  "starts_with_nocase (a # p) [] \<longleftrightarrow> False"
  by (auto simp: starts_with_nocase_def)

text \<open>C24.
  The daemon's parser reads from the text of every such request what the adapter meant: the verb and
  path, the lease of the session, and the station lease that decides whether the request is
  authorized, whatever printable host name stands between them.
\<close>

theorem soapy_requests_understood:
  assumes "(verb, path) \<in> set session_requests" and "header_line (''Host: '' @ host)" and "lease \<noteq> 0"
    and message: "message = request_text host keep_socket verb path [] [tx_header lease, control_header ticket]"
  shows "request_is message verb path \<and> request_lease message = Some lease \<and>
    (station_request_authorized s message \<longleftrightarrow>
       has_station (controller s) \<longrightarrow> held (station s) \<and> station_owner_matches (station s) ticket)"
proof -
  define first where "first = verb @ '' '' @ path @ '' HTTP/1.1''"
  define pre where "pre = [first, ''Host: '' @ host, ''Connection: '' @ (if keep_socket then ''keep-alive'' else ''close'')]"
  have "header_line first" "header_line ''Connection: keep-alive''" "header_line ''Connection: close''"
    using assms(1) by (auto simp: first_def session_requests_def header_line_def)
  then have lines: "list_all header_line pre" "header_line (tx_header lease)" "header_line (control_header ticket)"
    using assms(2) number_line [of "''X-Flex1500-TX-Lease: ''"] number_line [of "''X-Flex1500-Control-Lease: ''"]
    by (simp_all add: pre_def tx_header_def control_header_def header_line_def)
  have other: "list_all (\<lambda>l. \<not> starts_with_nocase ''X-Flex1500-TX-Lease'' l) pre"
    "list_all (\<lambda>l. \<not> starts_with_nocase ''X-Flex1500-Control-Lease'' l) (pre @ [tx_header lease])"
    using assms(1)
    by (auto simp: pre_def first_def session_requests_def tx_header_def nocase_Cons to_lower_def code_of_def)
  have lined: "message = header_text pre @ tx_header lease @ CRLF @ control_header ticket @ CRLF @ CRLF"
    "message = header_text (pre @ [tx_header lease]) @ control_header ticket @ CRLF @ CRLF"
    by (simp_all add: message request_text_header pre_def first_def)
  have digits: "show_nat n \<noteq> []" "hd (show_nat n) \<noteq> CHR '' ''" "hd (show_nat n) \<noteq> CHR 0x09" for n
    using show_nat_hd [of n] by (auto simp: is_digit_def code_of_def)
  have tx: "request_header message ''X-Flex1500-TX-Lease'' =
      Some (show_nat (unat lease) @ CRLF @ control_header ticket @ CRLF @ CRLF)"
    unfolding lined(1) using request_header_found [OF lines(1) other(1) _ digits, of "unat lease" "control_header ticket @ CRLF @ CRLF"]
      lines(2) by (simp add: tx_header_def)
  have control: "request_header message ''X-Flex1500-Control-Lease'' = Some (show_nat (unat ticket) @ CRLF @ CRLF)"
    unfolding lined(2) using request_header_found [OF _ other(2) _ digits, of "unat ticket" CRLF] lines
    by (simp add: control_header_def)
  have number: "strtoull (show_nat (unat w) @ CR # R) = (w, CR # R)" for w :: u64 and R
    using strtoull_show [of "unat w" "CR # R"] unat_less_exp [of w] by (simp add: is_digit_def code_of_def)
  have longer: "CR # R \<noteq> show_nat n @ CR # R" for n R using digits(1) [of n] by (metis append_self_conv2)
  have "request_is message verb path"
    using assms(1) unfolding message request_text_def
    by (auto simp: request_is_def session_requests_def starts_with_def)
  moreover have "request_lease message = Some lease"
    using assms(3) longer by (simp add: request_lease_def tx number starts_with_def)
  moreover have "station_request_authorized s message \<longleftrightarrow>
      has_station (controller s) \<longrightarrow> held (station s) \<and> station_owner_matches (station s) ticket"
    using longer by (simp add: station_request_authorized_def control number)
  ultimately show ?thesis by simp
qed

theorem soapy_requests_understood_witness:
  "\<forall>s :: api_sys.
     request_lease (request_text ''127.0.0.1'' False ''PUT'' ''/v1/tx/ptt/start'' [] [tx_header 5, control_header 3]) = Some 5 \<and>
     (station_request_authorized s
        (request_text ''127.0.0.1'' False ''PUT'' ''/v1/tx/ptt/start'' [] [tx_header 5, control_header 3]) \<longleftrightarrow>
      has_station (controller s) \<longrightarrow> held (station s) \<and> station_owner_matches (station s) 3)"
proof -
  have "(''PUT'', ''/v1/tx/ptt/start'') \<in> set session_requests" "header_line (''Host: '' @ ''127.0.0.1'')" "(5 :: u64) \<noteq> 0"
    by (simp_all add: session_requests_def header_line_def)
  from soapy_requests_understood [OF this refl] show ?thesis by blast
qed

end
