(* ===== verification/Soapy_Control.thy ===== *)
theory Soapy_Control
  imports Soapy_Tx
begin

text \<open>
  The control side of the SoapySDR adapter (\<open>soapy/Flex1500Device.cpp\<close>): opening and closing a device,
  the station lease the devices of a process share, its renewal, and the settings with their guards.

  A \<open>double\<close> is a \<open>parsed_float\<close>, so a setting may be handed an infinity or a NaN. The map of shared
  leases is global to the process and part of every device's state here; the environment is that of
  \<open>Soapy_Tx\<close>. A setter returns whether it succeeded, \<open>False\<close> standing for the exception.
\<close>

subsection \<open>Transmit ranges and drive\<close>

definition TX_FREQUENCY_RANGES :: "(rat \<times> rat) list" where
  "TX_FREQUENCY_RANGES =
     [(1824000, 1976000), (3524000, 3976000), (7024000, 7276000), (14024000, 14326000),
      (18092000, 18144000), (21024000, 21426000), (24914000, 24966000), (28024000, 29676000),
      (50024000, 53976000)]"

definition soapy_frequency_allowed :: "rat \<Rightarrow> bool" where
  "soapy_frequency_allowed frequency = list_ex (\<lambda>(low, high). frequency \<ge> low \<and> frequency \<le> high) TX_FREQUENCY_RANGES"

text \<open>\<open>pow\<close> and \<open>log10\<close> are parameters.\<close>

definition tx_drive_from_gain :: "(rat \<Rightarrow> rat \<Rightarrow> rat) \<Rightarrow> rat \<Rightarrow> int" where
  "tx_drive_from_gain c_pow gain_db = max 1 (min 100 (half_away (f64 (100 * c_pow 10 (f64 (gain_db / 20))))))"

definition tx_gain_from_drive :: "(rat \<Rightarrow> rat) \<Rightarrow> rat \<Rightarrow> rat" where
  "tx_gain_from_drive c_log10 drive = f64 (20 * c_log10 (f64 (drive / 100)))"

subsection \<open>Doubles\<close>

definition double_minus :: "parsed_float \<Rightarrow> parsed_float \<Rightarrow> parsed_float" where
  "double_minus a b =
     (case (a, b) of
        (Finite x, Finite y) \<Rightarrow> finite_or_infinite f64 (2 ^ 1024) (x < y) \<bar>x - y\<bar>
      | (NotANumber, _) \<Rightarrow> NotANumber
      | (_, NotANumber) \<Rightarrow> NotANumber
      | (Infinite m, Infinite n) \<Rightarrow> if m = n then NotANumber else Infinite m
      | (Infinite m, Finite _) \<Rightarrow> Infinite m
      | (Finite _, Infinite n) \<Rightarrow> Infinite (\<not> n))"

text \<open>\<open>std::abs (v) > limit\<close>, which a NaN does not satisfy.\<close>

definition beyond :: "rat \<Rightarrow> parsed_float \<Rightarrow> bool" where
  "beyond limit v = (case v of Finite x \<Rightarrow> \<bar>x\<bar> > limit | Infinite _ \<Rightarrow> True | NotANumber \<Rightarrow> False)"

text \<open>\<open>jsonBool\<close>: nothing but white space after the colon makes \<open>compare\<close> throw, \<open>None\<close>.\<close>

definition json_bool :: "string \<Rightarrow> string \<Rightarrow> bool \<Rightarrow> bool option" where
  "json_bool json name fallback =
     (case strstr json (quoted name) of None \<Rightarrow> Some fallback
      | Some pos \<Rightarrow>
          let rest = dropWhile (\<lambda>c. c \<noteq> CHR '':'') (drop (pos + length name + 2) json)
          in if rest = [] then Some fallback
             else let v = dropWhile (\<lambda>c. c \<in> {CHR '' '', CHR 0x09, CR, LF}) (tl rest)
                  in if v = [] then None
                     else Some (if starts_with ''true'' v then True
                                else if starts_with ''false'' v then False else fallback))"

subsection \<open>Devices and the shared lease\<close>

record soapy_device =
  sd_key :: string
  sd_tuning_enabled :: bool
  sd_transmit_enabled :: bool
  sd_station_owner :: bool
  sd_station_lease :: u64
  sd_frequency :: parsed_float
  sd_gain :: parsed_float
  sd_tx_drive :: parsed_float
  sd_bandwidth :: parsed_float
  sd_squelch :: parsed_float
  sd_rx_offset :: parsed_float
  sd_rx_phase :: parsed_float
  sd_rx :: "rx_stream option"

record process =
  pr_shared :: "string \<rightharpoonup> u64 \<times> nat"
  pr_log :: "wire_event list"
  pr_replies :: "http_reply list"

definition process_request :: "bool \<Rightarrow> string \<Rightarrow> string \<Rightarrow> string list \<Rightarrow> process \<Rightarrow> http_reply \<times> process" where
  "process_request keep_socket verb path headers p =
     (case pr_replies p of [] \<Rightarrow> RequestFails | r # _ \<Rightarrow> r,
      p\<lparr>pr_log := pr_log p @ [Requested keep_socket verb path [] headers], pr_replies := tl (pr_replies p)\<rparr>)"

definition current_station_lease :: "process \<Rightarrow> soapy_device \<Rightarrow> u64" where
  "current_station_lease p d = (case pr_shared p (sd_key d) of None \<Rightarrow> sd_station_lease d | Some (lease, _) \<Rightarrow> lease)"

definition control_request :: "string \<Rightarrow> string \<Rightarrow> soapy_device \<Rightarrow> process \<Rightarrow> http_reply \<times> process" where
  "control_request verb path d p = process_request False verb path [control_header (current_station_lease p d)] p"

definition acquire_station :: "process \<Rightarrow> http_reply \<times> process" where
  "acquire_station p = process_request False ''POST'' ''/v1/control/owner'' [''X-Flex1500-Mode-Aware: false''] p"

text \<open>
  The constructor. A conversion of a lease that is no 64-bit number is undefined in C++ and is taken
  modulo \<open>2 ^ 64\<close>, 0 for what is not finite.
\<close>

definition lease_of :: "parsed_float \<Rightarrow> u64" where
  "lease_of v = (case v of Finite x \<Rightarrow> of_int (if x < 0 then - \<lfloor>- x\<rfloor> else \<lfloor>x\<rfloor>) | _ \<Rightarrow> 0)"

definition open_device :: "string \<Rightarrow> nat \<Rightarrow> process \<Rightarrow> soapy_device option \<times> process" where
  "open_device host port p =
     (case process_request False ''GET'' ''/v1/radio'' [] p of
        (RequestFails, p) \<Rightarrow> (None, p)
      | (Reply status body, p) \<Rightarrow>
        if status \<noteq> 200 then (None, p)
        else case (json_bool body ''transmit_enabled'' False, json_bool body ''rx_tuning_enabled'' False) of
          (Some transmit, Some tuning) \<Rightarrow>
            let d = \<lparr>sd_key = (if tuning then host @ '':'' @ show_nat port else []), sd_tuning_enabled = tuning,
                     sd_transmit_enabled = transmit, sd_station_owner = False, sd_station_lease = 0,
                     sd_frequency = json_number body ''frequency_hz'' (Finite 0),
                     sd_gain = json_number body ''rx_gain_db'' (Finite 20),
                     sd_tx_drive = json_number body ''tx_drive_percent'' (Finite 100),
                     sd_bandwidth = json_number body ''rx_bandwidth_hz'' (Finite 6000),
                     sd_squelch = json_number body ''rx_squelch_db'' (Finite (- 120)),
                     sd_rx_offset = Finite 0, sd_rx_phase = Finite 0, sd_rx = None\<rparr>
            in if \<not> tuning then (Some d, p)
               else case pr_shared p (sd_key d) of
                 Some (lease, references) \<Rightarrow>
                   (Some (d\<lparr>sd_station_lease := lease, sd_station_owner := True\<rparr>),
                    p\<lparr>pr_shared := (pr_shared p)(sd_key d \<mapsto> (lease, references + 1))\<rparr>)
               | None \<Rightarrow>
                   (case acquire_station p of
                      (RequestFails, p) \<Rightarrow> (None, p)
                    | (Reply status body, p) \<Rightarrow>
                        if status = 201
                        then let lease = lease_of (json_number body ''lease'' (Finite 0))
                             in if lease \<noteq> 0
                                then (Some (d\<lparr>sd_station_lease := lease, sd_station_owner := True\<rparr>),
                                      p\<lparr>pr_shared := (pr_shared p)(sd_key d \<mapsto> (lease, 1))\<rparr>)
                                else (Some d, p)
                        else if status \<noteq> 409 then (None, p) else (Some d, p))
        | _ \<Rightarrow> (None, p))"

text \<open>The destructor, after the transmit stream is stopped and the keepalive thread has ended.\<close>

definition close_device :: "soapy_device \<Rightarrow> process \<Rightarrow> process" where
  "close_device d p =
     (if \<not> sd_station_owner d then p
      else case pr_shared p (sd_key d) of
        Some (lease, references) \<Rightarrow>
          if references > 0
          then if references - 1 = 0
               then snd (control_request ''DELETE'' ''/v1/control/owner'' d (p\<lparr>pr_shared := (pr_shared p)(sd_key d := None)\<rparr>))
               else p\<lparr>pr_shared := (pr_shared p)(sd_key d \<mapsto> (lease, references - 1))\<rparr>
          else p
      | None \<Rightarrow> p)"

text \<open>One turn of the keepalive thread, every five seconds: whether it goes on.\<close>

definition owner_keepalive :: "soapy_device \<Rightarrow> process \<Rightarrow> bool \<times> soapy_device \<times> process" where
  "owner_keepalive d p =
     (case control_request ''PUT'' ''/v1/control/owner/keepalive'' d p of
        (RequestFails, p) \<Rightarrow> (True, d, p)
      | (Reply status _, p) \<Rightarrow>
          if status \<noteq> 410 then (True, d, p)
          else case acquire_station p of
            (RequestFails, p) \<Rightarrow> (True, d, p)
          | (Reply status body, p) \<Rightarrow>
              let lease = json_number body ''lease'' (Finite 0); usable = (case lease of Finite x \<Rightarrow> x \<ge> 1 | _ \<Rightarrow> False)
              in if status = 201 \<and> usable
                 then (True, d\<lparr>sd_station_lease := lease_of lease\<rparr>,
                       p\<lparr>pr_shared := (case pr_shared p (sd_key d) of None \<Rightarrow> pr_shared p
                          | Some (_, references) \<Rightarrow> (pr_shared p)(sd_key d \<mapsto> (lease_of lease, references)))\<rparr>)
                 else if status \<noteq> 409 then (True, d, p)
                 else case pr_shared p (sd_key d) of
                   Some (shared, _) \<Rightarrow>
                     if shared \<noteq> sd_station_lease d then (True, d\<lparr>sd_station_lease := shared\<rparr>, p)
                     else (False, d\<lparr>sd_station_owner := False\<rparr>, p)
                 | None \<Rightarrow> (False, d\<lparr>sd_station_owner := False\<rparr>, p))"

subsection \<open>Settings\<close>

datatype direction = Rx | Tx

definition channel_ok :: "direction \<Rightarrow> nat \<Rightarrow> soapy_device \<Rightarrow> bool" where
  "channel_ok dir channel d \<longleftrightarrow> channel = 0 \<and> (dir = Tx \<longrightarrow> sd_transmit_enabled d \<and> sd_station_owner d)"

definition put_setting :: "string \<Rightarrow> string \<Rightarrow> soapy_device \<Rightarrow> process \<Rightarrow> bool \<times> process" where
  "put_setting path value d p =
     (case control_request ''PUT'' (path @ value) d p of
        (RequestFails, p) \<Rightarrow> (False, p)
      | (Reply status _, p) \<Rightarrow> (status = 200, p))"

text \<open>After a retune an active receive stream is opened again; \<open>conn\<close> and \<open>turns\<close> are its new connection.\<close>

definition reconnect_rx :: "u8 list \<Rightarrow> rx_turn list \<Rightarrow> rx_stream \<Rightarrow> process \<Rightarrow> bool \<times> rx_stream \<times> process" where
  "reconnect_rx conn turns rs p =
     (let rs = rs\<lparr>rs_net := [], rs_turns := []\<rparr>
      in case process_request True ''GET'' ''/v1/stream/iq'' [] p of
           (RequestFails, p) \<Rightarrow> (False, rs, p)
         | (Reply status body, p) \<Rightarrow>
             if status \<noteq> 200 then (False, rs\<lparr>rs_active := False\<rparr>, p)
             else (True, rs\<lparr>rs_input := map (\<lambda>c. of_nat (code_of c)) body, rs_net := conn, rs_turns := turns,
                     rs_samples := [], rs_sample_offset := 0, rs_have_sequence := False\<rparr>, p))"

definition set_frequency ::
  "direction \<Rightarrow> nat \<Rightarrow> parsed_float \<Rightarrow> u8 list \<Rightarrow> rx_turn list \<Rightarrow> soapy_device \<Rightarrow> process \<Rightarrow> bool \<times> soapy_device \<times> process" where
  "set_frequency dir channel frequency conn turns d p =
     (if \<not> channel_ok dir channel d then (False, d, p)
      else if dir = Rx \<and> \<not> sd_station_owner d
      then case process_request False ''GET'' ''/v1/radio'' [] p of
          (RequestFails, p) \<Rightarrow> (False, d, p)
        | (Reply status body, p) \<Rightarrow>
            let center = json_number body ''frequency_hz'' (Finite 0)
            in if status \<noteq> 200 \<or> beyond 24000 (double_minus frequency center) then (False, d, p)
               else (True, d\<lparr>sd_frequency := frequency, sd_rx_offset := double_minus center frequency,
                             sd_rx_phase := Finite 0\<rparr>, p)
      else if \<not> sd_tuning_enabled d then (False, d, p)
      else case frequency of
        Finite f \<Rightarrow>
          if f < 100000 \<or> f > 54000000 then (False, d, p)
          else if dir = Tx \<and> \<not> soapy_frequency_allowed f then (False, d, p)
          else
            let rounded = nat (half_away f)
            in (case put_setting ''/v1/radio/frequency/'' (show_nat rounded) d p of
              (False, p) \<Rightarrow> (False, d, p)
            | (True, p) \<Rightarrow>
                let d = d\<lparr>sd_frequency := Finite (of_nat rounded)\<rparr>;
                    d = (if dir = Rx then d\<lparr>sd_rx_offset := Finite 0, sd_rx_phase := Finite 0\<rparr> else d)
                in (case sd_rx d of
                     Some rs \<Rightarrow>
                       if dir = Rx \<and> rs_active rs
                       then case reconnect_rx conn turns rs p of (ok, rs, p) \<Rightarrow> (ok, d\<lparr>sd_rx := Some rs\<rparr>, p)
                       else (True, d, p)
                   | None \<Rightarrow> (True, d, p)))
      | _ \<Rightarrow> (False, d, p))"

definition set_gain ::
  "(rat \<Rightarrow> rat \<Rightarrow> rat) \<Rightarrow> direction \<Rightarrow> nat \<Rightarrow> parsed_float \<Rightarrow> soapy_device \<Rightarrow> process \<Rightarrow> bool \<times> soapy_device \<times> process" where
  "set_gain c_pow dir channel gain d p =
     (if \<not> channel_ok dir channel d then (False, d, p)
      else case gain of
        Finite g \<Rightarrow>
          if dir = Tx
          then if g < - 40 \<or> g > 0 then (False, d, p)
               else
                 let v = tx_drive_from_gain c_pow g
                 in (case put_setting ''/v1/radio/tx-drive/'' (show_int v) d p of
                   (False, p) \<Rightarrow> (False, d, p)
                 | (True, p) \<Rightarrow> (True, d\<lparr>sd_tx_drive := Finite (of_int v)\<rparr>, p))
          else
            let rounded = 10 * half_away (f64 (g / 10))
            in if \<bar>f64 (g - of_int rounded)\<bar> > f64 (1 / 1000) \<or> rounded < - 10 \<or> rounded > 30 then (False, d, p)
               else (case put_setting ''/v1/radio/gain/'' (show_int rounded) d p of
                 (False, p) \<Rightarrow> (False, d, p)
               | (True, p) \<Rightarrow> (True, d\<lparr>sd_gain := Finite (of_int rounded)\<rparr>, p))
      | _ \<Rightarrow> (False, d, p))"

definition set_bandwidth :: "direction \<Rightarrow> nat \<Rightarrow> parsed_float \<Rightarrow> soapy_device \<Rightarrow> process \<Rightarrow> bool \<times> soapy_device \<times> process" where
  "set_bandwidth dir channel bandwidth d p =
     (if \<not> channel_ok dir channel d then (False, d, p)
      else if dir = Tx then (\<not> beyond (1 / 2) (double_minus bandwidth (Finite 48000)), d, p)
      else case bandwidth of
        Finite b \<Rightarrow>
          if b < 100 \<or> b > 20000 then (False, d, p)
          else
            let rounded = nat (half_away b)
            in (case put_setting ''/v1/radio/bandwidth/'' (show_nat rounded) d p of
              (False, p) \<Rightarrow> (False, d, p)
            | (True, p) \<Rightarrow> (True, d\<lparr>sd_bandwidth := Finite (of_nat rounded)\<rparr>, p))
      | _ \<Rightarrow> (False, d, p))"

text \<open>\<open>std::stoi\<close>: the number and how much of the text it took, \<open>None\<close> when it throws.\<close>

definition stoi :: "string \<Rightarrow> (int \<times> string) option" where
  "stoi s =
     (let t = dropWhile is_space s;
          negative = (t \<noteq> [] \<and> hd t = CHR ''-'');
          t = (if t \<noteq> [] \<and> (hd t = CHR ''-'' \<or> hd t = CHR ''+'') then tl t else t);
          ds = takeWhile is_digit t;
          v = (if negative then - int (digits_value ds) else int (digits_value ds))
      in if ds = [] \<or> v < - (2 ^ 31) \<or> v \<ge> 2 ^ 31 then None else Some (v, drop (length ds) t))"

definition write_setting :: "string \<Rightarrow> string \<Rightarrow> soapy_device \<Rightarrow> process \<Rightarrow> bool \<times> soapy_device \<times> process" where
  "write_setting key setting d p =
     (if key \<noteq> ''squelch_db'' then (False, d, p)
      else case stoi setting of
        None \<Rightarrow> (False, d, p)
      | Some (threshold, rest) \<Rightarrow>
          if rest \<noteq> [] \<or> threshold < - 120 \<or> threshold > 0 then (False, d, p)
          else (case put_setting ''/v1/radio/squelch/'' (show_int threshold) d p of
            (False, p) \<Rightarrow> (False, d, p)
          | (True, p) \<Rightarrow> (True, d\<lparr>sd_squelch := Finite (of_int threshold)\<rparr>, p)))"

definition set_sample_rate :: "direction \<Rightarrow> nat \<Rightarrow> parsed_float \<Rightarrow> soapy_device \<Rightarrow> bool" where
  "set_sample_rate dir channel rate d \<longleftrightarrow>
     channel_ok dir channel d \<and> \<not> beyond (1 / 2) (double_minus rate (Finite 48000))"

subsection \<open>Properties\<close>

lemma half_away_bounds:
  assumes "of_int a \<le> x" and "x \<le> of_int b"
  shows "a \<le> half_away x \<and> half_away x \<le> b"
proof (cases "x < 0")
  case True
  have "\<lfloor>- x + 1 / 2\<rfloor> \<le> - a" "- b \<le> \<lfloor>- x + 1 / 2\<rfloor>" using assms by linarith+
  with True show ?thesis by (simp add: half_away_def)
next
  case False
  have "\<lfloor>x + 1 / 2\<rfloor> \<le> b" "a \<le> \<lfloor>x + 1 / 2\<rfloor>" using assms by linarith+
  with False show ?thesis by (simp add: half_away_def)
qed

lemma half_away_range:
  "numeral a \<le> x \<Longrightarrow> x \<le> numeral b \<Longrightarrow> numeral a \<le> half_away x \<and> half_away x \<le> numeral b"
  using half_away_bounds [of "numeral a" x "numeral b"] by simp

lemma soapy_allowed_nat:
  "soapy_frequency_allowed (of_nat n) \<longleftrightarrow> network_iq_frequency_allowed (of_nat n)" if "n < 2 ^ 32"
proof -
  have "unat (of_nat n :: u32) = n" using that by (simp add: unsigned_of_nat take_bit_nat_eq_self)
  then show ?thesis
    by (simp add: soapy_frequency_allowed_def TX_FREQUENCY_RANGES_def network_iq_frequency_allowed_def
        voice_allocations_def word_le_nat_alt del: unat_of_nat)
qed

lemma soapy_allowed_rounded:
  assumes "soapy_frequency_allowed x"
  shows "soapy_frequency_allowed (of_int (half_away x)) \<and> 0 \<le> half_away x \<and> half_away x < 2 ^ 32"
  using assms unfolding soapy_frequency_allowed_def TX_FREQUENCY_RANGES_def
  by simp (elim disjE conjE; drule (1) half_away_range; simp)

text \<open>C26.
  The adapter offers for transmitting exactly the frequencies at which the daemon lets raw I/Q be
  sent, and rounding an offered frequency to whole hertz does not leave them.
\<close>

theorem soapy_tx_ranges_exact:
  "(soapy_frequency_allowed (of_nat (unat f)) \<longleftrightarrow> network_iq_frequency_allowed f) \<and>
   (soapy_frequency_allowed x \<longrightarrow> network_iq_frequency_allowed (of_int (half_away x)))"
proof -
  have "soapy_frequency_allowed (of_nat (unat f)) \<longleftrightarrow> network_iq_frequency_allowed f"
    using soapy_allowed_nat [of "unat f"] unat_less_exp [of f] by simp
  moreover have "network_iq_frequency_allowed (of_int (half_away x))" if x: "soapy_frequency_allowed x"
  proof -
    obtain n where "half_away x = int n" "n < 2 ^ 32"
      using soapy_allowed_rounded [OF x] by (metis nonneg_int_cases of_nat_less_iff of_nat_numeral of_nat_power)
    then show ?thesis using soapy_allowed_rounded [OF x] soapy_allowed_nat [of n] by simp
  qed
  ultimately show ?thesis by blast
qed

theorem soapy_tx_ranges_exact_witness:
  "network_iq_frequency_allowed 7100000 \<and> network_iq_frequency_allowed (of_int (half_away (7024000 + 2 / 5)))"
proof -
  have "soapy_frequency_allowed (of_nat (unat (7100000 :: u32)))" "soapy_frequency_allowed (7024000 + 2 / 5)"
    by (simp_all add: soapy_frequency_allowed_def TX_FREQUENCY_RANGES_def)
  with soapy_tx_ranges_exact [of 7100000 "7024000 + 2 / 5"] show ?thesis by blast
qed

text \<open>
  A device that loses its lease keeps the entry of the shared map, and its destructor leaves it there:
  the next device of the process takes the dead lease for its own without asking the daemon.
\<close>

lemma lost_lease_stays_shared:
  assumes "owner_keepalive d p = (False, d', p')"
  shows "pr_shared (close_device d' p') = pr_shared p"
  using assms
  by (auto simp: owner_keepalive_def control_request_def acquire_station_def process_request_def close_device_def Let_def
      split: http_reply.splits if_splits option.splits prod.splits)

end
