(* ===== verification/Spec2Isabelle.thy ===== *)
theory Spec2Isabelle
  imports Protocol Tx_Lifecycle Tx_Control Station_Owner Tune_Control Network_Tx Sessions
    Iq Tx_Dsp Tx_Audio_Stream Usb_Io Usb_Rx Usb_Stream Usb_Safety Network Publisher Api Daemon Daemon_Loop Daemon_Safety
    Daemon_Limits Rtl_Tcp Iq_Clients Live_Streams Config Launch
    Dsp Offline Demod_Capture Offline_Server Soapy_Rx Soapy_Tx Soapy_Control
begin

text \<open>
  A verification development for the FLEX-1500 daemon \<open>flex1500d\<close> and its SoapySDR adapter.

  \<^bold>\<open>The program.\<close> The daemon owns one USB transceiver. It streams the receiver to network clients as
  framed float I/Q (\<open>iq.c\<close>, \<open>publisher.c\<close>, \<open>network.c\<close>) and as 8-bit I/Q in the rtl_tcp protocol
  (\<open>rtl_tcp.c\<close>), answers an HTTP API (\<open>api.c\<close>), and transmits for exactly one owner at a time: the
  microphone button, the Tune carrier or a leased network session. All of it runs in one thread: the
  loop \<open>serve_live_rx_at\<close> of \<open>flex1500d.c\<close> makes one pass after the other over watchdogs, USB events,
  sockets and the publisher. The same program analyses, frames and demodulates recordings, and serves
  the API without a radio. The adapter (\<open>soapy/Flex1500Device.cpp\<close>) is a client of the daemon inside
  another application.

  \<^bold>\<open>How the code is modelled.\<close> Each theory follows the functions of its file, in their order and under
  their names (with a suffix where HOL has the name). Structs are records, enumerations datatypes,
  fixed-width integers words, strings lists of characters. A \<open>float\<close> or \<open>double\<close> is a rational that is
  rounded, ties to even, at the width of its type after every operation; infinities and NaNs are
  \<open>None\<close> or a datatype of their own where the code can meet them. Functions of \<open>math.h\<close>, \<open>libusb\<close>, the
  clock, sockets and files are parameters: records of functions, lists of answers that are consumed
  one by one, or arguments of a pass. Errors are values of the code's result types or \<open>None\<close>. Shared
  state, which C reaches through pointers, is passed explicitly: the records \<open>tx_sys\<close>, \<open>tune_sys\<close>,
  \<open>net_sys\<close>, \<open>api_sys\<close>, \<open>daemon_sys\<close> extend one another, as the objects refer to one another.

  \<^bold>\<open>The theories.\<close>
  \<^item> \<open>Flex_Prelude\<close>, \<open>Soft_Float\<close>, \<open>C_String\<close>: words and their bytes, rounding, the string library of C.
  \<^item> \<open>Protocol\<close> (\<open>protocol.c\<close>): the packets, tuning words, filter and frequency policies; a decoder
    serves as the specification of the builders.
  \<^item> \<open>Tx_Lifecycle\<close> (\<open>tx_lifecycle.c\<close>): the cleanup plan and its execution.
  \<^item> \<open>Tx_Control\<close>, \<open>Station_Owner\<close>, \<open>Tune_Control\<close>, \<open>Network_Tx\<close> (the files of these names): the arbiter
    of the transmitter with its key watchdog, and the three leases. \<open>Sessions\<close> ties them together.
  \<^item> \<open>Iq\<close>, \<open>Tx_Dsp\<close>, \<open>Tx_Audio_Stream\<close>, \<open>Dsp\<close>: the sample path, the ring, the transmit filters and
    queue, the demodulators.
  \<^item> \<open>Usb_Io\<close>, \<open>Usb_Rx\<close>, \<open>Usb_Stream\<close>, \<open>Usb_Safety\<close> (\<open>usb_io.c\<close>, \<open>usb_rx.c\<close>): the receiver object, keying,
    streaming callbacks, start and stop, over an environment that answers each libusb call and logs
    what went over the wire.
  \<^item> \<open>Status_Json\<close>, \<open>Network\<close> (\<open>network.c\<close>), \<open>Publisher\<close> (\<open>publisher.c\<close>), \<open>Api\<close> (\<open>api.c\<close>): documents, HTTP
    framing and parsers, frames, the dispatch.
  \<^item> \<open>Daemon\<close>, \<open>Daemon_Loop\<close>, \<open>Daemon_Safety\<close>, \<open>Daemon_Limits\<close> (\<open>flex1500d.c\<close>): the callbacks that join the
    arbiter to the receiver, the passes of the loop, their closure into a step relation, its
    invariant and its limits.
  \<^item> \<open>Rtl_Tcp\<close>, \<open>Iq_Clients\<close>, \<open>Live_Streams\<close>: the rtl_tcp protocol, the fan-out to receive clients, the
    receive side of the loop and its documents.
  \<^item> \<open>Config\<close> (\<open>config.c\<close>), \<open>Launch\<close> (\<open>main\<close> and \<open>run_configured\<close>): configuration file and command line.
  \<^item> \<open>Offline\<close>, \<open>Demod_Capture\<close>, \<open>Offline_Server\<close>: the tools for recordings and the server without a radio.
  \<^item> \<open>Soapy_Rx\<close>, \<open>Soapy_Tx\<close>, \<open>Soapy_Control\<close>: the adapter's streams, requests, settings and shared lease.

  \<^bold>\<open>The interfaces.\<close> \<open>bounded_fifo\<close> is what the users of the ring rely on. \<open>lease_contract\<close> is kept by the
  station, the Tune and the network lease. \<open>tx_backend\<close>, \<open>session_backend\<close> and \<open>api_backend\<close> are what the
  arbiter, the sessions and the API need of the hardware callbacks: that a start which succeeds keys
  for its owner, and that what is not keyed stays so. \<open>usb_device\<close> is what keying needs of the
  streaming side. They are interpreted on the ring, the leases, the daemon's callbacks and the
  production table of libusb operations.

  \<^bold>\<open>What is shown.\<close>
  \<^item> Keying: the radio is keyed only under a recorded owner, and every failed start, stop, watchdog and
    shutdown leaves it unkeyed or faulted. One exception: when the USB stream is lost and the unkeying
    fails, or a fault was open already, a recovery that succeeds forgets the fault over a radio that may
    still be keyed (\<open>recovery_forgets_key\<close>). \<open>daemon_run\<close> leaves such a loss out (\<open>clean_pump\<close>); \<open>loop_run\<close>
    is the whole loop and remembers it in \<open>lost\<close>, and the theorems about every state carry that flag.
  \<^item> Exclusion: one owner, one station; the microphone preempts; settings are frozen while transmitting;
    receive clients and the offline server have no power over the transmitter; transmitting is
    enabled only on explicit consent.
  \<^item> Limits: key time, the Tune's hard limit and the leases end a transmission when they run out. No
    watchdog looks at the arrival of transmit data.
  \<^item> Streams: what is received is published in order, whole and without a gap to every client that
    stays, at the exact rate on rtl_tcp, and the adapter hands the same samples to its application;
    transmit bytes are taken in order; loops over sockets end.
  \<^item> Round trips: commands, frames, requests, receiver settings, the configuration file and the
    requests of the adapter are read as they were written.

  \<^bold>\<open>Termination, bounds and fuel.\<close> The event loops of the receiver end because the environment's queue
  of completions is finite and every turn takes one; \<open>RECOVERY_ATTEMPTS\<close>, 60, bounds the recovery as
  in the code. The publish loop ends because every turn but the last takes a frame from the ring, the
  block loops over files because a block is not empty, the pacing loop of the adapter because the
  clock moves by at least a millisecond per turn, the keying loop because the daemon's replies are
  finite. No other function carries fuel.

  \<^bold>\<open>Not modelled.\<close> Text on the terminal, the waiting in \<open>poll\<close> and the creation of sockets. The web page
  (\<open>web_ui.c\<close>) is static text. The probes (\<open>flex1500_*.c\<close>) are one-shot laboratory programs. The
  companion client (\<open>client/\<close>) is a desktop program of threads around PipeWire. Of the adapter, the
  getters, the TCP connection and the parsing of responses. Pointer arguments are values, so tests for
  null that only guard against misuse have no counterpart. Floating-point contraction by a compiler
  is not considered, and a negative zero is zero.
\<close>

end
